(* ===== verification/ClassAd.thy ===== *)
theory ClassAd
  imports Prelude
begin

text \<open>
  The interface to the ClassAd library, which is not part of the repository. A ClassAd that this
  code builds is the sequence of its attribute insertions (\<^verbatim>\<open>ad.Set\<close> and \<^verbatim>\<open>ad.InsertExpr\<close>), in
  order; a parsed expression is represented by the text it was parsed from. How the library reads
  an ad back is a parameter: the record \<open>classad_api\<close> of its evaluators, which every definition
  that evaluates an ad takes as its first argument. What the code relies on is the predicate
  \<open>classad_ok\<close>: an attribute whose latest insertion is a literal evaluates to that literal, attribute
  names are case-insensitive, and an attribute never inserted has no value.
\<close>

text \<open>A \<^verbatim>\<open>float64\<close>: \<open>Fin m k\<close> is the number \<open>m / 2 ^ k\<close>; \<open>NonFin\<close> an infinity or not a number.\<close>

datatype float64 = Fin int nat | NonFin

datatype adval = AStr string | AInt int | ABool bool | AReal float64 | AExpr string

type_synonym ad = "(string \<times> adval) list"

definition new_ad :: ad where
  "new_ad = []"

definition ad_set :: "string \<Rightarrow> adval \<Rightarrow> ad \<Rightarrow> ad" where
  "ad_set n v ad = ad @ [(n, v)]"

record classad_api =
  EvaluateAttrString :: "ad \<Rightarrow> string \<Rightarrow> string option"
  EvaluateAttrInt :: "ad \<Rightarrow> string \<Rightarrow> int option"
  EvaluateAttrReal :: "ad \<Rightarrow> string \<Rightarrow> float64 option"
  EvaluateAttrBool :: "ad \<Rightarrow> string \<Rightarrow> bool option"
  EvaluateTargetBool :: "ad \<Rightarrow> ad \<Rightarrow> string \<Rightarrow> bool option"
  ParseExpr :: "string \<Rightarrow> bool"
  Quote :: "string \<Rightarrow> string"
  AdLookup :: "ad \<Rightarrow> string \<Rightarrow> adval option"
  GetAttributes :: "ad \<Rightarrow> string list"
  AdString :: "ad \<Rightarrow> string"
  StringWithPrivate :: "ad \<Rightarrow> string"
  ParseAd :: "string \<Rightarrow> ad option"
  float_oob :: "float64 \<Rightarrow> int"

text \<open>Two ads in which every attribute evaluates to the same.\<close>

definition same_attributes :: "'x classad_api_scheme \<Rightarrow> ad \<Rightarrow> ad \<Rightarrow> bool" where
  "same_attributes L ad ad' \<longleftrightarrow> EvaluateAttrString L ad = EvaluateAttrString L ad' \<and> EvaluateAttrInt L ad = EvaluateAttrInt L ad' \<and>
     EvaluateAttrReal L ad = EvaluateAttrReal L ad' \<and> EvaluateAttrBool L ad = EvaluateAttrBool L ad'"

text \<open>
  The conversion \<^verbatim>\<open>int64(v)\<close> of a float truncates towards zero; the language leaves the result
  open where the value does not fit, and the field \<open>float_oob\<close> stands for it.
\<close>

definition int64_of_float :: "'x classad_api_scheme \<Rightarrow> float64 \<Rightarrow> int" where
  "int64_of_float L v =
     (case v of
        Fin m k \<Rightarrow> (let t = sgn m * (\<bar>m\<bar> div 2 ^ k) in if in64 t then t else wrap64 (float_oob L v))
      | NonFin \<Rightarrow> wrap64 (float_oob L v))"

section \<open>The latest insertion of an attribute\<close>

definition last_ins :: "ad \<Rightarrow> string \<Rightarrow> adval option" where
  "last_ins ad n = map_option snd (List.find (\<lambda>(k, v). EqualFold k n) (rev ad))"

lemma last_ins_Nil [simp]: "last_ins [] n = None"
  by (simp add: last_ins_def)

lemma last_ins_new [simp]: "last_ins new_ad n = None"
  by (simp add: new_ad_def)

lemma last_ins_set [simp]:
  "last_ins (ad_set k v ad) n = (if EqualFold k n then Some v else last_ins ad n)"
  by (simp add: last_ins_def ad_set_def)

lemma last_ins_append:
  "last_ins (ad @ ad') n = (case last_ins ad' n of None \<Rightarrow> last_ins ad n | Some v \<Rightarrow> Some v)"
  by (induction ad' rule: rev_induct) (auto simp: last_ins_def)

section \<open>What the code relies on\<close>

definition reads_literals :: "'x classad_api_scheme \<Rightarrow> ad \<Rightarrow> string \<Rightarrow> bool" where
  "reads_literals L ad n \<longleftrightarrow>
     (case last_ins ad n of
        None \<Rightarrow> EvaluateAttrString L ad n = None \<and> EvaluateAttrInt L ad n = None \<and>
                EvaluateAttrBool L ad n = None \<and> EvaluateAttrReal L ad n = None
      | Some (AStr s) \<Rightarrow> EvaluateAttrString L ad n = Some s \<and> EvaluateAttrInt L ad n = None \<and>
                EvaluateAttrBool L ad n = None
      | Some (AInt i) \<Rightarrow> EvaluateAttrInt L ad n = Some i \<and> EvaluateAttrString L ad n = None
      | Some (ABool b) \<Rightarrow> EvaluateAttrBool L ad n = Some b \<and> EvaluateAttrString L ad n = None
      | Some (AReal r) \<Rightarrow> EvaluateAttrReal L ad n = Some r \<and> EvaluateAttrString L ad n = None
      | Some (AExpr t) \<Rightarrow> True)"

definition classad_ok :: "'x classad_api_scheme \<Rightarrow> bool" where
  "classad_ok L \<longleftrightarrow> (\<forall>ad n. reads_literals L ad n)"

lemma classad_okD: "classad_ok L \<Longrightarrow> reads_literals L ad n"
  by (simp add: classad_ok_def)

lemma eval_string_literal [go_simps]:
  "classad_ok L \<Longrightarrow> last_ins ad n = Some (AStr s) \<Longrightarrow> EvaluateAttrString L ad n = Some s"
  by (drule classad_okD [of L ad n]) (simp add: reads_literals_def)

lemma eval_int_literal [go_simps]:
  "classad_ok L \<Longrightarrow> last_ins ad n = Some (AInt i) \<Longrightarrow> EvaluateAttrInt L ad n = Some i"
  by (drule classad_okD [of L ad n]) (simp add: reads_literals_def)

lemma eval_bool_literal [go_simps]:
  "classad_ok L \<Longrightarrow> last_ins ad n = Some (ABool b) \<Longrightarrow> EvaluateAttrBool L ad n = Some b"
  by (drule classad_okD [of L ad n]) (simp add: reads_literals_def)

lemma eval_absent [go_simps]:
  assumes "classad_ok L" "last_ins ad n = None"
  shows "EvaluateAttrString L ad n = None" "EvaluateAttrInt L ad n = None"
    "EvaluateAttrBool L ad n = None" "EvaluateAttrReal L ad n = None"
  using classad_okD [OF assms(1), of ad n] assms(2) by (simp_all add: reads_literals_def)

section \<open>An instance\<close>

text \<open>
  An instance of the interface, at which the hypotheses about the library can be discharged: the
  evaluators read the latest literal. A machine ad evaluates \<^verbatim>\<open>Requirements\<close> to its literal, or
  else to the conjunction of the advertised resource limits against the target ad.
\<close>

definition lit_string :: "ad \<Rightarrow> string \<Rightarrow> string option" where
  "lit_string ad n = (case last_ins ad n of Some (AStr s) \<Rightarrow> Some s | _ \<Rightarrow> None)"

definition lit_int :: "ad \<Rightarrow> string \<Rightarrow> int option" where
  "lit_int ad n = (case last_ins ad n of Some (AInt i) \<Rightarrow> Some i | _ \<Rightarrow> None)"

definition lit_bool :: "ad \<Rightarrow> string \<Rightarrow> bool option" where
  "lit_bool ad n = (case last_ins ad n of Some (ABool b) \<Rightarrow> Some b | _ \<Rightarrow> None)"

definition lit_real :: "ad \<Rightarrow> string \<Rightarrow> float64 option" where
  "lit_real ad n = (case last_ins ad n of Some (AReal r) \<Rightarrow> Some r | _ \<Rightarrow> None)"

definition limit_ok :: "ad \<Rightarrow> ad \<Rightarrow> string \<Rightarrow> string \<Rightarrow> bool" where
  "limit_ok my target res req =
     (case (lit_int my res, lit_int target req) of
        (Some have, Some want) \<Rightarrow> 0 < have \<and> want \<le> have
      | _ \<Rightarrow> False)"

definition lit_requirements :: "ad \<Rightarrow> ad \<Rightarrow> string \<Rightarrow> bool option" where
  "lit_requirements my target n =
     (case last_ins my n of
        Some (ABool b) \<Rightarrow> Some b
      | Some (AExpr t) \<Rightarrow> Some (limit_ok my target ''Cpus'' ''RequestCpus'' \<and>
          limit_ok my target ''Memory'' ''RequestMemory'' \<and>
          limit_ok my target ''Disk'' ''RequestDisk'')
      | _ \<Rightarrow> None)"

definition lit_api :: classad_api where
  "lit_api =
     \<lparr>EvaluateAttrString = lit_string, EvaluateAttrInt = lit_int, EvaluateAttrReal = lit_real,
      EvaluateAttrBool = lit_bool, EvaluateTargetBool = lit_requirements,
      ParseExpr = (\<lambda>t. t \<noteq> []), Quote = (\<lambda>s. CHR 0x22 # s @ [CHR 0x22]), AdLookup = last_ins,
      GetAttributes = map fst, AdString = (\<lambda>ad. ''[]''), StringWithPrivate = (\<lambda>ad. ''[]''),
      ParseAd = (\<lambda>s. Some new_ad), float_oob = (\<lambda>v. - (2 ^ 63))\<rparr>"

lemma classad_ok_literal_reader:
  assumes "EvaluateAttrString L = lit_string" "EvaluateAttrInt L = lit_int"
    "EvaluateAttrReal L = lit_real" "EvaluateAttrBool L = lit_bool"
  shows "classad_ok L"
  unfolding classad_ok_def reads_literals_def assms
  by (auto simp: lit_string_def lit_int_def lit_bool_def lit_real_def
      split: option.split adval.split)

end
