(* ===== verification/Claim.thy ===== *)
theory Claim
  imports ClassAd
begin

text \<open>
  The package \<^verbatim>\<open>internal/claim\<close>: claim records, the minting of claim ids, the small life cycle
  Unclaimed, Claimed/Idle, Claimed/Busy, and the arithmetic of the claim lease. The minting of the
  security session behind a claim id is done by the cedar library and is a parameter
  (\<open>MintClaimSession\<close> of \<open>security_api\<close>).
\<close>

section \<open>Command integers\<close>

definition CmdReleaseClaim :: int where "CmdReleaseClaim = 443"
definition CmdRequestClaim :: int where "CmdRequestClaim = 442"
definition CmdActivateClaim :: int where "CmdActivateClaim = 444"
definition CmdDeactivateClaim :: int where "CmdDeactivateClaim = 403"
definition CmdMatchInfo :: int where "CmdMatchInfo = 440"
definition CmdAlive :: int where "CmdAlive = 441"
definition CmdDeactivateClaimForcibly :: int where "CmdDeactivateClaimForcibly = 404"
definition CmdDeactivateClaimJobDone :: int where "CmdDeactivateClaimJobDone = 413"
definition CmdDeactivateFinalXfer :: int where "CmdDeactivateFinalXfer = 561"

lemmas command_defs = CmdReleaseClaim_def CmdRequestClaim_def CmdActivateClaim_def
  CmdDeactivateClaim_def CmdMatchInfo_def CmdAlive_def CmdDeactivateClaimForcibly_def
  CmdDeactivateClaimJobDone_def CmdDeactivateFinalXfer_def

definition claimSurfaceCommands :: "int list" where
  "claimSurfaceCommands =
     [CmdRequestClaim, CmdReleaseClaim, CmdActivateClaim,
      CmdDeactivateClaim, CmdDeactivateClaimForcibly, CmdDeactivateClaimJobDone,
      CmdDeactivateFinalXfer, CmdMatchInfo, CmdAlive]"

definition SurfaceCommands :: "int list" where
  "SurfaceCommands = claimSurfaceCommands"

definition DefaultAlivesMissed :: int where
  "DefaultAlivesMissed = 6"

section \<open>States\<close>

datatype State = Unclaimed | ClaimedIdle | ClaimedBusy

fun IsClaimed :: "State \<Rightarrow> bool" where
  "IsClaimed s = (s = ClaimedIdle \<or> s = ClaimedBusy)"

fun StateName :: "State \<Rightarrow> string" where
  "StateName ClaimedIdle = ''Claimed''"
| "StateName ClaimedBusy = ''Claimed''"
| "StateName Unclaimed = ''Unclaimed''"

section \<open>Lease arithmetic\<close>

definition LeaseDuration :: "int \<Rightarrow> int \<Rightarrow> duration" where
  "LeaseDuration aliveInterval alivesMissed =
     (let am = (if alivesMissed \<le> 0 then DefaultAlivesMissed else alivesMissed);
          ai = (if aliveInterval \<le> 0 then 1 else aliveInterval)
      in wrap64 (wrap64 (am * ai) * second))"

definition AlivePeriod :: "int \<Rightarrow> int \<Rightarrow> duration" where
  "AlivePeriod aliveInterval alivesMissed =
     (let d = go_div (LeaseDuration aliveInterval alivesMissed) 3
      in if d \<le> 0 then second else d)"

section \<open>Claims\<close>

record Claim =
  claimID :: string
  publicClaimID :: string
  sessionID :: string
  claim_state :: State
  scheddAddr :: string
  scheddName :: string
  user :: string
  clientMachine :: string
  aliveInterval :: int
  leaseDeadline :: time
  claim_entered :: time
  updateAd :: "ad option"
  finalAd :: "ad option"
  finalStatus :: int
  finalReason :: int

definition EnteredCurrentState :: "Claim \<Rightarrow> int" where
  "EnteredCurrentState c = (if claim_entered c = zero_time then 0 else unix (claim_entered c))"

text \<open>The parameters of the cedar security library.\<close>

record MintClaimOptions =
  opt_Sinful :: string
  opt_Birthdate :: int
  opt_SequenceNum :: int
  opt_ExtraValidCommands :: "int list"

record Minted =
  minted_ClaimID :: string
  minted_PublicClaimID :: string
  minted_SessionID :: string

record security_api = classad_api +
  MintClaimSession :: "MintClaimOptions \<Rightarrow> string + Minted"
  ImportClaimSession :: "string \<Rightarrow> string \<Rightarrow> int list \<Rightarrow> string + unit"
  SecSessionID :: "string \<Rightarrow> string"

record Minter =
  sinful :: string
  birthdate :: int
  seq :: int

definition NewMinter :: "string \<Rightarrow> int \<Rightarrow> Minter" where
  "NewMinter s b = \<lparr>sinful = s, birthdate = b, seq = 0\<rparr>"

definition Mint :: "'x security_api_scheme \<Rightarrow> Minter \<Rightarrow> Minter \<times> (string + Claim)" where
  "Mint L m =
     (let n = wrap64 (seq m + 1); m' = m\<lparr>seq := n\<rparr>
      in case MintClaimSession L
           \<lparr>opt_Sinful = sinful m, opt_Birthdate = birthdate m, opt_SequenceNum = n,
            opt_ExtraValidCommands = claimSurfaceCommands\<rparr> of
           Inl err \<Rightarrow> (m', Inl err)
         | Inr minted \<Rightarrow>
             (m', Inr \<lparr>claimID = minted_ClaimID minted,
                      publicClaimID = minted_PublicClaimID minted,
                      sessionID = minted_SessionID minted, claim_state = Unclaimed,
                      scheddAddr = [], scheddName = [], user = [], clientMachine = [],
                      aliveInterval = 0, leaseDeadline = zero_time, claim_entered = zero_time,
                      updateAd = None, finalAd = None, finalStatus = 0, finalReason = 0\<rparr>))"

record AdoptOptions =
  ao_ClaimID :: string
  ao_PublicClaimID :: string
  ao_SessionID :: string
  ao_ScheddAddr :: string
  ao_ScheddName :: string
  ao_User :: string
  ao_ClientMachine :: string
  ao_AliveInterval :: int
  ao_Busy :: bool
  ao_LeaseDeadline :: time
  ao_Entered :: time

definition Adopt :: "AdoptOptions \<Rightarrow> Claim" where
  "Adopt opts =
     \<lparr>claimID = ao_ClaimID opts, publicClaimID = ao_PublicClaimID opts, sessionID = ao_SessionID opts,
      claim_state = (if ao_Busy opts then ClaimedBusy else ClaimedIdle),
      scheddAddr = ao_ScheddAddr opts, scheddName = ao_ScheddName opts, user = ao_User opts,
      clientMachine = ao_ClientMachine opts, aliveInterval = ao_AliveInterval opts,
      leaseDeadline = ao_LeaseDeadline opts, claim_entered = ao_Entered opts,
      updateAd = None, finalAd = None, finalStatus = 0, finalReason = 0\<rparr>"

record AcceptInfo =
  ai_ScheddAddr :: string
  ai_ScheddName :: string
  ai_User :: string
  ai_ClientMachine :: string
  ai_AliveInterval :: int
  ai_AlivesMissed :: int
  ai_Now :: time

text \<open>\<open>clock\<close> is the answer of \<^verbatim>\<open>time.Now()\<close>, asked when the caller passes the zero time.\<close>

definition Accept :: "time \<Rightarrow> AcceptInfo \<Rightarrow> Claim \<Rightarrow> Claim" where
  "Accept clock info c =
     (let now = (if ai_Now info = zero_time then clock else ai_Now info)
      in c\<lparr>claim_state := ClaimedIdle, scheddAddr := ai_ScheddAddr info,
           scheddName := ai_ScheddName info, user := ai_User info,
           clientMachine := ai_ClientMachine info, aliveInterval := ai_AliveInterval info,
           claim_entered := now,
           leaseDeadline := now + LeaseDuration (ai_AliveInterval info) (ai_AlivesMissed info)\<rparr>)"

definition SetBusy :: "time \<Rightarrow> Claim \<Rightarrow> Claim" where
  "SetBusy now c = c\<lparr>claim_state := ClaimedBusy, claim_entered := now\<rparr>"

definition SetIdle :: "time \<Rightarrow> Claim \<Rightarrow> Claim" where
  "SetIdle now c = c\<lparr>claim_state := ClaimedIdle, claim_entered := now\<rparr>"

definition SetUpdateAd :: "ad \<Rightarrow> Claim \<Rightarrow> Claim" where
  "SetUpdateAd ad c = c\<lparr>updateAd := Some ad\<rparr>"

definition SetFinal :: "ad option \<Rightarrow> int \<Rightarrow> int \<Rightarrow> Claim \<Rightarrow> Claim" where
  "SetFinal ad status reason c = c\<lparr>finalAd := ad, finalStatus := status, finalReason := reason\<rparr>"

definition Final :: "Claim \<Rightarrow> ad option \<times> int \<times> int" where
  "Final c = (finalAd c, finalStatus c, finalReason c)"

definition ExtendLease :: "int \<Rightarrow> time \<Rightarrow> Claim \<Rightarrow> Claim" where
  "ExtendLease alivesMissed now c =
     c\<lparr>leaseDeadline := now + LeaseDuration (aliveInterval c) alivesMissed\<rparr>"

section \<open>Facts about claims\<close>

lemma Mint_result:
  assumes "Mint L m = (m', Inr c)"
  shows "claim_state c = Unclaimed" "seq m' = wrap64 (seq m + 1)" "sinful m' = sinful m"
    "birthdate m' = birthdate m"
  using assms by (auto simp: Mint_def Let_def split: sum.splits)

lemma Mint_seq [simp]: "seq (fst (Mint L m)) = wrap64 (seq m + 1)"
  by (simp add: Mint_def Let_def split: sum.splits)

lemma claim_identity [frame_simps]:
  "claimID (Accept t i c) = claimID c" "claimID (SetBusy now c) = claimID c"
  "claimID (SetIdle now c) = claimID c" "claimID (SetUpdateAd ad c) = claimID c"
  "claimID (SetFinal f st r c) = claimID c" "claimID (ExtendLease k now c) = claimID c"
  by (simp_all add: Accept_def SetBusy_def SetIdle_def SetUpdateAd_def SetFinal_def
      ExtendLease_def Let_def)

lemma claim_state_ops [simp]:
  "claim_state (Accept t i c) = ClaimedIdle" "claim_state (SetBusy now c) = ClaimedBusy"
  "claim_state (SetIdle now c) = ClaimedIdle" "claim_state (SetUpdateAd ad c) = claim_state c"
  "claim_state (SetFinal f st r c) = claim_state c"
  "claim_state (ExtendLease k now c) = claim_state c"
  by (simp_all add: Accept_def SetBusy_def SetIdle_def SetUpdateAd_def SetFinal_def
      ExtendLease_def Let_def)

lemma claim_state_Adopt [simp]:
  "claim_state (Adopt opts) = (if ao_Busy opts then ClaimedBusy else ClaimedIdle)"
  by (simp add: Adopt_def)

lemma claimID_Adopt [simp]: "claimID (Adopt opts) = ao_ClaimID opts"
  by (simp add: Adopt_def)

text \<open>The values an interval and a count of missed keepalives stand for after defaulting.\<close>

definition lease_seconds :: "int \<Rightarrow> int \<Rightarrow> int" where
  "lease_seconds ai am = (if am \<le> 0 then DefaultAlivesMissed else am) * (if ai \<le> 0 then 1 else ai)"

lemma lease_seconds_pos: "0 < lease_seconds ai am"
  by (simp add: lease_seconds_def DefaultAlivesMissed_def)

lemma LeaseDuration_eq: "LeaseDuration ai am = wrap64 (lease_seconds ai am * second)"
  by (simp add: LeaseDuration_def lease_seconds_def Let_def)

text \<open>
  C36. As long as the lease fits in a 64-bit duration (at most 9223372036 seconds), the lease length
  is exactly the number of missed keepalives times the interval, it is positive whatever the inputs
  are, and three keepalive periods fit into one lease.
\<close>

theorem lease_exact:
  assumes "lease_seconds ai am \<le> 9223372036"
  shows "LeaseDuration ai am = lease_seconds ai am * second \<and> 0 < LeaseDuration ai am \<and>
         0 < AlivePeriod ai am \<and> 3 * AlivePeriod ai am \<le> LeaseDuration ai am"
proof -
  have pos: "0 < lease_seconds ai am" by (rule lease_seconds_pos)
  with assms have "in64 (lease_seconds ai am * second)"
    by (simp add: in64_def second_def)
  then have eq: "LeaseDuration ai am = lease_seconds ai am * second"
    by (simp add: LeaseDuration_eq)
  have big: "1000000000 \<le> LeaseDuration ai am"
    using pos by (simp add: eq second_def)
  then have "0 < LeaseDuration ai am div 3" by linarith
  with big have "AlivePeriod ai am = LeaseDuration ai am div 3"
    by (simp add: AlivePeriod_def Let_def)
  with eq big show ?thesis by auto
qed

theorem lease_exact_witness:
  "lease_seconds 300 6 \<le> 9223372036 \<and> LeaseDuration 300 6 = 1800 * second \<and>
   3 * AlivePeriod 300 6 \<le> LeaseDuration 300 6"
  using lease_exact [of 300 6] by (simp add: lease_seconds_def)

text \<open>
  The lease length is computed in 64-bit arithmetic and is not protected against overflow: an
  interval of 2 to the power 54 seconds yields a lease of length zero and one of 2 to the power 33
  seconds a negative lease, so that the claim is expired as soon as it is accepted; the keepalive
  period stays positive all the same.
\<close>

theorem lease_overflow:
  "LeaseDuration (2 ^ 54) 6 = 0 \<and> LeaseDuration (2 ^ 33) 6 < 0 \<and> 0 < AlivePeriod ai am"
  by (simp add: LeaseDuration_eq lease_seconds_def second_def wrap64_def AlivePeriod_def Let_def)

end
