(* ===== verification/Slot.thy ===== *)
theory Slot
  imports Claim
begin

text \<open>
  The package \<^verbatim>\<open>internal/slot\<close>: detection of the machine's resources, the construction of static
  and partitionable slots, the carving of dynamic slots, and the public and private machine ads.
  The configuration is the function that answers \<^verbatim>\<open>cfg.Get\<close>; the answers of the operating system and
  of the Go runtime are the fields of \<open>host\<close>.
\<close>

section \<open>Data\<close>

record Resources =
  Cpus :: int
  MemoryMB :: int
  DiskKB :: int

record Platform =
  OpSys :: string
  Arch :: string
  OpSysAndVer :: string
  OpSysMajorVer :: string
  UIDDomain :: string
  FileSystemDomain :: string

type_synonym config = "string \<Rightarrow> string option"

record host =
  GOOS :: string
  GOARCH :: string
  NumCPU :: int
  TempDir :: string
  Statfs :: "string \<Rightarrow> (int \<times> int) option"
  meminfo :: "string list option"
  version_Version :: string
  version_Commit :: string

definition SlotTypeStatic :: string where "SlotTypeStatic = ''Static''"
definition SlotTypePartitionable :: string where "SlotTypePartitionable = ''Partitionable''"
definition SlotTypeDynamic :: string where "SlotTypeDynamic = ''Dynamic''"

lemmas slot_type_defs = SlotTypeStatic_def SlotTypePartitionable_def SlotTypeDynamic_def

record Slot =
  Name :: string
  SlotID :: int
  Machine :: string
  Sinful :: string
  StartExpr :: string
  Plat :: Platform
  Res :: Resources
  Total :: Resources
  DaemonBorn :: int
  SlotType :: string
  fullRes :: Resources
  ParentName :: string
  SubID :: int
  slot_state :: string
  activity :: string
  slot_entered :: int
  slot_claim :: "Claim option"
  childClaimIDs :: "string list"
  slot_seq :: int

section \<open>Resource detection\<close>

definition detectCpus :: "host \<Rightarrow> config \<Rightarrow> int" where
  "detectCpus h cfg =
     (case cfg ''NUM_CPUS'' of
        None \<Rightarrow> NumCPU h
      | Some v \<Rightarrow> (case Atoi (TrimSpace v) of
            Some n \<Rightarrow> if n > 0 then n else NumCPU h
          | None \<Rightarrow> NumCPU h))"

text \<open>\<^verbatim>\<open>mem_linux.go\<close>: \<open>meminfo\<close> holds the lines of \<^verbatim>\<open>/proc/meminfo\<close>, \<open>None\<close> when it cannot be opened.\<close>

fun scan_meminfo :: "string list \<Rightarrow> int" where
  "scan_meminfo [] = 0"
| "scan_meminfo (line # rest) =
     (if \<not> HasPrefix line ''MemTotal:'' then scan_meminfo rest
      else let fields = Fields line
           in if length fields < 2 then 0
              else case Atoi (fields ! 1) of None \<Rightarrow> 0 | Some kb \<Rightarrow> go_div kb 1024)"

definition detectPhysicalMemoryMB :: "host \<Rightarrow> int" where
  "detectPhysicalMemoryMB h = (case meminfo h of None \<Rightarrow> 0 | Some ls \<Rightarrow> scan_meminfo ls)"

definition detectMemoryMB :: "host \<Rightarrow> config \<Rightarrow> int" where
  "detectMemoryMB h cfg =
     (let physical = (let mb = detectPhysicalMemoryMB h in if mb > 0 then mb else 0)
      in case cfg ''MEMORY'' of
           None \<Rightarrow> physical
         | Some v \<Rightarrow> (case Atoi (TrimSpace v) of
               Some n \<Rightarrow> if n > 0 then n else physical
             | None \<Rightarrow> physical))"

definition detectDiskKB :: "host \<Rightarrow> string \<Rightarrow> int" where
  "detectDiskKB h d =
     (let dir = (if d = [] then TempDir h else d);
          st = (case Statfs h dir of Some x \<Rightarrow> Some x | None \<Rightarrow> Statfs h (TempDir h))
      in case st of
           None \<Rightarrow> 0
         | Some (bavail, bsize) \<Rightarrow> go_div (wrap64 (wrap64 bavail * wrap64 bsize)) 1024)"

definition ExecuteDir :: "host \<Rightarrow> config \<Rightarrow> string" where
  "ExecuteDir h cfg =
     (case cfg ''EXECUTE'' of
        Some v \<Rightarrow> if TrimSpace v \<noteq> [] then TrimSpace v else TempDir h
      | None \<Rightarrow> TempDir h)"

definition DetectResources :: "host \<Rightarrow> config \<Rightarrow> Resources" where
  "DetectResources h cfg =
     (let c = detectCpus h cfg; m = detectMemoryMB h cfg; d = detectDiskKB h (ExecuteDir h cfg)
      in \<lparr>Cpus = (if c < 1 then 1 else c), MemoryMB = (if m < 1 then 1024 else m),
          DiskKB = (if d < 1 then 1024 * 1024 else d)\<rparr>)"

section \<open>Slot construction\<close>

fun partitionable_knobs :: "config \<Rightarrow> string list \<Rightarrow> bool" where
  "partitionable_knobs cfg [] = False"
| "partitionable_knobs cfg (k # ks) =
     (case cfg k of
        Some v \<Rightarrow> if ToLower (TrimSpace v) \<in> {''true'', ''t'', ''yes'', ''1''} then True
                  else partitionable_knobs cfg ks
      | None \<Rightarrow> partitionable_knobs cfg ks)"

definition partitionableConfigured :: "config \<Rightarrow> bool" where
  "partitionableConfigured cfg =
     partitionable_knobs cfg [''SLOT_TYPE_1_PARTITIONABLE'', ''EP_PARTITIONABLE_SLOT'']"

definition goOSToHTCondorOS :: "string \<Rightarrow> string" where
  "goOSToHTCondorOS goos =
     (if goos = ''linux'' then ''LINUX''
      else if goos = ''darwin'' then ''OSX''
      else if goos = ''windows'' then ''WINDOWS''
      else if goos = ''freebsd'' then ''FREEBSD''
      else ToUpper goos)"

definition goArchToHTCondorArch :: "string \<Rightarrow> string" where
  "goArchToHTCondorArch goarch =
     (if goarch = ''amd64'' then ''X86_64''
      else if goarch = ''386'' then ''INTEL''
      else if goarch = ''arm64'' then ''ARM64''
      else if goarch = ''arm'' then ''ARM''
      else if goarch = ''ppc64'' \<or> goarch = ''ppc64le'' then ''PPC64''
      else if goarch = ''s390x'' then ''S390X''
      else ToUpper goarch)"

fun config_get :: "config \<Rightarrow> string list \<Rightarrow> string" where
  "config_get cfg [] = []"
| "config_get cfg (k # ks) =
     (case cfg k of
        Some v \<Rightarrow> if TrimSpace v \<noteq> [] then TrimSpace v else config_get cfg ks
      | None \<Rightarrow> config_get cfg ks)"

definition resolvePlatform :: "host \<Rightarrow> config \<Rightarrow> Platform" where
  "resolvePlatform h cfg =
     (let os = config_get cfg [''OPSYS'']; ar = config_get cfg [''ARCH'']
      in \<lparr>OpSys = (if os = [] then goOSToHTCondorOS (GOOS h) else os),
          Arch = (if ar = [] then goArchToHTCondorArch (GOARCH h) else ar),
          OpSysAndVer = config_get cfg [''OPSYSANDVER'', ''OPSYS_AND_VER''],
          OpSysMajorVer = config_get cfg [''OPSYSMAJORVER'', ''OPSYS_MAJOR_VER''],
          UIDDomain = config_get cfg [''UID_DOMAIN''],
          FileSystemDomain = config_get cfg [''FILESYSTEM_DOMAIN'']\<rparr>)"

definition start_expr :: "config \<Rightarrow> string" where
  "start_expr cfg =
     (case cfg ''START'' of
        Some v \<Rightarrow> if TrimSpace v \<noteq> [] then TrimSpace v else ''TRUE''
      | None \<Rightarrow> ''TRUE'')"

text \<open>\<open>make\<close> with a non-positive count does not occur: \<open>n\<close> is first raised to 1.\<close>

definition splitResources :: "Resources \<Rightarrow> int \<Rightarrow> Resources list" where
  "splitResources tot k =
     (let n = (if k < 1 then 1 else k);
          baseCpus = go_div (Cpus tot) n;
          baseMem = go_div (MemoryMB tot) n;
          baseDisk = go_div (DiskKB tot) n;
          remCpus = wrap64 (Cpus tot - wrap64 (baseCpus * n));
          remMem = wrap64 (MemoryMB tot - wrap64 (baseMem * n));
          remDisk = wrap64 (DiskKB tot - wrap64 (baseDisk * n))
      in map (\<lambda>i. \<lparr>Cpus = (if i = 0 then wrap64 (baseCpus + remCpus) else baseCpus),
                   MemoryMB = (if i = 0 then wrap64 (baseMem + remMem) else baseMem),
                   DiskKB = (if i = 0 then wrap64 (baseDisk + remDisk) else baseDisk)\<rparr>)
         [0 ..< nat n])"

definition num_slots :: "config \<Rightarrow> Resources \<Rightarrow> int" where
  "num_slots cfg tot =
     (let n = (case cfg ''NUM_SLOTS'' of
                 Some v \<Rightarrow> (case Atoi (TrimSpace v) of
                     Some p \<Rightarrow> if p > 0 then p else 1
                   | None \<Rightarrow> 1)
               | None \<Rightarrow> 1)
      in if n > Cpus tot \<and> Cpus tot > 0 then Cpus tot else n)"

definition BuildStaticSlots ::
  "host \<Rightarrow> config \<Rightarrow> string \<Rightarrow> string \<Rightarrow> Resources \<Rightarrow> time \<Rightarrow> Slot list" where
  "BuildStaticSlots h cfg hostname snf tot now =
     (let n = num_slots cfg tot; shares = splitResources tot n
      in map (\<lambda>i. \<lparr>Name = ''slot'' @ Itoa (int i + 1) @ ''@'' @ hostname, SlotID = int i + 1,
                   Machine = hostname, Sinful = snf, StartExpr = start_expr cfg,
                   Plat = resolvePlatform h cfg, Res = shares ! i, Total = tot,
                   DaemonBorn = unix now, SlotType = SlotTypeStatic, fullRes = shares ! i,
                   ParentName = [], SubID = 0, slot_state = ''Unclaimed'', activity = ''Idle'',
                   slot_entered = unix now, slot_claim = None, childClaimIDs = [],
                   slot_seq = 0\<rparr>)
         [0 ..< nat n])"

definition BuildPartitionableSlot ::
  "host \<Rightarrow> config \<Rightarrow> string \<Rightarrow> string \<Rightarrow> Resources \<Rightarrow> time \<Rightarrow> Slot" where
  "BuildPartitionableSlot h cfg hostname snf tot now =
     \<lparr>Name = ''slot1@'' @ hostname, SlotID = 1, Machine = hostname, Sinful = snf,
      StartExpr = start_expr cfg, Plat = resolvePlatform h cfg, Res = tot, Total = tot,
      DaemonBorn = unix now, SlotType = SlotTypePartitionable, fullRes = tot,
      ParentName = [], SubID = 0, slot_state = ''Unclaimed'', activity = ''Idle'',
      slot_entered = unix now, slot_claim = None, childClaimIDs = [], slot_seq = 0\<rparr>"

definition BuildSlots ::
  "host \<Rightarrow> config \<Rightarrow> string \<Rightarrow> string \<Rightarrow> Resources \<Rightarrow> time \<Rightarrow> Slot list" where
  "BuildSlots h cfg hostname snf tot now =
     (if partitionableConfigured cfg
      then [BuildPartitionableSlot h cfg hostname snf tot now]
      else BuildStaticSlots h cfg hostname snf tot now)"

definition dslot_name :: "Slot \<Rightarrow> int \<Rightarrow> string" where
  "dslot_name parent subID =
     ''slot'' @ Itoa (SlotID parent) @ ''_'' @ Itoa subID @ ''@'' @ Machine parent"

definition NewDynamicSlot :: "Slot \<Rightarrow> int \<Rightarrow> Resources \<Rightarrow> time \<Rightarrow> Slot" where
  "NewDynamicSlot parent subID res now =
     \<lparr>Name = dslot_name parent subID, SlotID = SlotID parent, Machine = Machine parent,
      Sinful = Sinful parent, StartExpr = StartExpr parent, Plat = Plat parent, Res = res,
      Total = Total parent, DaemonBorn = DaemonBorn parent, SlotType = SlotTypeDynamic,
      fullRes = res, ParentName = Name parent, SubID = subID, slot_state = ''Unclaimed'',
      activity = ''Idle'', slot_entered = unix now, slot_claim = None, childClaimIDs = [],
      slot_seq = 0\<rparr>"

section \<open>Resource accounting of a partitionable slot\<close>

definition IsPartitionable :: "Slot \<Rightarrow> bool" where
  "IsPartitionable s \<longleftrightarrow> SlotType s = SlotTypePartitionable"

definition IsDynamic :: "Slot \<Rightarrow> bool" where
  "IsDynamic s \<longleftrightarrow> SlotType s = SlotTypeDynamic"

definition CanCarve :: "Slot \<Rightarrow> Resources \<Rightarrow> bool" where
  "CanCarve s req \<longleftrightarrow>
     Cpus req \<le> Cpus (Res s) \<and> MemoryMB req \<le> MemoryMB (Res s) \<and> DiskKB req \<le> DiskKB (Res s)"

definition Carve :: "Resources \<Rightarrow> Slot \<Rightarrow> Slot" where
  "Carve req s =
     s\<lparr>Res := \<lparr>Cpus = wrap64 (Cpus (Res s) - Cpus req),
              MemoryMB = wrap64 (MemoryMB (Res s) - MemoryMB req),
              DiskKB = wrap64 (DiskKB (Res s) - DiskKB req)\<rparr>\<rparr>"

definition Restore :: "Resources \<Rightarrow> Slot \<Rightarrow> Slot" where
  "Restore req s =
     (let c = wrap64 (Cpus (Res s) + Cpus req);
          m = wrap64 (MemoryMB (Res s) + MemoryMB req);
          d = wrap64 (DiskKB (Res s) + DiskKB req)
      in s\<lparr>Res := \<lparr>Cpus = (if c > Cpus (fullRes s) then Cpus (fullRes s) else c),
                  MemoryMB = (if m > MemoryMB (fullRes s) then MemoryMB (fullRes s) else m),
                  DiskKB = (if d > DiskKB (fullRes s) then DiskKB (fullRes s) else d)\<rparr>\<rparr>)"

definition SetChildClaimIDs :: "string list \<Rightarrow> Slot \<Rightarrow> Slot" where
  "SetChildClaimIDs ids s = s\<lparr>childClaimIDs := ids\<rparr>"

section \<open>Claim state of a slot\<close>

definition SetClaim :: "Claim option \<Rightarrow> Slot \<Rightarrow> Slot" where
  "SetClaim c s = s\<lparr>slot_claim := c\<rparr>"

definition SetStateActivity :: "string \<Rightarrow> string \<Rightarrow> time \<Rightarrow> Slot \<Rightarrow> Slot" where
  "SetStateActivity st act now s = s\<lparr>slot_state := st, activity := act, slot_entered := unix now\<rparr>"

definition SetClaimState :: "Claim \<Rightarrow> string \<Rightarrow> string \<Rightarrow> time \<Rightarrow> Slot \<Rightarrow> Slot" where
  "SetClaimState c st act now s = SetStateActivity st act now (s\<lparr>slot_claim := Some c\<rparr>)"

text \<open>
  \<^verbatim>\<open>AcceptClaim\<close> dereferences the slot's claim; its callers install one first, and the slot without
  a claim (a nil dereference in Go) is left as it is here.
\<close>

definition AcceptClaim :: "time \<Rightarrow> AcceptInfo \<Rightarrow> Slot \<Rightarrow> Slot" where
  "AcceptClaim clock info s =
     (let now = (if ai_Now info = zero_time then clock else ai_Now info)
      in case slot_claim s of
           None \<Rightarrow> s
         | Some c \<Rightarrow> SetStateActivity ''Claimed'' ''Idle'' now
             (s\<lparr>slot_claim := Some (Accept clock (info\<lparr>ai_Now := now\<rparr>) c)\<rparr>))"

text \<open>In-place updates of the claim record a slot points to.\<close>

definition map_claim :: "(Claim \<Rightarrow> Claim) \<Rightarrow> Slot \<Rightarrow> Slot" where
  "map_claim f s = s\<lparr>slot_claim := map_option f (slot_claim s)\<rparr>"


section \<open>Static slots partition the machine\<close>

text \<open>The shares of one resource: \<open>v div n\<close> each, the remainder to the first slot.\<close>

definition share_of :: "int \<Rightarrow> int \<Rightarrow> nat \<Rightarrow> int" where
  "share_of v n i = (if i = 0 then v div n + v mod n else v div n)"

lemma share_wrap:
  assumes "0 \<le> v" "in64 v" "1 \<le> n"
  shows "wrap64 (go_div v n + wrap64 (v - wrap64 (go_div v n * n))) = v div n + v mod n"
    and "go_div v n = v div n"
proof -
  show d: "go_div v n = v div n" using assms by simp
  have nonneg: "0 \<le> v div n" "0 \<le> v mod n"
    using assms by (simp_all add: pos_imp_zdiv_nonneg_iff)
  have m: "v - v div n * n = v mod n" by (simp add: minus_div_mult_eq_mod)
  have "v div n * 1 \<le> v div n * n" using nonneg(1) assms(3) by (intro mult_left_mono) auto
  then have le: "v div n * n \<le> v" "0 \<le> v div n * n" "v div n + v mod n \<le> v"
    using m nonneg by linarith+
  then have in1: "in64 (v div n * n)" using assms by (auto simp: in64_def)
  from le nonneg have "in64 (v mod n)" "in64 (v div n + v mod n)"
    using assms(1,2) by (auto simp: in64_def)
  with in1 m d show "wrap64 (go_div v n + wrap64 (v - wrap64 (go_div v n * n))) = v div n + v mod n"
    by simp
qed

lemma sum_shares:
  assumes "1 \<le> n"
  shows "(\<Sum>i \<leftarrow> [0 ..< nat n]. share_of v n i) = v"
proof -
  have "(\<Sum>i \<leftarrow> [0 ..< nat n]. share_of v n i) = (\<Sum>i = 0 ..< nat n. share_of v n i)"
    by (simp add: sum_list_distinct_conv_sum_set)
  also have "\<dots> = share_of v n 0 + (\<Sum>i = 1 ..< nat n. share_of v n i)"
    using assms by (simp add: sum.atLeast_Suc_lessThan)
  also have "(\<Sum>i = 1 ..< nat n. share_of v n i) = (n - 1) * (v div n)"
    using assms by (simp add: share_of_def of_nat_diff)
  also have "share_of v n 0 + (n - 1) * (v div n) = n * (v div n) + v mod n"
    by (simp add: share_of_def algebra_simps)
  finally show ?thesis by simp
qed

definition res_ok :: "Resources \<Rightarrow> bool" where
  "res_ok r \<longleftrightarrow> 0 \<le> Cpus r \<and> in64 (Cpus r) \<and> 0 \<le> MemoryMB r \<and> in64 (MemoryMB r) \<and>
     0 \<le> DiskKB r \<and> in64 (DiskKB r)"

lemma splitResources_shares:
  assumes "res_ok tot" "1 \<le> n"
  shows "splitResources tot n =
    map (\<lambda>i. \<lparr>Cpus = share_of (Cpus tot) n i, MemoryMB = share_of (MemoryMB tot) n i,
              DiskKB = share_of (DiskKB tot) n i\<rparr>) [0 ..< nat n]"
  using assms share_wrap [of "Cpus tot" n] share_wrap [of "MemoryMB tot" n]
    share_wrap [of "DiskKB tot" n]
  by (simp add: splitResources_def res_ok_def Let_def share_of_def del: wrap64_add_right wrap64_diff_left)

lemma num_slots_bounds:
  assumes "1 \<le> Cpus tot"
  shows "1 \<le> num_slots cfg tot" "num_slots cfg tot \<le> Cpus tot"
  using assms by (auto simp: num_slots_def Let_def split: option.split)

lemma static_slot_name_inj:
  "inj_on (\<lambda>i. ''slot'' @ Itoa (int i + 1) @ ''@'' @ hostname) A"
  by (rule inj_onI) (simp add: Itoa_inj)

text \<open>
  C25. On a machine with at least one processor the static slots cover the machine exactly: there is
  at least one slot and at most one per processor, the slot names are pairwise distinct, the
  processors, memory and disk of the slots add up to the machine's, and every slot has at least one
  processor and no negative resource.
\<close>

theorem static_slots_partition:
  assumes "res_ok tot" "1 \<le> Cpus tot"
  shows "BuildStaticSlots h cfg hostname snf tot now \<noteq> [] \<and>
    int (length (BuildStaticSlots h cfg hostname snf tot now)) \<le> Cpus tot \<and>
    distinct (map Name (BuildStaticSlots h cfg hostname snf tot now)) \<and>
    (\<Sum>s \<leftarrow> BuildStaticSlots h cfg hostname snf tot now. Cpus (Res s)) = Cpus tot \<and>
    (\<Sum>s \<leftarrow> BuildStaticSlots h cfg hostname snf tot now. MemoryMB (Res s)) = MemoryMB tot \<and>
    (\<Sum>s \<leftarrow> BuildStaticSlots h cfg hostname snf tot now. DiskKB (Res s)) = DiskKB tot \<and>
    (\<forall>s \<in> set (BuildStaticSlots h cfg hostname snf tot now).
       1 \<le> Cpus (Res s) \<and> 0 \<le> MemoryMB (Res s) \<and> 0 \<le> DiskKB (Res s) \<and> fullRes s = Res s)"
proof -
  let ?n = "num_slots cfg tot"
  note n = num_slots_bounds [OF assms(2), of cfg]
  note split = splitResources_shares [OF assms(1) n(1)]
  have nth: "splitResources tot ?n ! i =
      \<lparr>Cpus = share_of (Cpus tot) ?n i, MemoryMB = share_of (MemoryMB tot) ?n i,
       DiskKB = share_of (DiskKB tot) ?n i\<rparr>" if "i \<in> set [0 ..< nat ?n]" for i
    using that by (simp add: split)
  have sums: "(\<Sum>i \<leftarrow> [0 ..< nat ?n]. f (splitResources tot ?n ! i)) = f tot"
    if "\<And>i. i \<in> set [0 ..< nat ?n] \<Longrightarrow> f (splitResources tot ?n ! i) = share_of (f tot) ?n i" for f
  proof -
    have "map (\<lambda>i. f (splitResources tot ?n ! i)) [0 ..< nat ?n] =
        map (share_of (f tot) ?n) [0 ..< nat ?n]"
      using that by (intro map_ext allI impI)
    then show ?thesis by (simp only: sum_shares [OF n(1)])
  qed
  have pos: "1 \<le> share_of (Cpus tot) ?n i" "0 \<le> share_of (MemoryMB tot) ?n i"
    "0 \<le> share_of (DiskKB tot) ?n i" for i
  proof -
    have "1 \<le> Cpus tot div ?n" using zdiv_mono1 [OF n(2), of ?n] n(1) by simp
    then show "1 \<le> share_of (Cpus tot) ?n i"
      using n(1) by (auto simp: share_of_def intro: add_increasing2)
    show "0 \<le> share_of (MemoryMB tot) ?n i" "0 \<le> share_of (DiskKB tot) ?n i"
      using n(1) assms(1) by (auto simp: share_of_def res_ok_def pos_imp_zdiv_nonneg_iff)
  qed
  show ?thesis
    using n pos sums [of Cpus] sums [of MemoryMB] sums [of DiskKB]
    by (auto simp: BuildStaticSlots_def Let_def nth distinct_map static_slot_name_inj [simplified] o_def)
qed

definition example_host :: host where
  "example_host =
     \<lparr>GOOS = ''linux'', GOARCH = ''amd64'', NumCPU = 4, TempDir = ''/tmp'', Statfs = (\<lambda>d. None),
      meminfo = None, version_Version = ''dev'', version_Commit = ''none''\<rparr>"

theorem static_slots_partition_witness:
  "(\<Sum>s \<leftarrow> BuildStaticSlots example_host (\<lambda>k. if k = ''NUM_SLOTS'' then Some ''3'' else None) ''h'' ''x''
       \<lparr>Cpus = 8, MemoryMB = 1000, DiskKB = 100\<rparr> 0. Cpus (Res s)) = 8"
  using static_slots_partition [of "\<lparr>Cpus = 8, MemoryMB = 1000, DiskKB = 100\<rparr>" example_host]
  by (simp add: res_ok_def in64_def)

section \<open>Accounting: an interface of one resource, and its three instances\<close>

text \<open>
  A partitionable slot is a ledger for each of its three resources: \<open>avail\<close> is what is left,
  \<open>full\<close> the whole allocation, and \<open>amt\<close> the amount a request asks for. The laws are those of
  \<^const>\<open>Carve\<close> and \<^const>\<open>Restore\<close> in 64-bit arithmetic. The ledger is balanced against an
  outstanding amount when the two add up to the whole allocation.
\<close>

locale ledger =
  fixes avail :: "'s \<Rightarrow> int" and full :: "'s \<Rightarrow> int" and amt :: "'r \<Rightarrow> int"
    and carve :: "'r \<Rightarrow> 's \<Rightarrow> 's" and restore :: "'r \<Rightarrow> 's \<Rightarrow> 's"
  assumes carve_avail: "avail (carve r s) = wrap64 (avail s - amt r)"
    and restore_avail: "avail (restore r s) = min (full s) (wrap64 (avail s + amt r))"
    and carve_full: "full (carve r s) = full s"
    and restore_full: "full (restore r s) = full s"
begin

definition balanced :: "'s \<Rightarrow> int \<Rightarrow> bool" where
  "balanced s out \<longleftrightarrow> in64 (full s) \<and> 0 \<le> avail s \<and> 0 \<le> out \<and> avail s + out = full s"

lemma balanced_range: "balanced s out \<Longrightarrow> 0 \<le> avail s \<and> avail s \<le> full s"
  by (simp add: balanced_def)

lemma carve_balanced:
  assumes "balanced s out" "0 \<le> amt r" "amt r \<le> avail s"
  shows "balanced (carve r s) (out + amt r)"
proof -
  have "in64 (avail s - amt r)" using assms by (auto simp: balanced_def in64_def)
  then show ?thesis using assms by (simp add: balanced_def carve_avail carve_full)
qed

lemma restore_balanced:
  assumes "balanced s (out + amt r)" "0 \<le> amt r" "0 \<le> out"
  shows "balanced (restore r s) out"
proof -
  have le: "avail s + amt r \<le> full s" using assms by (simp add: balanced_def)
  then have "in64 (avail s + amt r)" using assms by (auto simp: balanced_def in64_def)
  then show ?thesis using assms le by (simp add: balanced_def restore_avail restore_full)
qed

lemma restore_carve:
  assumes "balanced s 0" "0 \<le> amt r" "amt r \<le> avail s"
  shows "avail (restore r (carve r s)) = full s"
  using restore_balanced [OF carve_balanced [OF assms]] assms
  by (simp add: balanced_def restore_full carve_full)

end

interpretation cpus: ledger "\<lambda>s. Cpus (Res s)" "\<lambda>s. Cpus (fullRes s)" Cpus Carve Restore
  by unfold_locales (auto simp: Carve_def Restore_def Let_def)

interpretation memory: ledger "\<lambda>s. MemoryMB (Res s)" "\<lambda>s. MemoryMB (fullRes s)" MemoryMB Carve Restore
  by unfold_locales (auto simp: Carve_def Restore_def Let_def)

interpretation disk: ledger "\<lambda>s. DiskKB (Res s)" "\<lambda>s. DiskKB (fullRes s)" DiskKB Carve Restore
  by unfold_locales (auto simp: Carve_def Restore_def Let_def)

lemmas ledger_balanced_defs = cpus.balanced_def memory.balanced_def disk.balanced_def

text \<open>Sums of resources, component by component.\<close>

definition res_zero :: Resources where
  "res_zero = \<lparr>Cpus = 0, MemoryMB = 0, DiskKB = 0\<rparr>"

definition res_add :: "Resources \<Rightarrow> Resources \<Rightarrow> Resources" where
  "res_add a b =
     \<lparr>Cpus = Cpus a + Cpus b, MemoryMB = MemoryMB a + MemoryMB b, DiskKB = DiskKB a + DiskKB b\<rparr>"

definition res_nonneg :: "Resources \<Rightarrow> bool" where
  "res_nonneg r \<longleftrightarrow> 0 \<le> Cpus r \<and> 0 \<le> MemoryMB r \<and> 0 \<le> DiskKB r"

definition balanced_slot :: "Slot \<Rightarrow> Resources \<Rightarrow> bool" where
  "balanced_slot s out \<longleftrightarrow>
     cpus.balanced s (Cpus out) \<and> memory.balanced s (MemoryMB out) \<and> disk.balanced s (DiskKB out)"

lemma balanced_slot_cong:
  "Res s = Res s' \<Longrightarrow> fullRes s = fullRes s' \<Longrightarrow> balanced_slot s out = balanced_slot s' out"
  by (simp add: balanced_slot_def ledger_balanced_defs)

lemma Carve_balanced:
  "balanced_slot s out \<Longrightarrow> res_nonneg r \<Longrightarrow> CanCarve s r \<Longrightarrow> balanced_slot (Carve r s) (res_add out r)"
  by (simp add: balanced_slot_def res_nonneg_def CanCarve_def res_add_def cpus.carve_balanced
      memory.carve_balanced disk.carve_balanced)

lemma Restore_balanced:
  "balanced_slot s (res_add out r) \<Longrightarrow> res_nonneg r \<Longrightarrow> res_nonneg out \<Longrightarrow>
     balanced_slot (Restore r s) out"
  by (simp add: balanced_slot_def res_nonneg_def res_add_def cpus.restore_balanced
      memory.restore_balanced disk.restore_balanced)

lemma slot_res_frame [frame_simps]:
  "Res (SetStateActivity st a now s) = Res s" "fullRes (SetStateActivity st a now s) = fullRes s"
  "Res (SetClaimState c st a now s) = Res s" "fullRes (SetClaimState c st a now s) = fullRes s"
  "Res (map_claim f s) = Res s" "fullRes (map_claim f s) = fullRes s"
  "Res (SetChildClaimIDs ids s) = Res s" "fullRes (SetChildClaimIDs ids s) = fullRes s"
  "Res (AcceptClaim t i s) = Res s" "fullRes (AcceptClaim t i s) = fullRes s"
  by (simp_all add: SetStateActivity_def SetClaimState_def map_claim_def SetChildClaimIDs_def
      AcceptClaim_def Let_def split: option.split)

text \<open>The identity of a slot (what is fixed at construction) is kept by every operation on it.\<close>

definition same_slot :: "Slot \<Rightarrow> Slot \<Rightarrow> bool" where
  "same_slot s t \<longleftrightarrow> Name s = Name t \<and> SlotType s = SlotType t \<and> SlotID s = SlotID t \<and>
     Machine s = Machine t \<and> ParentName s = ParentName t \<and> SubID s = SubID t \<and> fullRes s = fullRes t"

lemma same_slot_ops [simp]:
  "same_slot (SetStateActivity st a now s) s" "same_slot (SetClaimState c st a now s) s"
  "same_slot (map_claim f s) s" "same_slot (SetChildClaimIDs ids s) s"
  "same_slot (AcceptClaim t i s) s" "same_slot (Carve r s) s" "same_slot (Restore r s) s"
  "same_slot (SetClaim co s) s" "same_slot s s"
  by (simp_all add: same_slot_def SetStateActivity_def SetClaimState_def map_claim_def
      SetChildClaimIDs_def AcceptClaim_def Carve_def Restore_def SetClaim_def Let_def
      split: option.split)

lemma same_slot_trans [trans]: "same_slot s t \<Longrightarrow> same_slot t u \<Longrightarrow> same_slot s u"
  by (simp add: same_slot_def)

end
