(* ===== verification/SlotAd.thy ===== *)
theory SlotAd
  imports Slot
begin

text \<open>
  The machine ads of \<^verbatim>\<open>internal/slot/slot.go\<close>: the public ad a slot advertises, the form of it that
  requests are matched against, and the private companion ad that carries the secret claim id; and
  the invalidation ad of \<^verbatim>\<open>internal/advertise\<close>.
\<close>

definition withinResourceLimitsExpr :: string where
  "withinResourceLimitsExpr =
     ''MY.Cpus > 0 && TARGET.RequestCpus <= MY.Cpus && MY.Memory > 0 && '' @
     ''TARGET.RequestMemory <= MY.Memory && MY.Disk > 0 && TARGET.RequestDisk <= MY.Disk''"

definition requirementsExpr :: string where
  "requirementsExpr = ''Start && WithinResourceLimits''"

definition condorVersionString :: "host \<Rightarrow> string" where
  "condorVersionString h =
     ''$CondorVersion: '' @ version_Version h @ '' BuildID: golang-ep-'' @ version_Commit h @ '' $''"

definition condorPlatformString :: "host \<Rightarrow> string" where
  "condorPlatformString h = ''$CondorPlatform: '' @ GOARCH h @ ''_'' @ GOOS h @ '' $''"

definition setExpr :: "'x classad_api_scheme \<Rightarrow> string \<Rightarrow> string \<Rightarrow> ad \<Rightarrow> ad" where
  "setExpr L name str ad =
     (if ParseExpr L str then ad_set name (AExpr str) ad else ad_set name (AStr str) ad)"

definition ad_set_if :: "bool \<Rightarrow> string \<Rightarrow> adval \<Rightarrow> ad \<Rightarrow> ad" where
  "ad_set_if b n v ad = (if b then ad_set n v ad else ad)"

text \<open>The attributes in the order of the source; each \<open>fold\<close> applies its insertions from left to right.\<close>

definition ad_identity :: "Slot \<Rightarrow> ad \<Rightarrow> ad" where
  "ad_identity s = fold (\<lambda>(n, v). ad_set n v)
     [(''MyType'', AStr ''Machine''), (''TargetType'', AStr ''Job''), (''Name'', AStr (Name s)),
      (''Machine'', AStr (Machine s)), (''StartdIpAddr'', AStr (Sinful s)),
      (''MyAddress'', AStr (Sinful s)), (''State'', AStr (slot_state s)),
      (''Activity'', AStr (activity s)), (''EnteredCurrentState'', AInt (slot_entered s)),
      (''EnteredCurrentActivity'', AInt (slot_entered s))]"

definition ad_resources :: "Slot \<Rightarrow> ad \<Rightarrow> ad" where
  "ad_resources s = fold (\<lambda>(n, v). ad_set n v)
     [(''Cpus'', AInt (Cpus (Res s))), (''Memory'', AInt (MemoryMB (Res s))),
      (''Disk'', AInt (DiskKB (Res s))), (''TotalCpus'', AInt (Cpus (Total s))),
      (''TotalMemory'', AInt (MemoryMB (Total s))), (''TotalDisk'', AInt (DiskKB (Total s))),
      (''TotalSlotCpus'', AInt (Cpus (fullRes s))), (''TotalSlotMemory'', AInt (MemoryMB (fullRes s))),
      (''TotalSlotDisk'', AInt (DiskKB (fullRes s))), (''SlotID'', AInt (SlotID s))]"

definition ad_slot_type :: "Slot \<Rightarrow> ad \<Rightarrow> ad" where
  "ad_slot_type s ad0 =
     (let slotType = (if SlotType s = [] then SlotTypeStatic else SlotType s);
          ad = ad_set ''SlotWeight'' (AInt (Cpus (Res s)))
                 (ad_set ''SlotTypeID'' (AInt 0) (ad_set ''SlotType'' (AStr slotType) ad0))
      in if slotType = SlotTypePartitionable
         then ad_set ''NumDynamicSlots'' (AInt (int (length (childClaimIDs s))))
                (ad_set ''PartitionableSlot'' (ABool True) ad)
         else if slotType = SlotTypeDynamic
         then ad_set ''DSlotId'' (AInt (SubID s))
                (ad_set_if (ParentName s \<noteq> []) ''ParentSlotName'' (AStr (ParentName s))
                   (ad_set ''DynamicSlot'' (ABool True) ad))
         else ad)"

definition slot_available :: "Slot \<Rightarrow> bool" where
  "slot_available s \<longleftrightarrow> slot_state s = ''Unclaimed'' \<or> slot_state s = ''Owner''"

definition ad_policy :: "'x classad_api_scheme \<Rightarrow> bool \<Rightarrow> Slot \<Rightarrow> ad \<Rightarrow> ad" where
  "ad_policy L claimedForm s ad0 =
     (let ad1 = setExpr L ''WithinResourceLimits'' withinResourceLimitsExpr
                  (setExpr L ''Start'' (StartExpr s) ad0);
          ad2 = (if \<not> slot_available s \<and> claimedForm then ad_set ''Requirements'' (ABool False) ad1
                 else setExpr L ''Requirements'' requirementsExpr ad1)
      in setExpr L ''Rank'' ''0.0'' ad2)"

definition ad_domains :: "Slot \<Rightarrow> ad \<Rightarrow> ad" where
  "ad_domains s ad0 =
     ad_set_if (UIDDomain (Plat s) \<noteq> []) ''UidDomain'' (AStr (UIDDomain (Plat s)))
       (ad_set_if (FileSystemDomain (Plat s) \<noteq> []) ''FileSystemDomain''
          (AStr (FileSystemDomain (Plat s)))
          (ad_set ''HasFileTransferPluginMethods'' (AStr ''data,file'')
             (ad_set ''HasFileTransfer'' (ABool True) ad0)))"

definition ad_client :: "Slot \<Rightarrow> ad \<Rightarrow> ad" where
  "ad_client s ad0 =
     (case slot_claim s of
        None \<Rightarrow> ad0
      | Some c \<Rightarrow>
          if slot_state s \<noteq> ''Claimed'' then ad0
          else ad_set_if (publicClaimID c \<noteq> []) ''PublicClaimId'' (AStr (publicClaimID c))
                 (ad_set_if (clientMachine c \<noteq> []) ''ClientMachine'' (AStr (clientMachine c))
                    (ad_set_if (user c \<noteq> []) ''RemoteOwner'' (AStr (user c))
                       (ad_set_if (user c \<noteq> []) ''RemoteUser'' (AStr (user c)) ad0))))"

definition ad_load :: "ad \<Rightarrow> ad" where
  "ad_load = fold (\<lambda>(n, v). ad_set n v)
     [(''CpuBusy'', AReal (Fin 0 0)), (''LoadAvg'', AReal (Fin 0 0)),
      (''TotalLoadAvg'', AReal (Fin 0 0)), (''TotalCondorLoadAvg'', AReal (Fin 0 0)),
      (''KeyboardIdle'', AInt (2 ^ 30)), (''ConsoleIdle'', AInt (2 ^ 30)),
      (''RetirementTimeRemaining'', AInt 0), (''StartdSendsAlives'', ABool True)]"

definition ad_platform :: "host \<Rightarrow> Slot \<Rightarrow> ad \<Rightarrow> ad" where
  "ad_platform h s ad0 =
     (let p = Plat s;
          ad1 = ad_set_if (OpSysAndVer p \<noteq> []) ''OpSysAndVer'' (AStr (OpSysAndVer p))
                  (ad_set ''Arch'' (AStr (Arch p)) (ad_set ''OpSys'' (AStr (OpSys p)) ad0));
          ad2 = (if OpSysMajorVer p \<noteq> []
                 then (case Atoi (OpSysMajorVer p) of
                     Some n \<Rightarrow> ad_set ''OpSysMajorVer'' (AInt n) ad1
                   | None \<Rightarrow> ad1)
                 else ad1)
      in ad_set ''CondorPlatform'' (AStr (condorPlatformString h))
           (ad_set ''CondorVersion'' (AStr (condorVersionString h)) ad2))"

definition buildAdLocked :: "'x classad_api_scheme \<Rightarrow> host \<Rightarrow> time \<Rightarrow> bool \<Rightarrow> Slot \<Rightarrow> ad" where
  "buildAdLocked L h clock claimedForm s =
     ad_set ''UpdateSequenceNumber'' (AInt (slot_seq s))
       (ad_set ''MyCurrentTime'' (AInt (unix clock))
          (ad_set ''DaemonStartTime'' (AInt (DaemonBorn s))
             (ad_platform h s
                (ad_load
                   (ad_client s
                      (ad_domains s
                         (ad_policy L claimedForm s
                            (ad_slot_type s (ad_resources s (ad_identity s new_ad))))))))))"

definition PublicAd :: "'x classad_api_scheme \<Rightarrow> host \<Rightarrow> time \<Rightarrow> Slot \<Rightarrow> Slot \<times> ad" where
  "PublicAd L h clock s =
     (let s' = s\<lparr>slot_seq := wrap64 (slot_seq s + 1)\<rparr> in (s', buildAdLocked L h clock True s'))"

definition MatchAd :: "'x classad_api_scheme \<Rightarrow> host \<Rightarrow> time \<Rightarrow> Slot \<Rightarrow> ad" where
  "MatchAd L h clock s = buildAdLocked L h clock False s"

fun quoted_list :: "'x classad_api_scheme \<Rightarrow> string list \<Rightarrow> string" where
  "quoted_list L [] = []"
| "quoted_list L [x] = Quote L x"
| "quoted_list L (x # y # xs) = Quote L x @ '','' @ quoted_list L (y # xs)"

definition PrivateAd :: "'x classad_api_scheme \<Rightarrow> Slot \<Rightarrow> ad" where
  "PrivateAd L s =
     (let ad0 = fold (\<lambda>(n, v). ad_set n v)
            [(''MyType'', AStr ''Machine''), (''Name'', AStr (Name s)),
             (''StartdIpAddr'', AStr (Sinful s)), (''MyAddress'', AStr (Sinful s))] new_ad;
          ad1 = (case slot_claim s of
                   None \<Rightarrow> ad0
                 | Some c \<Rightarrow> ad_set ''Capability'' (AStr (claimID c))
                              (ad_set ''ClaimId'' (AStr (claimID c)) ad0))
      in if SlotType s = SlotTypePartitionable
         then let text = ''{'' @ quoted_list L (childClaimIDs s) @ ''}'';
                  ad2 = (if ParseExpr L text then ad_set ''ChildClaimIds'' (AExpr text) ad1 else ad1)
              in ad_set ''NumDynamicSlots'' (AInt (int (length (childClaimIDs s)))) ad2
         else ad1)"

definition invalidateAd :: "'x classad_api_scheme \<Rightarrow> Slot \<Rightarrow> ad" where
  "invalidateAd L s =
     (let expr = ''Name == '' @ Quote L (Name s);
          ad0 = ad_set ''TargetType'' (AStr ''Machine'') (ad_set ''MyType'' (AStr ''Query'') new_ad);
          ad1 = (if ParseExpr L expr then ad_set ''Requirements'' (AExpr expr) ad0
                 else ad_set ''Requirements'' (ABool True) ad0)
      in ad_set ''MyAddress'' (AStr (Sinful s)) (ad_set ''Name'' (AStr (Name s)) ad1))"

section \<open>What the ads say\<close>

lemmas ad_defs = buildAdLocked_def ad_identity_def ad_resources_def ad_slot_type_def ad_policy_def
  ad_domains_def ad_client_def ad_load_def ad_platform_def ad_set_if_def setExpr_def Let_def

lemma fold_ad_set: "fold (\<lambda>(n, v). ad_set n v) xs ad = ad @ xs"
  by (induction xs arbitrary: ad) (auto simp: ad_set_def)

lemma last_ins_single: "last_ins [(k, v)] n = (if EqualFold k n then Some v else None)"
  by (simp add: last_ins_def)

lemma last_ins_Cons:
  "last_ins ((k, v) # ad) n =
     (case last_ins ad n of None \<Rightarrow> if EqualFold k n then Some v else None | Some w \<Rightarrow> Some w)"
  using last_ins_append [of "[(k, v)]" ad n] last_ins_single [of k v n] by (simp split: option.split)

text \<open>Every part of the ad but the policy leaves \<^verbatim>\<open>Requirements\<close> alone.\<close>

lemma requirements_only_in_policy:
  "last_ins (ad_platform h s ad) ''Requirements'' = last_ins ad ''Requirements''"
  "last_ins (ad_load ad) ''Requirements'' = last_ins ad ''Requirements''"
  "last_ins (ad_client s ad) ''Requirements'' = last_ins ad ''Requirements''"
  "last_ins (ad_domains s ad) ''Requirements'' = last_ins ad ''Requirements''"
  by (simp_all add: ad_platform_def ad_load_def ad_client_def ad_domains_def ad_set_if_def
      fold_ad_set last_ins_append last_ins_Cons fold_eval Let_def split: option.split)

lemma requirements_policy:
  "last_ins (ad_policy L claimedForm s ad) ''Requirements'' =
     Some (if \<not> slot_available s \<and> claimedForm then ABool False
           else if ParseExpr L requirementsExpr then AExpr requirementsExpr
           else AStr requirementsExpr)"
  by (simp add: ad_policy_def setExpr_def fold_eval Let_def)

lemma requirements_built:
  "last_ins (buildAdLocked L h t claimedForm s) ''Requirements'' =
     Some (if \<not> slot_available s \<and> claimedForm then ABool False
           else if ParseExpr L requirementsExpr then AExpr requirementsExpr
           else AStr requirementsExpr)"
proof -
  have "last_ins (buildAdLocked L h t claimedForm s) ''Requirements'' =
      last_ins (ad_policy L claimedForm s (ad_slot_type s (ad_resources s (ad_identity s new_ad))))
        ''Requirements''"
    unfolding buildAdLocked_def by (simp add: requirements_only_in_policy) (simp add: fold_eval)
  then show ?thesis by (simp only: requirements_policy)
qed

text \<open>
  C24. A slot that is matched or claimed never advertises itself for a new match: provided the ClassAd library can parse the
  matching expression, the public ad of a slot whose state is Matched or Claimed, or anything but Unclaimed and Owner, has \<^verbatim>\<open>Requirements\<close> set
  to the literal false, and the public ad of an Unclaimed or Owner slot carries the live matching expression. The ad that requests and
  activations are evaluated against carries the live expression in every state.
\<close>

theorem claimed_slot_never_rematched:
  assumes "ParseExpr L requirementsExpr"
  shows "(slot_state s \<in> {''Matched'', ''Claimed''} \<longrightarrow> last_ins (snd (PublicAd L h t s)) ''Requirements'' = Some (ABool False)) \<and>
         last_ins (snd (PublicAd L h t s)) ''Requirements'' =
           Some (if slot_state s = ''Unclaimed'' \<or> slot_state s = ''Owner'' then AExpr requirementsExpr else ABool False) \<and>
         last_ins (MatchAd L h t s) ''Requirements'' = Some (AExpr requirementsExpr)"
  using assms
  by (auto simp: PublicAd_def MatchAd_def Let_def requirements_built slot_available_def)

definition example_slot :: Slot where
  "example_slot = BuildPartitionableSlot example_host (\<lambda>k. None) ''h'' ''<h:9618>''
     \<lparr>Cpus = 8, MemoryMB = 16000, DiskKB = 500000\<rparr> 0"

theorem claimed_slot_never_rematched_witness:
  "ParseExpr lit_api requirementsExpr \<and>
   last_ins (snd (PublicAd lit_api example_host 0
      (SetStateActivity ''Claimed'' ''Idle'' 0 example_slot))) ''Requirements'' = Some (ABool False)"
proof -
  have p: "ParseExpr lit_api requirementsExpr" by (simp add: lit_api_def requirementsExpr_def)
  show ?thesis
    using p claimed_slot_never_rematched [OF p, where h = example_host and t = 0
        and s = "SetStateActivity ''Claimed'' ''Idle'' 0 example_slot"]
    by (simp add: SetStateActivity_def)
qed

text \<open>The secret parts of a slot: its claim id and the claim ids of its dynamic slots.\<close>

definition public_eq :: "Slot \<Rightarrow> Slot \<Rightarrow> bool" where
  "public_eq s t \<longleftrightarrow>
     length (childClaimIDs s) = length (childClaimIDs t) \<and>
     rel_option (\<lambda>c d. publicClaimID c = publicClaimID d \<and> user c = user d \<and>
                  clientMachine c = clientMachine d) (slot_claim s) (slot_claim t) \<and>
     s\<lparr>slot_claim := None, childClaimIDs := []\<rparr> = t\<lparr>slot_claim := None, childClaimIDs := []\<rparr>"

lemma public_eq_fields:
  assumes "public_eq s t"
  shows "Name s = Name t" "SlotID s = SlotID t" "Machine s = Machine t" "Sinful s = Sinful t"
    "StartExpr s = StartExpr t" "Plat s = Plat t" "Res s = Res t" "Total s = Total t"
    "DaemonBorn s = DaemonBorn t" "SlotType s = SlotType t" "fullRes s = fullRes t" "ParentName s = ParentName t"
    "SubID s = SubID t" "slot_state s = slot_state t" "activity s = activity t" "slot_entered s = slot_entered t"
    "slot_seq s = slot_seq t"
  using assms by (cases s; cases t; simp add: public_eq_def)+

lemma buildAd_public_eq:
  assumes eq: "public_eq s t"
  shows "buildAdLocked L h now b s = buildAdLocked L h now b t"
proof -
  from eq have "length (childClaimIDs s) = length (childClaimIDs t)" by (simp add: public_eq_def)
  then have stype: "ad_slot_type s = ad_slot_type t"
    by (simp add: fun_eq_iff ad_slot_type_def Let_def public_eq_fields [OF eq])
  have client: "ad_client s = ad_client t"
    using eq by (cases "slot_claim s"; cases "slot_claim t")
      (auto simp: fun_eq_iff ad_client_def public_eq_fields [OF eq] public_eq_def)
  show ?thesis
    by (simp add: buildAdLocked_def ad_identity_def ad_resources_def ad_policy_def ad_domains_def
        ad_platform_def slot_available_def stype client public_eq_fields [OF eq])
qed

text \<open>
  The public ad does not disclose claim ids: two slots that differ only in the secret claim id
  of their claim, in the claim's lease and session data and in the claim ids of their dynamic slots
  (and have equally many of those) produce the same public ad. The private ad of a slot with a claim
  does carry the claim id, as \<^verbatim>\<open>ClaimId\<close> and as \<^verbatim>\<open>Capability\<close>.
\<close>

theorem public_ad_hides_claim_ids:
  "(public_eq s t \<longrightarrow> snd (PublicAd L h now s) = snd (PublicAd L h now t)) \<and>
   (\<forall>c. slot_claim s = Some c \<longrightarrow>
      last_ins (PrivateAd L s) ''ClaimId'' = Some (AStr (claimID c)) \<and>
      last_ins (PrivateAd L s) ''Capability'' = Some (AStr (claimID c)))"
proof (intro conjI impI allI)
  assume eq: "public_eq s t"
  let ?up = "\<lambda>u. u\<lparr>slot_seq := wrap64 (slot_seq u + 1)\<rparr>"
  have "public_eq (?up s) (?up t)"
    using eq by (cases s; cases t) (auto simp: public_eq_def)
  then show "snd (PublicAd L h now s) = snd (PublicAd L h now t)"
    by (simp add: PublicAd_def Let_def buildAd_public_eq)
next
  fix c
  assume "slot_claim s = Some c"
  then show "last_ins (PrivateAd L s) ''ClaimId'' = Some (AStr (claimID c))"
    and "last_ins (PrivateAd L s) ''Capability'' = Some (AStr (claimID c))"
    by (simp_all add: PrivateAd_def Let_def fold_eval)
qed

theorem public_ad_hides_claim_ids_witness:
  "snd (PublicAd lit_api example_host 0 (example_slot\<lparr>childClaimIDs := [''a'']\<rparr>)) =
   snd (PublicAd lit_api example_host 0 (example_slot\<lparr>childClaimIDs := [''b'']\<rparr>))"
  using public_ad_hides_claim_ids [of "example_slot\<lparr>childClaimIDs := [''a'']\<rparr>"
      "example_slot\<lparr>childClaimIDs := [''b'']\<rparr>" lit_api example_host 0]
  by (simp add: public_eq_def example_slot_def BuildPartitionableSlot_def)

end
