(* ===== verification/Paths.thy ===== *)
theory Paths
  imports Prelude
begin

text \<open>
  The parts of the package \<^verbatim>\<open>path/filepath\<close> (on Unix) and of \<^verbatim>\<open>strings\<close> that the sources use on
  file names: splitting at slashes, \<^verbatim>\<open>Clean\<close>, \<^verbatim>\<open>Join\<close>, \<^verbatim>\<open>Base\<close>, and the lemmas that a cleaned
  path is a sequence of proper components, which the transfer guard and the sandbox paths rest on.
\<close>

text \<open>\<^verbatim>\<open>strings.Split\<close> on a single byte: always at least one piece.\<close>

fun split_on :: "char \<Rightarrow> string \<Rightarrow> string list" where
  "split_on b [] = [[]]"
| "split_on b (ch # s) =
     (if ch = b then [] # split_on b s
      else case split_on b s of [] \<Rightarrow> [[ch]] | p # ps \<Rightarrow> (ch # p) # ps)"

text \<open>\<^verbatim>\<open>strings.Join\<close>.\<close>

fun join_with :: "string \<Rightarrow> string list \<Rightarrow> string" where
  "join_with sep [] = []"
| "join_with sep [p] = p"
| "join_with sep (p # q # ps) = p @ sep @ join_with sep (q # ps)"

text \<open>
  \<^verbatim>\<open>filepath.Clean\<close>: empty components and dots are dropped, a double dot removes the component
  before it, and at the front it is dropped from a rooted path and kept in a relative one. The
  stack holds the components in reverse.
\<close>

definition clean_step :: "bool \<Rightarrow> string list \<Rightarrow> string \<Rightarrow> string list" where
  "clean_step rooted stk p =
     (if p = [] \<or> p = ''.'' then stk
      else if p = ''..'' then
        (case stk of
           [] \<Rightarrow> if rooted then [] else [''..'']
         | prev # rest \<Rightarrow> if prev = ''..'' then ''..'' # stk else rest)
      else p # stk)"

definition clean_parts :: "bool \<Rightarrow> string list \<Rightarrow> string list" where
  "clean_parts rooted ps = rev (foldl (clean_step rooted) [] ps)"

definition Clean :: "string \<Rightarrow> string" where
  "Clean p =
     (let rooted = HasPrefix p ''/''; parts = clean_parts rooted (split_on CHR ''/'' p)
      in if rooted then ''/'' @ join_with ''/'' parts
         else if parts = [] then ''.'' else join_with ''/'' parts)"

fun Join :: "string list \<Rightarrow> string" where
  "Join [] = []"
| "Join (e # es) = (if e \<noteq> [] then Clean (join_with ''/'' (e # es)) else Join es)"

text \<open>\<^verbatim>\<open>filepath.Base\<close>: the last component after trailing slashes are removed.\<close>

definition Base :: "string \<Rightarrow> string" where
  "Base p =
     (if p = [] then ''.''
      else let q = rev (dropWhile (\<lambda>ch. ch = CHR ''/'') (rev p))
           in if q = [] then ''/'' else last (split_on CHR ''/'' q))"

definition IsAbs :: "string \<Rightarrow> bool" where
  "IsAbs p \<longleftrightarrow> HasPrefix p ''/''"

section \<open>Splitting and joining\<close>

lemma split_on_nonempty [simp]: "split_on b s \<noteq> []"
  by (induction b s rule: split_on.induct) (auto split: list.split)

lemma split_on_pieces: "p \<in> set (split_on b s) \<Longrightarrow> b \<notin> set p"
  by (induction b s arbitrary: p rule: split_on.induct)
    (auto split: list.splits if_splits)

lemma split_on_free: "b \<notin> set s \<Longrightarrow> split_on b s = [s]"
  by (induction b s rule: split_on.induct) auto

lemma split_on_append_sep:
  "b \<notin> set p \<Longrightarrow> split_on b (p @ b # s) = p # split_on b s"
  by (induction p) auto

lemma split_join:
  "ps \<noteq> [] \<Longrightarrow> \<forall>p \<in> set ps. b \<notin> set p \<Longrightarrow> split_on b (join_with [b] ps) = ps"
  by (induction "[b]" ps rule: join_with.induct) (auto simp: split_on_free split_on_append_sep)

lemma join_split: "join_with [b] (split_on b s) = s"
proof (induction b s rule: split_on.induct)
  case (2 b ch s)
  obtain p ps where sp: "split_on b s = p # ps" by (cases "split_on b s") auto
  with 2 show ?case by (cases ps) auto
qed simp

lemma split_on_append:
  "split_on b (s @ b # t) = split_on b s @ split_on b t"
proof (induction b s rule: split_on.induct)
  case (2 b ch s)
  obtain p ps where sp: "split_on b s = p # ps" by (cases "split_on b s") auto
  with 2 show ?case by auto
qed simp

section \<open>Cleaned paths\<close>

text \<open>A component that stays: not empty, not a dot, not a double dot, without a slash.\<close>

definition proper :: "string \<Rightarrow> bool" where
  "proper p \<longleftrightarrow> p \<noteq> [] \<and> p \<noteq> ''.'' \<and> p \<noteq> ''..'' \<and> CHR ''/'' \<notin> set p"

text \<open>The components of a cleaned path: proper ones, after double dots when it is relative.\<close>

definition clean_list :: "bool \<Rightarrow> string list \<Rightarrow> bool" where
  "clean_list rooted ps \<longleftrightarrow>
     (\<exists>k qs. ps = replicate k ''..'' @ qs \<and> (\<forall>q \<in> set qs. proper q) \<and> (rooted \<longrightarrow> k = 0))"

lemma clean_step_inv:
  assumes "clean_list rooted (rev stk)" "CHR ''/'' \<notin> set p"
  shows "clean_list rooted (rev (clean_step rooted stk p))"
proof -
  from assms(1) obtain k qs where stk: "rev stk = replicate k ''..'' @ qs"
    and qs: "\<forall>q \<in> set qs. proper q" and k: "rooted \<longrightarrow> k = 0" by (auto simp: clean_list_def)
  consider "p = [] \<or> p = ''.''" | "p = ''..''" | "proper p"
    using assms(2) by (auto simp: proper_def)
  then show ?thesis
  proof cases
    case 1
    then show ?thesis using assms(1) by (simp add: clean_step_def)
  next
    case 2
    show ?thesis
    proof (cases qs rule: rev_cases)
      case Nil
      then have s: "stk = replicate k ''..''" using stk by (metis append_Nil2 rev_replicate rev_rev_ident)
      show ?thesis
      proof (cases k)
        case 0
        then show ?thesis using 2 s
          by (auto simp: clean_step_def clean_list_def intro: exI [of _ "0 :: nat"] exI [of _ "1 :: nat"])
      next
        case (Suc j)
        then have "clean_step rooted stk p = replicate (Suc k) ''..''"
          using 2 s by (simp add: clean_step_def)
        then show ?thesis using k Suc
          by (auto simp: clean_list_def intro!: exI [of _ "Suc k"] simp flip: replicate_Suc)
      qed
    next
      case (snoc qs' q)
      then have "proper q" using qs by simp
      moreover have "stk = q # rev (replicate k ''..'' @ qs')"
        using stk snoc by (metis append.assoc rev_append rev_rev_ident rev_singleton_conv append_Cons append_Nil)
      ultimately have "rev (clean_step rooted stk p) = replicate k ''..'' @ qs'"
        using 2 by (simp add: clean_step_def proper_def)
      then show ?thesis using qs k snoc by (auto simp: clean_list_def)
    qed
  next
    case 3
    then have "rev (clean_step rooted stk p) = replicate k ''..'' @ (qs @ [p])"
      using stk by (simp add: clean_step_def proper_def)
    then show ?thesis using qs k 3 unfolding clean_list_def
      by (intro exI [of _ k] exI [of _ "qs @ [p]"]) auto
  qed
qed

lemma clean_list_Nil [simp]: "clean_list rooted []"
  by (auto simp: clean_list_def intro: exI [of _ 0])

lemma foldl_clean_inv:
  "clean_list rooted (rev stk) \<Longrightarrow> \<forall>p \<in> set ps. CHR ''/'' \<notin> set p \<Longrightarrow>
     clean_list rooted (rev (foldl (clean_step rooted) stk ps))"
  by (induction ps arbitrary: stk) (auto intro: clean_step_inv)

lemma clean_parts_clean:
  "\<forall>p \<in> set ps. CHR ''/'' \<notin> set p \<Longrightarrow> clean_list rooted (clean_parts rooted ps)"
  unfolding clean_parts_def by (rule foldl_clean_inv) simp_all

lemma clean_step_proper [simp]: "proper p \<Longrightarrow> clean_step rooted stk p = p # stk"
  by (simp add: clean_step_def proper_def)

lemma foldl_clean_proper:
  "\<forall>p \<in> set ps. proper p \<Longrightarrow> foldl (clean_step rooted) stk ps = rev ps @ stk"
  by (induction ps arbitrary: stk) auto

lemma clean_parts_proper: "\<forall>p \<in> set ps. proper p \<Longrightarrow> clean_parts rooted ps = ps"
  by (simp add: clean_parts_def foldl_clean_proper)

end
