(* ===== verification/Transport.thy ===== *)
theory Transport
  imports ClassAd Paths
begin

text \<open>
  The control messages between the startd and a starter (\<^verbatim>\<open>internal/starter/transport.go\<close>): the
  message types, their names, and the encoding of each payload as one ClassAd, with the round trips
  that the two sides rely on. The framing of a message on the wire is done by the cedar library.
\<close>

section \<open>Message types\<close>

definition MsgActivate :: int where "MsgActivate = 1"
definition MsgVacateSoft :: int where "MsgVacateSoft = 2"
definition MsgVacateHard :: int where "MsgVacateHard = 3"
definition MsgReattach :: int where "MsgReattach = 4"
definition MsgSyscallConnFollows :: int where "MsgSyscallConnFollows = 5"
definition MsgSuspend :: int where "MsgSuspend = 6"
definition MsgContinue :: int where "MsgContinue = 7"
definition MsgHello :: int where "MsgHello = 101"
definition MsgUpdate :: int where "MsgUpdate = 102"
definition MsgFinal :: int where "MsgFinal = 103"
definition MsgExited :: int where "MsgExited = 104"

lemmas msg_defs = MsgActivate_def MsgVacateSoft_def MsgVacateHard_def MsgReattach_def
  MsgSyscallConnFollows_def MsgSuspend_def MsgContinue_def MsgHello_def MsgUpdate_def
  MsgFinal_def MsgExited_def

definition msg_names :: "(int \<times> string) list" where
  "msg_names =
     [(MsgActivate, ''Activate''), (MsgVacateSoft, ''VacateSoft''), (MsgVacateHard, ''VacateHard''),
      (MsgReattach, ''Reattach''), (MsgSuspend, ''Suspend''), (MsgContinue, ''Continue''),
      (MsgSyscallConnFollows, ''SyscallConnFollows''), (MsgHello, ''Hello''),
      (MsgUpdate, ''Update''), (MsgFinal, ''Final''), (MsgExited, ''Exited'')]"

definition MsgName :: "int \<Rightarrow> string" where
  "MsgName t = (case map_of msg_names t of Some n \<Rightarrow> n | None \<Rightarrow> ''unknown('' @ Itoa t @ '')'')"

section \<open>Reading attributes with a default\<close>

text \<open>An attribute that does not evaluate leaves the zero value of the field.\<close>

definition str_attr :: "'x classad_api_scheme \<Rightarrow> ad \<Rightarrow> string \<Rightarrow> string" where
  "str_attr L ad n = (case EvaluateAttrString L ad n of Some v \<Rightarrow> v | None \<Rightarrow> [])"

definition int_attr :: "'x classad_api_scheme \<Rightarrow> ad \<Rightarrow> string \<Rightarrow> int" where
  "int_attr L ad n = (case EvaluateAttrInt L ad n of Some v \<Rightarrow> v | None \<Rightarrow> 0)"

lemma str_attr_literal:
  "classad_ok L \<Longrightarrow> last_ins ad n = Some (AStr v) \<Longrightarrow> str_attr L ad n = v"
  "classad_ok L \<Longrightarrow> last_ins ad n = (if v = [] then None else Some (AStr v)) \<Longrightarrow> str_attr L ad n = v"
  by (auto simp: str_attr_def go_simps split: if_splits)

lemma int_attr_literal:
  "classad_ok L \<Longrightarrow> last_ins ad n = Some (AInt v) \<Longrightarrow> int_attr L ad n = v"
  "classad_ok L \<Longrightarrow> last_ins ad n = (if p then None else Some (AInt v)) \<Longrightarrow> (p \<Longrightarrow> v = 0) \<Longrightarrow>
     int_attr L ad n = v"
  by (auto simp: int_attr_def go_simps split: if_splits)

section \<open>Activate\<close>

record ActivateMsg =
  am_JobAd :: "ad option"
  am_SlotAd :: "ad option"
  am_SandboxDir :: string
  am_EnvOverlay :: "(string, string) gomap"

text \<open>The lines of the environment overlay, in the order in which the map is visited.\<close>

definition overlay_text :: "(string, string) gomap \<Rightarrow> string" where
  "overlay_text m = join_with [CHR 0x0A] (map (\<lambda>(k, v). k @ ''='' @ v) m)"

definition MarshalActivate :: "'x classad_api_scheme \<Rightarrow> ActivateMsg \<Rightarrow> ad" where
  "MarshalActivate L a =
     (let ad0 = ad_set ''SandboxDir'' (AStr (am_SandboxDir a)) new_ad;
          ad1 = (case am_JobAd a of
                   None \<Rightarrow> ad0
                 | Some j \<Rightarrow> ad_set ''JobAd'' (AStr (StringWithPrivate L j)) ad0);
          ad2 = (case am_SlotAd a of
                   None \<Rightarrow> ad1
                 | Some s \<Rightarrow> ad_set ''SlotAd'' (AStr (AdString L s)) ad1)
      in if am_EnvOverlay a \<noteq> []
         then ad_set ''EnvOverlay'' (AStr (overlay_text (am_EnvOverlay a))) ad2
         else ad2)"

text \<open>\<^verbatim>\<open>strings.Cut\<close> at an equals sign; a line without one, or with an empty name, is skipped.\<close>

definition overlay_line :: "(string, string) gomap \<Rightarrow> string \<Rightarrow> (string, string) gomap" where
  "overlay_line m line =
     (case IndexByte line CHR ''='' of
        None \<Rightarrow> m
      | Some i \<Rightarrow> if i = 0 then m else AList.update (take i line) (drop (Suc i) line) m)"

definition parse_overlay :: "string \<Rightarrow> (string, string) gomap" where
  "parse_overlay s = foldl overlay_line [] (split_on CHR 0x0A s)"

definition parse_embedded :: "'x classad_api_scheme \<Rightarrow> ad \<Rightarrow> string \<Rightarrow> string \<Rightarrow> string + ad option" where
  "parse_embedded L ad attr err =
     (case EvaluateAttrString L ad attr of
        None \<Rightarrow> Inr None
      | Some s \<Rightarrow> if s = [] then Inr None
                  else case ParseAd L s of None \<Rightarrow> Inl err | Some p \<Rightarrow> Inr (Some p))"

definition ParseActivate :: "'x classad_api_scheme \<Rightarrow> ad \<Rightarrow> string + ActivateMsg" where
  "ParseActivate L ad =
     (case parse_embedded L ad ''JobAd'' ''starter: parsing Activate job ad'' of
        Inl e \<Rightarrow> Inl e
      | Inr j \<Rightarrow>
          (case parse_embedded L ad ''SlotAd'' ''starter: parsing Activate slot ad'' of
             Inl e \<Rightarrow> Inl e
           | Inr s \<Rightarrow>
               Inr \<lparr>am_JobAd = j, am_SlotAd = s, am_SandboxDir = str_attr L ad ''SandboxDir'',
                    am_EnvOverlay =
                      (case EvaluateAttrString L ad ''EnvOverlay'' of
                         None \<Rightarrow> []
                       | Some t \<Rightarrow> if t = [] then [] else parse_overlay t)\<rparr>))"

section \<open>VacateSoft, Hello, Final\<close>

record VacateSoftMsg =
  vs_Reason :: string
  vs_MaxVacateTime :: int

definition MarshalVacateSoft :: "VacateSoftMsg \<Rightarrow> ad" where
  "MarshalVacateSoft v =
     ad_set ''MaxVacateTime'' (AInt (vs_MaxVacateTime v)) (ad_set ''Reason'' (AStr (vs_Reason v)) new_ad)"

definition ParseVacateSoft :: "'x classad_api_scheme \<Rightarrow> ad \<Rightarrow> VacateSoftMsg" where
  "ParseVacateSoft L ad =
     \<lparr>vs_Reason = str_attr L ad ''Reason'', vs_MaxVacateTime = int_attr L ad ''MaxVacateTime''\<rparr>"

record HelloMsg =
  h_StarterPid :: int
  h_StarterAddr :: string
  h_ClaimID :: string
  h_JobPid :: int
  h_Phase :: string

definition MarshalHello :: "HelloMsg \<Rightarrow> ad" where
  "MarshalHello h =
     ad_set ''Phase'' (AStr (h_Phase h))
       (ad_set ''JobPid'' (AInt (h_JobPid h))
          (ad_set ''PublicClaimId'' (AStr (h_ClaimID h))
             (ad_set ''StarterAddr'' (AStr (h_StarterAddr h))
                (ad_set ''StarterPid'' (AInt (h_StarterPid h)) new_ad))))"

definition ParseHello :: "'x classad_api_scheme \<Rightarrow> ad \<Rightarrow> HelloMsg" where
  "ParseHello L ad =
     \<lparr>h_StarterPid = int_attr L ad ''StarterPid'', h_StarterAddr = str_attr L ad ''StarterAddr'',
      h_ClaimID = str_attr L ad ''PublicClaimId'', h_JobPid = int_attr L ad ''JobPid'',
      h_Phase = str_attr L ad ''Phase''\<rparr>"

definition finalStatusAttr :: string where "finalStatusAttr = ''_WaitpidStatus''"
definition finalReasonAttr :: string where "finalReasonAttr = ''_ExitReason''"

definition MarshalFinal :: "'x classad_api_scheme \<Rightarrow> ad option \<Rightarrow> int \<Rightarrow> int \<Rightarrow> ad" where
  "MarshalFinal L finalAd status reason =
     (let copied = (case finalAd of
            None \<Rightarrow> new_ad
          | Some f \<Rightarrow> fold (\<lambda>n ad. case AdLookup L f n of None \<Rightarrow> ad | Some e \<Rightarrow> ad_set n e ad)
                       (GetAttributes L f) new_ad)
      in ad_set finalReasonAttr (AInt reason) (ad_set finalStatusAttr (AInt status) copied))"

definition ParseFinal :: "'x classad_api_scheme \<Rightarrow> ad \<Rightarrow> ad \<times> int \<times> int" where
  "ParseFinal L ad = (ad, int_attr L ad finalStatusAttr, int_attr L ad finalReasonAttr)"

section \<open>Round trips\<close>

text \<open>Environment overlays whose names and values survive the line format.\<close>

definition overlay_wf :: "(string, string) gomap \<Rightarrow> bool" where
  "overlay_wf m \<longleftrightarrow> gomap_wf m \<and>
     (\<forall>(k, v) \<in> set m. k \<noteq> [] \<and> CHR ''='' \<notin> set k \<and> CHR 0x0A \<notin> set k \<and> CHR 0x0A \<notin> set v)"

lemma overlay_line_pair:
  "k \<noteq> [] \<Longrightarrow> CHR ''='' \<notin> set k \<Longrightarrow> overlay_line m (k @ ''='' @ v) = AList.update k v m"
  by (simp add: overlay_line_def IndexByte_append)

lemma update_new: "k \<notin> fst ` set m \<Longrightarrow> AList.update k v m = m @ [(k, v)]"
  by (induction m) auto

lemma overlay_lines:
  assumes "gomap_wf (m0 @ m)" "\<forall>(k, v) \<in> set m. k \<noteq> [] \<and> CHR ''='' \<notin> set k"
  shows "foldl overlay_line m0 (map (\<lambda>(k, v). k @ ''='' @ v) m) = m0 @ m"
  using assms
proof (induction m arbitrary: m0)
  case (Cons kv m)
  obtain k v where kv: "kv = (k, v)" by (cases kv)
  have "overlay_line m0 (k @ ''='' @ v) = m0 @ [(k, v)]"
    using Cons.prems kv by (simp add: overlay_line_pair update_new del: append_Cons)
  then show ?case using Cons.IH [of "m0 @ [(k, v)]"] Cons.prems kv by simp
qed simp

lemma overlay_roundtrip:
  assumes "overlay_wf m" "m \<noteq> []"
  shows "parse_overlay (overlay_text m) = m" and "overlay_text m \<noteq> []"
proof -
  have "split_on CHR 0x0A (overlay_text m) = map (\<lambda>(k, v). k @ ''='' @ v) m"
    unfolding overlay_text_def using assms by (intro split_join) (auto simp: overlay_wf_def)
  moreover have "gomap_wf ([] @ m)" "\<forall>(k, v) \<in> set m. k \<noteq> [] \<and> CHR ''='' \<notin> set k"
    using assms(1) by (auto simp: overlay_wf_def)
  ultimately show "parse_overlay (overlay_text m) = m"
    using overlay_lines [of "[]" m] by (simp add: parse_overlay_def)
  show "overlay_text m \<noteq> []"
    using assms(2) by (cases m; cases "tl m") (auto simp: overlay_text_def)
qed

text \<open>What the round trip of an embedded ad relies on: its text is not empty and parses back to it.\<close>

definition text_roundtrip :: "'x classad_api_scheme \<Rightarrow> (ad \<Rightarrow> string) \<Rightarrow> ad \<Rightarrow> bool" where
  "text_roundtrip L print ad \<longleftrightarrow> print ad \<noteq> [] \<and> ParseAd L (print ad) = Some ad"

lemma marshal_activate_attrs:
  "last_ins (MarshalActivate L a) ''SandboxDir'' = Some (AStr (am_SandboxDir a))"
  "last_ins (MarshalActivate L a) ''JobAd'' =
     map_option (\<lambda>j. AStr (StringWithPrivate L j)) (am_JobAd a)"
  "last_ins (MarshalActivate L a) ''SlotAd'' = map_option (\<lambda>j. AStr (AdString L j)) (am_SlotAd a)"
  "last_ins (MarshalActivate L a) ''EnvOverlay'' =
     (if am_EnvOverlay a = [] then None else Some (AStr (overlay_text (am_EnvOverlay a))))"
  by (simp_all add: MarshalActivate_def Let_def fold_eval split: option.split)

lemma parse_embedded_roundtrip:
  assumes "classad_ok L" "last_ins ad attr = map_option (\<lambda>j. AStr (print j)) x"
    "\<forall>j \<in> set_option x. text_roundtrip L print j"
  shows "parse_embedded L ad attr err = Inr x"
  using assms
  by (cases x) (auto simp: parse_embedded_def go_simps text_roundtrip_def)

text \<open>
  The activation a startd sends is the activation its starter reads: decoding the encoded
  message gives back the job ad (private attributes included), the slot ad, the sandbox directory
  and the environment overlay, provided the ClassAd library reads its own text of the two ads and
  the overlay's names and values contain no line break (and the names no equals sign).
\<close>

theorem activate_roundtrip:
  assumes "classad_ok L" "overlay_wf (am_EnvOverlay a)"
    "\<forall>j \<in> set_option (am_JobAd a). text_roundtrip L (StringWithPrivate L) j"
    "\<forall>s \<in> set_option (am_SlotAd a). text_roundtrip L (AdString L) s"
  shows "ParseActivate L (MarshalActivate L a) = Inr a"
proof -
  let ?ad = "MarshalActivate L a"
  have "parse_embedded L ?ad ''JobAd'' e = Inr (am_JobAd a)" for e
    using assms(1,3) by (intro parse_embedded_roundtrip) (simp_all add: marshal_activate_attrs)
  moreover have "parse_embedded L ?ad ''SlotAd'' e = Inr (am_SlotAd a)" for e
    using assms(1,4) by (intro parse_embedded_roundtrip) (simp_all add: marshal_activate_attrs)
  moreover have "str_attr L ?ad ''SandboxDir'' = am_SandboxDir a"
    by (rule str_attr_literal(1) [OF assms(1)]) (rule marshal_activate_attrs)
  moreover have "(case EvaluateAttrString L ?ad ''EnvOverlay'' of
      None \<Rightarrow> [] | Some t \<Rightarrow> if t = [] then [] else parse_overlay t) = am_EnvOverlay a"
    using marshal_activate_attrs(4) [of L a] overlay_roundtrip [OF assms(2)] assms(1)
    by (cases "am_EnvOverlay a = []") (simp_all add: go_simps)
  ultimately show ?thesis by (simp add: ParseActivate_def)
qed

theorem activate_roundtrip_witness:
  "ParseActivate lit_api (MarshalActivate lit_api
      \<lparr>am_JobAd = Some new_ad, am_SlotAd = None, am_SandboxDir = ''/x'',
       am_EnvOverlay = [(''A'', ''1=2''), (''B'', [])]\<rparr>) =
   Inr \<lparr>am_JobAd = Some new_ad, am_SlotAd = None, am_SandboxDir = ''/x'',
        am_EnvOverlay = [(''A'', ''1=2''), (''B'', [])]\<rparr>"
  by (rule activate_roundtrip)
    (simp_all add: classad_ok_literal_reader lit_api_def overlay_wf_def text_roundtrip_def)

text \<open>
  The starter's reports survive their encoding: a Hello and a graceful-vacate request decode to
  what was encoded, and a Final report yields its wait status and its exit reason whatever the job
  ad it carries says about those attributes.
\<close>

theorem report_roundtrip:
  assumes "classad_ok L"
  shows "ParseHello L (MarshalHello h) = h \<and>
    ParseVacateSoft L (MarshalVacateSoft v) = v \<and>
    snd (ParseFinal L (MarshalFinal L finalAd status reason)) = (status, reason)"
proof -
  note s = str_attr_literal(1) [OF assms] and i = int_attr_literal(1) [OF assms]
  have "ParseHello L (MarshalHello h) = h"
    by (intro HelloMsg.equality) (simp_all add: ParseHello_def MarshalHello_def s i fold_eval)
  moreover have "ParseVacateSoft L (MarshalVacateSoft v) = v"
    by (intro VacateSoftMsg.equality)
      (simp_all add: ParseVacateSoft_def MarshalVacateSoft_def s i fold_eval)
  moreover have "snd (ParseFinal L (MarshalFinal L finalAd status reason)) = (status, reason)"
    by (simp add: ParseFinal_def MarshalFinal_def Let_def finalStatusAttr_def finalReasonAttr_def i
        fold_eval)
  ultimately show ?thesis by simp
qed

theorem report_roundtrip_witness:
  "classad_ok lit_api \<and>
   ParseHello lit_api (MarshalHello \<lparr>h_StarterPid = 7, h_StarterAddr = ''<a:1>'', h_ClaimID = ''c'',
      h_JobPid = 0, h_Phase = ''activated''\<rparr>) =
    \<lparr>h_StarterPid = 7, h_StarterAddr = ''<a:1>'', h_ClaimID = ''c'', h_JobPid = 0, h_Phase = ''activated''\<rparr>"
proof -
  have ok: "classad_ok lit_api"
    by (rule classad_ok_literal_reader) (simp_all add: lit_api_def)
  show ?thesis using ok report_roundtrip [OF ok] by simp
qed

end
