(* ===== verification/Persist.thy ===== *)
theory Persist
  imports SlotAd Transport
begin

text \<open>
  The package \<^verbatim>\<open>internal/persist\<close>: the record of one slot's claim, its serialization to a ClassAd and
  back, and the durable store keyed by slot name. The collection that holds the ads on disk belongs
  to the ClassAd library; its operations are the fields of \<open>persist_api\<close> and its state the type
  variable \<open>'c\<close>. The predicate \<open>collection_ok\<close> states what the code relies on: a put that returned no
  error is what a get of that key reads back, other keys are untouched, and a scan visits each stored ad
  once.
\<close>

record 'c persist_api = security_api +
  coll_open :: "string \<Rightarrow> string + 'c"
  coll_put :: "'c \<Rightarrow> string \<Rightarrow> ad \<Rightarrow> string + 'c"
  coll_get :: "'c \<Rightarrow> string \<Rightarrow> ad option"
  coll_delete :: "'c \<Rightarrow> string \<Rightarrow> 'c"
  coll_scan :: "'c \<Rightarrow> ad list"

record Record =
  rec_SlotName :: string
  rec_ClaimID :: string
  rec_PublicClaimID :: string
  rec_State :: string
  rec_Activity :: string
  rec_SlotType :: string
  rec_ParentSlotName :: string
  rec_DSlotSubID :: int
  rec_Cpus :: int
  rec_MemoryMB :: int
  rec_DiskKB :: int
  rec_ScheddAddr :: string
  rec_ScheddName :: string
  rec_User :: string
  rec_ClientMachine :: string
  rec_AliveInterval :: int
  rec_LeaseDeadline :: int
  rec_Entered :: int
  rec_JobAd :: string
  rec_GlobalJobID :: string
  rec_StarterPid :: int
  rec_StarterSocket :: string
  rec_StarterIpAddr :: string
  rec_Sandbox :: string

definition toAd :: "Record \<Rightarrow> ad" where
  "toAd r =
     [(''SlotName'', AStr (rec_SlotName r)), (''ClaimId'', AStr (rec_ClaimID r)),
      (''PublicClaimId'', AStr (rec_PublicClaimID r)), (''State'', AStr (rec_State r)),
      (''Activity'', AStr (rec_Activity r)), (''ScheddAddr'', AStr (rec_ScheddAddr r)),
      (''ScheddName'', AStr (rec_ScheddName r)), (''RemoteUser'', AStr (rec_User r)),
      (''ClientMachine'', AStr (rec_ClientMachine r)),
      (''AliveInterval'', AInt (rec_AliveInterval r)),
      (''LeaseDeadline'', AInt (rec_LeaseDeadline r)),
      (''EnteredCurrentState'', AInt (rec_Entered r))] @
     (if rec_JobAd r \<noteq> [] then [(''JobAd'', AStr (rec_JobAd r))] else []) @
     [(''GlobalJobId'', AStr (rec_GlobalJobID r)), (''StarterPid'', AInt (rec_StarterPid r)),
      (''StarterSocket'', AStr (rec_StarterSocket r)),
      (''StarterIpAddr'', AStr (rec_StarterIpAddr r)), (''Sandbox'', AStr (rec_Sandbox r))] @
     (if rec_SlotType r \<noteq> [] then [(''SlotType'', AStr (rec_SlotType r))] else []) @
     (if rec_ParentSlotName r \<noteq> []
      then [(''ParentSlotName'', AStr (rec_ParentSlotName r)), (''DSlotId'', AInt (rec_DSlotSubID r)),
            (''Cpus'', AInt (rec_Cpus r)), (''Memory'', AInt (rec_MemoryMB r)),
            (''Disk'', AInt (rec_DiskKB r))]
      else [])"

definition recordFromAd :: "'x classad_api_scheme \<Rightarrow> ad \<Rightarrow> Record" where
  "recordFromAd L ad =
     \<lparr>rec_SlotName = str_attr L ad ''SlotName'', rec_ClaimID = str_attr L ad ''ClaimId'',
      rec_PublicClaimID = str_attr L ad ''PublicClaimId'', rec_State = str_attr L ad ''State'',
      rec_Activity = str_attr L ad ''Activity'', rec_SlotType = str_attr L ad ''SlotType'',
      rec_ParentSlotName = str_attr L ad ''ParentSlotName'',
      rec_DSlotSubID = int_attr L ad ''DSlotId'', rec_Cpus = int_attr L ad ''Cpus'',
      rec_MemoryMB = int_attr L ad ''Memory'', rec_DiskKB = int_attr L ad ''Disk'',
      rec_ScheddAddr = str_attr L ad ''ScheddAddr'', rec_ScheddName = str_attr L ad ''ScheddName'',
      rec_User = str_attr L ad ''RemoteUser'', rec_ClientMachine = str_attr L ad ''ClientMachine'',
      rec_AliveInterval = int_attr L ad ''AliveInterval'',
      rec_LeaseDeadline = int_attr L ad ''LeaseDeadline'',
      rec_Entered = int_attr L ad ''EnteredCurrentState'', rec_JobAd = str_attr L ad ''JobAd'',
      rec_GlobalJobID = str_attr L ad ''GlobalJobId'', rec_StarterPid = int_attr L ad ''StarterPid'',
      rec_StarterSocket = str_attr L ad ''StarterSocket'',
      rec_StarterIpAddr = str_attr L ad ''StarterIpAddr'', rec_Sandbox = str_attr L ad ''Sandbox''\<rparr>"

section \<open>The store\<close>

record 'c Store =
  coll :: 'c
  dir :: string

text \<open>\<open>mkdir\<close> is the outcome of \<^verbatim>\<open>os.MkdirAll\<close>.\<close>

definition Open :: "('c, 'x) persist_api_scheme \<Rightarrow> (string \<Rightarrow> string + unit) \<Rightarrow> string \<Rightarrow> string + 'c Store" where
  "Open L mkdir d =
     (if d = [] then Inl ''persist: empty claims directory''
      else case mkdir d of
        Inl err \<Rightarrow> Inl (''persist: creating claims dir '' @ d @ '': '' @ err)
      | Inr _ \<Rightarrow> (case coll_open L d of
            Inl err \<Rightarrow> Inl (''persist: opening claims collection at '' @ d @ '': '' @ err)
          | Inr c \<Rightarrow> Inr \<lparr>coll = c, dir = d\<rparr>))"

definition Put :: "('c, 'x) persist_api_scheme \<Rightarrow> Record \<Rightarrow> 'c Store \<Rightarrow> string + 'c Store" where
  "Put L r s =
     (if rec_SlotName r = [] then Inl ''persist: record has empty SlotName (the store key)''
      else case coll_put L (coll s) (rec_SlotName r) (toAd r) of
        Inl err \<Rightarrow> Inl (''persist: committing claim record for '' @ rec_SlotName r @ '': '' @ err)
      | Inr c \<Rightarrow> Inr (s\<lparr>coll := c\<rparr>))"

definition Get :: "('c, 'x) persist_api_scheme \<Rightarrow> 'c Store \<Rightarrow> string \<Rightarrow> Record option" where
  "Get L s slotName = map_option (recordFromAd L) (coll_get L (coll s) slotName)"

definition Delete :: "('c, 'x) persist_api_scheme \<Rightarrow> string \<Rightarrow> 'c Store \<Rightarrow> 'c Store" where
  "Delete L slotName s = s\<lparr>coll := coll_delete L (coll s) slotName\<rparr>"

definition store_List :: "('c, 'x) persist_api_scheme \<Rightarrow> 'c Store \<Rightarrow> Record list" where
  "store_List L s = map (recordFromAd L) (coll_scan L (coll s))"

section \<open>Round trips\<close>

text \<open>Two ads are equivalent when every attribute has the same latest insertion.\<close>

definition ad_equiv :: "ad \<Rightarrow> ad \<Rightarrow> bool" where
  "ad_equiv a b \<longleftrightarrow> (\<forall>n. last_ins a n = last_ins b n)"

definition collection_ok :: "('c, 'x) persist_api_scheme \<Rightarrow> bool" where
  "collection_ok L \<longleftrightarrow>
     (\<forall>c k ad c'. coll_put L c k ad = Inr c' \<longrightarrow>
        (\<exists>ad'. coll_get L c' k = Some ad' \<and> ad_equiv ad' ad) \<and>
        (\<forall>k'. k' \<noteq> k \<longrightarrow> coll_get L c' k' = coll_get L c k')) \<and>
     (\<forall>c k k'. coll_get L (coll_delete L c k) k' = (if k' = k then None else coll_get L c k')) \<and>
     (\<forall>c. \<exists>ks. distinct ks \<and> set ks = dom (coll_get L c) \<and> map Some (coll_scan L c) = map (coll_get L c) ks)"

text \<open>
  A record without a parent slot does not write the fields of a dynamic slot, so they have to be
  zero for the record to be read back.
\<close>

definition record_wf :: "Record \<Rightarrow> bool" where
  "record_wf r \<longleftrightarrow> rec_ParentSlotName r = [] \<longrightarrow>
     rec_DSlotSubID r = 0 \<and> rec_Cpus r = 0 \<and> rec_MemoryMB r = 0 \<and> rec_DiskKB r = 0"

lemma collection_putD:
  assumes "collection_ok L" "coll_put L c k ad = Inr c'"
  shows "\<exists>ad'. coll_get L c' k = Some ad' \<and> ad_equiv ad' ad"
    and "k' \<noteq> k \<Longrightarrow> coll_get L c' k' = coll_get L c k'"
  using assms by (simp_all add: collection_ok_def)

lemma collection_scan:
  assumes "collection_ok L"
  shows "set (coll_scan L c) = ran (coll_get L c)"
proof -
  obtain ks where ks: "set ks = dom (coll_get L c)" "map Some (coll_scan L c) = map (coll_get L c) ks"
    using assms unfolding collection_ok_def by metis
  from arg_cong [OF ks(2), of set] have "Some ` set (coll_scan L c) = coll_get L c ` dom (coll_get L c)" using ks(1) by simp
  then have "Some x \<in> Some ` set (coll_scan L c) \<longleftrightarrow> Some x \<in> coll_get L c ` dom (coll_get L c)" for x by simp
  moreover have "Some x \<in> coll_get L c ` dom (coll_get L c) \<longleftrightarrow> x \<in> ran (coll_get L c)" for x by (force simp: ran_def)
  ultimately show ?thesis by (auto simp: inj_image_mem_iff)
qed

lemma toAd_literals:
  "last_ins (toAd r) ''SlotName'' = Some (AStr (rec_SlotName r))"
  "last_ins (toAd r) ''ClaimId'' = Some (AStr (rec_ClaimID r))"
  "last_ins (toAd r) ''PublicClaimId'' = Some (AStr (rec_PublicClaimID r))"
  "last_ins (toAd r) ''State'' = Some (AStr (rec_State r))"
  "last_ins (toAd r) ''Activity'' = Some (AStr (rec_Activity r))"
  "last_ins (toAd r) ''ScheddAddr'' = Some (AStr (rec_ScheddAddr r))"
  "last_ins (toAd r) ''ScheddName'' = Some (AStr (rec_ScheddName r))"
  "last_ins (toAd r) ''RemoteUser'' = Some (AStr (rec_User r))"
  "last_ins (toAd r) ''ClientMachine'' = Some (AStr (rec_ClientMachine r))"
  "last_ins (toAd r) ''AliveInterval'' = Some (AInt (rec_AliveInterval r))"
  "last_ins (toAd r) ''LeaseDeadline'' = Some (AInt (rec_LeaseDeadline r))"
  "last_ins (toAd r) ''EnteredCurrentState'' = Some (AInt (rec_Entered r))"
  "last_ins (toAd r) ''GlobalJobId'' = Some (AStr (rec_GlobalJobID r))"
  "last_ins (toAd r) ''StarterPid'' = Some (AInt (rec_StarterPid r))"
  "last_ins (toAd r) ''StarterSocket'' = Some (AStr (rec_StarterSocket r))"
  "last_ins (toAd r) ''StarterIpAddr'' = Some (AStr (rec_StarterIpAddr r))"
  "last_ins (toAd r) ''Sandbox'' = Some (AStr (rec_Sandbox r))"
  "last_ins (toAd r) ''JobAd'' = (if rec_JobAd r = [] then None else Some (AStr (rec_JobAd r)))"
  "last_ins (toAd r) ''SlotType'' =
     (if rec_SlotType r = [] then None else Some (AStr (rec_SlotType r)))"
  by (simp_all add: toAd_def last_ins_append last_ins_Cons fold_eval)

lemma toAd_dslot_literals:
  "last_ins (toAd r) ''ParentSlotName'' =
     (if rec_ParentSlotName r = [] then None else Some (AStr (rec_ParentSlotName r)))"
  "last_ins (toAd r) ''DSlotId'' =
     (if rec_ParentSlotName r = [] then None else Some (AInt (rec_DSlotSubID r)))"
  "last_ins (toAd r) ''Cpus'' =
     (if rec_ParentSlotName r = [] then None else Some (AInt (rec_Cpus r)))"
  "last_ins (toAd r) ''Memory'' =
     (if rec_ParentSlotName r = [] then None else Some (AInt (rec_MemoryMB r)))"
  "last_ins (toAd r) ''Disk'' =
     (if rec_ParentSlotName r = [] then None else Some (AInt (rec_DiskKB r)))"
  by (simp_all add: toAd_def last_ins_append last_ins_Cons fold_eval)

lemma recordFromAd_equiv:
  assumes ok: "classad_ok L" and eq: "ad_equiv ad (toAd r)" and wf: "record_wf r"
  shows "recordFromAd L ad = r"
proof -
  have l: "last_ins ad n = last_ins (toAd r) n" for n using eq by (simp add: ad_equiv_def)
  have "str_attr L ad ''JobAd'' = rec_JobAd r" "str_attr L ad ''SlotType'' = rec_SlotType r"
    "str_attr L ad ''ParentSlotName'' = rec_ParentSlotName r"
    by (rule str_attr_literal(2) [OF ok], simp add: l toAd_literals toAd_dslot_literals)+
  moreover have "int_attr L ad ''DSlotId'' = rec_DSlotSubID r" "int_attr L ad ''Cpus'' = rec_Cpus r"
    "int_attr L ad ''Memory'' = rec_MemoryMB r" "int_attr L ad ''Disk'' = rec_DiskKB r"
    using wf by (rule_tac int_attr_literal(2) [OF ok, where p = "rec_ParentSlotName r = []"];
        simp add: l toAd_dslot_literals record_wf_def)+
  ultimately show ?thesis
    by (intro Record.equality)
      (simp_all add: recordFromAd_def str_attr_literal(1) [OF ok] int_attr_literal(1) [OF ok] l
        toAd_literals)
qed

text \<open>
  C26. A claim record survives the store: after a put that reported no error, a get of the record's
  slot returns exactly that record, every other slot's record is untouched, the record is among
  those a restarted startd enumerates, and deleting it removes it. The record is one in which the fields of a dynamic slot are zero when it names no parent,
  as every record the startd writes. A record without a slot name and
  a store without a directory are refused.
\<close>

theorem store_roundtrip:
  assumes "classad_ok L" "collection_ok L" "record_wf r" "Put L r s = Inr s'"
  shows "Get L s' (rec_SlotName r) = Some r \<and>
    (\<forall>k. k \<noteq> rec_SlotName r \<longrightarrow> Get L s' k = Get L s k) \<and>
    r \<in> set (store_List L s') \<and>
    Get L (Delete L (rec_SlotName r) s') (rec_SlotName r) = None \<and>
    Put L (r\<lparr>rec_SlotName := []\<rparr>) s = Inl ''persist: record has empty SlotName (the store key)'' \<and>
    Open L mkdir [] = Inl ''persist: empty claims directory''"
proof -
  from assms(4) obtain c where put: "coll_put L (coll s) (rec_SlotName r) (toAd r) = Inr c"
    and s': "s' = s\<lparr>coll := c\<rparr>"
    by (auto simp: Put_def split: if_splits sum.splits)
  from collection_putD(1) [OF assms(2) put] obtain ad
    where get: "coll_get L c (rec_SlotName r) = Some ad" and eq: "ad_equiv ad (toAd r)" by blast
  note other = collection_putD(2) [OF assms(2) put]
  note scan = collection_scan [OF assms(2), of c]
  have del: "coll_get L (coll_delete L c (rec_SlotName r)) (rec_SlotName r) = None"
    using assms(2) by (simp add: collection_ok_def)
  have r: "recordFromAd L ad = r" by (rule recordFromAd_equiv [OF assms(1) eq assms(3)])
  have "ad \<in> set (coll_scan L c)" using get scan by (auto simp: ran_def)
  with r have "r \<in> set (store_List L s')" by (force simp: store_List_def s')
  with get r other del show ?thesis
    by (simp add: Get_def Delete_def s' Put_def Open_def)
qed

text \<open>An instance of the collection: an association list from keys to ads.\<close>

definition example_mint :: "MintClaimOptions \<Rightarrow> string + Minted" where
  "example_mint o' = Inr \<lparr>minted_ClaimID = ''claim#'' @ Itoa (opt_SequenceNum o'),
     minted_PublicClaimID = ''claim#...'', minted_SessionID = ''session#'' @ Itoa (opt_SequenceNum o')\<rparr>"

definition example_lib :: "(string, ad) gomap persist_api" where
  "example_lib =
     \<lparr>EvaluateAttrString = lit_string, EvaluateAttrInt = lit_int, EvaluateAttrReal = lit_real,
      EvaluateAttrBool = lit_bool, EvaluateTargetBool = lit_requirements,
      ParseExpr = ParseExpr lit_api, Quote = Quote lit_api, AdLookup = last_ins,
      GetAttributes = map fst, AdString = AdString lit_api,
      StringWithPrivate = StringWithPrivate lit_api, ParseAd = ParseAd lit_api,
      float_oob = float_oob lit_api, MintClaimSession = example_mint,
      ImportClaimSession = (\<lambda>cid addr cmds. Inr ()), SecSessionID = (\<lambda>cid. cid),
      coll_open = (\<lambda>d. Inr []), coll_put = (\<lambda>c k ad. Inr (AList.update k ad c)),
      coll_get = map_of, coll_delete = (\<lambda>c k. AList.delete k c),
      coll_scan = (\<lambda>c. map snd (AList.clearjunk c))\<rparr>"

lemma example_lib_classad_ok: "classad_ok example_lib"
  by (rule classad_ok_literal_reader) (simp_all add: example_lib_def)

lemma example_lib_collection_ok: "collection_ok example_lib"
proof -
  have "\<exists>ks. distinct ks \<and> set ks = dom (map_of c) \<and> map Some (map snd (AList.clearjunk c)) = map (map_of c) ks"
    for c :: "(string, ad) gomap"
  proof (intro exI conjI)
    show "distinct (map fst (AList.clearjunk c))" by (rule distinct_clearjunk)
    show "set (map fst (AList.clearjunk c)) = dom (map_of c)" by (metis dom_clearjunk dom_map_of_conv_image_fst list.set_map)
    have "map_of (AList.clearjunk c) k = Some v" if "(k, v) \<in> set (AList.clearjunk c)" for k v
      using that distinct_clearjunk by (rule map_of_is_SomeI [rotated])
    then show "map Some (map snd (AList.clearjunk c)) = map (map_of c) (map fst (AList.clearjunk c))"
      by (auto simp: map_of_clearjunk)
  qed
  then show ?thesis by (auto simp: collection_ok_def example_lib_def ad_equiv_def)
qed

definition example_record :: Record where
  "example_record =
     \<lparr>rec_SlotName = ''slot1@h'', rec_ClaimID = ''claim#1'', rec_PublicClaimID = ''claim#...'',
      rec_State = ''Claimed'', rec_Activity = ''Busy'', rec_SlotType = ''Static'',
      rec_ParentSlotName = [], rec_DSlotSubID = 0, rec_Cpus = 0, rec_MemoryMB = 0, rec_DiskKB = 0,
      rec_ScheddAddr = ''<s:1>'', rec_ScheddName = ''s'', rec_User = ''u'', rec_ClientMachine = ''m'',
      rec_AliveInterval = 300, rec_LeaseDeadline = 1800, rec_Entered = 5, rec_JobAd = [],
      rec_GlobalJobID = ''s#1.0'', rec_StarterPid = 0, rec_StarterSocket = [],
      rec_StarterIpAddr = [], rec_Sandbox = ''/x''\<rparr>"

theorem store_roundtrip_witness:
  "Get example_lib \<lparr>coll = [(''slot1@h'', toAd example_record)], dir = ''/d''\<rparr> ''slot1@h'' =
     Some example_record"
proof -
  have "Put example_lib example_record \<lparr>coll = [], dir = ''/d''\<rparr> =
      Inr \<lparr>coll = [(''slot1@h'', toAd example_record)], dir = ''/d''\<rparr>"
    by (simp add: Put_def example_record_def example_lib_def)
  from store_roundtrip [OF example_lib_classad_ok example_lib_collection_ok _ this]
  show ?thesis by (simp add: record_wf_def example_record_def)
qed

end
