(* ===== verification/Core.thy ===== *)
theory Core
  imports Persist
begin

text \<open>
  The state of the startd's single-writer event loop (\<^verbatim>\<open>internal/startd/startd.go\<close>) and the
  operations all of its handlers share: the slot registry, the persister that writes claim records
  behind the loop, the event queue, and the advertising of slots (\<^verbatim>\<open>internal/advertise\<close>).

  Slots are shared by pointer between the configured set, the live dynamic set and the index by
  name, so the state keeps a heap of slots and the registries hold references into it. What the loop
  does to the outside (messages to collectors, replies on channels, goroutines started, contexts
  cancelled) is appended, in order, to the field \<open>out\<close>. Everything the environment answers during
  one event (the clock, the collectors, the outcomes of system calls, the order in which a map is
  visited) is the argument of type \<open>world\<close>; the clock is read once for the handler and once for the
  ads of an event.
\<close>

section \<open>Events\<close>

record evRequestClaim =
  rc_claimID :: string
  rc_reqAd :: ad
  rc_scheddAddr :: string
  rc_aliveInterval :: int
  rc_clientMachine :: string

record evMatchTimeout =
  mt_slotName :: string
  mt_claimID :: string

record evReleaseSlot =
  rs_slotName :: string
  rs_reason :: string

record evActivateClaim =
  ac_claimID :: string
  ac_jobAd :: ad

record evStarterUpdate =
  su_slotName :: string
  su_ad :: ad

record evStarterFinal =
  sf_slotName :: string
  sf_ad :: "ad option"
  sf_status :: int
  sf_reason :: int

record evStarterHello =
  sh_slotName :: string
  sh_starterAddr :: string
  sh_starterPid :: int
  sh_jobPid :: int

record evLocateStarter =
  ls_claimID :: string
  ls_globalJobID :: string

record evDeactivate =
  de_claimID :: string
  de_command :: int

record evVacate =
  va_slotName :: string
  va_hard :: bool

record evVacateEscalate =
  ve_slotName :: string
  ve_gen :: int

text \<open>The reply channel of an event that has one is the corresponding reply in \<open>out\<close>.\<close>

datatype Event =
    EvReschedule
  | EvMatchInfo string
  | EvMatchTimeout evMatchTimeout
  | EvRequestClaim evRequestClaim
  | EvReleaseClaim string
  | EvReleaseSlot evReleaseSlot
  | EvAliveOK string
  | EvActivateClaim evActivateClaim
  | EvStarterUpdate evStarterUpdate
  | EvStarterFinal evStarterFinal
  | EvStarterExited string
  | EvStarterHello evStarterHello
  | EvLocateStarter evLocateStarter
  | EvAdopt
  | EvAdoptFailed string
  | EvDeactivate evDeactivate
  | EvVacate evVacate
  | EvVacateEscalate evVacateEscalate

section \<open>Replies and effects\<close>

record claimedSlotReply =
  cs_claimID :: string
  cs_ad :: ad

record leftoverReply =
  lo_secure :: bool
  lo_claimID :: string
  lo_ad :: ad

record claimDecision =
  cd_accept :: bool
  cd_claimedSlots :: "claimedSlotReply list"
  cd_leftovers :: "leftoverReply option"

text \<open>The startd's side of a starter transport: an in-process pair, or the path of a Unix socket.\<close>

datatype transport = InprocPair | UnixStartd string

record activateDecision =
  ad_code :: int
  ad_transport :: "transport option"
  ad_slotName :: string

record deactivateDecision =
  dd_known :: bool
  dd_closing :: bool
  dd_slotName :: string
  dd_deferred :: bool
  dd_wait :: "nat option"

record LocateResult =
  Found :: bool
  StarterAddr :: string

text \<open>
  Goroutines with a cancellable context and channels are named by a number that is never reused.
\<close>

datatype effect =
    SentAds string ad ad "string list"
  | SentInvalidate string ad "string list"
  | ReplyClaim claimDecision
  | ReplyActivate activateDecision
  | ReplyDeactivate deactivateDecision
  | ReplyLocate LocateResult
  | AdoptDone
  | GoMatchTimer nat string string duration
  | GoAliveLoop nat string string string duration duration
  | GoStarter nat string
  | GoSupervisor nat string transport "ad option" bool
  | GoReaper string int
  | GoKillBackstop int duration
  | GoVacateTimer string int duration
  | QueuedVacate string int
  | Spawned string "string list"
  | CancelCtx nat
  | CloseTransport transport
  | CloseChan nat

section \<open>The environment of one event\<close>

record exitMarker =
  WaitpidStatus :: int
  em_Reason :: int
  FinalAd :: string
  ExitTime :: int

text \<open>
  \<open>exit_file\<close> answers the contents of a marker file, \<open>None\<close> when it is missing or is not the JSON
  of a marker; \<open>visit\<close> is the order in which a map with the given keys is visited.
\<close>

record world =
  now :: time
  adNow :: time
  whost :: host
  collectors :: "string list"
  Getpid :: int
  MkdirAll :: "string \<Rightarrow> string + unit"
  StartCmd :: "string \<Rightarrow> string list \<Rightarrow> string + int"
  sha256 :: "string \<Rightarrow> string"
  exit_file :: "string \<Rightarrow> exitMarker option"
  visit :: "string list \<Rightarrow> string list"

text \<open>Ranging over a map visits each of its keys once, in any order.\<close>

definition visits_all :: "world \<Rightarrow> bool" where
  "visits_all w \<longleftrightarrow> (\<forall>ks. set (visit w ks) = set ks \<and> (distinct ks \<longrightarrow> distinct (visit w ks)))"

section \<open>State\<close>

record activation =
  act_cancel :: nat
  act_transport :: transport
  vacateCh :: "int list"
  sandbox :: string
  jobAd :: "ad option"
  globalJID :: string
  starterAddr :: string
  starterCmd :: bool
  starterPid :: int
  socketPath :: string
  adopted :: bool
  gen :: int
  vacating :: bool

text \<open>\<open>batch\<close> is the local variable of \<^verbatim>\<open>flush\<close>: what the writer has taken and not yet committed.\<close>

record persister =
  pending :: "(string, Record) gomap"
  wake :: bool
  batch :: "Record list"

type_synonym slotref = nat

record 'c Core =
  heap :: "Slot list"
  slots :: "slotref list"
  adv :: bool
  interval :: duration
  minter :: "Minter option"
  alivesMissed :: int
  matchTimeout :: duration
  matchCancels :: "(string, nat) gomap"
  byName :: "(string, slotref) gomap"
  dslots :: "slotref list"
  dslotSeq :: int
  aliveCancels :: "(string, nat) gomap"
  executeDir :: string
  starterUpdate :: duration
  uidDomain :: string
  fsDomain :: string
  activations :: "(string, activation) gomap"
  sandboxSeq :: int
  starter_mode :: string
  starterPath :: string
  starterSocketDir :: string
  killing_timeout :: duration
  max_vacate_time :: duration
  store :: "'c Store option"
  persister_of :: "persister option"
  activationGen :: int
  deferredDeactivate :: "(string, nat) gomap"
  events :: "Event list"
  fresh :: nat
  out :: "effect list"

definition slot_at :: "'c Core \<Rightarrow> slotref \<Rightarrow> Slot" where
  "slot_at c r = heap c ! r"

definition on_slot :: "slotref \<Rightarrow> (Slot \<Rightarrow> Slot) \<Rightarrow> 'c Core \<Rightarrow> 'c Core" where
  "on_slot r f c = c\<lparr>heap := (heap c)[r := f (heap c ! r)]\<rparr>"

definition emit :: "effect \<Rightarrow> 'c Core \<Rightarrow> 'c Core" where
  "emit e c = c\<lparr>out := out c @ [e]\<rparr>"

section \<open>Registry\<close>

definition LiveSlots :: "'c Core \<Rightarrow> slotref list" where
  "LiveSlots c = slots c @ dslots c"

definition addDSlot :: "Slot \<Rightarrow> 'c Core \<Rightarrow> 'c Core" where
  "addDSlot d c =
     (let r = length (heap c)
      in c\<lparr>heap := heap c @ [d], byName := AList.update (Name d) r (byName c),
           dslots := dslots c @ [r]\<rparr>)"

fun drop_named :: "Slot list \<Rightarrow> string \<Rightarrow> slotref list \<Rightarrow> slotref list" where
  "drop_named h n [] = []"
| "drop_named h n (r # rs) = (if Name (h ! r) = n then rs else r # drop_named h n rs)"

definition removeDSlot :: "string \<Rightarrow> 'c Core \<Rightarrow> 'c Core" where
  "removeDSlot n c =
     c\<lparr>byName := AList.delete n (byName c), dslots := drop_named (heap c) n (dslots c)\<rparr>"

definition has_claim_id :: "string \<Rightarrow> Slot \<Rightarrow> bool" where
  "has_claim_id cid s = (case slot_claim s of None \<Rightarrow> False | Some cl \<Rightarrow> claimID cl = cid)"

definition findSlotByClaimID :: "string \<Rightarrow> 'c Core \<Rightarrow> slotref option" where
  "findSlotByClaimID cid c = List.find (\<lambda>r. has_claim_id cid (slot_at c r)) (LiveSlots c)"

section \<open>Options\<close>

definition starterModeGoroutine :: string where "starterModeGoroutine = ''goroutine''"
definition starterModeProcess :: string where "starterModeProcess = ''process''"

definition starterMode :: "string \<Rightarrow> string" where
  "starterMode v = (if v = starterModeProcess then starterModeProcess else starterModeGoroutine)"

definition killingTimeout :: "duration \<Rightarrow> duration" where
  "killingTimeout d = (if d \<le> 0 then 30 * second else d)"

definition maxVacateTime :: "duration \<Rightarrow> duration \<Rightarrow> duration" where
  "maxVacateTime d killing = (if d > 0 then d else killingTimeout killing)"

record 'c Options =
  opt_Slots :: "Slot list"
  opt_Advertiser :: bool
  opt_UpdateInterval :: duration
  opt_Minter :: "Minter option"
  opt_AlivesMissed :: int
  opt_MatchTimeout :: duration
  opt_ExecuteDir :: string
  opt_StarterUpdateInterval :: duration
  opt_UIDDomain :: string
  opt_FileSystemDomain :: string
  opt_StarterMode :: string
  opt_StarterPath :: string
  opt_StarterSocketDir :: string
  opt_KillingTimeout :: duration
  opt_MaxVacateTime :: duration
  opt_Store :: "'c Store option"

section \<open>The persister\<close>

definition newPersister :: persister where
  "newPersister = \<lparr>pending = [], wake = False, batch = []\<rparr>"

text \<open>The wake channel has room for one signal; a second signal is dropped.\<close>

definition persister_put :: "Record \<Rightarrow> persister \<Rightarrow> persister" where
  "persister_put r p = p\<lparr>pending := AList.update (rec_SlotName r) r (pending p), wake := True\<rparr>"

definition slot_record :: "('c, 'x) persist_api_scheme \<Rightarrow> Slot \<Rightarrow> Claim \<Rightarrow> activation option \<Rightarrow> Record" where
  "slot_record L s cl act =
     \<lparr>rec_SlotName = Name s, rec_ClaimID = claimID cl, rec_PublicClaimID = publicClaimID cl,
      rec_State = slot_state s, rec_Activity = activity s, rec_SlotType = SlotType s,
      rec_ParentSlotName = (if IsDynamic s then ParentName s else []),
      rec_DSlotSubID = (if IsDynamic s then SubID s else 0),
      rec_Cpus = (if IsDynamic s then Cpus (Res s) else 0),
      rec_MemoryMB = (if IsDynamic s then MemoryMB (Res s) else 0),
      rec_DiskKB = (if IsDynamic s then DiskKB (Res s) else 0),
      rec_ScheddAddr = scheddAddr cl, rec_ScheddName = scheddName cl, rec_User = user cl,
      rec_ClientMachine = clientMachine cl, rec_AliveInterval = aliveInterval cl,
      rec_LeaseDeadline = (if leaseDeadline cl = zero_time then 0 else unix (leaseDeadline cl)),
      rec_Entered = EnteredCurrentState cl,
      rec_JobAd = (case act of
          Some a \<Rightarrow> (case jobAd a of Some j \<Rightarrow> StringWithPrivate L j | None \<Rightarrow> [])
        | None \<Rightarrow> []),
      rec_GlobalJobID = (case act of Some a \<Rightarrow> globalJID a | None \<Rightarrow> []),
      rec_StarterPid = (case act of Some a \<Rightarrow> starterPid a | None \<Rightarrow> 0),
      rec_StarterSocket = (case act of Some a \<Rightarrow> socketPath a | None \<Rightarrow> []),
      rec_StarterIpAddr = (case act of Some a \<Rightarrow> starterAddr a | None \<Rightarrow> []),
      rec_Sandbox = (case act of Some a \<Rightarrow> sandbox a | None \<Rightarrow> [])\<rparr>"

definition persistSlot :: "('c, 'x) persist_api_scheme \<Rightarrow> slotref \<Rightarrow> 'c Core \<Rightarrow> 'c Core" where
  "persistSlot L r c =
     (case persister_of c of
        None \<Rightarrow> c
      | Some p \<Rightarrow>
          (let s = slot_at c r
           in case slot_claim s of
                None \<Rightarrow> c
              | Some cl \<Rightarrow>
                  c\<lparr>persister_of :=
                      Some (persister_put (slot_record L s cl (map_of (activations c) (Name s))) p)\<rparr>))"

definition commit :: "('c, 'x) persist_api_scheme \<Rightarrow> Record \<Rightarrow> 'c Core \<Rightarrow> 'c Core" where
  "commit L r c =
     (case store c of
        None \<Rightarrow> c
      | Some st \<Rightarrow> (case Put L r st of Inl err \<Rightarrow> c | Inr st' \<Rightarrow> c\<lparr>store := Some st'\<rparr>))"

text \<open>
  The writer goroutine: woken (or told to stop), it takes the whole pending map and commits its
  records one after the other, in the order in which the map is visited. The event loop runs on in the meantime, so a
  step of the writer (\<open>persister_run\<close>) is the receipt of a wake-up or one commit; \<open>flush\<close> is a whole round.
\<close>

definition take_batch :: "world \<Rightarrow> persister \<Rightarrow> persister" where
  "take_batch w p =
     (if pending p = [] then p
      else p\<lparr>pending := [], batch := List.map_filter (map_of (pending p)) (visit w (map fst (pending p)))\<rparr>)"

definition flush :: "('c, 'x) persist_api_scheme \<Rightarrow> world \<Rightarrow> 'c Core \<Rightarrow> 'c Core" where
  "flush L w c =
     (case persister_of c of
        None \<Rightarrow> c
      | Some p \<Rightarrow>
          (let q = take_batch w p in fold (commit L) (batch q) (c\<lparr>persister_of := Some (q\<lparr>batch := []\<rparr>)\<rparr>)))"

definition persister_run :: "('c, 'x) persist_api_scheme \<Rightarrow> world \<Rightarrow> 'c Core \<Rightarrow> 'c Core" where
  "persister_run L w c =
     (case persister_of c of
        None \<Rightarrow> c
      | Some p \<Rightarrow>
          (case batch p of
             r # rs \<Rightarrow> commit L r (c\<lparr>persister_of := Some (p\<lparr>batch := rs\<rparr>)\<rparr>)
           | [] \<Rightarrow> if wake p then c\<lparr>persister_of := Some (take_batch w (p\<lparr>wake := False\<rparr>))\<rparr> else c))"

text \<open>Told to stop, the writer finishes the round it is in and makes a last one.\<close>

definition persister_stop :: "('c, 'x) persist_api_scheme \<Rightarrow> world \<Rightarrow> 'c Core \<Rightarrow> 'c Core" where
  "persister_stop L w c =
     (case persister_of c of
        None \<Rightarrow> c
      | Some p \<Rightarrow> flush L w (fold (commit L) (batch p) (c\<lparr>persister_of := Some (p\<lparr>batch := []\<rparr>)\<rparr>)))"

section \<open>Construction\<close>

fun prime_slots :: "'x security_api_scheme \<Rightarrow> Minter \<Rightarrow> Slot list \<Rightarrow> Minter \<times> Slot list" where
  "prime_slots L m [] = (m, [])"
| "prime_slots L m (s # ss) =
     (let (m', res) = Mint L m; (m'', ss') = prime_slots L m' ss
      in (m'', (case res of Inl err \<Rightarrow> s | Inr cl \<Rightarrow> SetClaim (Some cl) s) # ss'))"

definition prime :: "('c, 'x) persist_api_scheme \<Rightarrow> 'c Core \<Rightarrow> 'c Core" where
  "prime L c =
     (case minter c of
        None \<Rightarrow> c
      | Some m \<Rightarrow> (let (m', ss) = prime_slots L m (heap c) in c\<lparr>minter := Some m', heap := ss\<rparr>))"

fun index_names :: "Slot list \<Rightarrow> nat \<Rightarrow> (string, slotref) gomap \<Rightarrow> (string, slotref) gomap" where
  "index_names [] r m = m"
| "index_names (s # ss) r m = index_names ss (Suc r) (AList.update (Name s) r m)"

definition New :: "('c, 'x) persist_api_scheme \<Rightarrow> 'c Options \<Rightarrow> 'c Core" where
  "New L opts = prime L
     \<lparr>heap = opt_Slots opts, slots = [0 ..< length (opt_Slots opts)], adv = opt_Advertiser opts,
      interval = (if opt_UpdateInterval opts \<le> 0 then 300 * second else opt_UpdateInterval opts),
      minter = opt_Minter opts,
      alivesMissed = (if opt_AlivesMissed opts \<le> 0 then DefaultAlivesMissed else opt_AlivesMissed opts),
      matchTimeout = (if opt_MatchTimeout opts \<le> 0 then 120 * second else opt_MatchTimeout opts),
      matchCancels = [], byName = index_names (opt_Slots opts) 0 [], dslots = [], dslotSeq = 0,
      aliveCancels = [], executeDir = opt_ExecuteDir opts,
      starterUpdate = opt_StarterUpdateInterval opts, uidDomain = opt_UIDDomain opts,
      fsDomain = opt_FileSystemDomain opts, activations = [], sandboxSeq = 0,
      starter_mode = starterMode (opt_StarterMode opts), starterPath = opt_StarterPath opts,
      starterSocketDir = opt_StarterSocketDir opts,
      killing_timeout = killingTimeout (opt_KillingTimeout opts),
      max_vacate_time = maxVacateTime (opt_MaxVacateTime opts) (opt_KillingTimeout opts),
      store = opt_Store opts,
      persister_of = (case opt_Store opts of None \<Rightarrow> None | Some st \<Rightarrow> Some newPersister),
      activationGen = 0, deferredDeactivate = [], events = [], fresh = 0, out = []\<rparr>"

section \<open>The event queue\<close>

definition queue_capacity :: nat where
  "queue_capacity = 64"

definition Submit :: "Event \<Rightarrow> 'c Core \<Rightarrow> 'c Core" where
  "Submit ev c = (if length (events c) < queue_capacity then c\<lparr>events := events c @ [ev]\<rparr> else c)"

section \<open>Advertising\<close>

definition advertise_slot :: "('c, 'x) persist_api_scheme \<Rightarrow> world \<Rightarrow> slotref \<Rightarrow> 'c Core \<Rightarrow> 'c Core" where
  "advertise_slot L w r c =
     (let (s, pub) = PublicAd L (whost w) (adNow w) (slot_at c r)
      in emit (SentAds (Name s) pub (PrivateAd L s) (collectors w)) (on_slot r (\<lambda>_. s) c))"

definition Advertise :: "('c, 'x) persist_api_scheme \<Rightarrow> world \<Rightarrow> 'c Core \<Rightarrow> 'c Core" where
  "Advertise L w c =
     (if collectors w = [] then c else fold (advertise_slot L w) (LiveSlots c) c)"

definition reAdvertise :: "('c, 'x) persist_api_scheme \<Rightarrow> world \<Rightarrow> 'c Core \<Rightarrow> 'c Core" where
  "reAdvertise L w c = (if adv c then Advertise L w c else c)"

definition InvalidateSlot :: "('c, 'x) persist_api_scheme \<Rightarrow> world \<Rightarrow> Slot \<Rightarrow> 'c Core \<Rightarrow> 'c Core" where
  "InvalidateSlot L w s c =
     (if collectors w = [] then c else emit (SentInvalidate (Name s) (invalidateAd L s) (collectors w)) c)"

definition Invalidate :: "('c, 'x) persist_api_scheme \<Rightarrow> world \<Rightarrow> 'c Core \<Rightarrow> 'c Core" where
  "Invalidate L w c =
     (if collectors w = [] then c
      else fold (\<lambda>r c. emit (SentInvalidate (Name (slot_at c r)) (invalidateAd L (slot_at c r))
                               (collectors w)) c) (LiveSlots c) c)"

section \<open>Attributes of request and job ads\<close>

definition adBool :: "'x classad_api_scheme \<Rightarrow> ad \<Rightarrow> string \<Rightarrow> bool" where
  "adBool L ad name = (case EvaluateAttrBool L ad name of Some v \<Rightarrow> v | None \<Rightarrow> False)"

definition adString :: "'x classad_api_scheme \<Rightarrow> ad \<Rightarrow> string \<Rightarrow> string" where
  "adString L ad name = (case EvaluateAttrString L ad name of Some v \<Rightarrow> v | None \<Rightarrow> [])"

fun firstNonEmptyAttr :: "'x classad_api_scheme \<Rightarrow> ad \<Rightarrow> string list \<Rightarrow> string" where
  "firstNonEmptyAttr L ad [] = []"
| "firstNonEmptyAttr L ad (n # ns) =
     (if adString L ad n \<noteq> [] then adString L ad n else firstNonEmptyAttr L ad ns)"

end
