(* ===== verification/StartdClaim.thy ===== *)
theory StartdClaim
  imports Core
begin

text \<open>
  The claim side of the startd's event loop (\<^verbatim>\<open>internal/startd/claim.go\<close>): the match timer,
  MATCH_INFO, REQUEST_CLAIM on static and partitionable slots, release, destruction of dynamic
  slots, and the keepalive lease; and from \<^verbatim>\<open>internal/startd/activate.go\<close> the tear-down of an
  activation, which a release needs.
\<close>

section \<open>Timers\<close>

definition startMatchTimer :: "slotref \<Rightarrow> string \<Rightarrow> 'c Core \<Rightarrow> 'c Core" where
  "startMatchTimer r cid c =
     (let n = Name (slot_at c r);
          c1 = (case map_of (matchCancels c) n of None \<Rightarrow> c | Some t \<Rightarrow> emit (CancelCtx t) c);
          tok = fresh c1
      in emit (GoMatchTimer tok n cid (matchTimeout c1))
           (c1\<lparr>matchCancels := AList.update n tok (matchCancels c1), fresh := Suc tok\<rparr>))"

definition cancelMatchTimer :: "string \<Rightarrow> 'c Core \<Rightarrow> 'c Core" where
  "cancelMatchTimer n c =
     (case map_of (matchCancels c) n of
        None \<Rightarrow> c
      | Some t \<Rightarrow> (emit (CancelCtx t) c)\<lparr>matchCancels := AList.delete n (matchCancels c)\<rparr>)"

definition startAliveLoop :: "slotref \<Rightarrow> 'c Core \<Rightarrow> 'c Core" where
  "startAliveLoop r c =
     (let s = slot_at c r
      in case slot_claim s of
           None \<Rightarrow> c
         | Some cl \<Rightarrow>
             (let tok = fresh c
              in emit (GoAliveLoop tok (Name s) (scheddAddr cl) (claimID cl)
                        (AlivePeriod (aliveInterval cl) (alivesMissed c))
                        (LeaseDuration (aliveInterval cl) (alivesMissed c)))
                   (c\<lparr>aliveCancels := AList.update (Name s) tok (aliveCancels c), fresh := Suc tok\<rparr>)))"

definition cancelAliveLoop :: "string \<Rightarrow> 'c Core \<Rightarrow> 'c Core" where
  "cancelAliveLoop n c =
     (case map_of (aliveCancels c) n of
        None \<Rightarrow> c
      | Some t \<Rightarrow> (emit (CancelCtx t) c)\<lparr>aliveCancels := AList.delete n (aliveCancels c)\<rparr>)"

section \<open>Tear-down of an activation\<close>

definition releaseDeferredDeactivate :: "string \<Rightarrow> 'c Core \<Rightarrow> 'c Core" where
  "releaseDeferredDeactivate n c =
     (case map_of (deferredDeactivate c) n of
        None \<Rightarrow> c
      | Some ch \<Rightarrow> (emit (CloseChan ch) c)\<lparr>deferredDeactivate := AList.delete n (deferredDeactivate c)\<rparr>)"

definition end_activation :: "string \<Rightarrow> activation \<Rightarrow> 'c Core \<Rightarrow> 'c Core" where
  "end_activation n a c =
     emit (CloseTransport (act_transport a))
       (emit (CancelCtx (act_cancel a)) (c\<lparr>activations := AList.delete n (activations c)\<rparr>))"

definition killActivation :: "string \<Rightarrow> 'c Core \<Rightarrow> 'c Core" where
  "killActivation n c =
     (case map_of (activations c) n of
        None \<Rightarrow> c
      | Some a \<Rightarrow>
          (let c1 = (if vacateCh a = [] then emit (QueuedVacate n MsgVacateHard) c else c);
               c2 = end_activation n a c1
           in if starterCmd a then emit (GoKillBackstop (starterPid a) (killing_timeout c)) c2 else c2))"

section \<open>Matching\<close>

definition doMatchInfo :: "('c, 'x) persist_api_scheme \<Rightarrow> world \<Rightarrow> string \<Rightarrow> 'c Core \<Rightarrow> 'c Core" where
  "doMatchInfo L w cid c =
     (case findSlotByClaimID cid c of
        None \<Rightarrow> c
      | Some r \<Rightarrow>
          (case slot_claim (slot_at c r) of
             None \<Rightarrow> c
           | Some cl \<Rightarrow>
               if claim_state cl \<noteq> Unclaimed then c
               else if slot_state (slot_at c r) \<noteq> ''Unclaimed'' then c
               else reAdvertise L w
                      (startMatchTimer r cid
                         (persistSlot L r
                            (on_slot r (SetStateActivity ''Matched'' ''Idle'' (now w)) c)))))"

definition unclaimSlot :: "('c, 'x) persist_api_scheme \<Rightarrow> world \<Rightarrow> slotref \<Rightarrow> 'c Core \<Rightarrow> 'c Core" where
  "unclaimSlot L w r c =
     (case minter c of
        None \<Rightarrow> on_slot r (SetStateActivity ''Unclaimed'' ''Idle'' (now w)) c
      | Some m \<Rightarrow>
          (case Mint L m of
             (m', Inr fr) \<Rightarrow>
               on_slot r (SetClaimState fr ''Unclaimed'' ''Idle'' (now w)) (c\<lparr>minter := Some m'\<rparr>)
           | (m', Inl err) \<Rightarrow>
               on_slot r (SetStateActivity ''Unclaimed'' ''Idle'' (now w)) (c\<lparr>minter := Some m'\<rparr>)))"

definition doMatchTimeout :: "('c, 'x) persist_api_scheme \<Rightarrow> world \<Rightarrow> evMatchTimeout \<Rightarrow> 'c Core \<Rightarrow> 'c Core" where
  "doMatchTimeout L w ev c =
     (case map_of (byName c) (mt_slotName ev) of
        None \<Rightarrow> c
      | Some r \<Rightarrow>
          (let c1 = c\<lparr>matchCancels := AList.delete (mt_slotName ev) (matchCancels c)\<rparr>
           in if slot_state (slot_at c1 r) \<noteq> ''Matched'' then c1
              else if \<not> has_claim_id (mt_claimID ev) (slot_at c1 r) then c1
              else reAdvertise L w (persistSlot L r (unclaimSlot L w r c1))))"

section \<open>Claiming\<close>

text \<open>
  The machine's \<^verbatim>\<open>Requirements\<close>, evaluated with the slot's matching ad as \<^verbatim>\<open>MY\<close> and the request
  or job ad as \<^verbatim>\<open>TARGET\<close>; a value that is not a boolean counts as a refusal.
\<close>

definition requirements_met :: "'x classad_api_scheme \<Rightarrow> world \<Rightarrow> Slot \<Rightarrow> ad \<Rightarrow> bool" where
  "requirements_met L w s target =
     (EvaluateTargetBool L (MatchAd L (whost w) (adNow w) s) target ''Requirements'' = Some True)"

fun geti :: "'x classad_api_scheme \<Rightarrow> ad \<Rightarrow> string list \<Rightarrow> int" where
  "geti L ad [] = 0"
| "geti L ad (n # ns) =
     (case EvaluateAttrInt L ad n of
        Some v \<Rightarrow> v
      | None \<Rightarrow> (case EvaluateAttrReal L ad n of
            Some v \<Rightarrow> int64_of_float L v
          | None \<Rightarrow> geti L ad ns))"

definition requestedResources :: "'x classad_api_scheme \<Rightarrow> ad \<Rightarrow> Resources" where
  "requestedResources L ad =
     (let cpus = geti L ad [''_condor_RequestCpus'', ''RequestCpus'']
      in \<lparr>Cpus = (if cpus < 1 then 1 else cpus),
          MemoryMB = geti L ad [''_condor_RequestMemory'', ''RequestMemory''],
          DiskKB = geti L ad [''_condor_RequestDisk'', ''RequestDisk'']\<rparr>)"

definition accept_info ::
  "('c, 'x) persist_api_scheme \<Rightarrow> world \<Rightarrow> evRequestClaim \<Rightarrow> 'c Core \<Rightarrow> AcceptInfo" where
  "accept_info L w ev c =
     \<lparr>ai_ScheddAddr = rc_scheddAddr ev, ai_ScheddName = adString L (rc_reqAd ev) ''ScheddName'',
      ai_User = firstNonEmptyAttr L (rc_reqAd ev) [''User'', ''Owner''],
      ai_ClientMachine = rc_clientMachine ev, ai_AliveInterval = rc_aliveInterval ev,
      ai_AlivesMissed = alivesMissed c, ai_Now = now w\<rparr>"

definition reject_claim :: "'c Core \<Rightarrow> 'c Core" where
  "reject_claim = emit (ReplyClaim \<lparr>cd_accept = False, cd_claimedSlots = [], cd_leftovers = None\<rparr>)"

text \<open>The public ad of a slot is built for a reply; building it advances the slot's sequence number.\<close>

definition take_public :: "('c, 'x) persist_api_scheme \<Rightarrow> world \<Rightarrow> slotref \<Rightarrow> 'c Core \<Rightarrow> ad \<times> 'c Core" where
  "take_public L w r c =
     (let (s, pub) = PublicAd L (whost w) (adNow w) (slot_at c r) in (pub, on_slot r (\<lambda>_. s) c))"

definition slot_claim_id :: "Slot \<Rightarrow> string" where
  "slot_claim_id s = (case slot_claim s of None \<Rightarrow> [] | Some cl \<Rightarrow> claimID cl)"

definition claimed_reply ::
  "('c, 'x) persist_api_scheme \<Rightarrow> world \<Rightarrow> ad \<Rightarrow> slotref \<Rightarrow> 'c Core \<Rightarrow> claimedSlotReply list \<times> 'c Core" where
  "claimed_reply L w req r c =
     (if adBool L req ''_condor_SEND_CLAIMED_AD''
      then let (pub, c') = take_public L w r c
           in ([\<lparr>cs_claimID = slot_claim_id (slot_at c r), cs_ad = pub\<rparr>], c')
      else ([], c))"

definition leftover_reply ::
  "('c, 'x) persist_api_scheme \<Rightarrow> world \<Rightarrow> ad \<Rightarrow> slotref \<Rightarrow> 'c Core \<Rightarrow> leftoverReply option \<times> 'c Core" where
  "leftover_reply L w req r c =
     (if adBool L req ''_condor_SEND_LEFTOVERS''
      then let (pub, c') = take_public L w r c
           in (Some \<lparr>lo_secure = adBool L req ''_condor_SECURE_CLAIM_ID'',
                     lo_claimID = slot_claim_id (slot_at c r), lo_ad = pub\<rparr>, c')
      else (None, c))"

definition child_claim_ids :: "string \<Rightarrow> 'c Core \<Rightarrow> string list" where
  "child_claim_ids parent c =
     map slot_claim_id
       (filter (\<lambda>d. ParentName d = parent \<and> slot_claim d \<noteq> None) (map (slot_at c) (dslots c)))"

definition refreshPSlotChildren :: "slotref \<Rightarrow> 'c Core \<Rightarrow> 'c Core" where
  "refreshPSlotChildren r c =
     on_slot r (SetChildClaimIDs (child_claim_ids (Name (slot_at c r)) c)) c"

definition doRequestClaimPSlot ::
  "('c, 'x) persist_api_scheme \<Rightarrow> world \<Rightarrow> evRequestClaim \<Rightarrow> slotref \<Rightarrow> 'c Core \<Rightarrow> 'c Core" where
  "doRequestClaimPSlot L w ev ps c =
     (case minter c of
        None \<Rightarrow> reject_claim c
      | Some m \<Rightarrow>
          if \<not> requirements_met L w (slot_at c ps) (rc_reqAd ev) then reject_claim c
          else let req = requestedResources L (rc_reqAd ev)
               in if \<not> CanCarve (slot_at c ps) req then reject_claim c
                  else (case Mint L m of
                      (m', Inl err) \<Rightarrow> reject_claim (c\<lparr>minter := Some m'\<rparr>)
                    | (m', Inr dClaim) \<Rightarrow>
                        (let sub = wrap64 (dslotSeq c + 1);
                             c1 = c\<lparr>minter := Some m', dslotSeq := sub\<rparr>;
                             d = AcceptClaim (now w) (accept_info L w ev c1)
                                   (SetClaim (Some dClaim) (NewDynamicSlot (slot_at c1 ps) sub req (now w)));
                             dr = length (heap c1);
                             c2 = refreshPSlotChildren ps (addDSlot d (on_slot ps (Carve req) c1));
                             c3 = startAliveLoop dr (persistSlot L ps (persistSlot L dr c2));
                             (claimed, c4) = claimed_reply L w (rc_reqAd ev) dr c3;
                             (left, c5) = leftover_reply L w (rc_reqAd ev) ps c4
                         in reAdvertise L w
                              (emit (ReplyClaim \<lparr>cd_accept = True, cd_claimedSlots = claimed,
                                                 cd_leftovers = left\<rparr>) c5))))"

definition doRequestClaim ::
  "('c, 'x) persist_api_scheme \<Rightarrow> world \<Rightarrow> evRequestClaim \<Rightarrow> 'c Core \<Rightarrow> 'c Core" where
  "doRequestClaim L w ev c =
     (case findSlotByClaimID (rc_claimID ev) c of
        None \<Rightarrow> reject_claim c
      | Some r \<Rightarrow>
          (case slot_claim (slot_at c r) of
             None \<Rightarrow> reject_claim c
           | Some cl \<Rightarrow>
               if claim_state cl \<noteq> Unclaimed then reject_claim c
               else let c1 = cancelMatchTimer (Name (slot_at c r)) c
                    in if \<not> requirements_met L w (slot_at c1 r) (rc_reqAd ev) then reject_claim c1
                       else if IsPartitionable (slot_at c1 r) then doRequestClaimPSlot L w ev r c1
                       else let c2 = persistSlot L r (on_slot r (AcceptClaim (now w) (accept_info L w ev c1)) c1);
                                (claimed, c3) = claimed_reply L w (rc_reqAd ev) r c2
                            in reAdvertise L w
                                 (emit (ReplyClaim \<lparr>cd_accept = True, cd_claimedSlots = claimed,
                                                    cd_leftovers = None\<rparr>)
                                    (startAliveLoop r c3))))"

section \<open>Releasing\<close>

definition store_delete :: "('c, 'x) persist_api_scheme \<Rightarrow> string \<Rightarrow> 'c Core \<Rightarrow> 'c Core" where
  "store_delete L n c =
     (case store c of None \<Rightarrow> c | Some st \<Rightarrow> c\<lparr>store := Some (Delete L n st)\<rparr>)"

definition destroyDSlot :: "('c, 'x) persist_api_scheme \<Rightarrow> world \<Rightarrow> slotref \<Rightarrow> 'c Core \<Rightarrow> 'c Core" where
  "destroyDSlot L w r c =
     (let d = slot_at c r;
          c1 = store_delete L (Name d) (removeDSlot (Name d) c);
          c2 = (if adv c1 then InvalidateSlot L w d c1 else c1)
      in reAdvertise L w
           (case map_of (byName c2) (ParentName d) of
              None \<Rightarrow> c2
            | Some p \<Rightarrow>
                persistSlot L p (refreshPSlotChildren p (on_slot p (Restore (Res d)) c2))))"

definition releaseSlot :: "('c, 'x) persist_api_scheme \<Rightarrow> world \<Rightarrow> slotref \<Rightarrow> 'c Core \<Rightarrow> 'c Core" where
  "releaseSlot L w r c =
     (let n = Name (slot_at c r);
          c1 = killActivation n (cancelAliveLoop n (cancelMatchTimer n c))
      in if IsDynamic (slot_at c1 r) then destroyDSlot L w r c1
         else reAdvertise L w (persistSlot L r (unclaimSlot L w r c1)))"

definition doReleaseByClaimID :: "('c, 'x) persist_api_scheme \<Rightarrow> world \<Rightarrow> string \<Rightarrow> 'c Core \<Rightarrow> 'c Core" where
  "doReleaseByClaimID L w cid c =
     (case findSlotByClaimID cid c of None \<Rightarrow> c | Some r \<Rightarrow> releaseSlot L w r c)"

definition doReleaseSlot :: "('c, 'x) persist_api_scheme \<Rightarrow> world \<Rightarrow> evReleaseSlot \<Rightarrow> 'c Core \<Rightarrow> 'c Core" where
  "doReleaseSlot L w ev c =
     (case map_of (byName c) (rs_slotName ev) of None \<Rightarrow> c | Some r \<Rightarrow> releaseSlot L w r c)"

definition claimed_slot :: "Slot \<Rightarrow> bool" where
  "claimed_slot s = (case slot_claim s of None \<Rightarrow> False | Some cl \<Rightarrow> IsClaimed (claim_state cl))"

definition doAliveOK :: "world \<Rightarrow> string \<Rightarrow> 'c Core \<Rightarrow> 'c Core" where
  "doAliveOK w n c =
     (case map_of (byName c) n of
        None \<Rightarrow> c
      | Some r \<Rightarrow>
          if claimed_slot (slot_at c r)
          then on_slot r (map_claim (ExtendLease (alivesMissed c) (now w))) c
          else c)"

section \<open>The keepalive goroutine\<close>

text \<open>
  One tick of \<^verbatim>\<open>aliveLoop\<close>: the goroutine keeps its own deadline; \<open>SendFailed\<close> stands for an error
  of the library call while the context is live, and \<open>ForgotClaim\<close> for the schedd's answer that it
  does not know the claim. The result is the new deadline, \<open>None\<close> when the goroutine ends, and the
  event it submits.
\<close>

datatype alive_answer = SendFailed | SendCancelled | ForgotClaim | AliveAck

definition alive_tick ::
  "string \<Rightarrow> duration \<Rightarrow> time \<Rightarrow> time \<Rightarrow> alive_answer \<Rightarrow> time option \<times> Event option" where
  "alive_tick slotName lease deadline clock ans =
     (case ans of
        SendCancelled \<Rightarrow> (None, None)
      | SendFailed \<Rightarrow>
          if clock > deadline
          then (None, Some (EvReleaseSlot \<lparr>rs_slotName = slotName,
                              rs_reason = ''lease expired (ALIVE failures)''\<rparr>))
          else (Some deadline, None)
      | ForgotClaim \<Rightarrow>
          (None, Some (EvReleaseSlot \<lparr>rs_slotName = slotName, rs_reason = ''schedd forgot claim''\<rparr>))
      | AliveAck \<Rightarrow> (Some (clock + lease), Some (EvAliveOK slotName)))"

fun alive_run ::
  "string \<Rightarrow> duration \<Rightarrow> time \<Rightarrow> (time \<times> alive_answer) list \<Rightarrow> Event list" where
  "alive_run slotName lease deadline [] = []"
| "alive_run slotName lease deadline ((clock, ans) # rest) =
     (case alive_tick slotName lease deadline clock ans of
        (None, ev) \<Rightarrow> (case ev of None \<Rightarrow> [] | Some e \<Rightarrow> [e])
      | (Some d, ev) \<Rightarrow> (case ev of None \<Rightarrow> [] | Some e \<Rightarrow> [e]) @ alive_run slotName lease d rest)"

definition hostOf :: "string \<Rightarrow> string" where
  "hostOf addr =
     (if addr = [] then []
      else case SplitHostPort addr of Some (h, p) \<Rightarrow> h | None \<Rightarrow> addr)"

end
