(* ===== verification/StartdActivate.thy ===== *)
theory StartdActivate
  imports StartdClaim
begin

text \<open>
  The starter side of the startd's event loop (\<^verbatim>\<open>internal/startd/activate.go\<close>): ACTIVATE_CLAIM
  in goroutine and process mode, the starter's reports, deactivation with its deferred reply,
  graceful and forcible vacate, and CA_LOCATE_STARTER.
\<close>

definition activateNotOK :: int where "activateNotOK = 0"
definition activateOK :: int where "activateOK = 1"
definition activateTryAgain :: int where "activateTryAgain = 2"

definition reject_activate :: "'c Core \<Rightarrow> 'c Core" where
  "reject_activate =
     emit (ReplyActivate \<lparr>ad_code = activateNotOK, ad_transport = None, ad_slotName = []\<rparr>)"

section \<open>Paths and command lines of a starter\<close>

definition hex_digit :: "nat \<Rightarrow> char" where
  "hex_digit d = (if d < 10 then char_of (48 + d) else char_of (87 + d))"

definition hex_of :: "string \<Rightarrow> string" where
  "hex_of bs = concat (map (\<lambda>b. let n = of_char b :: nat in [hex_digit (n div 16), hex_digit (n mod 16)]) bs)"

definition sandbox_path :: "world \<Rightarrow> Slot \<Rightarrow> 'c Core \<Rightarrow> string" where
  "sandbox_path w s c =
     Join [executeDir c,
           ''dir_'' @ Itoa (Getpid w) @ ''_slot'' @ Itoa (SlotID s) @ ''_'' @ Itoa (sandboxSeq c)]"

definition starterSocketPath :: "world \<Rightarrow> string \<Rightarrow> 'c Core \<Rightarrow> string + string" where
  "starterSocketPath w pub c =
     (if starterSocketDir c = []
      then Inl ''no starter socket dir configured (set EP_STARTER_SOCKET_DIR or SPOOL)''
      else case MkdirAll w (starterSocketDir c) of
        Inl err \<Rightarrow> Inl (''creating starter socket dir: '' @ err)
      | Inr _ \<Rightarrow>
          Inr (Join [starterSocketDir c,
                     hex_of (take 8 (sha256 w (pub @ ''|'' @ Itoa (sandboxSeq c)))) @ ''.sock'']))"

text \<open>The program and the arguments of the starter's command.\<close>

definition buildStarterCmd ::
  "string \<Rightarrow> string \<Rightarrow> string \<Rightarrow> string \<Rightarrow> 'c Core \<Rightarrow> string \<times> string list" where
  "buildStarterCmd sockPath sbx slotName pub c =
     (let logPath = TrimSuffix sockPath ''.sock'' @ ''.starterlog''
      in (starterPath c,
          [''-socket'', sockPath, ''-slot'', slotName, ''-claim'', pub, ''-sandbox'', sbx,
           ''-log'', logPath] @
          (if starterUpdate c > 0
           then [''-update-interval'', Itoa (go_div (starterUpdate c) second)] else []) @
          (if uidDomain c \<noteq> [] then [''-uid-domain'', uidDomain c] else []) @
          (if fsDomain c \<noteq> [] then [''-fs-domain'', fsDomain c] else [])))"

section \<open>Activation\<close>

definition claim_is :: "State \<Rightarrow> Slot \<Rightarrow> bool" where
  "claim_is st s = (case slot_claim s of None \<Rightarrow> False | Some cl \<Rightarrow> claim_state cl = st)"

definition may_activate :: "('c, 'x) persist_api_scheme \<Rightarrow> world \<Rightarrow> evActivateClaim \<Rightarrow> slotref \<Rightarrow> 'c Core \<Rightarrow> bool" where
  "may_activate L w ev r c \<longleftrightarrow>
     claimed_slot (slot_at c r) \<and> claim_is ClaimedIdle (slot_at c r) \<and>
     EvaluateAttrInt L (ac_jobAd ev) ''JobUniverse'' \<noteq> None \<and>
     requirements_met L w (slot_at c r) (ac_jobAd ev) \<and> executeDir c \<noteq> []"

definition public_claim_id :: "Slot \<Rightarrow> string" where
  "public_claim_id s = (case slot_claim s of None \<Rightarrow> [] | Some cl \<Rightarrow> publicClaimID cl)"

text \<open>
  The transport, the process fields and the goroutines of a new activation, by starter mode. \<open>Inl\<close>
  is the refusal of a socket path or of the process.
\<close>

definition launch_starter ::
  "world \<Rightarrow> slotref \<Rightarrow> activation \<Rightarrow> 'c Core \<Rightarrow> string + activation \<times> 'c Core" where
  "launch_starter w r a c =
     (let n = Name (slot_at c r); pub = public_claim_id (slot_at c r)
      in if starter_mode c = starterModeProcess
         then (case starterSocketPath w pub c of
             Inl err \<Rightarrow> Inl (''allocating starter socket path: '' @ err)
           | Inr sock \<Rightarrow>
               (let (prog, args) = buildStarterCmd sock (sandbox a) n pub c
                in case StartCmd w prog args of
                     Inl err \<Rightarrow> Inl (''spawning starter process: '' @ err)
                   | Inr pid \<Rightarrow>
                       (let a' = a\<lparr>act_transport := UnixStartd sock, starterCmd := True,
                                   starterPid := pid, socketPath := sock\<rparr>
                        in Inr (a', emit (GoReaper n pid)
                              ((emit (Spawned prog args) c)
                                 \<lparr>activations := AList.update n a' (activations c)\<rparr>)))))
         else let a' = a\<lparr>act_transport := InprocPair\<rparr>
              in Inr (a', emit (GoStarter (act_cancel a) n)
                            (c\<lparr>activations := AList.update n a' (activations c)\<rparr>)))"

definition doActivateClaim ::
  "('c, 'x) persist_api_scheme \<Rightarrow> world \<Rightarrow> evActivateClaim \<Rightarrow> 'c Core \<Rightarrow> 'c Core" where
  "doActivateClaim L w ev c =
     (case findSlotByClaimID (ac_claimID ev) c of
        None \<Rightarrow> reject_activate c
      | Some r \<Rightarrow>
          if \<not> may_activate L w ev r c then reject_activate c
          else let c1 = c\<lparr>sandboxSeq := wrap64 (sandboxSeq c + 1)\<rparr>;
                   sbx = sandbox_path w (slot_at c1 r) c1
               in case MkdirAll w sbx of
                    Inl err \<Rightarrow> reject_activate c1
                  | Inr _ \<Rightarrow>
                      (let tok = fresh c1; g = wrap64 (activationGen c1 + 1);
                           c2 = c1\<lparr>activationGen := g, fresh := Suc tok\<rparr>;
                           a = \<lparr>act_cancel = tok, act_transport = InprocPair, vacateCh = [],
                                sandbox = sbx, jobAd = Some (ac_jobAd ev),
                                globalJID = adString L (ac_jobAd ev) ''GlobalJobId'',
                                starterAddr = [], starterCmd = False, starterPid = 0,
                                socketPath = [], adopted = False, gen = g, vacating = False\<rparr>;
                           (pub, c3) = take_public L w r c2;
                           activateAd = MarshalActivate L \<lparr>am_JobAd = Some (ac_jobAd ev),
                             am_SlotAd = Some pub, am_SandboxDir = sbx, am_EnvOverlay = []\<rparr>
                       in case launch_starter w r a c3 of
                            Inl err \<Rightarrow> reject_activate (emit (CancelCtx tok) c3)
                          | Inr (a', c4) \<Rightarrow>
                              (let n = Name (slot_at c4 r);
                                   c5 = emit (GoSupervisor tok n (act_transport a') (Some activateAd) False) c4;
                                   c6 = on_slot r (\<lambda>s. SetStateActivity ''Claimed'' ''Busy'' (now w)
                                                         (map_claim (SetBusy (now w)) s)) c5
                               in reAdvertise L w
                                    (emit (ReplyActivate \<lparr>ad_code = activateOK,
                                             ad_transport = Some (act_transport a'), ad_slotName = n\<rparr>)
                                       (persistSlot L r c6)))))"

section \<open>Reports of a starter\<close>

definition doStarterHello :: "('c, 'x) persist_api_scheme \<Rightarrow> evStarterHello \<Rightarrow> 'c Core \<Rightarrow> 'c Core" where
  "doStarterHello L ev c =
     (case map_of (activations c) (sh_slotName ev) of
        None \<Rightarrow> c
      | Some a \<Rightarrow>
          (let newAddr = (sh_starterAddr ev \<noteq> [] \<and> starterAddr a \<noteq> sh_starterAddr ev);
               newPid = (sh_starterPid ev \<noteq> 0 \<and> starterPid a \<noteq> sh_starterPid ev);
               a1 = (if newAddr then a\<lparr>starterAddr := sh_starterAddr ev\<rparr> else a);
               a2 = (if newPid then a1\<lparr>starterPid := sh_starterPid ev\<rparr> else a1);
               c1 = c\<lparr>activations := AList.update (sh_slotName ev) a2 (activations c)\<rparr>
           in if newAddr \<or> newPid
              then (case map_of (byName c1) (sh_slotName ev) of
                      None \<Rightarrow> c1
                    | Some r \<Rightarrow> persistSlot L r c1)
              else c1))"

definition doStarterUpdate :: "evStarterUpdate \<Rightarrow> 'c Core \<Rightarrow> 'c Core" where
  "doStarterUpdate ev c =
     (case map_of (byName c) (su_slotName ev) of
        None \<Rightarrow> c
      | Some r \<Rightarrow>
          if claimed_slot (slot_at c r) then on_slot r (map_claim (SetUpdateAd (su_ad ev))) c else c)"

definition doStarterFinal :: "evStarterFinal \<Rightarrow> 'c Core \<Rightarrow> 'c Core" where
  "doStarterFinal ev c =
     (case map_of (byName c) (sf_slotName ev) of
        None \<Rightarrow> c
      | Some r \<Rightarrow>
          if claimed_slot (slot_at c r)
          then on_slot r (map_claim (SetFinal (sf_ad ev) (sf_status ev) (sf_reason ev))) c
          else c)"

definition set_idle :: "world \<Rightarrow> Slot \<Rightarrow> Slot" where
  "set_idle w s = SetStateActivity ''Claimed'' ''Idle'' (now w) (map_claim (SetIdle (now w)) s)"

definition doStarterExited :: "('c, 'x) persist_api_scheme \<Rightarrow> world \<Rightarrow> string \<Rightarrow> 'c Core \<Rightarrow> 'c Core" where
  "doStarterExited L w n c =
     (case map_of (activations c) n of
        None \<Rightarrow> releaseDeferredDeactivate n c
      | Some a \<Rightarrow>
          (let c1 = releaseDeferredDeactivate n (end_activation n a c)
           in case map_of (byName c1) n of
                None \<Rightarrow> c1
              | Some r \<Rightarrow>
                  if claim_is ClaimedBusy (slot_at c1 r)
                  then reAdvertise L w (persistSlot L r (on_slot r (set_idle w) c1))
                  else c1))"

section \<open>Locating a starter\<close>

definition locate_match :: "string \<Rightarrow> string \<Rightarrow> string \<Rightarrow> string \<Rightarrow> bool" where
  "locate_match cid gjid recClaim recGJID \<longleftrightarrow> (gjid = [] \<or> recGJID = gjid) \<and> recClaim = cid"

fun locate_live :: "string \<Rightarrow> string \<Rightarrow> 'c Core \<Rightarrow> string list \<Rightarrow> LocateResult option" where
  "locate_live cid gjid c [] = None"
| "locate_live cid gjid c (n # ns) =
     (case (map_of (activations c) n, map_of (byName c) n) of
        (Some a, Some r) \<Rightarrow>
          if starterAddr a \<noteq> [] \<and> slot_claim (slot_at c r) \<noteq> None \<and>
             locate_match cid gjid (slot_claim_id (slot_at c r)) (globalJID a)
          then Some \<lparr>Found = True, StarterAddr = starterAddr a\<rparr>
          else locate_live cid gjid c ns
      | _ \<Rightarrow> locate_live cid gjid c ns)"

definition locate_stored ::
  "('c, 'x) persist_api_scheme \<Rightarrow> string \<Rightarrow> string \<Rightarrow> 'c Core \<Rightarrow> LocateResult option" where
  "locate_stored L cid gjid c =
     (case store c of
        None \<Rightarrow> None
      | Some st \<Rightarrow>
          map_option (\<lambda>r. \<lparr>Found = True, StarterAddr = rec_StarterIpAddr r\<rparr>)
            (List.find (\<lambda>r. locate_match cid gjid (rec_ClaimID r) (rec_GlobalJobID r)) (store_List L st)))"

definition doLocateStarter ::
  "('c, 'x) persist_api_scheme \<Rightarrow> world \<Rightarrow> string \<Rightarrow> string \<Rightarrow> 'c Core \<Rightarrow> LocateResult" where
  "doLocateStarter L w cid gjid c =
     (if cid = [] then \<lparr>Found = False, StarterAddr = []\<rparr>
      else case locate_live cid gjid c (visit w (map fst (activations c))) of
        Some res \<Rightarrow> res
      | None \<Rightarrow> (case locate_stored L cid gjid c of
            Some res \<Rightarrow> res
          | None \<Rightarrow> \<lparr>Found = False, StarterAddr = []\<rparr>))"

section \<open>Deactivation and vacate\<close>

definition claimIsClosing :: "Slot \<Rightarrow> bool" where
  "claimIsClosing s = False"

definition doDeactivate :: "evDeactivate \<Rightarrow> 'c Core \<Rightarrow> 'c Core" where
  "doDeactivate ev c =
     (case findSlotByClaimID (de_claimID ev) c of
        None \<Rightarrow>
          emit (ReplyDeactivate \<lparr>dd_known = False, dd_closing = True, dd_slotName = [],
                                 dd_deferred = False, dd_wait = None\<rparr>) c
      | Some r \<Rightarrow>
          (let n = Name (slot_at c r); closing = claimIsClosing (slot_at c r)
           in if de_command ev = CmdDeactivateClaimJobDone \<and> map_of (activations c) n \<noteq> None
              then let ch = fresh c
                   in emit (ReplyDeactivate \<lparr>dd_known = True, dd_closing = closing, dd_slotName = n,
                                             dd_deferred = True, dd_wait = Some ch\<rparr>)
                        (c\<lparr>deferredDeactivate := AList.update n ch (deferredDeactivate c),
                           fresh := Suc ch\<rparr>)
              else emit (ReplyDeactivate \<lparr>dd_known = True, dd_closing = closing, dd_slotName = n,
                                          dd_deferred = False, dd_wait = None\<rparr>) c))"

text \<open>A send on the vacate channel, which has room for one message, without blocking.\<close>

definition send_vacate :: "int \<Rightarrow> activation \<Rightarrow> activation" where
  "send_vacate m a = (if vacateCh a = [] then a\<lparr>vacateCh := [m]\<rparr> else a)"

definition doVacate :: "evVacate \<Rightarrow> 'c Core \<Rightarrow> 'c Core" where
  "doVacate ev c =
     (case map_of (activations c) (va_slotName ev) of
        None \<Rightarrow> c
      | Some a \<Rightarrow>
          (let a' = send_vacate (if va_hard ev then MsgVacateHard else MsgVacateSoft) (a\<lparr>vacating := True\<rparr>);
               c1 = c\<lparr>activations := AList.update (va_slotName ev) a' (activations c)\<rparr>
           in if va_hard ev then c1
              else emit (GoVacateTimer (va_slotName ev) (gen a) (max_vacate_time c)) c1))"

definition doVacateEscalate :: "evVacateEscalate \<Rightarrow> 'c Core \<Rightarrow> 'c Core" where
  "doVacateEscalate ev c =
     (case map_of (activations c) (ve_slotName ev) of
        None \<Rightarrow> c
      | Some a \<Rightarrow>
          if gen a \<noteq> ve_gen ev then c
          else c\<lparr>activations :=
                   AList.update (ve_slotName ev) (send_vacate MsgVacateHard a) (activations c)\<rparr>)"

text \<open>The supervisor's receive from the vacate channel: it writes the message to the starter.\<close>

definition relay_vacate :: "string \<Rightarrow> 'c Core \<Rightarrow> (int \<times> 'c Core) option" where
  "relay_vacate n c =
     (case map_of (activations c) n of
        None \<Rightarrow> None
      | Some a \<Rightarrow>
          (case vacateCh a of
             [] \<Rightarrow> None
           | m # ms \<Rightarrow> Some (m, c\<lparr>activations := AList.update n (a\<lparr>vacateCh := ms\<rparr>) (activations c)\<rparr>)))"

section \<open>The supervisor\<close>

text \<open>
  What the supervisor of one starter submits, given how far it gets: the outcomes of connecting, of
  sending Activate or Reattach and of handing over the syscall connection, then the control messages
  it reads until the channel breaks, the starter says Exited, or its context is cancelled.
\<close>

datatype sup_input = CtrlMsg int ad | CtrlClosed | CtxDone

definition sup_event :: "'x classad_api_scheme \<Rightarrow> string \<Rightarrow> int \<Rightarrow> ad \<Rightarrow> Event option" where
  "sup_event L n typ ad =
     (if typ = MsgHello then
        (let h = ParseHello L ad
         in Some (EvStarterHello \<lparr>sh_slotName = n, sh_starterAddr = h_StarterAddr h,
                                 sh_starterPid = h_StarterPid h, sh_jobPid = h_JobPid h\<rparr>))
      else if typ = MsgUpdate then Some (EvStarterUpdate \<lparr>su_slotName = n, su_ad = ad\<rparr>)
      else if typ = MsgFinal then
        (let (fad, status, reason) = ParseFinal L ad
         in Some (EvStarterFinal \<lparr>sf_slotName = n, sf_ad = Some fad, sf_status = status,
                                 sf_reason = reason\<rparr>))
      else None)"

fun sup_loop :: "'x classad_api_scheme \<Rightarrow> string \<Rightarrow> sup_input list \<Rightarrow> Event list" where
  "sup_loop L n [] = []"
| "sup_loop L n (CtrlClosed # xs) = [EvStarterExited n]"
| "sup_loop L n (CtxDone # xs) = [EvStarterExited n]"
| "sup_loop L n (CtrlMsg typ ad # xs) =
     (if typ = MsgExited then [EvStarterExited n]
      else (case sup_event L n typ ad of None \<Rightarrow> [] | Some e \<Rightarrow> [e]) @ sup_loop L n xs)"

definition superviseStarter ::
  "'x classad_api_scheme \<Rightarrow> string \<Rightarrow> bool \<Rightarrow> bool \<Rightarrow> bool \<Rightarrow> bool \<Rightarrow> sup_input list \<Rightarrow> Event list" where
  "superviseStarter L n reattach connected sent handed inputs =
     (if \<not> connected then [if reattach then EvAdoptFailed n else EvStarterExited n]
      else if \<not> sent then [if reattach then EvAdoptFailed n else EvStarterExited n]
      else if \<not> reattach \<and> \<not> handed then [EvStarterExited n]
      else sup_loop L n inputs)"

end
