(* ===== verification/Adoption.thy ===== *)
theory Adoption
  imports StartdActivate
begin

text \<open>
  Re-adoption after a restart (\<^verbatim>\<open>internal/startd/adopt.go\<close>): every persisted claim is rebuilt on
  its slot, a dynamic slot is carved again out of its parent, the session of the claim is imported,
  the keepalives resume, and a surviving starter is redialled; and the recovery when it is gone.
\<close>

definition unixTime :: "int \<Rightarrow> time" where
  "unixTime sec = (if sec = 0 then zero_time else time_unix sec)"

definition activityOf :: "bool \<Rightarrow> string" where
  "activityOf busy = (if busy then ''Busy'' else ''Idle'')"

definition readExitMarker :: "world \<Rightarrow> string \<Rightarrow> exitMarker option" where
  "readExitMarker w sbx = (if sbx = [] then None else exit_file w (Join [sbx, ''.exit'']))"

definition reconstructDSlot :: "Record \<Rightarrow> 'c Core \<Rightarrow> slotref option \<times> 'c Core" where
  "reconstructDSlot rc c =
     (case map_of (byName c) (rec_ParentSlotName rc) of
        None \<Rightarrow> (None, c)
      | Some p \<Rightarrow>
          (case map_of (byName c) (rec_SlotName rc) of
             Some r \<Rightarrow> (Some r, c)
           | None \<Rightarrow>
               (let res = \<lparr>Cpus = rec_Cpus rc, MemoryMB = rec_MemoryMB rc, DiskKB = rec_DiskKB rc\<rparr>;
                    d = NewDynamicSlot (slot_at c p) (rec_DSlotSubID rc) res (unixTime (rec_Entered rc));
                    c1 = addDSlot d (on_slot p (Carve res) c);
                    c2 = (if rec_DSlotSubID rc > dslotSeq c1 then c1\<lparr>dslotSeq := rec_DSlotSubID rc\<rparr> else c1)
                in (Some (length (heap c)), c2))))"

definition adopt_options :: "'x security_api_scheme \<Rightarrow> Record \<Rightarrow> AdoptOptions" where
  "adopt_options L rc =
     \<lparr>ao_ClaimID = rec_ClaimID rc, ao_PublicClaimID = rec_PublicClaimID rc,
      ao_SessionID = SecSessionID L (rec_ClaimID rc), ao_ScheddAddr = rec_ScheddAddr rc,
      ao_ScheddName = rec_ScheddName rc, ao_User = rec_User rc,
      ao_ClientMachine = rec_ClientMachine rc, ao_AliveInterval = rec_AliveInterval rc,
      ao_Busy = EqualFold (rec_Activity rc) ''Busy'',
      ao_LeaseDeadline = unixTime (rec_LeaseDeadline rc), ao_Entered = unixTime (rec_Entered rc)\<rparr>"

text \<open>The activation rebuilt for a busy claim whose starter had a control socket, and its supervisor.\<close>

definition redial_starter :: "('c, 'x) persist_api_scheme \<Rightarrow> Record \<Rightarrow> 'c Core \<Rightarrow> 'c Core" where
  "redial_starter L rc c =
     (if EqualFold (rec_Activity rc) ''Busy'' \<and> rec_StarterSocket rc \<noteq> []
      then let tok = fresh c; g = wrap64 (activationGen c + 1);
               a = \<lparr>act_cancel = tok, act_transport = UnixStartd (rec_StarterSocket rc), vacateCh = [],
                    sandbox = rec_Sandbox rc,
                    jobAd = (if rec_JobAd rc \<noteq> [] then ParseAd L (rec_JobAd rc) else None),
                    globalJID = rec_GlobalJobID rc, starterAddr = rec_StarterIpAddr rc,
                    starterCmd = False, starterPid = rec_StarterPid rc,
                    socketPath = rec_StarterSocket rc, adopted = True, gen = g, vacating = False\<rparr>
           in emit (GoSupervisor tok (rec_SlotName rc) (act_transport a) None True)
                (c\<lparr>activationGen := g, fresh := Suc tok,
                   activations := AList.update (rec_SlotName rc) a (activations c)\<rparr>)
      else c)"

definition adopt_claim :: "('c, 'x) persist_api_scheme \<Rightarrow> Record \<Rightarrow> slotref \<Rightarrow> 'c Core \<Rightarrow> 'c Core" where
  "adopt_claim L rc r c =
     redial_starter L rc
       (startAliveLoop r
          (on_slot r (SetClaimState (Adopt (adopt_options L rc)) ''Claimed''
                        (activityOf (EqualFold (rec_Activity rc) ''Busy'')) (unixTime (rec_Entered rc))) c))"

text \<open>
  The loop over the records carries the number of adopted claims, the parents to refresh, and the
  core.
\<close>

type_synonym 'c adoption = "nat \<times> (string, slotref) gomap \<times> 'c Core"

definition adopt_on_slot :: "('c, 'x) persist_api_scheme \<Rightarrow> Record \<Rightarrow> 'c adoption \<Rightarrow> 'c adoption" where
  "adopt_on_slot L rc st =
     (let (k, touched, c) = st
      in case map_of (byName c) (rec_SlotName rc) of
           None \<Rightarrow> (k, touched, store_delete L (rec_SlotName rc) c)
         | Some r \<Rightarrow>
             if rec_ClaimID rc = [] then st
             else case ImportClaimSession L (rec_ClaimID rc) (rec_ScheddAddr rc) SurfaceCommands of
               Inl err \<Rightarrow> st
             | Inr _ \<Rightarrow> (Suc k, touched, adopt_claim L rc r c))"

definition adopt_record :: "('c, 'x) persist_api_scheme \<Rightarrow> Record \<Rightarrow> 'c adoption \<Rightarrow> 'c adoption" where
  "adopt_record L rc st =
     (let (k, touched, c) = st
      in if \<not> EqualFold (rec_State rc) ''Claimed'' then st
         else if EqualFold (rec_SlotType rc) SlotTypeDynamic
         then (case reconstructDSlot rc c of
                 (None, c1) \<Rightarrow> (k, touched, store_delete L (rec_SlotName rc) c1)
               | (Some d, c1) \<Rightarrow>
                   (case map_of (byName c1) (rec_ParentSlotName rc) of
                      None \<Rightarrow> adopt_on_slot L rc (k, touched, c1)
                    | Some p \<Rightarrow>
                        adopt_on_slot L rc (k, AList.update (Name (slot_at c1 p)) p touched, c1)))
         else adopt_on_slot L rc st)"

definition doAdopt :: "('c, 'x) persist_api_scheme \<Rightarrow> world \<Rightarrow> 'c Core \<Rightarrow> 'c Core" where
  "doAdopt L w c =
     (let records = (case store c of None \<Rightarrow> [] | Some st \<Rightarrow> store_List L st);
          (k, touched, c1) = fold (adopt_record L) records (0, [], c);
          c2 = fold (\<lambda>n c. case map_of touched n of None \<Rightarrow> c | Some p \<Rightarrow> refreshPSlotChildren p c)
                 (visit w (map fst touched)) c1
      in if k > 0 then reAdvertise L w c2 else c2)"

definition doAdoptFailed :: "('c, 'x) persist_api_scheme \<Rightarrow> world \<Rightarrow> string \<Rightarrow> 'c Core \<Rightarrow> 'c Core" where
  "doAdoptFailed L w n c =
     (case map_of (activations c) n of
        None \<Rightarrow> c
      | Some a \<Rightarrow>
          (case map_of (byName c) n of
             None \<Rightarrow> c\<lparr>activations := AList.delete n (activations c)\<rparr>
           | Some r \<Rightarrow>
               (case readExitMarker w (sandbox a) of
                  Some m \<Rightarrow>
                    (let c1 = end_activation n a c;
                         fad = (if FinalAd m \<noteq> [] then ParseAd L (FinalAd m) else None);
                         c2 = (if claim_is ClaimedBusy (slot_at c1 r)
                               then persistSlot L r
                                      (on_slot r (\<lambda>s. set_idle w
                                         (map_claim (SetFinal fad (WaitpidStatus m) (em_Reason m)) s)) c1)
                               else c1)
                     in reAdvertise L w c2)
                | None \<Rightarrow> releaseSlot L w r c)))"

end
