(* ===== verification/Loop.thy ===== *)
theory Loop
  imports Adoption
begin

text \<open>
  The event loop of the startd (\<^verbatim>\<open>internal/startd/startd.go\<close>): the dispatch of an event to its
  handler, the loop's reactions to the ticker and to its shutdown, and the step relation in which
  environment, timers and starters submit events in any order.
\<close>

definition handle :: "('c, 'x) persist_api_scheme \<Rightarrow> world \<Rightarrow> Event \<Rightarrow> 'c Core \<Rightarrow> 'c Core" where
  "handle L w ev c =
     (case ev of
        EvReschedule \<Rightarrow> reAdvertise L w c
      | EvMatchInfo cid \<Rightarrow> doMatchInfo L w cid c
      | EvMatchTimeout e \<Rightarrow> doMatchTimeout L w e c
      | EvRequestClaim e \<Rightarrow> doRequestClaim L w e c
      | EvReleaseClaim cid \<Rightarrow> doReleaseByClaimID L w cid c
      | EvReleaseSlot e \<Rightarrow> doReleaseSlot L w e c
      | EvAliveOK n \<Rightarrow> doAliveOK w n c
      | EvActivateClaim e \<Rightarrow> doActivateClaim L w e c
      | EvStarterUpdate e \<Rightarrow> doStarterUpdate e c
      | EvStarterFinal e \<Rightarrow> doStarterFinal e c
      | EvStarterExited n \<Rightarrow> doStarterExited L w n c
      | EvStarterHello e \<Rightarrow> doStarterHello L e c
      | EvLocateStarter e \<Rightarrow>
          emit (ReplyLocate (doLocateStarter L w (ls_claimID e) (ls_globalJobID e) c)) c
      | EvAdopt \<Rightarrow> emit AdoptDone (doAdopt L w c)
      | EvAdoptFailed n \<Rightarrow> doAdoptFailed L w n c
      | EvDeactivate e \<Rightarrow> doDeactivate e c
      | EvVacate e \<Rightarrow> doVacate e c
      | EvVacateEscalate e \<Rightarrow> doVacateEscalate e c)"

text \<open>One iteration of the loop: the ticker, a queued event, or the cancelled context.\<close>

datatype loop_input = Tick | NextEvent | CtxCancelled

definition loop_step :: "('c, 'x) persist_api_scheme \<Rightarrow> world \<Rightarrow> loop_input \<Rightarrow> 'c Core \<Rightarrow> 'c Core" where
  "loop_step L w i c =
     (case i of
        Tick \<Rightarrow> reAdvertise L w c
      | NextEvent \<Rightarrow> (case events c of [] \<Rightarrow> c | ev # evs \<Rightarrow> handle L w ev (c\<lparr>events := evs\<rparr>))
      | CtxCancelled \<Rightarrow> (if adv c then Invalidate L w c else c))"

text \<open>\<^verbatim>\<open>Stop\<close>: the loop ends, and after it the writer.\<close>

definition Stop :: "('c, 'x) persist_api_scheme \<Rightarrow> world \<Rightarrow> 'c Core \<Rightarrow> 'c Core" where
  "Stop L w c = persister_stop L w (loop_step L w CtxCancelled c)"

end
