(* ===== verification/Registry.thy ===== *)
theory Registry
  imports Loop
begin

text \<open>
  The registry of slots: what the shared operations leave alone, the consistency of the registries,
  and the shape of slot names. Most of a handler's work does not concern the slots themselves (it
  sends ads, queues claim records, replies, starts goroutines); \<open>core_view\<close> forgets exactly that, and
  every predicate of the development on the state of the loop depends on the view only.
\<close>

section \<open>The view of the state\<close>

definition strip :: "Slot \<Rightarrow> Slot" where
  "strip s = s\<lparr>slot_seq := 0\<rparr>"

definition core_view :: "'c Core \<Rightarrow> 'c Core" where
  "core_view c = c\<lparr>heap := map strip (heap c), out := [], persister_of := None, store := None,
     fresh := 0, events := [], deferredDeactivate := [], sandboxSeq := 0, activationGen := 0\<rparr>"

lemma strip_fields [simp]:
  "Name (strip s) = Name s" "SlotID (strip s) = SlotID s" "Machine (strip s) = Machine s"
  "Res (strip s) = Res s" "SlotType (strip s) = SlotType s" "fullRes (strip s) = fullRes s"
  "ParentName (strip s) = ParentName s" "SubID (strip s) = SubID s"
  "slot_state (strip s) = slot_state s" "activity (strip s) = activity s"
  "slot_claim (strip s) = slot_claim s" "childClaimIDs (strip s) = childClaimIDs s"
  "strip (strip s) = strip s"
  by (simp_all add: strip_def)

lemma strip_PublicAd [simp]: "strip (fst (PublicAd L h t s)) = strip s"
  by (simp add: PublicAd_def strip_def Let_def)

lemma view_emit [simp]: "core_view (emit e c) = core_view c"
  by (simp add: core_view_def emit_def)

lemma view_persistSlot [simp]: "core_view (persistSlot L r c) = core_view c"
  by (simp add: core_view_def persistSlot_def Let_def split: option.split)

lemma view_on_slot:
  "core_view (on_slot r f c) = (core_view c)\<lparr>heap := (heap (core_view c))[r := strip (f (heap c ! r))]\<rparr>"
  by (simp add: core_view_def on_slot_def map_update)

lemma view_on_slot_quiet: "strip (f (heap c ! r)) = strip (heap c ! r) \<Longrightarrow> core_view (on_slot r f c) = core_view c"
  by (cases "r < length (heap c)")
    (simp_all add: core_view_def on_slot_def map_update list_update_same_conv list_update_beyond)

lemma view_advertise_slot [simp]: "core_view (advertise_slot L w r c) = core_view c"
proof -
  obtain s pub where p: "PublicAd L (whost w) (adNow w) (slot_at c r) = (s, pub)" by fastforce
  then have "strip s = strip (heap c ! r)" using strip_PublicAd [of L "whost w" "adNow w" "slot_at c r"]
    by (simp add: slot_at_def)
  then show ?thesis by (simp add: advertise_slot_def p view_on_slot_quiet)
qed

lemma view_fold_quiet: "(\<And>r c. core_view (f r c) = core_view c) \<Longrightarrow> core_view (fold f rs c) = core_view c"
  by (induction rs arbitrary: c) auto

lemma view_reAdvertise [simp]: "core_view (reAdvertise L w c) = core_view c"
  by (simp add: reAdvertise_def Advertise_def view_fold_quiet)

lemma view_InvalidateSlot [simp]: "core_view (InvalidateSlot L w s c) = core_view c"
  by (simp add: InvalidateSlot_def)

lemma view_store_delete [simp]: "core_view (store_delete L n c) = core_view c"
  by (simp add: store_delete_def core_view_def split: option.split)

lemma view_take_public [simp]: "core_view (snd (take_public L w r c)) = core_view c"
proof -
  obtain s pub where p: "PublicAd L (whost w) (adNow w) (slot_at c r) = (s, pub)" by fastforce
  then have "strip s = strip (heap c ! r)" using strip_PublicAd [of L "whost w" "adNow w" "slot_at c r"]
    by (simp add: slot_at_def)
  then show ?thesis by (simp add: take_public_def p view_on_slot_quiet)
qed

lemma view_replies [simp]:
  "core_view (snd (claimed_reply L w req r c)) = core_view c"
  "core_view (snd (leftover_reply L w req r c)) = core_view c"
  using view_take_public [of L w r c]
  by (auto simp: claimed_reply_def leftover_reply_def split: prod.splits simp del: view_take_public)

section \<open>What the view determines\<close>

lemma view_eq_fields:
  assumes "core_view c = core_view d"
  shows "slots c = slots d" "dslots c = dslots d" "byName c = byName d" "dslotSeq c = dslotSeq d"
    "minter c = minter d" "activations c = activations d" "aliveCancels c = aliveCancels d"
    "matchCancels c = matchCancels d" "length (heap c) = length (heap d)"
proof -
  note eq = assms
  show "slots c = slots d" using arg_cong [where f = slots, OF eq] by (simp add: core_view_def)
  show "dslots c = dslots d" using arg_cong [where f = dslots, OF eq] by (simp add: core_view_def)
  show "byName c = byName d" using arg_cong [where f = byName, OF eq] by (simp add: core_view_def)
  show "dslotSeq c = dslotSeq d" using arg_cong [where f = dslotSeq, OF eq] by (simp add: core_view_def)
  show "minter c = minter d" using arg_cong [where f = minter, OF eq] by (simp add: core_view_def)
  show "activations c = activations d"
    using arg_cong [where f = activations, OF eq] by (simp add: core_view_def)
  show "aliveCancels c = aliveCancels d"
    using arg_cong [where f = aliveCancels, OF eq] by (simp add: core_view_def)
  show "matchCancels c = matchCancels d"
    using arg_cong [where f = matchCancels, OF eq] by (simp add: core_view_def)
  have "map strip (heap c) = map strip (heap d)"
    using arg_cong [where f = heap, OF assms] by (simp add: core_view_def)
  then show "length (heap c) = length (heap d)" by (rule map_eq_imp_length_eq)
qed

lemma view_eq_slot:
  assumes "core_view c = core_view d" "r < length (heap c)"
  shows "strip (slot_at c r) = strip (slot_at d r)"
proof -
  have "map strip (heap c) = map strip (heap d)"
    using arg_cong [where f = heap, OF assms(1)] by (simp add: core_view_def)
  then have "map strip (heap c) ! r = map strip (heap d) ! r" by simp
  then show ?thesis using assms view_eq_fields(9) [OF assms(1)] by (simp add: slot_at_def)
qed

section \<open>Consistency of the registries\<close>

definition live_names :: "'c Core \<Rightarrow> string set" where
  "live_names c = (\<lambda>r. Name (slot_at c r)) ` set (LiveSlots c)"

definition registry_ok :: "'c Core \<Rightarrow> bool" where
  "registry_ok c \<longleftrightarrow>
     distinct (LiveSlots c) \<and> (\<forall>r \<in> set (LiveSlots c). r < length (heap c)) \<and>
     inj_on (\<lambda>r. Name (slot_at c r)) (set (LiveSlots c)) \<and>
     (\<forall>n r. map_of (byName c) n = Some r \<longleftrightarrow> r \<in> set (LiveSlots c) \<and> Name (slot_at c r) = n)"

lemma registry_byName:
  "registry_ok c \<Longrightarrow> map_of (byName c) n = Some r \<longleftrightarrow> r \<in> set (LiveSlots c) \<and> Name (slot_at c r) = n"
  by (simp add: registry_ok_def)

lemma registry_range: "registry_ok c \<Longrightarrow> r \<in> set (LiveSlots c) \<Longrightarrow> r < length (heap c)"
  by (simp add: registry_ok_def)

lemma registry_name_inj:
  "registry_ok c \<Longrightarrow> r \<in> set (LiveSlots c) \<Longrightarrow> q \<in> set (LiveSlots c) \<Longrightarrow>
     Name (slot_at c r) = Name (slot_at c q) \<longleftrightarrow> r = q"
  by (auto simp: registry_ok_def inj_on_def)

lemma find_claim_live:
  "findSlotByClaimID cid c = Some r \<Longrightarrow> r \<in> set (LiveSlots c) \<and> has_claim_id cid (slot_at c r)"
  unfolding findSlotByClaimID_def by (rule find_in_set)

section \<open>Slot names\<close>

text \<open>The names of configured and of dynamic slots, in terms of the slot's own fields.\<close>

definition config_name :: "Slot \<Rightarrow> string" where
  "config_name s = ''slot'' @ Itoa (SlotID s) @ ''@'' @ Machine s"

lemma first_byte_split:
  assumes "b \<notin> set p" "b \<notin> set q" "p @ b # s = q @ b # t"
  shows "p = q \<and> s = t"
proof -
  have "takeWhile (\<lambda>x. x \<noteq> b) (p @ b # s) = p" "takeWhile (\<lambda>x. x \<noteq> b) (q @ b # t) = q"
    using assms(1,2) by (auto simp: takeWhile_append)
  with assms(3) show ?thesis by simp
qed

lemma dslot_name_inj:
  assumes "dslot_name p k = dslot_name q l"
  shows "SlotID p = SlotID q \<and> k = l \<and> Machine p = Machine q"
proof -
  from assms have "Itoa (SlotID p) @ CHR ''_'' # Itoa k @ ''@'' @ Machine p =
      Itoa (SlotID q) @ CHR ''_'' # Itoa l @ ''@'' @ Machine q" by (simp add: dslot_name_def)
  from first_byte_split [OF _ _ this] have a: "Itoa (SlotID p) = Itoa (SlotID q)"
    and b: "Itoa k @ CHR ''@'' # Machine p = Itoa l @ CHR ''@'' # Machine q"
    by (simp_all add: Itoa_no_special)
  from first_byte_split [OF _ _ b] a show ?thesis by (simp add: Itoa_no_special Itoa_inj)
qed

lemma Itoa_first_special:
  assumes "Itoa k @ ''_'' @ x = Itoa l @ ''@'' @ y"
  shows False
proof -
  have d: "takeWhile (\<lambda>ch. ch \<noteq> CHR ''_'' \<and> ch \<noteq> CHR ''@'') (Itoa n @ z) =
      Itoa n @ takeWhile (\<lambda>ch. ch \<noteq> CHR ''_'' \<and> ch \<noteq> CHR ''@'') z" for n z
    using Itoa_no_special [of n] by (intro takeWhile_append2) auto
  have "Itoa k = Itoa l" using arg_cong [OF assms, of "takeWhile (\<lambda>ch. ch \<noteq> CHR ''_'' \<and> ch \<noteq> CHR ''@'')"]
    by (simp add: d)
  with assms show False by simp
qed

lemma dslot_name_not_config: "dslot_name p k \<noteq> config_name s"
  by (auto simp: dslot_name_def config_name_def dest: Itoa_first_special [simplified])

section \<open>Slot references and single updates\<close>

lemma slot_at_on_slot [simp]:
  "slot_at (on_slot r f c) q = (if q = r \<and> r < length (heap c) then f (slot_at c r) else slot_at c q)"
  by (auto simp: slot_at_def on_slot_def list_update_beyond)

lemma on_slot_fields [simp]:
  "slots (on_slot r f c) = slots c" "dslots (on_slot r f c) = dslots c" "byName (on_slot r f c) = byName c"
  "dslotSeq (on_slot r f c) = dslotSeq c" "minter (on_slot r f c) = minter c"
  "activations (on_slot r f c) = activations c" "aliveCancels (on_slot r f c) = aliveCancels c"
  "matchCancels (on_slot r f c) = matchCancels c" "LiveSlots (on_slot r f c) = LiveSlots c"
  "length (heap (on_slot r f c)) = length (heap c)" "fresh (on_slot r f c) = fresh c"
  "deferredDeactivate (on_slot r f c) = deferredDeactivate c" "out (on_slot r f c) = out c"
  "store (on_slot r f c) = store c" "persister_of (on_slot r f c) = persister_of c"
  "adv (on_slot r f c) = adv c" "alivesMissed (on_slot r f c) = alivesMissed c"
  by (simp_all add: on_slot_def LiveSlots_def)

lemma slot_at_upd [simp]:
  "slot_at (c\<lparr>matchCancels := x1\<rparr>) = slot_at c" "slot_at (c\<lparr>aliveCancels := x1\<rparr>) = slot_at c"
  "slot_at (c\<lparr>activations := x2\<rparr>) = slot_at c" "slot_at (c\<lparr>minter := x3\<rparr>) = slot_at c"
  "slot_at (c\<lparr>deferredDeactivate := x1\<rparr>) = slot_at c" "slot_at (c\<lparr>fresh := x4\<rparr>) = slot_at c"
  "slot_at (c\<lparr>dslotSeq := x5\<rparr>) = slot_at c" "slot_at (c\<lparr>sandboxSeq := x5\<rparr>) = slot_at c"
  "slot_at (c\<lparr>activationGen := x5\<rparr>) = slot_at c" "slot_at (c\<lparr>events := x6\<rparr>) = slot_at c"
  "slot_at (c\<lparr>out := x7\<rparr>) = slot_at c" "slot_at (c\<lparr>persister_of := x8\<rparr>) = slot_at c"
  by (simp_all add: slot_at_def fun_eq_iff)

lemma LiveSlots_upd [simp]:
  "LiveSlots (c\<lparr>matchCancels := x1\<rparr>) = LiveSlots c" "LiveSlots (c\<lparr>aliveCancels := x1\<rparr>) = LiveSlots c"
  "LiveSlots (c\<lparr>activations := x2\<rparr>) = LiveSlots c" "LiveSlots (c\<lparr>minter := x3\<rparr>) = LiveSlots c"
  "LiveSlots (c\<lparr>deferredDeactivate := x1\<rparr>) = LiveSlots c" "LiveSlots (c\<lparr>fresh := x4\<rparr>) = LiveSlots c"
  "LiveSlots (c\<lparr>dslotSeq := x5\<rparr>) = LiveSlots c" "LiveSlots (c\<lparr>sandboxSeq := x5\<rparr>) = LiveSlots c"
  "LiveSlots (c\<lparr>activationGen := x5\<rparr>) = LiveSlots c" "LiveSlots (c\<lparr>events := x6\<rparr>) = LiveSlots c"
  by (simp_all add: LiveSlots_def)

definition bump :: "Slot \<Rightarrow> Slot" where
  "bump s = s\<lparr>slot_seq := wrap64 (slot_seq s + 1)\<rparr>"

lemma take_public_on_slot: "snd (take_public L w r c) = on_slot r bump c"
  by (simp add: take_public_def PublicAd_def bump_def Let_def slot_at_def on_slot_def)

lemma strip_bump [simp]: "strip (bump s) = strip s"
  by (simp add: strip_def bump_def)

lemma claimed_reply_on_slot:
  "snd (claimed_reply L w req r c) =
     (if adBool L req ''_condor_SEND_CLAIMED_AD'' then on_slot r bump c else c)"
  using take_public_on_slot [of L w r c] by (auto simp: claimed_reply_def split: prod.split)

lemma leftover_reply_on_slot:
  "snd (leftover_reply L w req r c) =
     (if adBool L req ''_condor_SEND_LEFTOVERS'' then on_slot r bump c else c)"
  using take_public_on_slot [of L w r c] by (auto simp: leftover_reply_def split: prod.split)

end
