(* ===== verification/Invariant.thy ===== *)
theory Invariant
  imports Registry
begin

text \<open>
  The invariants of the event loop. A slot's advertised state and its claim always agree; a starter
  is recorded exactly for the busy slots and a keepalive exactly for the claimed ones; an armed match
  timer belongs to a matched slot; the registries are consistent and claim ids are never shared;
  a partitionable slot lists exactly the claims of its dynamic slots.
\<close>

section \<open>What each operation leaves alone\<close>

lemma emit_frame [frame_simps]:
  "heap (emit e c) = heap c" "slots (emit e c) = slots c" "dslots (emit e c) = dslots c"
  "byName (emit e c) = byName c" "dslotSeq (emit e c) = dslotSeq c" "minter (emit e c) = minter c"
  "activations (emit e c) = activations c" "aliveCancels (emit e c) = aliveCancels c"
  "matchCancels (emit e c) = matchCancels c"
  "deferredDeactivate (emit e c) = deferredDeactivate c"
  "alivesMissed (emit e c) = alivesMissed c" "adv (emit e c) = adv c"
  "executeDir (emit e c) = executeDir c"
  by (simp_all add: emit_def split: option.split)

lemma persistSlot_frame [frame_simps]:
  "heap (persistSlot L r c) = heap c" "slots (persistSlot L r c) = slots c"
  "dslots (persistSlot L r c) = dslots c" "byName (persistSlot L r c) = byName c"
  "dslotSeq (persistSlot L r c) = dslotSeq c" "minter (persistSlot L r c) = minter c"
  "activations (persistSlot L r c) = activations c"
  "aliveCancels (persistSlot L r c) = aliveCancels c"
  "matchCancels (persistSlot L r c) = matchCancels c"
  "deferredDeactivate (persistSlot L r c) = deferredDeactivate c"
  "alivesMissed (persistSlot L r c) = alivesMissed c" "adv (persistSlot L r c) = adv c"
  "executeDir (persistSlot L r c) = executeDir c"
  by (simp_all add: persistSlot_def Let_def split: option.split)

lemma startMatchTimer_frame [frame_simps]:
  "heap (startMatchTimer r cid c) = heap c" "slots (startMatchTimer r cid c) = slots c"
  "dslots (startMatchTimer r cid c) = dslots c" "byName (startMatchTimer r cid c) = byName c"
  "dslotSeq (startMatchTimer r cid c) = dslotSeq c" "minter (startMatchTimer r cid c) = minter c"
  "activations (startMatchTimer r cid c) = activations c"
  "aliveCancels (startMatchTimer r cid c) = aliveCancels c"
  "deferredDeactivate (startMatchTimer r cid c) = deferredDeactivate c"
  "alivesMissed (startMatchTimer r cid c) = alivesMissed c"
  "adv (startMatchTimer r cid c) = adv c" "executeDir (startMatchTimer r cid c) = executeDir c"
  by (simp_all add: startMatchTimer_def emit_def Let_def split: option.split)

lemma cancelMatchTimer_frame [frame_simps]:
  "heap (cancelMatchTimer n c) = heap c" "slots (cancelMatchTimer n c) = slots c"
  "dslots (cancelMatchTimer n c) = dslots c" "byName (cancelMatchTimer n c) = byName c"
  "dslotSeq (cancelMatchTimer n c) = dslotSeq c" "minter (cancelMatchTimer n c) = minter c"
  "activations (cancelMatchTimer n c) = activations c"
  "aliveCancels (cancelMatchTimer n c) = aliveCancels c"
  "deferredDeactivate (cancelMatchTimer n c) = deferredDeactivate c"
  "alivesMissed (cancelMatchTimer n c) = alivesMissed c" "adv (cancelMatchTimer n c) = adv c"
  "executeDir (cancelMatchTimer n c) = executeDir c"
  by (simp_all add: cancelMatchTimer_def emit_def split: option.split)

lemma startAliveLoop_frame [frame_simps]:
  "heap (startAliveLoop r c) = heap c" "slots (startAliveLoop r c) = slots c"
  "dslots (startAliveLoop r c) = dslots c" "byName (startAliveLoop r c) = byName c"
  "dslotSeq (startAliveLoop r c) = dslotSeq c" "minter (startAliveLoop r c) = minter c"
  "activations (startAliveLoop r c) = activations c"
  "matchCancels (startAliveLoop r c) = matchCancels c"
  "deferredDeactivate (startAliveLoop r c) = deferredDeactivate c"
  "alivesMissed (startAliveLoop r c) = alivesMissed c" "adv (startAliveLoop r c) = adv c"
  "executeDir (startAliveLoop r c) = executeDir c"
  by (simp_all add: startAliveLoop_def emit_def Let_def split: option.split)

lemma cancelAliveLoop_frame [frame_simps]:
  "heap (cancelAliveLoop n c) = heap c" "slots (cancelAliveLoop n c) = slots c"
  "dslots (cancelAliveLoop n c) = dslots c" "byName (cancelAliveLoop n c) = byName c"
  "dslotSeq (cancelAliveLoop n c) = dslotSeq c" "minter (cancelAliveLoop n c) = minter c"
  "activations (cancelAliveLoop n c) = activations c"
  "matchCancels (cancelAliveLoop n c) = matchCancels c"
  "deferredDeactivate (cancelAliveLoop n c) = deferredDeactivate c"
  "alivesMissed (cancelAliveLoop n c) = alivesMissed c" "adv (cancelAliveLoop n c) = adv c"
  "executeDir (cancelAliveLoop n c) = executeDir c"
  by (simp_all add: cancelAliveLoop_def emit_def split: option.split)

lemma releaseDeferredDeactivate_frame [frame_simps]:
  "heap (releaseDeferredDeactivate n c) = heap c"
  "slots (releaseDeferredDeactivate n c) = slots c"
  "dslots (releaseDeferredDeactivate n c) = dslots c"
  "byName (releaseDeferredDeactivate n c) = byName c"
  "dslotSeq (releaseDeferredDeactivate n c) = dslotSeq c"
  "minter (releaseDeferredDeactivate n c) = minter c"
  "activations (releaseDeferredDeactivate n c) = activations c"
  "aliveCancels (releaseDeferredDeactivate n c) = aliveCancels c"
  "matchCancels (releaseDeferredDeactivate n c) = matchCancels c"
  "alivesMissed (releaseDeferredDeactivate n c) = alivesMissed c"
  "adv (releaseDeferredDeactivate n c) = adv c"
  "executeDir (releaseDeferredDeactivate n c) = executeDir c"
  by (simp_all add: releaseDeferredDeactivate_def emit_def split: option.split)

lemma end_activation_frame [frame_simps]:
  "heap (end_activation n a c) = heap c" "slots (end_activation n a c) = slots c"
  "dslots (end_activation n a c) = dslots c" "byName (end_activation n a c) = byName c"
  "dslotSeq (end_activation n a c) = dslotSeq c" "minter (end_activation n a c) = minter c"
  "aliveCancels (end_activation n a c) = aliveCancels c"
  "matchCancels (end_activation n a c) = matchCancels c"
  "deferredDeactivate (end_activation n a c) = deferredDeactivate c"
  "alivesMissed (end_activation n a c) = alivesMissed c" "adv (end_activation n a c) = adv c"
  "executeDir (end_activation n a c) = executeDir c"
  by (simp_all add: end_activation_def emit_def split: option.split)

lemma killActivation_frame [frame_simps]:
  "heap (killActivation n c) = heap c" "slots (killActivation n c) = slots c"
  "dslots (killActivation n c) = dslots c" "byName (killActivation n c) = byName c"
  "dslotSeq (killActivation n c) = dslotSeq c" "minter (killActivation n c) = minter c"
  "aliveCancels (killActivation n c) = aliveCancels c"
  "matchCancels (killActivation n c) = matchCancels c"
  "deferredDeactivate (killActivation n c) = deferredDeactivate c"
  "alivesMissed (killActivation n c) = alivesMissed c" "adv (killActivation n c) = adv c"
  "executeDir (killActivation n c) = executeDir c"
  by (simp_all add: killActivation_def end_activation_def emit_def Let_def split: option.split)

lemma store_delete_frame [frame_simps]:
  "heap (store_delete L n c) = heap c" "slots (store_delete L n c) = slots c"
  "dslots (store_delete L n c) = dslots c" "byName (store_delete L n c) = byName c"
  "dslotSeq (store_delete L n c) = dslotSeq c" "minter (store_delete L n c) = minter c"
  "activations (store_delete L n c) = activations c"
  "aliveCancels (store_delete L n c) = aliveCancels c"
  "matchCancels (store_delete L n c) = matchCancels c"
  "deferredDeactivate (store_delete L n c) = deferredDeactivate c"
  "alivesMissed (store_delete L n c) = alivesMissed c" "adv (store_delete L n c) = adv c"
  "executeDir (store_delete L n c) = executeDir c"
  by (simp_all add: store_delete_def split: option.split)

lemma InvalidateSlot_frame [frame_simps]:
  "heap (InvalidateSlot L w s c) = heap c" "slots (InvalidateSlot L w s c) = slots c"
  "dslots (InvalidateSlot L w s c) = dslots c" "byName (InvalidateSlot L w s c) = byName c"
  "dslotSeq (InvalidateSlot L w s c) = dslotSeq c" "minter (InvalidateSlot L w s c) = minter c"
  "activations (InvalidateSlot L w s c) = activations c"
  "aliveCancels (InvalidateSlot L w s c) = aliveCancels c"
  "matchCancels (InvalidateSlot L w s c) = matchCancels c"
  "deferredDeactivate (InvalidateSlot L w s c) = deferredDeactivate c"
  "alivesMissed (InvalidateSlot L w s c) = alivesMissed c" "adv (InvalidateSlot L w s c) = adv c"
  "executeDir (InvalidateSlot L w s c) = executeDir c"
  by (simp_all add: InvalidateSlot_def emit_def split: option.split)

lemma reject_claim_frame [frame_simps]:
  "heap (reject_claim c) = heap c" "slots (reject_claim c) = slots c"
  "dslots (reject_claim c) = dslots c" "byName (reject_claim c) = byName c"
  "dslotSeq (reject_claim c) = dslotSeq c" "minter (reject_claim c) = minter c"
  "activations (reject_claim c) = activations c" "aliveCancels (reject_claim c) = aliveCancels c"
  "matchCancels (reject_claim c) = matchCancels c"
  "deferredDeactivate (reject_claim c) = deferredDeactivate c"
  "alivesMissed (reject_claim c) = alivesMissed c" "adv (reject_claim c) = adv c"
  "executeDir (reject_claim c) = executeDir c"
  by (simp_all add: reject_claim_def emit_def split: option.split)

lemma reject_activate_frame [frame_simps]:
  "heap (reject_activate c) = heap c" "slots (reject_activate c) = slots c"
  "dslots (reject_activate c) = dslots c" "byName (reject_activate c) = byName c"
  "dslotSeq (reject_activate c) = dslotSeq c" "minter (reject_activate c) = minter c"
  "activations (reject_activate c) = activations c"
  "aliveCancels (reject_activate c) = aliveCancels c"
  "matchCancels (reject_activate c) = matchCancels c"
  "deferredDeactivate (reject_activate c) = deferredDeactivate c"
  "alivesMissed (reject_activate c) = alivesMissed c" "adv (reject_activate c) = adv c"
  "executeDir (reject_activate c) = executeDir c"
  by (simp_all add: reject_activate_def emit_def split: option.split)


lemma slot_at_frame [frame_simps]:
  "slot_at (emit e c) = slot_at c" "slot_at (persistSlot L r c) = slot_at c"
  "slot_at (startMatchTimer r cid c) = slot_at c" "slot_at (cancelMatchTimer n c) = slot_at c"
  "slot_at (startAliveLoop r c) = slot_at c" "slot_at (cancelAliveLoop n c) = slot_at c"
  "slot_at (releaseDeferredDeactivate n c) = slot_at c" "slot_at (end_activation n a c) = slot_at c"
  "slot_at (killActivation n c) = slot_at c" "slot_at (store_delete L n c) = slot_at c"
  "slot_at (InvalidateSlot L w s c) = slot_at c" "slot_at (reject_claim c) = slot_at c"
  "slot_at (reject_activate c) = slot_at c"
  by (simp_all add: fun_eq_iff slot_at_def frame_simps)

lemma live_frame [frame_simps]:
  "LiveSlots (emit e c) = LiveSlots c" "LiveSlots (persistSlot L r c) = LiveSlots c"
  "LiveSlots (startMatchTimer r cid c) = LiveSlots c" "LiveSlots (cancelMatchTimer n c) = LiveSlots c"
  "LiveSlots (startAliveLoop r c) = LiveSlots c" "LiveSlots (cancelAliveLoop n c) = LiveSlots c"
  "LiveSlots (releaseDeferredDeactivate n c) = LiveSlots c"
  "LiveSlots (end_activation n a c) = LiveSlots c" "LiveSlots (killActivation n c) = LiveSlots c"
  "LiveSlots (store_delete L n c) = LiveSlots c" "LiveSlots (InvalidateSlot L w s c) = LiveSlots c"
  "LiveSlots (reject_claim c) = LiveSlots c" "LiveSlots (reject_activate c) = LiveSlots c"
  by (simp_all add: LiveSlots_def frame_simps)

lemma own_key [frame_simps]:
  "dom (map_of (matchCancels (startMatchTimer r cid c))) =
     insert (Name (slot_at c r)) (dom (map_of (matchCancels c)))"
  "dom (map_of (matchCancels (cancelMatchTimer n c))) = dom (map_of (matchCancels c)) - {n}"
  "dom (map_of (aliveCancels (startAliveLoop r c))) =
     (if slot_claim (slot_at c r) = None then dom (map_of (aliveCancels c))
      else insert (Name (slot_at c r)) (dom (map_of (aliveCancels c))))"
  "dom (map_of (aliveCancels (cancelAliveLoop n c))) = dom (map_of (aliveCancels c)) - {n}"
  "dom (map_of (activations (end_activation n a c))) = dom (map_of (activations c)) - {n}"
  "dom (map_of (activations (killActivation n c))) = dom (map_of (activations c)) - {n}"
  by (auto simp: startMatchTimer_def cancelMatchTimer_def startAliveLoop_def cancelAliveLoop_def
      killActivation_def end_activation_def emit_def Let_def split: option.splits if_splits)

section \<open>The invariant\<close>

text \<open>
  The agreement of a slot's advertised state and activity with the state of its claim; a dynamic
  slot lives as long as its claim.
\<close>

definition slot_ok :: "Slot \<Rightarrow> bool" where
  "slot_ok s =
     (case slot_claim s of
        None \<Rightarrow> False
      | Some cl \<Rightarrow>
          (slot_state s, activity s, claim_state cl) \<in>
            {(''Unclaimed'', ''Idle'', Unclaimed), (''Matched'', ''Idle'', Unclaimed),
             (''Claimed'', ''Idle'', ClaimedIdle), (''Claimed'', ''Busy'', ClaimedBusy)} \<and>
          (IsDynamic s \<longrightarrow> slot_state s = ''Claimed''))"

lemma slot_ok_claim: "slot_ok s \<Longrightarrow> slot_claim s \<noteq> None"
  by (cases "slot_claim s") (simp_all add: slot_ok_def)

text \<open>What the loop keeps for a slot: a starter, a keepalive, a match timer.\<close>

definition slot_books :: "'c Core \<Rightarrow> Slot \<Rightarrow> bool" where
  "slot_books c s \<longleftrightarrow>
     (Name s \<in> dom (map_of (activations c)) \<longleftrightarrow> claim_is ClaimedBusy s) \<and>
     (Name s \<in> dom (map_of (aliveCancels c)) \<longleftrightarrow> claimed_slot s) \<and>
     (Name s \<in> dom (map_of (matchCancels c)) \<longrightarrow> slot_state s = ''Matched'')"

definition books_ok :: "'c Core \<Rightarrow> bool" where
  "books_ok c \<longleftrightarrow>
     (\<forall>r \<in> set (LiveSlots c). slot_ok (slot_at c r) \<and> slot_books c (slot_at c r)) \<and>
     dom (map_of (activations c)) \<subseteq> live_names c \<and> dom (map_of (aliveCancels c)) \<subseteq> live_names c \<and>
     dom (map_of (matchCancels c)) \<subseteq> live_names c"

definition parent_of :: "Slot \<Rightarrow> Slot \<Rightarrow> bool" where
  "parent_of p d \<longleftrightarrow> IsPartitionable p \<and> Name p = ParentName d \<and> SlotID p = SlotID d \<and> Machine p = Machine d"

definition shape_ok :: "'c Core \<Rightarrow> bool" where
  "shape_ok c \<longleftrightarrow>
     (\<forall>r \<in> set (slots c). \<not> IsDynamic (slot_at c r) \<and> Name (slot_at c r) = config_name (slot_at c r)) \<and>
     (\<forall>r \<in> set (dslots c). IsDynamic (slot_at c r) \<and>
        Name (slot_at c r) = dslot_name (slot_at c r) (SubID (slot_at c r)) \<and>
        SubID (slot_at c r) \<le> dslotSeq c \<and> (\<exists>p \<in> set (slots c). parent_of (slot_at c p) (slot_at c r)))"

definition children_ok :: "'c Core \<Rightarrow> bool" where
  "children_ok c \<longleftrightarrow>
     (\<forall>p \<in> set (slots c). IsPartitionable (slot_at c p) \<longrightarrow>
        childClaimIDs (slot_at c p) = child_claim_ids (Name (slot_at c p)) c)"

text \<open>
  No two slots share a claim id, and no slot has one that the minter is still to give out. (A claim
  adopted after a restart has an id of an earlier minter.)
\<close>

definition mint_options :: "Minter \<Rightarrow> int \<Rightarrow> MintClaimOptions" where
  "mint_options m k = \<lparr>opt_Sinful = sinful m, opt_Birthdate = birthdate m, opt_SequenceNum = k,
     opt_ExtraValidCommands = claimSurfaceCommands\<rparr>"

definition mint_id :: "'x security_api_scheme \<Rightarrow> Minter \<Rightarrow> int \<Rightarrow> string" where
  "mint_id L m k = (case MintClaimSession L (mint_options m k) of Inl e \<Rightarrow> [] | Inr x \<Rightarrow> minted_ClaimID x)"

definition ids_ok :: "'x security_api_scheme \<Rightarrow> 'c Core \<Rightarrow> bool" where
  "ids_ok L c \<longleftrightarrow>
     (case minter c of
        None \<Rightarrow> False
      | Some m \<Rightarrow>
          inj_on (\<lambda>r. slot_claim_id (slot_at c r)) (set (LiveSlots c)) \<and>
          (\<forall>r \<in> set (LiveSlots c). \<forall>k. slot_claim_id (slot_at c r) = mint_id L m k \<longrightarrow> k \<le> seq m))"

definition core_inv :: "'x security_api_scheme \<Rightarrow> 'c Core \<Rightarrow> bool" where
  "core_inv L c \<longleftrightarrow> registry_ok c \<and> shape_ok c \<and> books_ok c \<and> children_ok c \<and> ids_ok L c"

text \<open>
  What the loop relies on of the security library: a session is minted for every request, and
  different sequence numbers give different claim ids.
\<close>

definition mint_ok :: "'x security_api_scheme \<Rightarrow> bool" where
  "mint_ok L \<longleftrightarrow>
     (\<forall>opts. \<exists>x. MintClaimSession L opts = Inr x) \<and> (\<forall>m k l. mint_id L m k = mint_id L m l \<longrightarrow> k = l)"

section \<open>Local changes\<close>

text \<open>
  \<open>touches r c d\<close>: from \<open>c\<close> to \<open>d\<close> the slot \<open>r\<close> may change in what is not fixed at its construction,
  and the loop's books may change under its name; everything else keeps its view.
\<close>

definition same_books_off :: "string \<Rightarrow> 'c Core \<Rightarrow> 'c Core \<Rightarrow> bool" where
  "same_books_off n c d \<longleftrightarrow>
     dom (map_of (activations d)) - {n} = dom (map_of (activations c)) - {n} \<and>
     dom (map_of (aliveCancels d)) - {n} = dom (map_of (aliveCancels c)) - {n} \<and>
     dom (map_of (matchCancels d)) - {n} = dom (map_of (matchCancels c)) - {n}"

definition touches :: "slotref \<Rightarrow> 'c Core \<Rightarrow> 'c Core \<Rightarrow> bool" where
  "touches r c d \<longleftrightarrow>
     slots d = slots c \<and> dslots d = dslots c \<and> byName d = byName c \<and> dslotSeq d = dslotSeq c \<and>
     length (heap d) = length (heap c) \<and>
     (\<forall>q. q \<noteq> r \<longrightarrow> q < length (heap c) \<longrightarrow> strip (slot_at d q) = strip (slot_at c q)) \<and>
     same_slot (slot_at d r) (slot_at c r) \<and> same_books_off (Name (slot_at c r)) c d"

lemma touches_trans [trans]: "touches r c d \<Longrightarrow> touches r d e \<Longrightarrow> touches r c e"
  by (simp add: touches_def same_books_off_def same_slot_def)

lemma strip_eqD:
  assumes "strip s = strip t"
  shows "Name s = Name t" "slot_claim s = slot_claim t" "slot_state s = slot_state t"
    "activity s = activity t" "ParentName s = ParentName t" "SubID s = SubID t" "Res s = Res t"
    "childClaimIDs s = childClaimIDs t" "SlotType s = SlotType t" "SlotID s = SlotID t"
    "Machine s = Machine t" "fullRes s = fullRes t"
  using assms by (cases s; cases t; simp add: strip_def)+

lemma strip_eq_same: "strip s = strip t \<Longrightarrow> same_slot s t"
  using strip_eqD [of s t] by (simp add: same_slot_def)

lemma off_member: "A - {n} = B - {n} \<Longrightarrow> m \<noteq> n \<Longrightarrow> m \<in> A \<longleftrightarrow> m \<in> B"
  by blast

lemma off_subset: "n \<in> X \<Longrightarrow> A - {n} = B - {n} \<Longrightarrow> B \<subseteq> X \<Longrightarrow> A \<subseteq> X"
  by blast

lemma touches_view:
  assumes "core_view d = core_view c" "r < length (heap c)"
  shows "touches r c d"
  unfolding touches_def same_books_off_def
  using view_eq_fields [OF assms(1)] view_eq_slot [OF assms(1)] assms(2) by (auto intro: strip_eq_same)

lemma touches_on_slot:
  assumes "\<And>s. same_slot (f s) s"
  shows "touches r c (on_slot r f c)"
  using assms by (simp add: touches_def same_books_off_def)

lemma touches_refl [simp]: "touches r c c"
  by (simp add: touches_def same_books_off_def)

lemma touches_name: "touches r c d \<Longrightarrow> Name (slot_at d r) = Name (slot_at c r)"
  by (simp add: touches_def same_slot_def)

text \<open>The operations that touch at most one slot, as steps from the state they are applied to.\<close>

lemma touches_step:
  "touches r c d \<Longrightarrow> n = Name (slot_at c r) \<Longrightarrow> touches r c (cancelMatchTimer n d)"
  "touches r c d \<Longrightarrow> n = Name (slot_at c r) \<Longrightarrow> touches r c (cancelAliveLoop n d)"
  "touches r c d \<Longrightarrow> n = Name (slot_at c r) \<Longrightarrow> touches r c (killActivation n d)"
  "touches r c d \<Longrightarrow> n = Name (slot_at c r) \<Longrightarrow> touches r c (end_activation n a d)"
  "touches r c d \<Longrightarrow> touches r c (startMatchTimer r cid d)"
  "touches r c d \<Longrightarrow> touches r c (releaseDeferredDeactivate n d)"
  "touches r c d \<Longrightarrow> touches r c (emit e d)" "touches r c d \<Longrightarrow> touches r c (persistSlot L r' d)"
  "touches r c d \<Longrightarrow> touches r c (startAliveLoop r d)"
  "touches r c d \<Longrightarrow> (\<And>s. same_slot (f s) s) \<Longrightarrow> touches r c (on_slot r f d)"
  using touches_name [of r c d]
  by (auto simp: frame_simps touches_def same_books_off_def intro: touches_on_slot same_slot_trans)

lemma touches_slot: "touches r c d \<Longrightarrow> q \<noteq> r \<Longrightarrow> q < length (heap c) \<Longrightarrow> strip (slot_at d q) = strip (slot_at c q)"
  by (simp add: touches_def)

lemma touches_same: "touches r c d \<Longrightarrow> q < length (heap c) \<Longrightarrow> same_slot (slot_at d q) (slot_at c q)"
  by (cases "q = r") (auto simp: touches_def intro: strip_eq_same)

lemma same_slotD:
  assumes "same_slot s t"
  shows "Name s = Name t" "SlotType s = SlotType t" "SlotID s = SlotID t" "Machine s = Machine t"
    "ParentName s = ParentName t" "SubID s = SubID t" "fullRes s = fullRes t"
    "IsDynamic s = IsDynamic t" "IsPartitionable s = IsPartitionable t"
  using assms by (simp_all add: same_slot_def IsDynamic_def IsPartitionable_def)

lemma touches_registry:
  assumes "registry_ok c" "touches r c d"
  shows "registry_ok d" "LiveSlots d = LiveSlots c" "live_names d = live_names c"
proof -
  have live: "LiveSlots d = LiveSlots c" using assms(2) by (simp add: touches_def LiveSlots_def)
  have name: "Name (slot_at d q) = Name (slot_at c q)" if "q \<in> set (LiveSlots c)" for q
    using touches_same [OF assms(2)] registry_range [OF assms(1) that] by (simp add: same_slotD)
  show "LiveSlots d = LiveSlots c" by (rule live)
  show "live_names d = live_names c" using name by (auto simp: live_names_def live)
  have "byName d = byName c" "length (heap d) = length (heap c)" using assms(2) by (simp_all add: touches_def)
  moreover have "inj_on (\<lambda>r. Name (slot_at d r)) (set (LiveSlots c)) =
      inj_on (\<lambda>r. Name (slot_at c r)) (set (LiveSlots c))"
    by (rule inj_on_cong) (simp add: name)
  ultimately show "registry_ok d" using assms(1) name by (auto simp: registry_ok_def live)
qed

lemma touches_shape:
  assumes "registry_ok c" "shape_ok c" "touches r c d"
  shows "shape_ok d"
proof -
  have same: "same_slot (slot_at d q) (slot_at c q)" if "q \<in> set (slots c) \<union> set (dslots c)" for q
    using touches_same [OF assms(3)] registry_range [OF assms(1)] that by (auto simp: LiveSlots_def)
  have eqs: "slots d = slots c" "dslots d = dslots c" "dslotSeq d = dslotSeq c"
    using assms(3) by (simp_all add: touches_def)
  have "config_name (slot_at d q) = config_name (slot_at c q)"
    "dslot_name (slot_at d q) k = dslot_name (slot_at c q) k"
    if "q \<in> set (slots c) \<union> set (dslots c)" for q k
    using same_slotD [OF same [OF that]] by (simp_all add: config_name_def dslot_name_def)
  moreover have "parent_of (slot_at d p) (slot_at d q) = parent_of (slot_at c p) (slot_at c q)"
    if "p \<in> set (slots c)" "q \<in> set (dslots c)" for p q
    using same_slotD [OF same, of p] same_slotD [OF same, of q] that by (simp add: parent_of_def)
  ultimately show ?thesis using assms(2) same_slotD [OF same]
    by (simp add: shape_ok_def eqs)
qed

lemma slot_books_cong:
  assumes "touches r c d" "strip (slot_at d q) = strip (slot_at c q)"
    "Name (slot_at c q) \<noteq> Name (slot_at c r)"
  shows "slot_ok (slot_at d q) = slot_ok (slot_at c q)"
    "slot_books d (slot_at d q) = slot_books c (slot_at c q)"
proof -
  note f = strip_eqD [OF assms(2)]
  show "slot_ok (slot_at d q) = slot_ok (slot_at c q)" 
    unfolding slot_ok_def IsDynamic_def f by (rule refl)
  have "same_books_off (Name (slot_at c r)) c d" using assms(1) by (simp add: touches_def)
  then show "slot_books d (slot_at d q) = slot_books c (slot_at c q)"
    using off_member [OF _ assms(3)] unfolding slot_books_def same_books_off_def claim_is_def
      claimed_slot_def f by metis
qed

lemma touches_books:
  assumes reg: "registry_ok c" and books: "books_ok c" and t: "touches r c d"
    and r: "r \<in> set (LiveSlots c)" and own: "slot_ok (slot_at d r)" "slot_books d (slot_at d r)"
  shows "books_ok d"
proof -
  note live = touches_registry [OF reg t]
  have "slot_ok (slot_at d q) \<and> slot_books d (slot_at d q)" if q: "q \<in> set (LiveSlots c)" for q
  proof (cases "q = r")
    case True
    then show ?thesis using own by simp
  next
    case False
    then have "strip (slot_at d q) = strip (slot_at c q)"
      using touches_slot [OF t] registry_range [OF reg q] by simp
    moreover have "Name (slot_at c q) \<noteq> Name (slot_at c r)"
      using registry_name_inj [OF reg q r] False by simp
    ultimately show ?thesis using slot_books_cong [OF t] books q by (simp add: books_ok_def)
  qed
  moreover have "Name (slot_at c r) \<in> live_names c" using r by (simp add: live_names_def)
  note off = off_subset [OF this]
  have "same_books_off (Name (slot_at c r)) c d" using t by (simp add: touches_def)
  then have "dom (map_of (activations d)) \<subseteq> live_names c" "dom (map_of (aliveCancels d)) \<subseteq> live_names c"
    "dom (map_of (matchCancels d)) \<subseteq> live_names c"
    using books unfolding books_ok_def same_books_off_def by (metis (lifting) off)+
  ultimately show ?thesis unfolding books_ok_def live by simp
qed

lemma touches_children:
  assumes reg: "registry_ok c" and t: "touches r c d"
    and own: "slot_claim (slot_at d r) \<noteq> None" "slot_claim (slot_at c r) \<noteq> None"
    and id: "r \<in> set (dslots c) \<Longrightarrow> slot_claim_id (slot_at d r) = slot_claim_id (slot_at c r)"
  shows "child_claim_ids n d = child_claim_ids n c"
proof -
  have eq: "dslots d = dslots c" using t by (simp add: touches_def)
  have "(ParentName (slot_at d q) = n \<and> slot_claim (slot_at d q) \<noteq> None) =
        (ParentName (slot_at c q) = n \<and> slot_claim (slot_at c q) \<noteq> None) \<and>
      slot_claim_id (slot_at d q) = slot_claim_id (slot_at c q)" if q: "q \<in> set (dslots c)" for q
  proof (cases "q = r")
    case True
    then show ?thesis using t own id q by (simp add: touches_def same_slot_def)
  next
    case False
    have "q < length (heap c)" using registry_range [OF reg] q by (simp add: LiveSlots_def)
    from strip_eqD [OF touches_slot [OF t False this]] show ?thesis by (simp add: slot_claim_id_def)
  qed
  then show ?thesis
    by (simp add: child_claim_ids_def eq filter_map o_def cong: filter_cong)
qed

lemma touches_childrenI:
  assumes "registry_ok c" "children_ok c" and t: "touches r c d"
    and "slot_claim (slot_at d r) \<noteq> None" "slot_claim (slot_at c r) \<noteq> None"
    and "r \<in> set (dslots c) \<Longrightarrow> slot_claim_id (slot_at d r) = slot_claim_id (slot_at c r)"
    and own: "childClaimIDs (slot_at d r) = childClaimIDs (slot_at c r)"
  shows "children_ok d"
proof -
  have eq: "slots d = slots c" using t by (simp add: touches_def)
  have "childClaimIDs (slot_at d p) = childClaimIDs (slot_at c p) \<and>
      Name (slot_at d p) = Name (slot_at c p) \<and>
      IsPartitionable (slot_at d p) = IsPartitionable (slot_at c p)" if "p \<in> set (slots c)" for p
  proof -
    have p: "p < length (heap c)" using registry_range [OF assms(1)] that by (simp add: LiveSlots_def)
    show ?thesis
      using own same_slotD [OF touches_same [OF t p]] strip_eqD [OF touches_slot [OF t _ p]]
      by (cases "p = r") auto
  qed
  then show ?thesis
    using assms(2) touches_children [OF assms(1) t assms(4-6)]
    by (simp add: children_ok_def eq)
qed

text \<open>A change of one slot that keeps its claim id.\<close>

lemma core_inv_touches:
  assumes inv: "core_inv L c" and t: "touches r c d" and r: "r \<in> set (LiveSlots c)"
    and own: "slot_ok (slot_at d r)" "slot_books d (slot_at d r)"
    and id: "slot_claim_id (slot_at d r) = slot_claim_id (slot_at c r)" "minter d = minter c"
    and ch: "childClaimIDs (slot_at d r) = childClaimIDs (slot_at c r)"
  shows "core_inv L d"
proof -
  have reg: "registry_ok c" and books: "books_ok c" using inv by (simp_all add: core_inv_def)
  note live = touches_registry [OF reg t]
  have "slot_claim (slot_at c r) \<noteq> None" using books r by (simp add: books_ok_def slot_ok_claim)
  moreover have "slot_claim (slot_at d r) \<noteq> None" using own(1) by (rule slot_ok_claim)
  ultimately have "children_ok d"
    using touches_childrenI [OF reg _ t] inv id ch by (simp add: core_inv_def)
  moreover have same: "slot_claim_id (slot_at d q) = slot_claim_id (slot_at c q)"
    if "q \<in> set (LiveSlots c)" for q
    using id strip_eqD [OF touches_slot [OF t _ registry_range [OF reg that]]]
    by (cases "q = r") (auto simp: slot_claim_id_def)
  have "inj_on (\<lambda>r. slot_claim_id (slot_at d r)) (set (LiveSlots c)) =
      inj_on (\<lambda>r. slot_claim_id (slot_at c r)) (set (LiveSlots c))"
    by (rule inj_on_cong) (simp add: same)
  then have "ids_ok L d"
    using inv same by (simp add: core_inv_def ids_ok_def id live split: option.splits)
  ultimately show ?thesis
    using live touches_shape [OF reg _ t] touches_books [OF reg books t r own] inv
    by (simp add: core_inv_def)
qed

lemma core_inv_books:
  "core_inv L c \<Longrightarrow> r \<in> set (LiveSlots c) \<Longrightarrow> slot_ok (slot_at c r) \<and> slot_books c (slot_at c r)"
  by (simp add: core_inv_def books_ok_def)

text \<open>The invariant depends on the view only.\<close>

lemma core_inv_view_imp:
  assumes v: "core_view d = core_view c" and inv: "core_inv L c"
  shows "core_inv L d"
proof (cases "LiveSlots c")
  case Nil
  note f = view_eq_fields [OF v]
  from Nil have "slots c = []" "dslots c = []" "LiveSlots d = []" by (simp_all add: LiveSlots_def f)
  then show ?thesis using inv Nil
    by (simp add: core_inv_def registry_ok_def shape_ok_def books_ok_def children_ok_def ids_ok_def
        live_names_def f split: option.splits)
next
  case (Cons r rs)
  then have r: "r \<in> set (LiveSlots c)" by simp
  then have len: "r < length (heap c)" using inv registry_range by (auto simp: core_inv_def)
  have e: "strip (slot_at d r) = strip (slot_at c r)"
    using view_eq_slot [OF v] view_eq_fields [OF v] len by simp
  note f = strip_eqD [OF e]
  have "slot_ok (slot_at d r) = slot_ok (slot_at c r)" unfolding slot_ok_def IsDynamic_def f by (rule refl)
  moreover have "slot_books d (slot_at d r) = slot_books c (slot_at c r)"
    unfolding slot_books_def claim_is_def claimed_slot_def f view_eq_fields [OF v] by (rule refl)
  ultimately show ?thesis
    using core_inv_touches [OF inv touches_view [OF v len] r] core_inv_books [OF inv r] f
      view_eq_fields [OF v] by (simp add: slot_claim_id_def)
qed

lemma core_inv_view: "core_view d = core_view c \<Longrightarrow> core_inv L d = core_inv L c"
  using core_inv_view_imp [of d c L] core_inv_view_imp [of c d L] by auto

lemma core_inv_quiet [simp]:
  "core_inv L (emit e c) = core_inv L c" "core_inv L (persistSlot K r c) = core_inv L c"
  "core_inv L (reAdvertise K w c) = core_inv L c" "core_inv L (reject_claim c) = core_inv L c"
  "core_inv L (reject_activate c) = core_inv L c"
  by (rule core_inv_view; simp add: reject_claim_def reject_activate_def)+

text \<open>A configured slot that receives a freshly minted claim.\<close>

lemma mint_fresh:
  assumes "ids_ok L c" "minter c = Some m" "seq m < k" "r \<in> set (LiveSlots c)"
  shows "slot_claim_id (slot_at c r) \<noteq> mint_id L m k"
  using assms by (force simp: ids_ok_def)

lemma mint_id_eq: "mint_ok L \<Longrightarrow> mint_id L m k = mint_id L m l \<longleftrightarrow> k = l"
  by (auto simp: mint_ok_def)

lemma mint_id_seq [simp]: "mint_id L (m\<lparr>seq := j\<rparr>) k = mint_id L m k"
  by (simp add: mint_id_def mint_options_def)

lemma Mint_ok:
  assumes "mint_ok L" "in64 (seq m + 1)"
  obtains cl where "Mint L m = (m\<lparr>seq := seq m + 1\<rparr>, Inr cl)" "claimID cl = mint_id L m (seq m + 1)"
    "claim_state cl = Unclaimed"
proof -
  from assms(1) obtain x where "MintClaimSession L (mint_options m (seq m + 1)) = Inr x"
    unfolding mint_ok_def by blast
  with assms(2) show ?thesis by (intro that) (auto simp: Mint_def mint_id_def mint_options_def Let_def)
qed

lemma core_inv_remint:
  assumes inv: "core_inv L c" and t: "touches r c d" and r: "r \<in> set (slots c)"
    and own: "slot_ok (slot_at d r)" "slot_books d (slot_at d r)"
    and ch: "childClaimIDs (slot_at d r) = childClaimIDs (slot_at c r)"
    and m: "mint_ok L" "minter c = Some m" "minter d = Some (m\<lparr>seq := seq m + 1\<rparr>)"
    and id: "slot_claim_id (slot_at d r) = mint_id L m (seq m + 1)"
  shows "core_inv L d"
proof -
  have reg: "registry_ok c" and books: "books_ok c" and ids: "ids_ok L c"
    using inv by (simp_all add: core_inv_def)
  note live = touches_registry [OF reg t]
  have rl: "r \<in> set (LiveSlots c)" "r \<notin> set (dslots c)"
    using r reg by (auto simp: LiveSlots_def registry_ok_def)
  have "slot_claim (slot_at c r) \<noteq> None" using books rl by (simp add: books_ok_def slot_ok_claim)
  moreover have "slot_claim (slot_at d r) \<noteq> None" using own(1) by (rule slot_ok_claim)
  ultimately have "children_ok d"
    using touches_childrenI [OF reg _ t] inv rl ch by (simp add: core_inv_def)
  moreover have same: "slot_claim_id (slot_at d q) = slot_claim_id (slot_at c q)"
    if "q \<in> set (LiveSlots c)" "q \<noteq> r" for q
    using strip_eqD [OF touches_slot [OF t that(2) registry_range [OF reg that(1)]]]
    by (simp add: slot_claim_id_def)
  have new: "slot_claim_id (slot_at c q) \<noteq> mint_id L m (seq m + 1)" if "q \<in> set (LiveSlots c)" for q
    using mint_fresh [OF ids m(2) _ that] by simp
  have "inj_on (\<lambda>r. slot_claim_id (slot_at d r)) (set (LiveSlots c))"
  proof (rule inj_onI)
    fix p q assume p: "p \<in> set (LiveSlots c)" and q: "q \<in> set (LiveSlots c)"
      and eq: "slot_claim_id (slot_at d p) = slot_claim_id (slot_at d q)"
    have inj: "inj_on (\<lambda>r. slot_claim_id (slot_at c r)) (set (LiveSlots c))"
      using ids m(2) by (simp add: ids_ok_def)
    show "p = q"
      using eq same [OF p] same [OF q] new [OF p] new [OF q] id inj_onD [OF inj _ p q]
      by (cases "p = r"; cases "q = r") auto
  qed
  moreover have "k \<le> seq m + 1"
    if q: "q \<in> set (LiveSlots c)" and k: "slot_claim_id (slot_at d q) = mint_id L m k" for q k
  proof (cases "q = r")
    case True
    then have "mint_id L m k = mint_id L m (seq m + 1)" using id k by simp
    then show ?thesis unfolding mint_id_eq [OF m(1)] by simp
  next
    case False
    then have "k \<le> seq m" using ids m(2) q k same [OF q False] by (simp add: ids_ok_def)
    then show ?thesis by simp
  qed
  ultimately have "ids_ok L d" by (simp add: ids_ok_def m live)
  with \<open>children_ok d\<close> show ?thesis
    using live touches_shape [OF reg _ t] touches_books [OF reg books t rl(1) own] inv
    by (simp add: core_inv_def)
qed

section \<open>Adding and removing a dynamic slot\<close>

text \<open>A slot that changed at most in its resources, its children and its sequence number.\<close>

definition quiet_slot :: "Slot \<Rightarrow> Slot \<Rightarrow> bool" where
  "quiet_slot s t \<longleftrightarrow> same_slot s t \<and> slot_claim s = slot_claim t \<and> slot_state s = slot_state t \<and>
     activity s = activity t"

lemma quiet_slotD:
  assumes "quiet_slot s t"
  shows "Name s = Name t" "slot_claim s = slot_claim t" "slot_state s = slot_state t"
    "activity s = activity t" "ParentName s = ParentName t" "SubID s = SubID t" "SlotID s = SlotID t"
    "Machine s = Machine t" "IsDynamic s = IsDynamic t" "IsPartitionable s = IsPartitionable t"
  using assms same_slotD [of s t] by (simp_all add: quiet_slot_def)

lemma quiet_slot_ok:
  assumes "quiet_slot s t"
  shows "slot_ok s = slot_ok t" "slot_claim_id s = slot_claim_id t"
    "claim_is st s = claim_is st t" "claimed_slot s = claimed_slot t"
    "config_name s = config_name t" "dslot_name s k = dslot_name t k" "parent_of s x = parent_of t x"
    "parent_of x s = parent_of x t" "slot_books c s = slot_books c t"
  unfolding slot_ok_def slot_claim_id_def claim_is_def claimed_slot_def config_name_def
    dslot_name_def parent_of_def slot_books_def quiet_slotD [OF assms] by (rule refl)+

lemma child_list_cong:
  "(\<And>q. q \<in> set qs \<Longrightarrow> quiet_slot (slot_at d q) (slot_at c q)) \<Longrightarrow>
     map slot_claim_id (filter (\<lambda>s. ParentName s = n \<and> slot_claim s \<noteq> None) (map (slot_at d) qs)) =
     map slot_claim_id (filter (\<lambda>s. ParentName s = n \<and> slot_claim s \<noteq> None) (map (slot_at c) qs))"
proof (induction qs)
  case (Cons q qs)
  then have "quiet_slot (slot_at d q) (slot_at c q)" by simp
  with Cons show ?case using quiet_slotD [of "slot_at d q" "slot_at c q"]
      quiet_slot_ok(2) [of "slot_at d q" "slot_at c q"] by simp
qed simp

lemma dslot_name_fresh:
  assumes shape: "shape_ok c" and r: "r \<in> set (LiveSlots c)" and k: "dslotSeq c < k"
  shows "Name (slot_at c r) \<noteq> dslot_name x k"
proof (cases "r \<in> set (slots c)")
  case True
  then show ?thesis using shape dslot_name_not_config [of x k "slot_at c r"] by (auto simp: shape_ok_def)
next
  case False
  then have d: "r \<in> set (dslots c)" using r by (simp add: LiveSlots_def)
  then have n: "Name (slot_at c r) = dslot_name (slot_at c r) (SubID (slot_at c r))"
    and "SubID (slot_at c r) \<le> dslotSeq c" using shape by (auto simp: shape_ok_def)
  then have "SubID (slot_at c r) \<noteq> k" using k by simp
  then show ?thesis using n dslot_name_inj [of "slot_at c r" "SubID (slot_at c r)" x k] by metis
qed

text \<open>
  \<open>adds_dslot p N c d\<close>: from \<open>c\<close> to \<open>d\<close> the dynamic slot \<open>N\<close>, claimed, has been carved out of the
  partitionable slot \<open>p\<close> and registered under a new name, with its keepalive, and with a starter if it is
  busy; the other slots are quiet.
\<close>

definition grows_by :: "slotref \<Rightarrow> Slot \<Rightarrow> 'c Core \<Rightarrow> 'c Core \<Rightarrow> bool" where
  "grows_by p N c d \<longleftrightarrow>
     slots d = slots c \<and> dslots d = dslots c @ [length (heap c)] \<and>
     length (heap d) = Suc (length (heap c)) \<and>
     byName d = AList.update (Name N) (length (heap c)) (byName c) \<and>
     slot_at d (length (heap c)) = N \<and>
     (\<forall>q < length (heap c). quiet_slot (slot_at d q) (slot_at c q) \<and>
        (q \<noteq> p \<longrightarrow> childClaimIDs (slot_at d q) = childClaimIDs (slot_at c q)))"

definition next_dslot :: "Slot \<Rightarrow> Slot \<Rightarrow> 'c Core \<Rightarrow> 'c Core \<Rightarrow> bool" where
  "next_dslot P N c d \<longleftrightarrow>
     IsDynamic N \<and> Name N = dslot_name N (SubID N) \<and> SubID N \<le> dslotSeq d \<and> dslotSeq c \<le> dslotSeq d \<and>
     parent_of P N \<and> slot_ok N \<and> Name N \<notin> live_names c"

definition adds_dslot :: "slotref \<Rightarrow> Slot \<Rightarrow> 'c Core \<Rightarrow> 'c Core \<Rightarrow> bool" where
  "adds_dslot p N c d \<longleftrightarrow>
     p \<in> set (slots c) \<and> grows_by p N c d \<and> next_dslot (slot_at c p) N c d \<and>
     dom (map_of (activations d)) =
       (if claim_is ClaimedBusy N then insert (Name N) (dom (map_of (activations c))) else dom (map_of (activations c))) \<and>
     dom (map_of (matchCancels d)) = dom (map_of (matchCancels c)) \<and>
     dom (map_of (aliveCancels d)) = insert (Name N) (dom (map_of (aliveCancels c)))"

lemma adds_dslotD:
  assumes "adds_dslot p N c d"
  shows "p \<in> set (slots c)" "slots d = slots c" "dslots d = dslots c @ [length (heap c)]"
    "length (heap d) = Suc (length (heap c))" "slot_at d (length (heap c)) = N"
    "byName d = AList.update (Name N) (length (heap c)) (byName c)"
    "LiveSlots d = LiveSlots c @ [length (heap c)]"
    "q < length (heap c) \<Longrightarrow> quiet_slot (slot_at d q) (slot_at c q)"
    "q < length (heap c) \<Longrightarrow> q \<noteq> p \<Longrightarrow> childClaimIDs (slot_at d q) = childClaimIDs (slot_at c q)"
  using assms by (simp_all add: adds_dslot_def grows_by_def LiveSlots_def)

lemma added_name_fresh:
  assumes "adds_dslot p N c d" "r \<in> set (LiveSlots c)"
  shows "Name (slot_at c r) \<noteq> Name N"
proof -
  have "Name N \<notin> live_names c" using assms(1) unfolding adds_dslot_def next_dslot_def by blast
  then show ?thesis using assms(2) unfolding live_names_def by (metis imageI)
qed

lemma add_registry:
  assumes reg: "registry_ok c" and a: "adds_dslot p N c d"
  shows "registry_ok d"
proof -
  note A = adds_dslotD [OF a]
  note q = A(8) [OF registry_range [OF reg]] and fresh = added_name_fresh [OF a]
  have nl: "length (heap c) \<notin> set (LiveSlots c)" using registry_range [OF reg] by blast
  have "inj_on (\<lambda>r. Name (slot_at d r)) (set (LiveSlots c)) =
      inj_on (\<lambda>r. Name (slot_at c r)) (set (LiveSlots c))"
    by (rule inj_on_cong) (simp add: quiet_slotD(1) [OF q])
  moreover have "Name N \<notin> (\<lambda>r. Name (slot_at d r)) ` set (LiveSlots c)"
    using fresh quiet_slotD(1) [OF q] by force
  ultimately have "inj_on (\<lambda>r. Name (slot_at d r)) (set (LiveSlots d))"
    using reg nl by (simp add: A registry_ok_def)
  moreover have "map_of (byName d) x = Some r \<longleftrightarrow> r \<in> set (LiveSlots d) \<and> Name (slot_at d r) = x" for x r
    using registry_byName [OF reg, of x r] nl fresh [of r] quiet_slotD(1) [OF q, of r]
    by (auto simp: A(5,6,7))
  ultimately show ?thesis
    using reg nl registry_range [OF reg] by (auto simp: registry_ok_def A(4,7) less_Suc_eq)
qed

lemma add_shape:
  assumes reg: "registry_ok c" and shape: "shape_ok c" and a: "adds_dslot p N c d"
  shows "shape_ok d"
proof -
  note A = adds_dslotD [OF a]
  have "q \<in> set (slots c) \<or> q \<in> set (dslots c) \<Longrightarrow> quiet_slot (slot_at d q) (slot_at c q)" for q
    by (rule A(8), rule registry_range [OF reg]) (auto simp: LiveSlots_def)
  note s = quiet_slotD [OF this] quiet_slot_ok [OF this]
  have N: "next_dslot (slot_at c p) N c d" using a by (simp add: adds_dslot_def)
  have "SubID (slot_at c r) \<le> dslotSeq d" if "r \<in> set (dslots c)" for r
    using shape that N by (fastforce simp: shape_ok_def next_dslot_def)
  moreover have "\<exists>x \<in> set (slots c). parent_of (slot_at d x) N"
    using N A(1) s by (auto simp: next_dslot_def)
  ultimately show ?thesis using shape N s by (simp add: shape_ok_def A(2,3,5) next_dslot_def)
qed

lemma add_books:
  assumes reg: "registry_ok c" and books: "books_ok c" and a: "adds_dslot p N c d"
  shows "books_ok d"
proof -
  note A = adds_dslotD [OF a]
  note q = A(8) [OF registry_range [OF reg]] and fresh = added_name_fresh [OF a]
  have bk: "dom (map_of (activations d)) =
      (if claim_is ClaimedBusy N then insert (Name N) (dom (map_of (activations c))) else dom (map_of (activations c)))"
    "dom (map_of (matchCancels d)) = dom (map_of (matchCancels c))"
    "dom (map_of (aliveCancels d)) = insert (Name N) (dom (map_of (aliveCancels c)))"
    using a by (simp_all add: adds_dslot_def)
  have old: "slot_ok (slot_at d x) \<and> slot_books d (slot_at d x)" if x: "x \<in> set (LiveSlots c)" for x
  proof -
    have "slot_ok (slot_at c x) \<and> slot_books c (slot_at c x)" using books x by (simp add: books_ok_def)
    then show ?thesis
      using fresh [OF x] quiet_slotD [OF q [OF x]] quiet_slot_ok [OF q [OF x]]
      by (simp add: slot_books_def bk)
  qed
  have names: "live_names d = insert (Name N) (live_names c)"
    using quiet_slotD(1) [OF q] by (auto simp: live_names_def A(5,7))
  have "Name N \<notin> live_names c" using fresh by (force simp: live_names_def)
  moreover have ok: "slot_ok N" "IsDynamic N" using a by (simp_all add: adds_dslot_def next_dslot_def)
  then have "claimed_slot N" by (auto simp: slot_ok_def claimed_slot_def split: option.splits)
  moreover have "Name N \<notin> dom (map_of (activations c)) \<and> Name N \<notin> dom (map_of (matchCancels c))"
    using books \<open>Name N \<notin> live_names c\<close> by (auto simp: books_ok_def)
  ultimately have "slot_ok N \<and> slot_books d N" using ok by (simp add: slot_books_def bk)
  moreover have "dom (map_of (activations d)) \<subseteq> live_names d" "dom (map_of (aliveCancels d)) \<subseteq> live_names d"
    "dom (map_of (matchCancels d)) \<subseteq> live_names d"
    using books unfolding books_ok_def bk names by auto
  ultimately show ?thesis using old unfolding books_ok_def by (auto simp: A(5,7))
qed

lemma add_children:
  assumes reg: "registry_ok c" and chl: "children_ok c" and a: "adds_dslot p N c d"
    and own: "childClaimIDs (slot_at d p) = child_claim_ids (Name (slot_at c p)) d"
  shows "children_ok d"
  unfolding children_ok_def
proof (intro ballI impI)
  note A = adds_dslotD [OF a]
  note q = A(8) [OF registry_range [OF reg]]
  fix x assume "x \<in> set (slots d)" "IsPartitionable (slot_at d x)"
  then have x: "x \<in> set (slots c)" "IsPartitionable (slot_at c x)" "x \<in> set (LiveSlots c)"
    using quiet_slotD(10) [OF q, of x] by (auto simp: A(2) LiveSlots_def)
  show "childClaimIDs (slot_at d x) = child_claim_ids (Name (slot_at d x)) d"
  proof (cases "x = p")
    case True
    then show ?thesis using own x quiet_slotD(1) [OF q, of p] by simp
  next
    case False
    have "p \<in> set (LiveSlots c)" using A(1) by (simp add: LiveSlots_def)
    then have "ParentName N \<noteq> Name (slot_at c x)"
      using a registry_name_inj [OF reg x(3), of p] False
      by (auto simp: adds_dslot_def next_dslot_def parent_of_def)
    moreover have "quiet_slot (slot_at d r) (slot_at c r)" if "r \<in> set (dslots c)" for r
      using q that by (simp add: LiveSlots_def)
    note child_list_cong [OF this, where n = "Name (slot_at c x)"]
    ultimately have "child_claim_ids (Name (slot_at c x)) d = child_claim_ids (Name (slot_at c x)) c"
      by (simp add: child_claim_ids_def A(3,5))
    then show ?thesis
      using chl x A(9) [OF registry_range [OF reg x(3)] False] quiet_slotD(1) [OF q, of x]
      by (simp add: children_ok_def)
  qed
qed

lemma add_ids:
  assumes reg: "registry_ok c" and ids: "ids_ok L c" and a: "adds_dslot p N c d"
    and m: "mint_ok L" "minter c = Some m" "minter d = Some (m\<lparr>seq := seq m + 1\<rparr>)"
      "slot_claim_id N = mint_id L m (seq m + 1)"
  shows "ids_ok L d"
proof -
  note A = adds_dslotD [OF a]
  note q = A(8) [OF registry_range [OF reg]]
  have nl: "length (heap c) \<notin> set (LiveSlots c)" using registry_range [OF reg] by blast
  have new: "slot_claim_id (slot_at c q) \<noteq> slot_claim_id N" if "q \<in> set (LiveSlots c)" for q
    using mint_fresh [OF ids m(2) _ that] m(4) by simp
  have "inj_on (\<lambda>r. slot_claim_id (slot_at d r)) (set (LiveSlots c)) =
      inj_on (\<lambda>r. slot_claim_id (slot_at c r)) (set (LiveSlots c))"
    by (rule inj_on_cong) (simp add: quiet_slot_ok(2) [OF q])
  moreover have "slot_claim_id N \<notin> (\<lambda>r. slot_claim_id (slot_at d r)) ` set (LiveSlots c)"
    using new quiet_slot_ok(2) [OF q] by force
  ultimately have "inj_on (\<lambda>r. slot_claim_id (slot_at d r)) (set (LiveSlots d))"
    using ids nl m(2) by (simp add: A(5,7) ids_ok_def)
  moreover have "k \<le> seq m + 1" if x: "x \<in> set (LiveSlots c)" and k: "slot_claim_id (slot_at d x) = mint_id L m k" for x k
  proof -
    have "k \<le> seq m" using ids m(2) x k quiet_slot_ok(2) [OF q [OF x]] by (simp add: ids_ok_def)
    then show ?thesis by simp
  qed
  ultimately show ?thesis using m mint_id_eq [OF m(1), of m] by (auto simp: ids_ok_def A(5,7))
qed

lemma core_inv_add:
  assumes "core_inv L c" "adds_dslot p N c d" "childClaimIDs (slot_at d p) = child_claim_ids (Name (slot_at c p)) d"
    "mint_ok L" "minter c = Some m"
    "minter d = Some (m\<lparr>seq := seq m + 1\<rparr>)" "slot_claim_id N = mint_id L m (seq m + 1)"
  shows "core_inv L d"
  using assms unfolding core_inv_def
  by (blast intro: add_registry add_shape add_books add_children add_ids)

text \<open>
  \<open>removes_dslot r p c d\<close>: from \<open>c\<close> to \<open>d\<close> the dynamic slot \<open>r\<close> has left the registry and the
  books, its parent \<open>p\<close> lists its children anew, and the other slots are quiet.
\<close>

definition removes_dslot :: "slotref \<Rightarrow> slotref \<Rightarrow> 'c Core \<Rightarrow> 'c Core \<Rightarrow> bool" where
  "removes_dslot r p c d \<longleftrightarrow>
     r \<in> set (dslots c) \<and> p \<in> set (slots c) \<and> parent_of (slot_at c p) (slot_at c r) \<and>
     slots d = slots c \<and> dslots d = filter (\<lambda>q. q \<noteq> r) (dslots c) \<and>
     length (heap d) = length (heap c) \<and> byName d = AList.delete (Name (slot_at c r)) (byName c) \<and>
     dslotSeq d = dslotSeq c \<and> minter d = minter c \<and>
     (\<forall>q < length (heap c). quiet_slot (slot_at d q) (slot_at c q) \<and>
        (q \<noteq> p \<longrightarrow> childClaimIDs (slot_at d q) = childClaimIDs (slot_at c q))) \<and>
     childClaimIDs (slot_at d p) = child_claim_ids (Name (slot_at c p)) d \<and>
     dom (map_of (activations d)) = dom (map_of (activations c)) - {Name (slot_at c r)} \<and>
     dom (map_of (matchCancels d)) = dom (map_of (matchCancels c)) - {Name (slot_at c r)} \<and>
     dom (map_of (aliveCancels d)) = dom (map_of (aliveCancels c)) - {Name (slot_at c r)}"

lemma removes_dslotD:
  assumes "removes_dslot r p c d"
  shows "r \<in> set (dslots c)" "p \<in> set (slots c)" "parent_of (slot_at c p) (slot_at c r)"
    "slots d = slots c" "dslots d = filter (\<lambda>q. q \<noteq> r) (dslots c)" "length (heap d) = length (heap c)"
    "byName d = AList.delete (Name (slot_at c r)) (byName c)" "dslotSeq d = dslotSeq c" "minter d = minter c"
    "q < length (heap c) \<Longrightarrow> quiet_slot (slot_at d q) (slot_at c q)"
    "q < length (heap c) \<Longrightarrow> q \<noteq> p \<Longrightarrow> childClaimIDs (slot_at d q) = childClaimIDs (slot_at c q)"
    "childClaimIDs (slot_at d p) = child_claim_ids (Name (slot_at c p)) d"
  using assms by (simp_all add: removes_dslot_def)

lemma removed_live:
  assumes "registry_ok c" "removes_dslot r p c d"
  shows "LiveSlots d = filter (\<lambda>q. q \<noteq> r) (LiveSlots c)" "r \<in> set (LiveSlots c)"
proof -
  have "r \<notin> set (slots c)" using assms by (auto simp: removes_dslot_def registry_ok_def LiveSlots_def)
  then show "LiveSlots d = filter (\<lambda>q. q \<noteq> r) (LiveSlots c)"
    using assms(2) by (auto simp: removes_dslot_def LiveSlots_def intro!: filter_True [symmetric])
  show "r \<in> set (LiveSlots c)" using assms(2) by (simp add: removes_dslot_def LiveSlots_def)
qed

lemma remove_registry:
  assumes reg: "registry_ok c" and rm: "removes_dslot r p c d"
  shows "registry_ok d"
proof -
  note R = removes_dslotD [OF rm] and live = removed_live [OF reg rm]
  note q = R(10) [OF registry_range [OF reg]] and name = registry_name_inj [OF reg _ live(2)]
  have "inj_on (\<lambda>r. Name (slot_at d r)) (set (LiveSlots d)) =
      inj_on (\<lambda>r. Name (slot_at c r)) (set (LiveSlots d))"
    by (rule inj_on_cong) (simp add: quiet_slotD(1) [OF q] live)
  moreover have "inj_on (\<lambda>r. Name (slot_at c r)) (set (LiveSlots d))"
    using reg by (auto simp: registry_ok_def live intro: inj_on_subset)
  moreover have "map_of (byName d) x = Some y \<longleftrightarrow> y \<in> set (LiveSlots d) \<and> Name (slot_at d y) = x" for x y
    using registry_byName [OF reg, of x y] name [of y] quiet_slotD(1) [OF q, of y] by (auto simp: R(7) live)
  ultimately show ?thesis using reg registry_range [OF reg] by (simp add: registry_ok_def live(1) R(6))
qed

lemma remove_shape:
  assumes reg: "registry_ok c" and shape: "shape_ok c" and rm: "removes_dslot r p c d"
  shows "shape_ok d"
proof -
  note R = removes_dslotD [OF rm]
  have "q \<in> set (slots c) \<or> q \<in> set (dslots c) \<Longrightarrow> quiet_slot (slot_at d q) (slot_at c q)" for q
    by (rule R(10), rule registry_range [OF reg]) (auto simp: LiveSlots_def)
  note s = quiet_slotD [OF this] quiet_slot_ok [OF this]
  show ?thesis using shape s by (simp add: shape_ok_def R(4,5,8))
qed

lemma remove_books:
  assumes reg: "registry_ok c" and books: "books_ok c" and rm: "removes_dslot r p c d"
  shows "books_ok d"
proof -
  note R = removes_dslotD [OF rm] and live = removed_live [OF reg rm]
  note q = R(10) [OF registry_range [OF reg]] and name = registry_name_inj [OF reg _ live(2)]
  have bk: "dom (map_of (activations d)) = dom (map_of (activations c)) - {Name (slot_at c r)}"
    "dom (map_of (matchCancels d)) = dom (map_of (matchCancels c)) - {Name (slot_at c r)}"
    "dom (map_of (aliveCancels d)) = dom (map_of (aliveCancels c)) - {Name (slot_at c r)}"
    using rm by (simp_all add: removes_dslot_def)
  have "slot_ok (slot_at d x) \<and> slot_books d (slot_at d x)" if x: "x \<in> set (LiveSlots c)" "x \<noteq> r" for x
  proof -
    have "slot_ok (slot_at c x) \<and> slot_books c (slot_at c x)" using books x by (simp add: books_ok_def)
    then show ?thesis
      using name [OF x(1)] x(2) quiet_slotD [OF q [OF x(1)]] quiet_slot_ok [OF q [OF x(1)]]
      by (simp add: slot_books_def bk)
  qed
  moreover have "live_names d = live_names c - {Name (slot_at c r)}"
    using quiet_slotD(1) [OF q] name by (auto simp: live_names_def live)
  ultimately show ?thesis using books unfolding books_ok_def by (auto simp: live(1) bk)
qed

lemma filter_skip: "\<not> P (f r) \<Longrightarrow> filter P (map f (filter (\<lambda>q. q \<noteq> r) qs)) = filter P (map f qs)"
  by (induction qs) auto

lemma remove_children:
  assumes reg: "registry_ok c" and chl: "children_ok c" and rm: "removes_dslot r p c d"
  shows "children_ok d"
  unfolding children_ok_def
proof (intro ballI impI)
  note R = removes_dslotD [OF rm]
  note q = R(10) [OF registry_range [OF reg]]
  fix x assume "x \<in> set (slots d)" "IsPartitionable (slot_at d x)"
  then have x: "x \<in> set (slots c)" "IsPartitionable (slot_at c x)" "x \<in> set (LiveSlots c)"
    using quiet_slotD(10) [OF q, of x] by (auto simp: R(4) LiveSlots_def)
  show "childClaimIDs (slot_at d x) = child_claim_ids (Name (slot_at d x)) d"
  proof (cases "x = p")
    case True
    then show ?thesis using R(12) x quiet_slotD(1) [OF q, of p] by simp
  next
    case False
    have "p \<in> set (LiveSlots c)" using R(2) by (simp add: LiveSlots_def)
    then have other: "ParentName (slot_at c r) \<noteq> Name (slot_at c x)"
      using R(3) registry_name_inj [OF reg x(3), of p] False by (auto simp: parent_of_def)
    have "quiet_slot (slot_at d y) (slot_at c y)" if "y \<in> set (filter (\<lambda>q. q \<noteq> r) (dslots c))" for y
      using q that by (simp add: LiveSlots_def)
    from child_list_cong [of "filter (\<lambda>q. q \<noteq> r) (dslots c)", OF this, where n = "Name (slot_at c x)"]
    have "child_claim_ids (Name (slot_at c x)) d = child_claim_ids (Name (slot_at c x)) c"
      using other unfolding child_claim_ids_def R(5) by (simp add: filter_skip)
    then show ?thesis
      using chl x R(11) [OF registry_range [OF reg x(3)] False] quiet_slotD(1) [OF q, of x]
      by (simp add: children_ok_def)
  qed
qed

lemma remove_ids:
  assumes reg: "registry_ok c" and ids: "ids_ok L c" and rm: "removes_dslot r p c d"
  shows "ids_ok L d"
proof -
  note R = removes_dslotD [OF rm] and live = removed_live [OF reg rm]
  note q = R(10) [OF registry_range [OF reg]]
  have "inj_on (\<lambda>r. slot_claim_id (slot_at d r)) (set (LiveSlots d)) =
      inj_on (\<lambda>r. slot_claim_id (slot_at c r)) (set (LiveSlots d))"
    by (rule inj_on_cong) (simp add: quiet_slot_ok(2) [OF q] live)
  then show ?thesis using ids quiet_slot_ok(2) [OF q]
    by (auto simp: ids_ok_def R(9) live(1) split: option.splits intro: inj_on_subset)
qed

lemma core_inv_remove:
  assumes "core_inv L c" "removes_dslot r p c d"
  shows "core_inv L d"
  using assms unfolding core_inv_def
  by (blast intro: remove_registry remove_shape remove_books remove_children remove_ids)

end
