(* ===== verification/Preserve.thy ===== *)
theory Preserve
  imports Invariant
begin

text \<open>
  Every handler of the event loop keeps the invariant of \<open>Invariant\<close>, re-adoption apart, which has
  its own theory. The guard \<open>counters_ok\<close> says that the two 64-bit counters the registry depends on,
  the sequence number of the minter and that of dynamic slots, have not reached their last value.
\<close>

definition counters_ok :: "'c Core \<Rightarrow> bool" where
  "counters_ok c \<longleftrightarrow> (case minter c of None \<Rightarrow> True | Some m \<Rightarrow> in64 (seq m + 1)) \<and> in64 (dslotSeq c + 1)"

section \<open>Slot states after the slot operations\<close>

lemma set_state_fields [simp]:
  "slot_state (SetStateActivity st a t s) = st" "activity (SetStateActivity st a t s) = a"
  "slot_claim (SetStateActivity st a t s) = slot_claim s"
  "childClaimIDs (SetStateActivity st a t s) = childClaimIDs s"
  "Name (SetStateActivity st a t s) = Name s"
  "slot_state (SetClaimState cl st a t s) = st" "activity (SetClaimState cl st a t s) = a"
  "slot_claim (SetClaimState cl st a t s) = Some cl"
  "childClaimIDs (SetClaimState cl st a t s) = childClaimIDs s"
  "Name (SetClaimState cl st a t s) = Name s"
  "slot_state (map_claim f s) = slot_state s" "activity (map_claim f s) = activity s"
  "slot_claim (map_claim f s) = map_option f (slot_claim s)" "Name (map_claim f s) = Name s"
  "childClaimIDs (map_claim f s) = childClaimIDs s"
  by (simp_all add: SetStateActivity_def SetClaimState_def map_claim_def)

lemma accept_fields [simp]:
  "slot_claim s = Some cl \<Longrightarrow> slot_state (AcceptClaim t i s) = ''Claimed''"
  "slot_claim s = Some cl \<Longrightarrow> activity (AcceptClaim t i s) = ''Idle''"
  "slot_claim s = Some cl \<Longrightarrow> slot_claim (AcceptClaim t i s) =
     Some (Accept t (i\<lparr>ai_Now := (if ai_Now i = zero_time then t else ai_Now i)\<rparr>) cl)"
  "childClaimIDs (AcceptClaim t i s) = childClaimIDs s" "Name (AcceptClaim t i s) = Name s"
  by (simp_all add: AcceptClaim_def Let_def split: option.split)

lemma set_state_dynamic [simp]:
  "IsDynamic (SetStateActivity st a t s) = IsDynamic s"
  "IsDynamic (SetClaimState cl st a t s) = IsDynamic s" "IsDynamic (map_claim f s) = IsDynamic s"
  "IsDynamic (AcceptClaim t i s) = IsDynamic s"
  by (simp_all add: same_slotD(8) [OF same_slot_ops(1)] same_slotD(8) [OF same_slot_ops(2)]
      same_slotD(8) [OF same_slot_ops(3)] same_slotD(8) [OF same_slot_ops(5)])

lemmas slot_preds = slot_ok_def slot_books_def claim_is_def claimed_slot_def slot_claim_id_def

section \<open>Matching\<close>

lemma inv_cancelMatchTimer:
  assumes "core_inv L c" "r \<in> set (LiveSlots c)"
  shows "core_inv L (cancelMatchTimer (Name (slot_at c r)) c)"
proof (rule core_inv_touches [OF assms(1) _ assms(2)])
  show "touches r c (cancelMatchTimer (Name (slot_at c r)) c)"
    by (intro touches_step) simp_all
  show "slot_books (cancelMatchTimer (Name (slot_at c r)) c) (slot_at (cancelMatchTimer (Name (slot_at c r)) c) r)"
    using core_inv_books [OF assms] by (simp add: slot_books_def frame_simps)
qed (use core_inv_books [OF assms] in \<open>simp_all add: frame_simps\<close>)

lemma inv_doMatchInfo:
  assumes inv: "core_inv L c"
  shows "core_inv L (doMatchInfo L w cid c)"
proof (cases "findSlotByClaimID cid c")
  case None
  then show ?thesis using inv by (simp add: doMatchInfo_def)
next
  case (Some r)
  then have r: "r \<in> set (LiveSlots c)" using find_claim_live by blast
  have len: "r < length (heap c)" using inv r registry_range by (auto simp: core_inv_def)
  let ?s = "slot_at c r"
  let ?d = "startMatchTimer r cid (persistSlot L r (on_slot r (SetStateActivity ''Matched'' ''Idle'' (now w)) c))"
  show ?thesis
  proof (cases "slot_state ?s = ''Unclaimed''")
    case True
    with core_inv_books [OF inv r] obtain cl where cl: "slot_claim ?s = Some cl" "claim_state cl = Unclaimed"
      and b: "Name ?s \<notin> dom (map_of (activations c))" "Name ?s \<notin> dom (map_of (aliveCancels c))"
        "\<not> IsDynamic ?s"
      by (auto simp: slot_preds split: option.splits)
    have "touches r c ?d" by (intro touches_step) simp_all
    from core_inv_touches [OF inv this r] cl b len have "core_inv L ?d"
      by (simp add: frame_simps slot_preds)
    then show ?thesis using Some cl True by (simp add: doMatchInfo_def)
  next
    case False
    then show ?thesis using Some inv by (auto simp: doMatchInfo_def split: option.split)
  qed
qed

section \<open>Releasing\<close>

text \<open>The next claim the minter hands out.\<close>

lemma next_mint:
  assumes "core_inv L c" "mint_ok L" "counters_ok c"
  obtains m cl where "minter c = Some m" "Mint L m = (m\<lparr>seq := seq m + 1\<rparr>, Inr cl)"
    "claimID cl = mint_id L m (seq m + 1)" "claim_state cl = Unclaimed" "in64 (dslotSeq c + 1)"
proof -
  obtain m where m: "minter c = Some m"
    using assms(1) by (auto simp: core_inv_def ids_ok_def split: option.splits)
  then have "in64 (seq m + 1)" "in64 (dslotSeq c + 1)" using assms(3) by (simp_all add: counters_ok_def)
  with Mint_ok [OF assms(2)] that m show ?thesis by blast
qed

lemma unclaim_minted:
  assumes "core_inv L c" "mint_ok L" "counters_ok c" "minter d = minter c"
  obtains m cl where "minter c = Some m" "claimID cl = mint_id L m (seq m + 1)" "claim_state cl = Unclaimed"
    "unclaimSlot L w r d =
       on_slot r (SetClaimState cl ''Unclaimed'' ''Idle'' (now w)) (d\<lparr>minter := Some (m\<lparr>seq := seq m + 1\<rparr>)\<rparr>)"
proof -
  from next_mint [OF assms(1-3)] obtain m cl where m: "minter c = Some m"
    "Mint L m = (m\<lparr>seq := seq m + 1\<rparr>, Inr cl)" "claimID cl = mint_id L m (seq m + 1)" "claim_state cl = Unclaimed"
    by blast
  then have "unclaimSlot L w r d =
      on_slot r (SetClaimState cl ''Unclaimed'' ''Idle'' (now w)) (d\<lparr>minter := Some (m\<lparr>seq := seq m + 1\<rparr>)\<rparr>)"
    using assms(4) by (simp add: unclaimSlot_def)
  then show ?thesis using that m by blast
qed

lemma inv_unclaim:
  assumes inv: "core_inv L c" and ok: "mint_ok L" "counters_ok c" and r: "r \<in> set (slots c)"
    and t: "touches r c d" and d: "minter d = minter c" "childClaimIDs (slot_at d r) = childClaimIDs (slot_at c r)"
      "Name (slot_at c r) \<notin> dom (map_of (activations d))" "Name (slot_at c r) \<notin> dom (map_of (aliveCancels d))"
      "Name (slot_at c r) \<notin> dom (map_of (matchCancels d))"
  shows "core_inv L (unclaimSlot L w r d)"
proof -
  have rl: "r \<in> set (LiveSlots c)" using r by (simp add: LiveSlots_def)
  have len: "r < length (heap c)" using inv rl registry_range by (auto simp: core_inv_def)
  obtain m cl where m: "minter c = Some m" and cl: "claimID cl = mint_id L m (seq m + 1)" "claim_state cl = Unclaimed"
    and e: "unclaimSlot L w r d =
      on_slot r (SetClaimState cl ''Unclaimed'' ''Idle'' (now w)) (d\<lparr>minter := Some (m\<lparr>seq := seq m + 1\<rparr>)\<rparr>)"
    by (rule unclaim_minted [OF inv ok d(1)])
  let ?e = "on_slot r (SetClaimState cl ''Unclaimed'' ''Idle'' (now w)) (d\<lparr>minter := Some (m\<lparr>seq := seq m + 1\<rparr>)\<rparr>)"
  have len': "length (heap d) = length (heap c)" and name: "Name (slot_at d r) = Name (slot_at c r)"
    using t by (simp_all add: touches_def same_slot_def)
  have dyn: "\<not> IsDynamic (slot_at d r)"
    using inv r same_slotD(8) [of "slot_at d r" "slot_at c r"] t
    by (simp add: core_inv_def shape_ok_def touches_def)
  have "touches r d (d\<lparr>minter := Some (m\<lparr>seq := seq m + 1\<rparr>)\<rparr>)"
    by (simp add: touches_def same_books_off_def)
  from touches_trans [OF touches_trans [OF t this] touches_on_slot]
  have "touches r c ?e" by simp
  from core_inv_remint [OF inv this r _ _ _ ok(1) m] show ?thesis
    unfolding e using len len' cl d name dyn by (simp add: slot_preds)
qed

lemma inv_doMatchTimeout:
  assumes inv: "core_inv L c" and ok: "mint_ok L" "counters_ok c"
  shows "core_inv L (doMatchTimeout L w ev c)"
proof (cases "map_of (byName c) (mt_slotName ev)")
  case None
  then show ?thesis using inv by (simp add: doMatchTimeout_def)
next
  case (Some r)
  have reg: "registry_ok c" using inv by (simp add: core_inv_def)
  with Some have r: "r \<in> set (LiveSlots c)" and n: "mt_slotName ev = Name (slot_at c r)"
    by (simp_all add: registry_byName)
  let ?d = "c\<lparr>matchCancels := AList.delete (mt_slotName ev) (matchCancels c)\<rparr>"
  have t: "touches r c ?d" by (simp add: touches_def same_books_off_def n)
  have d: "core_inv L ?d"
    using core_inv_touches [OF inv t r] core_inv_books [OF inv r] by (simp add: n slot_books_def)
  show ?thesis
  proof (cases "slot_state (slot_at c r) = ''Matched'' \<and> has_claim_id (mt_claimID ev) (slot_at c r)")
    case True
    have b: "slot_ok (slot_at c r)" "slot_books c (slot_at c r)" using core_inv_books [OF inv r] by auto
    then have nb: "Name (slot_at c r) \<notin> dom (map_of (activations c))"
      "Name (slot_at c r) \<notin> dom (map_of (aliveCancels c))" "\<not> IsDynamic (slot_at c r)"
      using True by (auto simp: slot_preds split: option.splits)
    then have "r \<in> set (slots c)" using r inv by (auto simp: core_inv_def shape_ok_def LiveSlots_def)
    from inv_unclaim [OF inv ok this t] nb have "core_inv L (unclaimSlot L w r ?d)" by (simp add: n)
    then show ?thesis using Some True by (simp add: doMatchTimeout_def Let_def)
  next
    case False
    then show ?thesis using Some d by (auto simp: doMatchTimeout_def Let_def)
  qed
qed

lemma inv_release_static:
  assumes inv: "core_inv L c" and ok: "mint_ok L" "counters_ok c" and r: "r \<in> set (slots c)"
  shows "core_inv L (releaseSlot L w r c)"
proof -
  have rl: "r \<in> set (LiveSlots c)" using r by (simp add: LiveSlots_def)
  let ?n = "Name (slot_at c r)"
  let ?d = "killActivation ?n (cancelAliveLoop ?n (cancelMatchTimer ?n c))"
  have t: "touches r c ?d"
    by (intro touches_step) simp_all
  have "\<not> IsDynamic (slot_at c r)" using inv r by (simp add: core_inv_def shape_ok_def)
  moreover have "core_inv L (unclaimSlot L w r ?d)"
    by (rule inv_unclaim [OF inv ok r t]) (simp_all add: frame_simps)
  ultimately show ?thesis by (simp add: releaseSlot_def frame_simps Let_def)
qed

section \<open>Starters, keepalives and reports\<close>

lemma byName_live:
  "core_inv L c \<Longrightarrow> map_of (byName c) n = Some r \<Longrightarrow>
     r \<in> set (LiveSlots c) \<and> Name (slot_at c r) = n \<and> r < length (heap c)"
  by (auto simp: core_inv_def registry_byName dest: registry_range)

text \<open>An update of the claim record that keeps its state.\<close>

lemma inv_map_claim:
  assumes inv: "core_inv L c" and r: "r \<in> set (LiveSlots c)"
    and f: "\<And>cl. claim_state (f cl) = claim_state cl \<and> claimID (f cl) = claimID cl"
  shows "core_inv L (on_slot r (map_claim f) c)"
proof -
  have len: "r < length (heap c)" using inv r registry_range by (auto simp: core_inv_def)
  have "touches r c (on_slot r (map_claim f) c)" by (intro touches_step) simp_all
  from core_inv_touches [OF inv this r] core_inv_books [OF inv r] len f show ?thesis
    by (auto simp: slot_preds split: option.splits)
qed

lemma inv_doAliveOK: "core_inv L c \<Longrightarrow> core_inv L (doAliveOK w n c)"
  by (auto simp: doAliveOK_def frame_simps split: option.split intro!: inv_map_claim dest: byName_live)

lemma inv_doStarterUpdate: "core_inv L c \<Longrightarrow> core_inv L (doStarterUpdate ev c)"
  by (auto simp: doStarterUpdate_def frame_simps split: option.split intro!: inv_map_claim dest: byName_live)

lemma inv_doStarterFinal: "core_inv L c \<Longrightarrow> core_inv L (doStarterFinal ev c)"
  by (auto simp: doStarterFinal_def frame_simps split: option.split intro!: inv_map_claim dest: byName_live)

text \<open>A change of an activation record that keeps it recorded.\<close>

lemma inv_activation_update:
  assumes inv: "core_inv L c" and a: "map_of (activations c) n = Some a"
  shows "core_inv L (c\<lparr>activations := AList.update n a' (activations c)\<rparr>)"
proof -
  let ?d = "c\<lparr>activations := AList.update n a' (activations c)\<rparr>"
  have "dom (map_of (activations c)) \<subseteq> live_names c" using inv by (simp add: core_inv_def books_ok_def)
  with a obtain r where r: "r \<in> set (LiveSlots c)" "Name (slot_at c r) = n"
    by (auto simp: live_names_def)
  have "dom (map_of (activations ?d)) = dom (map_of (activations c))" using a by auto
  note dom = this
  have "touches r c ?d" using dom by (simp add: touches_def same_books_off_def del: map_of_update)
  from core_inv_touches [OF inv this r(1)] core_inv_books [OF inv r(1)] dom show ?thesis
    by (simp add: slot_books_def del: map_of_update)
qed

lemma inv_doStarterHello: "core_inv L c \<Longrightarrow> core_inv L (doStarterHello L ev c)"
  by (auto simp: doStarterHello_def Let_def inv_activation_update split: option.split)

lemma inv_doVacate: "core_inv L c \<Longrightarrow> core_inv L (doVacate ev c)"
  by (auto simp: doVacate_def Let_def inv_activation_update split: option.split)

lemma inv_doVacateEscalate: "core_inv L c \<Longrightarrow> core_inv L (doVacateEscalate ev c)"
  by (auto simp: doVacateEscalate_def inv_activation_update split: option.split)

lemma inv_doDeactivate: "core_inv L c \<Longrightarrow> core_inv L (doDeactivate ev c)"
proof -
  have "core_view (c\<lparr>deferredDeactivate := x, fresh := y\<rparr>) = core_view c" for x y
    by (simp add: core_view_def)
  from core_inv_view [OF this] show "core_inv L c \<Longrightarrow> ?thesis"
    by (auto simp: doDeactivate_def Let_def split: option.split)
qed

section \<open>The end of a starter\<close>

lemma activation_busy:
  assumes "core_inv L c" "map_of (activations c) n = Some a"
  obtains r where "map_of (byName c) n = Some r" "claim_is ClaimedBusy (slot_at c r)"
    "r \<in> set (LiveSlots c)" "Name (slot_at c r) = n" "r < length (heap c)"
proof -
  have "n \<in> live_names c" using assms by (auto simp: core_inv_def books_ok_def)
  then obtain r where r: "r \<in> set (LiveSlots c)" "Name (slot_at c r) = n" by (auto simp: live_names_def)
  then have "map_of (byName c) n = Some r" using assms(1) by (simp add: core_inv_def registry_byName)
  moreover have "claim_is ClaimedBusy (slot_at c r)"
    using core_inv_books [OF assms(1) r(1)] assms(2) r(2) by (auto simp: slot_books_def)
  ultimately show ?thesis using that r byName_live [OF assms(1)] by blast
qed

lemma set_idle_fields [simp]:
  "slot_state (set_idle w s) = ''Claimed''" "activity (set_idle w s) = ''Idle''"
  "slot_claim (set_idle w s) = map_option (SetIdle (now w)) (slot_claim s)"
  "childClaimIDs (set_idle w s) = childClaimIDs s" "Name (set_idle w s) = Name s"
  "IsDynamic (set_idle w s) = IsDynamic s"
  by (simp_all add: set_idle_def)

lemma same_slot_set_idle [simp]: "same_slot (set_idle w s) s"
  unfolding set_idle_def by (rule same_slot_trans [OF same_slot_ops(1) same_slot_ops(3)])

text \<open>The activation of a busy slot ends, its claim goes back to idle; \<open>f\<close> may note the outcome.\<close>

lemma inv_wind_down:
  assumes inv: "core_inv L c" and a: "map_of (activations c) n = Some a"
    and r: "map_of (byName c) n = Some r"
    and t: "touches r c d" and d: "heap d = heap c" "minter d = minter c"
      "dom (map_of (activations d)) = dom (map_of (activations c)) - {n}"
      "dom (map_of (aliveCancels d)) = dom (map_of (aliveCancels c))"
      "dom (map_of (matchCancels d)) = dom (map_of (matchCancels c))"
    and f: "\<And>cl. claimID (f cl) = claimID cl"
  shows "core_inv L (on_slot r (\<lambda>s. set_idle w (map_claim f s)) d)"
proof -
  let ?e = "on_slot r (\<lambda>s. set_idle w (map_claim f s)) d"
  from activation_busy [OF inv a] r have b: "claim_is ClaimedBusy (slot_at c r)"
    and live: "r \<in> set (LiveSlots c)" "Name (slot_at c r) = n" "r < length (heap c)" by auto
  have sl: "slot_at d = slot_at c" using d(1) by (simp add: slot_at_def fun_eq_iff)
  have "same_slot (set_idle w (map_claim f s)) s" for s
    by (rule same_slot_trans [OF same_slot_set_idle same_slot_ops(3)])
  with t have te: "touches r c ?e" by (intro touches_step) simp_all
  show ?thesis
    by (rule core_inv_touches [OF inv te live(1)])
      (use core_inv_books [OF inv live(1)] b live d f in
        \<open>auto simp: sl slot_preds frame_simps split: option.splits\<close>)
qed

lemma inv_doStarterExited:
  assumes inv: "core_inv L c"
  shows "core_inv L (doStarterExited L w n c)"
proof (cases "map_of (activations c) n")
  case None
  have "core_view (releaseDeferredDeactivate n c) = core_view c"
    by (simp add: core_view_def releaseDeferredDeactivate_def emit_def split: option.split)
  from core_inv_view [OF this, of L] show ?thesis using inv None by (simp add: doStarterExited_def)
next
  case (Some a)
  from activation_busy [OF inv Some] obtain r where r: "map_of (byName c) n = Some r"
    "claim_is ClaimedBusy (slot_at c r)" "Name (slot_at c r) = n" by blast
  let ?d = "releaseDeferredDeactivate n (end_activation n a c)"
  have t: "touches r c ?d" using r by (intro touches_step) simp_all
  have id: "map_claim (\<lambda>cl. cl) s = s" for s by (simp add: map_claim_def option.map_ident)
  have "core_inv L (on_slot r (\<lambda>s. set_idle w (map_claim (\<lambda>cl. cl) s)) ?d)"
    by (rule inv_wind_down [OF inv Some r(1) t]) (simp_all add: frame_simps)
  then show ?thesis using Some r by (simp add: doStarterExited_def id frame_simps Let_def)
qed

section \<open>Activation\<close>

lemma launch_frame:
  assumes "launch_starter w r a c = Inr (a', d)"
  shows "touches r c d" "heap d = heap c" "minter d = minter c"
    "dom (map_of (activations d)) = insert (Name (slot_at c r)) (dom (map_of (activations c)))"
    "aliveCancels d = aliveCancels c" "matchCancels d = matchCancels c"
  using assms
  by (auto simp: launch_starter_def touches_def same_books_off_def Let_def emit_def slot_at_def
      split: if_splits sum.splits prod.splits)

lemma inv_doActivateClaim:
  assumes inv: "core_inv L c"
  shows "core_inv L (doActivateClaim L w ev c)"
proof (cases "findSlotByClaimID (ac_claimID ev) c")
  case None
  then show ?thesis using inv by (simp add: doActivateClaim_def)
next
  case (Some r)
  then have r: "r \<in> set (LiveSlots c)" using find_claim_live by blast
  have len: "r < length (heap c)" using inv r registry_range by (auto simp: core_inv_def)
  let ?c1 = "c\<lparr>sandboxSeq := wrap64 (sandboxSeq c + 1)\<rparr>"
  let ?c2 = "?c1\<lparr>activationGen := wrap64 (activationGen ?c1 + 1), fresh := Suc (fresh ?c1)\<rparr>"
  let ?c3 = "on_slot r bump ?c2"
  have v1: "core_view ?c1 = core_view c" by (simp add: core_view_def)
  have v2: "core_view ?c2 = core_view c" by (simp add: core_view_def)
  have v3: "core_view ?c3 = core_view c"
    by (rule trans [OF view_on_slot_quiet v2]) simp
  note v = core_inv_view [OF v1, of L] core_inv_view [OF v3, of L]
  have ok: "core_inv L (on_slot r (\<lambda>s. SetStateActivity ''Claimed'' ''Busy'' (now w)
      (map_claim (SetBusy (now w)) s)) (emit e d))"
    if la: "launch_starter w r a ?c3 = Inr (a', d)" and may: "may_activate L w ev r c" for a a' d e
  proof -
    let ?f = "\<lambda>s. SetStateActivity ''Claimed'' ''Busy'' (now w) (map_claim (SetBusy (now w)) s)"
    have i3: "core_inv L ?c3" using v inv by simp
    have r3: "r \<in> set (LiveSlots ?c3)" using r by (simp add: LiveSlots_def)
    have sl: "slot_at d = slot_at ?c3" using launch_frame(2) [OF la] by (simp add: slot_at_def fun_eq_iff)
    have same: "same_slot (?f s) s" for s by (rule same_slot_trans [OF same_slot_ops(1) same_slot_ops(3)])
    have t: "touches r ?c3 (on_slot r ?f (emit e d))"
      using launch_frame(1) [OF la] same by (intro touches_step) simp_all
    have "claim_is ClaimedIdle (slot_at ?c3 r)" using may len by (simp add: may_activate_def claim_is_def bump_def)
    then show ?thesis
      using core_inv_touches [OF i3 t r3] core_inv_books [OF i3 r3] launch_frame [OF la] len
      by (auto simp: sl slot_preds frame_simps split: option.splits)
  qed
  show ?thesis
  proof (cases "may_activate L w ev r c")
    case False
    then show ?thesis using Some inv v by (simp add: doActivateClaim_def)
  next
    case True
    show ?thesis
      using Some True inv v take_public_on_slot [of L w r ?c2] ok
      by (auto simp: doActivateClaim_def Let_def split: sum.split prod.split)
  qed
qed

section \<open>Claiming\<close>

lemma bump_fields [simp]:
  "Name (bump s) = Name s" "slot_claim (bump s) = slot_claim s" "slot_state (bump s) = slot_state s"
  "activity (bump s) = activity s" "childClaimIDs (bump s) = childClaimIDs s" "Res (bump s) = Res s"
  "IsDynamic (bump s) = IsDynamic s" "IsPartitionable (bump s) = IsPartitionable s"
  "SubID (bump s) = SubID s" "SlotID (bump s) = SlotID s" "Machine (bump s) = Machine s"
  "ParentName (bump s) = ParentName s" "fullRes (bump s) = fullRes s"
  by (simp_all add: bump_def IsDynamic_def IsPartitionable_def)

lemma same_slot_bump [simp]: "same_slot (bump s) s"
  by (simp add: same_slot_def bump_def)

lemma inv_accept_static:
  assumes inv: "core_inv L c" and r: "r \<in> set (LiveSlots c)"
    and cl: "slot_claim (slot_at c r) = Some cl" "claim_state cl = Unclaimed"
    and nomatch: "Name (slot_at c r) \<notin> dom (map_of (matchCancels c))"
  shows "core_inv L (startAliveLoop r
     (snd (claimed_reply K w req r (persistSlot K r (on_slot r (AcceptClaim t i) c)))))"
    (is "core_inv L ?d")
proof -
  have len: "r < length (heap c)" using inv r registry_range by (auto simp: core_inv_def)
  have t: "touches r c ?d"
    by (auto simp: claimed_reply_on_slot intro!: touches_step)
  have b: "slot_ok (slot_at c r)" "slot_books c (slot_at c r)" using core_inv_books [OF inv r] by auto
  then have "\<not> IsDynamic (slot_at c r)" using cl by (auto simp: slot_ok_def)
  then show ?thesis
    using core_inv_touches [OF inv t r] b cl len nomatch
    by (auto simp: claimed_reply_on_slot slot_preds frame_simps)
qed

lemma addDSlot_fields [simp]:
  "slots (addDSlot d c) = slots c" "dslots (addDSlot d c) = dslots c @ [length (heap c)]"
  "length (heap (addDSlot d c)) = Suc (length (heap c))"
  "byName (addDSlot d c) = AList.update (Name d) (length (heap c)) (byName c)"
  "dslotSeq (addDSlot d c) = dslotSeq c" "minter (addDSlot d c) = minter c"
  "activations (addDSlot d c) = activations c" "aliveCancels (addDSlot d c) = aliveCancels c"
  "matchCancels (addDSlot d c) = matchCancels c"
  by (simp_all add: addDSlot_def Let_def)

lemma slot_at_addDSlot:
  "q \<le> length (heap c) \<Longrightarrow> slot_at (addDSlot d c) q = (if q = length (heap c) then d else slot_at c q)"
  by (auto simp: addDSlot_def slot_at_def Let_def nth_append)

text \<open>The state in which a dynamic slot has been carved and its keepalive started.\<close>

definition carved :: "('c, 'x) persist_api_scheme \<Rightarrow> slotref \<Rightarrow> Resources \<Rightarrow> Slot \<Rightarrow> 'c Core \<Rightarrow> 'c Core" where
  "carved L ps req d c =
     startAliveLoop (length (heap c))
       (persistSlot L ps (persistSlot L (length (heap c))
          (refreshPSlotChildren ps (addDSlot d (on_slot ps (Carve req) c)))))"

lemma carved_fields [simp]:
  "slots (carved L ps req d c) = slots c" "dslots (carved L ps req d c) = dslots c @ [length (heap c)]"
  "length (heap (carved L ps req d c)) = Suc (length (heap c))"
  "byName (carved L ps req d c) = AList.update (Name d) (length (heap c)) (byName c)"
  "dslotSeq (carved L ps req d c) = dslotSeq c" "minter (carved L ps req d c) = minter c"
  "activations (carved L ps req d c) = activations c" "matchCancels (carved L ps req d c) = matchCancels c"
  by (simp_all add: carved_def frame_simps refreshPSlotChildren_def)

lemma quiet_slot_refl [simp]: "quiet_slot s s"
  by (simp add: quiet_slot_def)

lemma quiet_slot_ops [simp]:
  "quiet_slot (SetChildClaimIDs ids (Carve req s)) s" "quiet_slot (bump s) s"
  "quiet_slot (bump (SetChildClaimIDs ids (Carve req s))) s"
  "quiet_slot (SetChildClaimIDs ids s) s" "quiet_slot (SetChildClaimIDs ids (Restore req s)) s"
  by (simp_all add: quiet_slot_def same_slot_def SetChildClaimIDs_def Carve_def Restore_def Let_def bump_def)

lemma slot_at_carved:
  assumes "q \<le> length (heap c)" "ps < length (heap c)"
  shows "slot_at (carved L ps req d c) q =
    (if q = length (heap c) then d
     else if q = ps then SetChildClaimIDs (child_claim_ids (Name (slot_at c ps))
            (addDSlot d (on_slot ps (Carve req) c))) (Carve req (slot_at c ps))
     else slot_at c q)"
  using assms
  by (auto simp: carved_def frame_simps refreshPSlotChildren_def slot_at_addDSlot Carve_def)

lemma carved_alive:
  "slot_claim d \<noteq> None \<Longrightarrow> ps < length (heap c) \<Longrightarrow>
     dom (map_of (aliveCancels (carved L ps req d c))) = insert (Name d) (dom (map_of (aliveCancels c)))"
  by (auto simp: carved_def frame_simps refreshPSlotChildren_def slot_at_addDSlot)

text \<open>The bumped sequence numbers of the two slots whose ads the reply carries.\<close>

lemma replies_on_slot:
  "snd (leftover_reply L w req ps (snd (claimed_reply L w req dr c))) =
     on_slot ps (if adBool L req ''_condor_SEND_LEFTOVERS'' then bump else (\<lambda>s. s))
       (on_slot dr (if adBool L req ''_condor_SEND_CLAIMED_AD'' then bump else (\<lambda>s. s)) c)"
proof -
  have "on_slot q (\<lambda>s. s) d = d" for q and d :: "'a Core" by (simp add: on_slot_def)
  then show ?thesis by (simp add: claimed_reply_on_slot leftover_reply_on_slot)
qed

lemma new_dslot_fields [simp]:
  "IsDynamic (NewDynamicSlot p k res t)" "SubID (NewDynamicSlot p k res t) = k"
  "Name (NewDynamicSlot p k res t) = dslot_name p k" "SlotID (NewDynamicSlot p k res t) = SlotID p"
  "Machine (NewDynamicSlot p k res t) = Machine p" "ParentName (NewDynamicSlot p k res t) = Name p"
  "Res (NewDynamicSlot p k res t) = res" "fullRes (NewDynamicSlot p k res t) = res"
  by (simp_all add: NewDynamicSlot_def IsDynamic_def)

definition accepted_dslot :: "time \<Rightarrow> AcceptInfo \<Rightarrow> Claim \<Rightarrow> Slot \<Rightarrow> Slot" where
  "accepted_dslot t i cl s = AcceptClaim t i (SetClaim (Some cl) s)"

lemma accepted_dslot_fields [simp]:
  "same_slot (accepted_dslot t i cl s) s" "slot_state (accepted_dslot t i cl s) = ''Claimed''"
  "activity (accepted_dslot t i cl s) = ''Idle''" "slot_claim_id (accepted_dslot t i cl s) = claimID cl"
  "claim_is ClaimedIdle (accepted_dslot t i cl s)" "slot_claim (accepted_dslot t i cl s) \<noteq> None"
  "Res (accepted_dslot t i cl s) = Res s"
  "slot_ok (accepted_dslot t i cl s)"
  by (auto simp: accepted_dslot_def SetClaim_def slot_claim_id_def claim_is_def slot_ok_def same_slot_def
      frame_simps AcceptClaim_def Let_def SetStateActivity_def)

definition pslot_carved ::
  "('c, 'x) persist_api_scheme \<Rightarrow> world \<Rightarrow> evRequestClaim \<Rightarrow> slotref \<Rightarrow> Minter \<Rightarrow> Claim \<Rightarrow> 'c Core \<Rightarrow> 'c Core" where
  "pslot_carved L w ev ps m' cl c =
     (let sub = wrap64 (dslotSeq c + 1); c1 = c\<lparr>minter := Some m', dslotSeq := sub\<rparr>;
          req = requestedResources L (rc_reqAd ev)
      in carved L ps req (accepted_dslot (now w) (accept_info L w ev c1) cl
           (NewDynamicSlot (slot_at c ps) sub req (now w))) c1)"

lemma accepted_dslot_idle: "\<not> claim_is ClaimedBusy (accepted_dslot t info cl s)"
  using accepted_dslot_fields(5) [of t info cl s] by (auto simp: claim_is_def split: option.splits)

lemma doRequestClaimPSlot_minted:
  assumes "minter c = Some m" "Mint L m = (m', Inr cl)"
  shows "doRequestClaimPSlot L w ev ps c =
    (if requirements_met L w (slot_at c ps) (rc_reqAd ev) \<and>
        CanCarve (slot_at c ps) (requestedResources L (rc_reqAd ev))
     then let d = pslot_carved L w ev ps m' cl c;
              cs = claimed_reply L w (rc_reqAd ev) (length (heap c)) d;
              lo = leftover_reply L w (rc_reqAd ev) ps (snd cs)
          in reAdvertise L w (emit (ReplyClaim \<lparr>cd_accept = True, cd_claimedSlots = fst cs,
               cd_leftovers = fst lo\<rparr>) (snd lo))
     else reject_claim c)"
  using assms
  by (simp add: doRequestClaimPSlot_def pslot_carved_def carved_def accepted_dslot_def Let_def case_prod_beta)

lemma inv_doRequestClaimPSlot:
  assumes inv: "core_inv L c" and ok: "mint_ok L" "counters_ok c"
    and ps: "ps \<in> set (slots c)" "IsPartitionable (slot_at c ps)"
  shows "core_inv L (doRequestClaimPSlot L w ev ps c)"
proof -
  obtain m cl where m: "minter c = Some m" and mint: "Mint L m = (m\<lparr>seq := seq m + 1\<rparr>, Inr cl)"
    and cl: "claimID cl = mint_id L m (seq m + 1)" and i64: "in64 (dslotSeq c + 1)"
    by (rule next_mint [OF inv ok])
  have psl: "ps \<in> set (LiveSlots c)" using ps by (simp add: LiveSlots_def)
  have len: "ps < length (heap c)" using inv psl registry_range by (auto simp: core_inv_def)
  let ?req = "requestedResources L (rc_reqAd ev)"
  let ?c1 = "c\<lparr>minter := Some (m\<lparr>seq := seq m + 1\<rparr>), dslotSeq := dslotSeq c + 1\<rparr>"
  let ?d = "accepted_dslot (now w) (accept_info L w ev ?c1) cl
     (NewDynamicSlot (slot_at c ps) (dslotSeq c + 1) ?req (now w))"
  let ?f = "if adBool L (rc_reqAd ev) ''_condor_SEND_LEFTOVERS'' then bump else (\<lambda>s. s)"
  let ?g = "if adBool L (rc_reqAd ev) ''_condor_SEND_CLAIMED_AD'' then bump else (\<lambda>s. s)"
  let ?e = "on_slot ps ?f (on_slot (length (heap c)) ?g (carved L ps ?req ?d ?c1))"
  note D = same_slotD [OF accepted_dslot_fields(1), of "now w" "accept_info L w ev ?c1" cl
      "NewDynamicSlot (slot_at c ps) (dslotSeq c + 1) ?req (now w)"]
  have fg: "quiet_slot (?f s) s" "quiet_slot (?g s) s" "childClaimIDs (?f s) = childClaimIDs s"
    "childClaimIDs (?g s) = childClaimIDs s" for s by simp_all
  have qt: "quiet_slot s t \<Longrightarrow> quiet_slot t u \<Longrightarrow> quiet_slot s u" for s t u
    by (auto simp: quiet_slot_def same_slot_def)
  have at: "slot_at ?e (length (heap c)) = ?g ?d"
    using len by (simp add: slot_at_carved)
  note N = quiet_slotD [OF fg(2) [of ?d]] quiet_slot_ok [OF fg(2) [of ?d]]
  have old: "quiet_slot (slot_at ?e q) (slot_at c q)" if "q < length (heap c)" for q
    using that len qt [OF fg(1) quiet_slot_ops(1)] by (auto simp: slot_at_carved)
  have ch: "childClaimIDs (slot_at ?e ps) = child_claim_ids (Name (slot_at c ps)) ?e"
  proof -
    let ?a = "addDSlot ?d (on_slot ps (Carve ?req) ?c1)"
    have ds: "dslots ?a = dslots ?e" by simp
    have "quiet_slot (slot_at ?e q) (slot_at ?a q)" if "q \<in> set (dslots ?e)" for q
    proof -
      have "q \<noteq> ps \<and> q \<le> length (heap c)"
        using that inv ps(1) len
        by (auto simp: core_inv_def registry_ok_def LiveSlots_def intro: less_imp_le)
      then show ?thesis using len fg by (auto simp: slot_at_carved slot_at_addDSlot)
    qed
    from child_list_cong [of "dslots ?e" ?e ?a, OF this, where n = "Name (slot_at c ps)"]
    have "child_claim_ids (Name (slot_at c ps)) ?e = child_claim_ids (Name (slot_at c ps)) ?a"
      unfolding child_claim_ids_def ds .
    then show ?thesis using len fg by (simp add: slot_at_carved SetChildClaimIDs_def)
  qed
  have "grows_by ps (?g ?d) c ?e" unfolding grows_by_def
    using old at len N(1) by (auto simp: slot_at_carved)
  moreover have fresh: "Name ?d \<notin> live_names c"
  proof
    have n: "Name ?d = dslot_name (slot_at c ps) (dslotSeq c + 1)" using D(1) by simp
    assume "Name ?d \<in> live_names c"
    then obtain r where "r \<in> set (LiveSlots c)" "Name (slot_at c r) = dslot_name (slot_at c ps) (dslotSeq c + 1)"
      unfolding live_names_def n by force
    then show False using dslot_name_fresh [of c r "dslotSeq c + 1" "slot_at c ps"] inv by (simp add: core_inv_def)
  qed
  have "next_dslot (slot_at c ps) (?g ?d) c ?e" unfolding next_dslot_def
    using N D ps(2) fresh by (simp add: parent_of_def dslot_name_def)
  moreover have "\<not> claim_is ClaimedBusy (?g ?d)" unfolding N by (rule accepted_dslot_idle)
  ultimately have "adds_dslot ps (?g ?d) c ?e" unfolding adds_dslot_def
    using ps len N(1) by (simp add: carved_alive)
  then have "core_inv L ?e"
    by (rule core_inv_add [OF inv _ ch ok(1) m]) (use N(12) cl in simp_all)
  then show ?thesis
    using inv i64 by (simp add: doRequestClaimPSlot_minted [OF m mint] pslot_carved_def Let_def replies_on_slot)
qed

lemma inv_doRequestClaim:
  assumes inv: "core_inv L c" and ok: "mint_ok L" "counters_ok c"
  shows "core_inv L (doRequestClaim L w ev c)"
proof (cases "findSlotByClaimID (rc_claimID ev) c")
  case None
  then show ?thesis using inv by (simp add: doRequestClaim_def)
next
  case (Some r)
  then have r: "r \<in> set (LiveSlots c)" using find_claim_live by blast
  then obtain cl where cl: "slot_claim (slot_at c r) = Some cl"
    using core_inv_books [OF inv r] slot_ok_claim by blast
  let ?c1 = "cancelMatchTimer (Name (slot_at c r)) c"
  have i1: "core_inv L ?c1" by (rule inv_cancelMatchTimer [OF inv r])
  have r1: "r \<in> set (LiveSlots ?c1)" using r by (simp add: frame_simps)
  have ok1: "counters_ok ?c1" using ok by (simp add: counters_ok_def frame_simps)
  show ?thesis
  proof (cases "claim_state cl = Unclaimed")
    case False
    then show ?thesis using Some cl inv by (simp add: doRequestClaim_def)
  next
    case True
    have nodyn: "\<not> IsDynamic (slot_at c r)"
      using core_inv_books [OF inv r] cl True by (auto simp: slot_ok_def)
    then have "r \<in> set (slots ?c1)"
      using r inv by (auto simp: core_inv_def shape_ok_def LiveSlots_def frame_simps)
    from inv_doRequestClaimPSlot [OF i1 ok(1) ok1 this]
    have p: "IsPartitionable (slot_at c r) \<Longrightarrow> core_inv L (doRequestClaimPSlot L w ev r ?c1)"
      by (simp add: frame_simps)
    have s: "core_inv L (startAliveLoop r (snd (claimed_reply L w (rc_reqAd ev) r
        (persistSlot L r (on_slot r (AcceptClaim (now w) (accept_info L w ev ?c1)) ?c1)))))"
      using cl True by (intro inv_accept_static [OF i1 r1, of cl]) (simp_all add: frame_simps)
    show ?thesis using Some cl True i1 p s
      by (simp add: doRequestClaim_def Let_def case_prod_beta frame_simps)
  qed
qed

section \<open>Destruction of a dynamic slot\<close>

lemma drop_named_filter:
  assumes "r \<in> set rs" "distinct rs" "inj_on (\<lambda>q. Name (h ! q)) (set rs)"
  shows "drop_named h (Name (h ! r)) rs = filter (\<lambda>q. q \<noteq> r) rs"
  using assms
proof (induction rs)
  case (Cons q rs)
  show ?case
  proof (cases "q = r")
    case True
    then have "filter (\<lambda>q. q \<noteq> r) rs = rs" using Cons.prems by (auto intro: filter_True)
    then show ?thesis using True by simp
  next
    case False
    then have "Name (h ! q) \<noteq> Name (h ! r)" using Cons.prems by (auto simp: inj_on_def)
    then show ?thesis using Cons False by (simp add: inj_on_def)
  qed
qed simp

lemma removeDSlot_frame [frame_simps]:
  "heap (removeDSlot n c) = heap c" "slots (removeDSlot n c) = slots c"
  "byName (removeDSlot n c) = AList.delete n (byName c)" "minter (removeDSlot n c) = minter c"
  "dslots (removeDSlot n c) = drop_named (heap c) n (dslots c)" "dslotSeq (removeDSlot n c) = dslotSeq c"
  "activations (removeDSlot n c) = activations c" "aliveCancels (removeDSlot n c) = aliveCancels c"
  "matchCancels (removeDSlot n c) = matchCancels c" "slot_at (removeDSlot n c) = slot_at c"
  by (simp_all add: removeDSlot_def slot_at_def fun_eq_iff)

text \<open>The books of a slot are closed, it leaves the registry, and its resources go back.\<close>

definition close_books :: "string \<Rightarrow> 'c Core \<Rightarrow> 'c Core" where
  "close_books n c = killActivation n (cancelAliveLoop n (cancelMatchTimer n c))"

lemma close_books_frame [frame_simps]:
  "heap (close_books n c) = heap c" "slots (close_books n c) = slots c"
  "dslots (close_books n c) = dslots c" "byName (close_books n c) = byName c"
  "dslotSeq (close_books n c) = dslotSeq c" "minter (close_books n c) = minter c"
  "slot_at (close_books n c) = slot_at c" "adv (close_books n c) = adv c"
  "dom (map_of (activations (close_books n c))) = dom (map_of (activations c)) - {n}"
  "dom (map_of (aliveCancels (close_books n c))) = dom (map_of (aliveCancels c)) - {n}"
  "dom (map_of (matchCancels (close_books n c))) = dom (map_of (matchCancels c)) - {n}"
  by (simp_all add: close_books_def frame_simps)

definition unlisted :: "('c, 'x) persist_api_scheme \<Rightarrow> world \<Rightarrow> slotref \<Rightarrow> 'c Core \<Rightarrow> 'c Core" where
  "unlisted L w r c =
     (let d = slot_at c r; c1 = store_delete L (Name d) (removeDSlot (Name d) c)
      in if adv c1 then InvalidateSlot L w d c1 else c1)"

definition restored :: "('c, 'x) persist_api_scheme \<Rightarrow> world \<Rightarrow> slotref \<Rightarrow> slotref \<Rightarrow> 'c Core \<Rightarrow> 'c Core" where
  "restored L w r p c = refreshPSlotChildren p (on_slot p (Restore (Res (slot_at c r))) (unlisted L w r c))"

lemma unlisted_frame [frame_simps]:
  "slot_at (unlisted L w r c) = slot_at c" "heap (unlisted L w r c) = heap c"
  "slots (unlisted L w r c) = slots c" "dslotSeq (unlisted L w r c) = dslotSeq c"
  "minter (unlisted L w r c) = minter c" "activations (unlisted L w r c) = activations c"
  "aliveCancels (unlisted L w r c) = aliveCancels c" "matchCancels (unlisted L w r c) = matchCancels c"
  "byName (unlisted L w r c) = AList.delete (Name (slot_at c r)) (byName c)"
  "dslots (unlisted L w r c) = drop_named (heap c) (Name (slot_at c r)) (dslots c)"
  by (simp_all add: unlisted_def frame_simps Let_def)

lemma slot_at_restored:
  assumes "p < length (heap c)"
  shows "slot_at (restored L w r p c) q =
    (if q = p then SetChildClaimIDs (child_claim_ids (Name (slot_at c p))
       (on_slot p (Restore (Res (slot_at c r))) (unlisted L w r c))) (Restore (Res (slot_at c r)) (slot_at c p))
     else slot_at c q)"
  using assms by (simp add: restored_def refreshPSlotChildren_def frame_simps same_slotD(1) [OF same_slot_ops(7)])

lemma restored_frame [frame_simps]:
  "length (heap (restored L w r p c)) = length (heap c)"
  "slots (restored L w r p c) = slots c" "dslotSeq (restored L w r p c) = dslotSeq c"
  "minter (restored L w r p c) = minter c" "activations (restored L w r p c) = activations c"
  "aliveCancels (restored L w r p c) = aliveCancels c" "matchCancels (restored L w r p c) = matchCancels c"
  "byName (restored L w r p c) = AList.delete (Name (slot_at c r)) (byName c)"
  "dslots (restored L w r p c) = drop_named (heap c) (Name (slot_at c r)) (dslots c)"
  by (simp_all add: restored_def refreshPSlotChildren_def frame_simps)

lemma releaseSlot_dynamic:
  assumes "IsDynamic (slot_at c r)" "map_of (AList.delete (Name (slot_at c r)) (byName c)) (ParentName (slot_at c r)) = Some p"
  shows "releaseSlot L w r c =
    reAdvertise L w (persistSlot L p (restored L w r p (close_books (Name (slot_at c r)) c)))"
  using assms
  by (simp add: releaseSlot_def close_books_def [symmetric] destroyDSlot_def restored_def unlisted_def
      frame_simps Let_def del: map_of_delete)

text \<open>The parent of a dynamic slot is found, and the slot is taken out of the list of dynamic slots.\<close>

lemma release_dynamic_setup:
  assumes inv: "core_inv L c" and r: "r \<in> set (dslots c)"
  obtains p where "p \<in> set (slots c)" "parent_of (slot_at c p) (slot_at c r)" "p < length (heap c)"
    "releaseSlot K w r c =
       reAdvertise K w (persistSlot K p (restored K w r p (close_books (Name (slot_at c r)) c)))"
    "drop_named (heap c) (Name (slot_at c r)) (dslots c) = filter (\<lambda>q. q \<noteq> r) (dslots c)"
proof -
  have reg: "registry_ok c" and shape: "shape_ok c" using inv by (simp_all add: core_inv_def)
  have dyn: "IsDynamic (slot_at c r)" using shape r by (simp add: shape_ok_def)
  obtain p where p: "p \<in> set (slots c)" "parent_of (slot_at c p) (slot_at c r)"
    using shape r by (auto simp: shape_ok_def)
  have live: "p \<in> set (LiveSlots c)" "r \<in> set (LiveSlots c)" using p r by (simp_all add: LiveSlots_def)
  have pr: "p \<noteq> r" using reg p r by (auto simp: registry_ok_def LiveSlots_def)
  have names: "Name (slot_at c p) \<noteq> Name (slot_at c r)" using registry_name_inj [OF reg live] pr by simp
  have look: "map_of (AList.delete (Name (slot_at c r)) (byName c)) (ParentName (slot_at c r)) = Some p"
    using p(2) registry_byName [OF reg, of "Name (slot_at c p)" p] live names by (auto simp: parent_of_def)
  have drop: "drop_named (heap c) (Name (slot_at c r)) (dslots c) = filter (\<lambda>q. q \<noteq> r) (dslots c)"
    unfolding slot_at_def using reg r
    by (intro drop_named_filter) (auto simp: registry_ok_def LiveSlots_def slot_at_def intro: inj_on_subset)
  show ?thesis using that p registry_range [OF reg live(1)] releaseSlot_dynamic [OF dyn look] drop by blast
qed

lemma inv_release_dynamic:
  assumes inv: "core_inv L c" and r: "r \<in> set (dslots c)"
  shows "core_inv L (releaseSlot L w r c)"
proof -
  from release_dynamic_setup [OF inv r] obtain p where p: "p \<in> set (slots c)"
    "parent_of (slot_at c p) (slot_at c r)" "p < length (heap c)"
    and rel: "releaseSlot L w r c =
      reAdvertise L w (persistSlot L p (restored L w r p (close_books (Name (slot_at c r)) c)))"
    and drop: "drop_named (heap c) (Name (slot_at c r)) (dslots c) = filter (\<lambda>q. q \<noteq> r) (dslots c)" by blast
  have reg: "registry_ok c" using inv by (simp add: core_inv_def)
  let ?c = "close_books (Name (slot_at c r)) c"
  let ?e = "restored L w r p ?c"
  note at = slot_at_restored [of p ?c, simplified frame_simps, OF p(3)]
  have ch: "childClaimIDs (slot_at ?e p) = child_claim_ids (Name (slot_at c p)) ?e"
  proof -
    let ?b = "on_slot p (Restore (Res (slot_at c r))) (unlisted L w r ?c)"
    have "quiet_slot (slot_at ?e q) (slot_at ?b q)" if "q \<in> set (dslots ?e)" for q
    proof -
      have "q \<noteq> p" using that reg p(1) by (auto simp: drop frame_simps registry_ok_def LiveSlots_def)
      then show ?thesis by (simp add: at frame_simps)
    qed
    from child_list_cong [of "dslots ?e" ?e ?b, OF this, where n = "Name (slot_at c p)"]
    have "child_claim_ids (Name (slot_at c p)) ?e = child_claim_ids (Name (slot_at c p)) ?b"
      by (simp add: child_claim_ids_def frame_simps)
    then show ?thesis by (simp add: at SetChildClaimIDs_def)
  qed
  have "removes_dslot r p c ?e" unfolding removes_dslot_def
    using r p ch by (simp add: at drop frame_simps)
  then have "core_inv L ?e" by (rule core_inv_remove [OF inv])
  then show ?thesis by (simp add: rel)
qed

lemma inv_releaseSlot:
  assumes "core_inv L c" "mint_ok L" "counters_ok c" "r \<in> set (LiveSlots c)"
  shows "core_inv L (releaseSlot L w r c)"
  using assms inv_release_static inv_release_dynamic by (auto simp: LiveSlots_def)

lemma inv_doAdoptFailed:
  assumes inv: "core_inv L c" and ok: "mint_ok L" "counters_ok c"
  shows "core_inv L (doAdoptFailed L w n c)"
proof (cases "map_of (activations c) n")
  case None
  then show ?thesis using inv by (simp add: doAdoptFailed_def)
next
  case (Some a)
  from activation_busy [OF inv Some] obtain r where r: "map_of (byName c) n = Some r"
    "claim_is ClaimedBusy (slot_at c r)" "Name (slot_at c r) = n" "r \<in> set (LiveSlots c)" by blast
  let ?d = "end_activation n a c"
  have t: "touches r c ?d" using r by (intro touches_step) simp_all
  have "core_inv L (on_slot r (\<lambda>s. set_idle w (map_claim (SetFinal f x y) s)) ?d)" for f x y
    by (rule inv_wind_down [OF inv Some r(1) t]) (simp_all add: frame_simps)
  then show ?thesis
    using Some r inv_releaseSlot [OF inv ok r(4)]
    by (auto simp: doAdoptFailed_def frame_simps Let_def split: option.split)
qed

section \<open>Every event\<close>

lemma inv_handle:
  assumes inv: "core_inv L c" and ok: "mint_ok L" "counters_ok c" and e: "ev \<noteq> EvAdopt"
  shows "core_inv L (handle L w ev c)"
proof (cases ev)
  case (EvReleaseClaim cid)
  then show ?thesis using inv ok
    by (auto simp: handle_def doReleaseByClaimID_def split: option.split
        intro!: inv_releaseSlot dest!: find_claim_live)
next
  case (EvReleaseSlot x)
  then show ?thesis using inv ok
    by (auto simp: handle_def doReleaseSlot_def split: option.split
        intro!: inv_releaseSlot dest!: byName_live [OF inv])
qed (use assms in \<open>simp_all add: handle_def inv_doMatchInfo inv_doMatchTimeout inv_doRequestClaim
      inv_doAliveOK inv_doActivateClaim inv_doStarterUpdate inv_doStarterFinal inv_doStarterExited
      inv_doStarterHello inv_doAdoptFailed inv_doDeactivate inv_doVacate inv_doVacateEscalate\<close>)

end
