(* ===== verification/Startup.thy ===== *)
theory Startup
  imports Preserve
begin

text \<open>
  The state in which the loop starts: the configured slots, each with a minted claim, satisfy the
  invariant, for static slots as for a partitionable one.
\<close>

text \<open>What \<^verbatim>\<open>New\<close> is given: fresh, unclaimed slots with distinct, configured names, and a minter.\<close>

definition fresh_slot :: "Slot \<Rightarrow> bool" where
  "fresh_slot s \<longleftrightarrow> SlotType s \<in> {SlotTypeStatic, SlotTypePartitionable} \<and> Name s = config_name s \<and> slot_state s = ''Unclaimed'' \<and>
     activity s = ''Idle'' \<and> childClaimIDs s = []"

definition opts_ok :: "'c Options \<Rightarrow> bool" where
  "opts_ok opts \<longleftrightarrow> (\<forall>s \<in> set (opt_Slots opts). fresh_slot s) \<and> distinct (map Name (opt_Slots opts)) \<and>
     (\<exists>m. opt_Minter opts = Some m \<and> in64 (seq m) \<and> in64 (seq m + int (length (opt_Slots opts))))"

lemma fresh_not_dynamic: "fresh_slot s \<Longrightarrow> \<not> IsDynamic s"
  by (auto simp: fresh_slot_def IsDynamic_def slot_type_defs)

lemma Itoa_one: "Itoa 1 = ''1''"
  by code_simp

lemma BuildSlots_fresh:
  "\<forall>s \<in> set (BuildSlots h cfg hostname snf tot t). fresh_slot s"
  "distinct (map Name (BuildSlots h cfg hostname snf tot t))"
proof -
  show "\<forall>s \<in> set (BuildSlots h cfg hostname snf tot t). fresh_slot s"
    by (auto simp: BuildSlots_def BuildStaticSlots_def BuildPartitionableSlot_def fresh_slot_def
        IsDynamic_def config_name_def Let_def slot_type_defs Itoa_one)
  show "distinct (map Name (BuildSlots h cfg hostname snf tot t))"
  proof -
    have "map Name (BuildStaticSlots h cfg hostname snf tot t) =
        map (\<lambda>i. ''slot'' @ Itoa (int i + 1) @ ''@'' @ hostname) [0 ..< nat (num_slots cfg tot)]"
      by (simp add: BuildStaticSlots_def Let_def)
    then have "distinct (map Name (BuildStaticSlots h cfg hostname snf tot t))"
      by (simp only: distinct_map static_slot_name_inj distinct_upt simp_thms)
    then show ?thesis by (simp add: BuildSlots_def)
  qed
qed

lemma prime_slots_minted:
  assumes ok: "mint_ok L"
  shows "prime_slots L m ss = (m', ts) \<Longrightarrow> in64 (seq m) \<Longrightarrow> in64 (seq m + int (length ss)) \<Longrightarrow>
     m' = m\<lparr>seq := seq m + int (length ss)\<rparr> \<and> length ts = length ss \<and>
     (\<forall>i < length ss. \<exists>cl. ts ! i = SetClaim (Some cl) (ss ! i) \<and> claim_state cl = Unclaimed \<and>
        claimID cl = mint_id L m (seq m + int i + 1))"
proof (induction ss arbitrary: m m' ts)
  case (Cons s ss)
  have i1: "in64 (seq m + 1)" using Cons.prems(2,3) by (auto simp: in64_def)
  from Mint_ok [OF ok this] obtain cl where mint: "Mint L m = (m\<lparr>seq := seq m + 1\<rparr>, Inr cl)"
    and cl: "claimID cl = mint_id L m (seq m + 1)" "claim_state cl = Unclaimed" by blast
  obtain m'' us where rest: "prime_slots L (m\<lparr>seq := seq m + 1\<rparr>) ss = (m'', us)" by fastforce
  then have ts: "m' = m''" "ts = SetClaim (Some cl) s # us" using Cons.prems(1) mint by auto
  from Cons.IH [OF rest] i1 Cons.prems(3)
  have IH: "m'' = m\<lparr>seq := seq m + 1 + int (length ss)\<rparr>" "length us = length ss"
    "\<forall>i < length ss. \<exists>cl. us ! i = SetClaim (Some cl) (ss ! i) \<and> claim_state cl = Unclaimed \<and>
        claimID cl = mint_id L m (seq m + 1 + int i + 1)"
    by (auto simp: add.commute add.left_commute)
  show ?case
  proof (intro conjI allI impI)
    fix i assume "i < length (s # ss)"
    then show "\<exists>cl. ts ! i = SetClaim (Some cl) ((s # ss) ! i) \<and> claim_state cl = Unclaimed \<and>
        claimID cl = mint_id L m (seq m + int i + 1)"
      using cl IH(3) ts by (cases i) (auto simp: algebra_simps)
  qed (use IH ts in \<open>simp_all add: algebra_simps\<close>)
qed simp

lemma index_names_lookup:
  assumes "distinct (map Name ss)" "\<forall>s \<in> set ss. map_of acc (Name s) = None"
  shows "map_of (index_names ss k acc) n = Some r \<longleftrightarrow>
    map_of acc n = Some r \<or> (\<exists>i < length ss. r = k + i \<and> Name (ss ! i) = n)"
  using assms
proof (induction ss k acc rule: index_names.induct)
  case (2 s ss k acc)
  have "map_of (AList.update (Name s) k acc) (Name t) = None" if "t \<in> set ss" for t
  proof -
    have "Name t \<in> Name ` set ss" using that by simp
    then have "Name t \<noteq> Name s" using 2(2) by auto
    then show ?thesis using 2(3) that by simp
  qed
  with 2 have "map_of (index_names ss (Suc k) (AList.update (Name s) k acc)) n = Some r \<longleftrightarrow>
      map_of (AList.update (Name s) k acc) n = Some r \<or>
      (\<exists>i < length ss. r = Suc k + i \<and> Name (ss ! i) = n)" by simp
  then show ?case using 2(3) by (auto simp: Ex_less_Suc2)
qed simp

lemma index_names_iff:
  "distinct (map Name ss) \<Longrightarrow>
     map_of (index_names ss 0 []) n = Some r \<longleftrightarrow> r < length ss \<and> Name (ss ! r) = n"
  using index_names_lookup [of ss "[]" 0 n r] by auto

lemma New_inv:
  assumes ok: "mint_ok L" and opts: "opts_ok opts"
  shows "core_inv L (New L opts)"
proof -
  let ?ss = "opt_Slots opts"
  obtain m where m: "opt_Minter opts = Some m" "in64 (seq m)" "in64 (seq m + int (length ?ss))"
    using opts by (auto simp: opts_ok_def)
  obtain m' ts where p: "prime_slots L m ?ss = (m', ts)" by fastforce
  note P = prime_slots_minted [OF ok p m(2,3)]
  let ?c = "New L opts"
  have f: "heap ?c = ts" "slots ?c = [0 ..< length ?ss]" "dslots ?c = []" "minter ?c = Some m'"
    "byName ?c = index_names ?ss 0 []" "activations ?c = []" "aliveCancels ?c = []" "matchCancels ?c = []"
    using p m by (simp_all add: New_def prime_def)
  have live: "LiveSlots ?c = [0 ..< length ?ss]" by (simp add: LiveSlots_def f)
  have at: "\<exists>cl. slot_at ?c i = SetClaim (Some cl) (?ss ! i) \<and> claim_state cl = Unclaimed \<and>
      claimID cl = mint_id L m (seq m + int i + 1)" if "i < length ?ss" for i
    using P that by (simp add: slot_at_def f)
  have fields: "Name (slot_at ?c i) = Name (?ss ! i)" "fresh_slot (?ss ! i)"
    "IsDynamic (slot_at ?c i) = IsDynamic (?ss ! i)" "config_name (slot_at ?c i) = config_name (?ss ! i)"
    "childClaimIDs (slot_at ?c i) = []" "slot_ok (slot_at ?c i)" "\<not> claimed_slot (slot_at ?c i)"
    "\<not> claim_is ClaimedBusy (slot_at ?c i)" "slot_claim_id (slot_at ?c i) = mint_id L m (seq m + int i + 1)"
    if i: "i < length ?ss" for i
  proof -
    from at [OF i] obtain cl where cl: "slot_at ?c i = SetClaim (Some cl) (?ss ! i)"
      "claim_state cl = Unclaimed" "claimID cl = mint_id L m (seq m + int i + 1)" by blast
    show fr: "fresh_slot (?ss ! i)" using opts i by (simp add: opts_ok_def)
    show "Name (slot_at ?c i) = Name (?ss ! i)" "IsDynamic (slot_at ?c i) = IsDynamic (?ss ! i)"
      "config_name (slot_at ?c i) = config_name (?ss ! i)"
      by (simp_all add: cl SetClaim_def IsDynamic_def config_name_def)
    show "childClaimIDs (slot_at ?c i) = []" "slot_ok (slot_at ?c i)" "\<not> claimed_slot (slot_at ?c i)"
      "\<not> claim_is ClaimedBusy (slot_at ?c i)"
      "slot_claim_id (slot_at ?c i) = mint_id L m (seq m + int i + 1)"
      using fr fresh_not_dynamic [OF fr] cl(2,3) unfolding cl(1)
      by (simp_all add: SetClaim_def fresh_slot_def slot_preds IsDynamic_def)
  qed
  have d: "distinct (map Name ?ss)" using opts by (simp add: opts_ok_def)
  have "inj_on (\<lambda>i. Name (?ss ! i)) (set (LiveSlots ?c))"
  proof (rule inj_onI)
    fix i j assume "i \<in> set (LiveSlots ?c)" "j \<in> set (LiveSlots ?c)" "Name (?ss ! i) = Name (?ss ! j)"
    then show "i = j" using nth_eq_iff_index_eq [OF d, of i j] by (simp add: live)
  qed
  then have "inj_on (\<lambda>i. Name (slot_at ?c i)) (set (LiveSlots ?c))"
    by (rule inj_on_cong [THEN iffD1, rotated]) (simp add: fields(1) live)
  then have "registry_ok ?c"
    using fields(1) P index_names_iff [OF d] by (auto simp: registry_ok_def live f)
  moreover have "shape_ok ?c" using fields(1-4) fresh_not_dynamic [OF fields(2)]
    by (auto simp: shape_ok_def f fresh_slot_def)
  moreover have "books_ok ?c" using fields(6-8) by (simp add: books_ok_def live slot_books_def f)
  moreover have "children_ok ?c" using fields(5) by (simp add: children_ok_def f child_claim_ids_def)
  moreover have "ids_ok L ?c"
  proof -
    have "inj_on (\<lambda>r. slot_claim_id (slot_at ?c r)) (set (LiveSlots ?c))"
    proof (rule inj_onI)
      fix i j assume "i \<in> set (LiveSlots ?c)" "j \<in> set (LiveSlots ?c)"
        "slot_claim_id (slot_at ?c i) = slot_claim_id (slot_at ?c j)"
      then have "mint_id L m (seq m + int i + 1) = mint_id L m (seq m + int j + 1)"
        using fields(9) by (simp add: live)
      then have "seq m + int i + 1 = seq m + int j + 1" using ok unfolding mint_ok_def by blast
      then show "i = j" by simp
    qed
    moreover have "k \<le> seq m'" if "r < length ?ss" "slot_claim_id (slot_at ?c r) = mint_id L m' k" for r k
      using fields(9) [OF that(1)] P that mint_id_eq [OF ok, of m "seq m + int r + 1" k] by auto
    ultimately show ?thesis by (simp add: ids_ok_def f live)
  qed
  ultimately show ?thesis by (simp add: core_inv_def)
qed

lemma New_counters:
  assumes "mint_ok L" "opts_ok opts" "opt_Minter opts = Some m"
  shows "minter (New L opts) = Some (m\<lparr>seq := seq m + int (length (opt_Slots opts))\<rparr>)"
    "dslotSeq (New L opts) = 0" "events (New L opts) = []"
  using prime_slots_minted [OF assms(1), of m "opt_Slots opts"] assms(2,3)
  by (auto simp: New_def prime_def opts_ok_def split: prod.split)

end
