(* ===== verification/Slotwise.thy ===== *)
theory Slotwise
  imports Startup
begin

text \<open>
  Changes that are confined to what a relation between slots allows. \<open>pointwise R c d\<close> says that the
  two states have the same slots and that each slot of \<open>d\<close> is \<open>R\<close>-related to what it was in \<open>c\<close>. The
  interface \<open>slotwise\<close> asks of \<open>R\<close> that it is reflexive, transitive and allows the sequence number of
  an ad to advance; every operation of the loop that does more than that to a slot is then handled by
  one fact about the slot operation it applies.
\<close>

definition pointwise :: "(Slot \<Rightarrow> Slot \<Rightarrow> bool) \<Rightarrow> 'c Core \<Rightarrow> 'c Core \<Rightarrow> bool" where
  "pointwise R c d \<longleftrightarrow> slots d = slots c \<and> dslots d = dslots c \<and> (\<forall>q. R (slot_at d q) (slot_at c q))"

lemma advertise_slot_bump:
  "\<exists>e. advertise_slot L w r c = emit e (on_slot r bump c)"
  by (simp add: advertise_slot_def PublicAd_def bump_def Let_def on_slot_def slot_at_def) (intro exI, rule refl)

lemma pointwise_frame:
  "slots d' = slots d \<Longrightarrow> dslots d' = dslots d \<Longrightarrow> slot_at d' = slot_at d \<Longrightarrow> pointwise R c d \<Longrightarrow> pointwise R c d'"
  by (simp add: pointwise_def)

lemma pointwise_step:
  "pointwise R c d \<Longrightarrow> pointwise R c (emit e d)" "pointwise R c d \<Longrightarrow> pointwise R c (persistSlot L r d)"
  "pointwise R c d \<Longrightarrow> pointwise R c (startMatchTimer r cid d)"
  "pointwise R c d \<Longrightarrow> pointwise R c (cancelMatchTimer n d)"
  "pointwise R c d \<Longrightarrow> pointwise R c (startAliveLoop r d)"
  "pointwise R c d \<Longrightarrow> pointwise R c (cancelAliveLoop n d)"
  "pointwise R c d \<Longrightarrow> pointwise R c (releaseDeferredDeactivate n d)"
  "pointwise R c d \<Longrightarrow> pointwise R c (end_activation n a d)"
  "pointwise R c d \<Longrightarrow> pointwise R c (killActivation n d)" "pointwise R c d \<Longrightarrow> pointwise R c (reject_claim d)"
  "pointwise R c d \<Longrightarrow> pointwise R c (reject_activate d)"
  by (rule pointwise_frame; simp add: frame_simps)+

lemma pointwise_upd:
  "pointwise R c d \<Longrightarrow> pointwise R c (d\<lparr>matchCancels := x1\<rparr>)"
  "pointwise R c d \<Longrightarrow> pointwise R c (d\<lparr>activations := x2\<rparr>)"
  "pointwise R c d \<Longrightarrow> pointwise R c (d\<lparr>minter := x3\<rparr>)" "pointwise R c d \<Longrightarrow> pointwise R c (d\<lparr>sandboxSeq := x5\<rparr>)"
  "pointwise R c d \<Longrightarrow> pointwise R c (d\<lparr>activationGen := x5\<rparr>)" "pointwise R c d \<Longrightarrow> pointwise R c (d\<lparr>fresh := x4\<rparr>)"
  "pointwise R c d \<Longrightarrow> pointwise R c (d\<lparr>deferredDeactivate := x1\<rparr>)"
  "pointwise R c d \<Longrightarrow> pointwise R c (d\<lparr>events := x6\<rparr>)"
  "pointwise R c d \<Longrightarrow> pointwise R c (d\<lparr>persister_of := x7\<rparr>)"
  "pointwise R c d \<Longrightarrow> pointwise R c (d\<lparr>dslotSeq := x5\<rparr>)"
  by (rule pointwise_frame; simp)+

lemma pointwise_commit: "pointwise R c d \<Longrightarrow> pointwise R c (commit L r d)"
  by (rule pointwise_frame) (auto simp: commit_def slot_at_def fun_eq_iff split: option.split sum.split)

locale slotwise =
  fixes R :: "Slot \<Rightarrow> Slot \<Rightarrow> bool"
  assumes R_refl: "R s s" and R_trans: "R s t \<Longrightarrow> R t u \<Longrightarrow> R s u" and R_bump: "R (bump s) s"
begin

lemma refl [simp]: "pointwise R c c"
  by (simp add: pointwise_def R_refl)

lemma trans: "pointwise R c d \<Longrightarrow> pointwise R d e \<Longrightarrow> pointwise R c e"
  by (auto simp: pointwise_def intro: R_trans)

lemma on_slot: "pointwise R c d \<Longrightarrow> (\<And>s. R (f s) s) \<Longrightarrow> pointwise R c (on_slot r f d)"
  by (auto simp: pointwise_def intro: R_trans)

lemma folded: "(\<And>r d. pointwise R d (f r d)) \<Longrightarrow> pointwise R c d \<Longrightarrow> pointwise R c (fold f rs d)"
  by (induction rs arbitrary: d) (simp_all, blast intro: trans)

lemma reAdvertise: "pointwise R c d \<Longrightarrow> pointwise R c (reAdvertise L w d)"
proof -
  have "pointwise R d (advertise_slot L w r d)" for r and d :: "'a Core"
    using advertise_slot_bump [of L w r d] by (auto intro!: pointwise_step on_slot R_bump)
  then show "pointwise R c d \<Longrightarrow> pointwise R c (reAdvertise L w d)"
    by (simp add: reAdvertise_def Advertise_def folded)
qed

lemma replies:
  "pointwise R c d \<Longrightarrow> pointwise R c (snd (claimed_reply L w req r d))"
  "pointwise R c d \<Longrightarrow> pointwise R c (snd (leftover_reply L w req r d))"
  "pointwise R c d \<Longrightarrow> pointwise R c (snd (take_public L w r d))"
  by (auto simp: claimed_reply_on_slot leftover_reply_on_slot take_public_on_slot intro: on_slot R_bump)

lemmas rules = pointwise_step pointwise_upd reAdvertise on_slot replies

lemma launched: "launch_starter w r a d = Inr (a', e) \<Longrightarrow> pointwise R c d \<Longrightarrow> pointwise R c e"
  by (auto simp: launch_starter_def Let_def split: if_splits sum.splits prod.splits intro!: rules)

lemma background:
  "pointwise R c (Submit ev c)" "pointwise R c (persister_run L w c)"
  "relay_vacate n c = Some (m, d) \<Longrightarrow> pointwise R c d"
proof -
  have commit: "pointwise R x (commit L r x)" for r and x :: "'a Core"
    by (rule pointwise_commit [OF refl])
  have upd: "pointwise R x (x\<lparr>persister_of := y\<rparr>)" for y and x :: "'a Core"
    by (intro rules refl)
  show "pointwise R c (persister_run L w c)"
    by (auto simp: persister_run_def split: option.split list.split intro!: trans [OF upd commit] upd)
  show "pointwise R c (Submit ev c)" by (auto simp: Submit_def intro: rules)
  show "relay_vacate n c = Some (m, d) \<Longrightarrow> pointwise R c d"
    by (auto simp: relay_vacate_def split: option.splits list.splits intro: rules)
qed

lemma claim_reports:
  assumes "\<And>a t s. R (map_claim (ExtendLease a t) s) s" "\<And>ad s. R (map_claim (SetUpdateAd ad) s) s"
    "\<And>f x y s. R (map_claim (SetFinal f x y) s) s"
  shows "pointwise R c (doAliveOK w n c)" "pointwise R c (doStarterUpdate eu c)"
    "pointwise R c (doStarterFinal ef c)"
  using assms
  by (auto simp: doAliveOK_def doStarterUpdate_def doStarterFinal_def split: option.split intro!: rules)

lemma starter_reports:
  "pointwise R c (doStarterHello L eh c)" "pointwise R c (doDeactivate ed c)"
  "pointwise R c (doVacate ev c)" "pointwise R c (doVacateEscalate ee c)"
  by (auto simp: doStarterHello_def doDeactivate_def doVacate_def doVacateEscalate_def Let_def
      split: option.split intro!: rules)

end

end
