(* ===== verification/Account.thy ===== *)
theory Account
  imports Slotwise
begin

text \<open>
  Accounting of resources: what is left on a partitionable slot and what its dynamic slots hold
  always add up to the whole slot. The three ledgers of \<open>Slot\<close> (processors, memory, disk) are carried
  through the handlers of the event loop. Requests for a negative amount, which the code does not
  refuse, are excluded here; \<open>Findings\<close> shows what they do.
\<close>

definition children :: "'c Core \<Rightarrow> string \<Rightarrow> Slot list" where
  "children c n = filter (\<lambda>d. ParentName d = n) (map (slot_at c) (dslots c))"

definition outstanding :: "'c Core \<Rightarrow> string \<Rightarrow> Resources" where
  "outstanding c n =
     \<lparr>Cpus = (\<Sum>d \<leftarrow> children c n. Cpus (Res d)), MemoryMB = (\<Sum>d \<leftarrow> children c n. MemoryMB (Res d)),
      DiskKB = (\<Sum>d \<leftarrow> children c n. DiskKB (Res d))\<rparr>"

definition account_ok :: "'c Core \<Rightarrow> bool" where
  "account_ok c \<longleftrightarrow>
     (\<forall>p \<in> set (slots c). IsPartitionable (slot_at c p) \<longrightarrow>
        balanced_slot (slot_at c p) (outstanding c (Name (slot_at c p)))) \<and>
     (\<forall>r \<in> set (dslots c). res_nonneg (Res (slot_at c r)))"

section \<open>Operations that leave the accounts alone\<close>

definition still_slot :: "Slot \<Rightarrow> Slot \<Rightarrow> bool" where
  "still_slot s t \<longleftrightarrow> same_slot s t \<and> Res s = Res t"

lemma still_slot_refl [simp]: "still_slot s s"
  by (simp add: still_slot_def)

lemma still_slot_trans: "still_slot s t \<Longrightarrow> still_slot t u \<Longrightarrow> still_slot s u"
  by (auto simp: still_slot_def intro: same_slot_trans)

lemma still_slot_ops [simp]:
  "still_slot (SetStateActivity st a t s) s" "still_slot (SetClaimState cl st a t s) s"
  "still_slot (map_claim f s) s" "still_slot (SetChildClaimIDs ids s) s" "still_slot (AcceptClaim t i s) s"
  "still_slot (bump s) s" "still_slot (set_idle w s) s" "still_slot (set_idle w (map_claim f s)) s"
  "still_slot (SetStateActivity st a t (map_claim f s)) s"
  by (simp_all add: still_slot_def frame_simps set_idle_def)
    (auto intro: same_slot_trans [OF same_slot_ops(1) same_slot_ops(3)]
      same_slot_trans [OF same_slot_ops(1) same_slot_trans [OF same_slot_ops(3) same_slot_ops(3)]])

interpretation acct: slotwise still_slot
  by unfold_locales (auto intro: still_slot_trans)

abbreviation still :: "'c Core \<Rightarrow> 'c Core \<Rightarrow> bool" where
  "still \<equiv> pointwise still_slot"

lemma still_unclaim: "still c d \<Longrightarrow> still c (unclaimSlot L w r d)"
  by (auto simp: unclaimSlot_def split: option.split prod.split sum.split intro!: acct.rules)

lemmas still_rules = acct.rules still_unclaim

section \<open>Handlers that leave the accounts alone\<close>

lemma still_matching:
  "still c (doMatchInfo L w cid c)" "still c (doMatchTimeout L w e c)"
  by (auto simp: doMatchInfo_def doMatchTimeout_def Let_def split: option.split intro!: still_rules)

lemma still_exited: "still c (doStarterExited L w n c)"
  by (auto simp: doStarterExited_def Let_def split: option.split intro!: still_rules)

lemma still_activate: "still c (doActivateClaim L w ev c)"
  by (auto simp: doActivateClaim_def Let_def case_prod_beta take_public_on_slot
      split: option.split sum.split intro!: still_rules dest!: acct.launched [where c = c])

lemma still_release_static: "\<not> IsDynamic (slot_at c r) \<Longrightarrow> still c (releaseSlot L w r c)"
  by (auto simp: releaseSlot_def frame_simps Let_def intro!: still_rules)

lemma still_request:
  assumes "\<And>r. findSlotByClaimID (rc_claimID ev) c = Some r \<Longrightarrow> \<not> IsPartitionable (slot_at c r)"
  shows "still c (doRequestClaim L w ev c)"
  using assms
  by (auto simp: doRequestClaim_def Let_def case_prod_beta frame_simps split: option.split intro!: still_rules)

lemma still_account:
  assumes "still c d"
  shows "account_ok d = account_ok c"
proof -
  have s: "slots d = slots c" "dslots d = dslots c" using assms by (simp_all add: pointwise_def)
  have q: "Name (slot_at d q) = Name (slot_at c q)" "Res (slot_at d q) = Res (slot_at c q)"
    "fullRes (slot_at d q) = fullRes (slot_at c q)" "ParentName (slot_at d q) = ParentName (slot_at c q)"
    "IsPartitionable (slot_at d q) = IsPartitionable (slot_at c q)" for q
    using assms by (auto simp: pointwise_def still_slot_def same_slotD)
  have "map (f \<circ> Res) (children d n) = map (f \<circ> Res) (children c n)" for f :: "Resources \<Rightarrow> int" and n
    by (simp add: children_def s filter_map o_def q)
  then have "outstanding d n = outstanding c n" for n
    unfolding outstanding_def by (simp add: o_def) 
  then show ?thesis using balanced_slot_cong [OF q(2,3)] by (simp add: account_ok_def s q)
qed

section \<open>Carving and restoring\<close>

text \<open>The share of one dynamic slot in what is out of a partitionable slot.\<close>

definition share :: "'c Core \<Rightarrow> string \<Rightarrow> (Resources \<Rightarrow> int) \<Rightarrow> slotref \<Rightarrow> int" where
  "share c n f q = (if ParentName (slot_at c q) = n then f (Res (slot_at c q)) else 0)"

lemma outstanding_share:
  "Cpus (outstanding c n) = (\<Sum>q \<leftarrow> dslots c. share c n Cpus q)"
  "MemoryMB (outstanding c n) = (\<Sum>q \<leftarrow> dslots c. share c n MemoryMB q)"
  "DiskKB (outstanding c n) = (\<Sum>q \<leftarrow> dslots c. share c n DiskKB q)"
  by (simp_all add: outstanding_def children_def share_def sum_list_map_filter' o_def)

lemma share_cong:
  assumes "\<And>q. q \<in> set xs \<Longrightarrow> same_slot (slot_at d q) (slot_at c q) \<and> Res (slot_at d q) = Res (slot_at c q)"
  shows "(\<Sum>q \<leftarrow> xs. share d n f q) = (\<Sum>q \<leftarrow> xs. share c n f q)"
  using assms by (intro arg_cong [where f = sum_list]) (auto simp: share_def same_slot_def)

lemma res_eqI: "Cpus r = Cpus r' \<Longrightarrow> MemoryMB r = MemoryMB r' \<Longrightarrow> DiskKB r = DiskKB r' \<Longrightarrow> r = (r' :: Resources)"
  by simp

text \<open>A dynamic slot is carved from \<open>ps\<close>; no other slot's resources change.\<close>

lemma account_add:
  assumes acc: "account_ok c" and reg: "registry_ok c" and ps: "ps \<in> set (slots c)" "IsPartitionable (slot_at c ps)"
    and e: "slots e = slots c" "dslots e = dslots c @ [k]"
    and old: "\<And>q. q \<in> set (LiveSlots c) \<Longrightarrow> same_slot (slot_at e q) (slot_at c q)"
      "\<And>q. q \<in> set (LiveSlots c) \<Longrightarrow> q \<noteq> ps \<Longrightarrow> Res (slot_at e q) = Res (slot_at c q)"
    and new: "ParentName (slot_at e k) = Name (slot_at c ps)" "Res (slot_at e k) = req"
    and cut: "Res (slot_at e ps) = Res (Carve req (slot_at c ps))" "CanCarve (slot_at c ps) req" "res_nonneg req"
  shows "account_ok e"
proof -
  have live: "set (slots c) \<subseteq> set (LiveSlots c)" "set (dslots c) \<subseteq> set (LiveSlots c)"
    by (auto simp: LiveSlots_def)
  have nps: "ps \<notin> set (dslots c)" using reg ps(1) by (auto simp: registry_ok_def LiveSlots_def)
  have sh: "(\<Sum>q \<leftarrow> dslots c. share e n f q) = (\<Sum>q \<leftarrow> dslots c. share c n f q)" for n f
    using old live nps by (intro share_cong) blast
  have out: "outstanding e n = (if n = Name (slot_at c ps) then res_add (outstanding c n) req else outstanding c n)" for n
    by (rule res_eqI) (simp_all add: outstanding_share e sh res_add_def, simp_all add: share_def new)
  have bal: "balanced_slot (slot_at c p) (outstanding c (Name (slot_at c p)))"
    if "p \<in> set (slots c)" "IsPartitionable (slot_at c p)" for p using acc that by (simp add: account_ok_def)
  have "balanced_slot (slot_at e p) (outstanding e (Name (slot_at e p)))"
    if p: "p \<in> set (slots c)" "IsPartitionable (slot_at e p)" for p
  proof (cases "p = ps")
    case True
    have "balanced_slot (Carve req (slot_at c ps)) (outstanding e (Name (slot_at c ps)))"
      using Carve_balanced [OF bal [OF ps] cut(3,2)] by (simp add: out)
    moreover have "fullRes (slot_at e ps) = fullRes (Carve req (slot_at c ps))"
      using old(1) [of ps] live ps by (auto simp: same_slot_def Carve_def)
    ultimately show ?thesis
      using True balanced_slot_cong [OF cut(1)] same_slotD(1) [OF old(1), of ps] live ps by auto
  next
    case False
    have pl: "p \<in> set (LiveSlots c)" using p live by blast
    have "Name (slot_at c p) \<noteq> Name (slot_at c ps)" using registry_name_inj [OF reg pl] ps live False by blast
    then show ?thesis
      using bal [of p] p same_slotD [OF old(1) [OF pl]]
        balanced_slot_cong [OF old(2) [OF pl False] same_slotD(7) [OF old(1) [OF pl]]] by (simp add: out)
  qed
  moreover have "res_nonneg (Res (slot_at e q))" if "q \<in> set (dslots e)" for q
    using that acc e old live nps new cut by (auto simp: account_ok_def) (metis subsetD)
  ultimately show ?thesis by (simp add: account_ok_def e)
qed

lemma sum_list_without:
  fixes f :: "'a \<Rightarrow> int"
  assumes "r \<in> set xs" "distinct xs"
  shows "(\<Sum>q \<leftarrow> xs. f q) = (\<Sum>q \<leftarrow> filter (\<lambda>q. q \<noteq> r) xs. f q) + f r"
  using assms
proof (induction xs)
  case (Cons q xs)
  show ?case
  proof (cases "q = r")
    case True
    then have "filter (\<lambda>q. q \<noteq> r) xs = xs" using Cons.prems by (auto intro: filter_True)
    then show ?thesis using True by simp
  next
    case False
    then show ?thesis using Cons by simp
  qed
qed simp

text \<open>A dynamic slot disappears and its resources go back to \<open>p\<close>.\<close>

lemma account_remove:
  assumes acc: "account_ok c" and reg: "registry_ok c" and r: "r \<in> set (dslots c)"
    and p: "p \<in> set (slots c)" "ParentName (slot_at c r) = Name (slot_at c p)"
    and e: "slots e = slots c" "dslots e = filter (\<lambda>q. q \<noteq> r) (dslots c)"
    and old: "\<And>q. q \<in> set (LiveSlots c) \<Longrightarrow> same_slot (slot_at e q) (slot_at c q)"
      "\<And>q. q \<in> set (LiveSlots c) \<Longrightarrow> q \<noteq> p \<Longrightarrow> Res (slot_at e q) = Res (slot_at c q)"
    and give: "Res (slot_at e p) = Res (Restore (Res (slot_at c r)) (slot_at c p))"
  shows "account_ok e"
proof -
  have live: "set (slots c) \<subseteq> set (LiveSlots c)" "set (dslots c) \<subseteq> set (LiveSlots c)"
    by (auto simp: LiveSlots_def)
  have np: "p \<notin> set (dslots c)" and dist: "distinct (dslots c)"
    using reg p(1) by (auto simp: registry_ok_def LiveSlots_def)
  have nn: "res_nonneg (Res (slot_at c q))" if "q \<in> set (dslots c)" for q
    using that acc by (simp add: account_ok_def)
  have sh: "(\<Sum>q \<leftarrow> dslots e. share e n f q) = (\<Sum>q \<leftarrow> dslots e. share c n f q)" for n f
    using old live np by (intro share_cong) (auto simp: e)
  have all: "(\<Sum>q \<leftarrow> dslots c. share c n f q) = (\<Sum>q \<leftarrow> dslots e. share e n f q) + share c n f r" for n f
    using sum_list_without [OF r dist, of "share c n f"] sh [of n f] by (simp add: e)
  have out: "outstanding c n =
      (if n = Name (slot_at c p) then res_add (outstanding e n) (Res (slot_at c r)) else outstanding e n)" for n
    by (rule res_eqI) (auto simp: outstanding_share all res_add_def, simp_all add: share_def p(2))
  have pos: "res_nonneg (outstanding e n)" for n
    unfolding res_nonneg_def outstanding_share sh using nn
    by (auto intro!: sum_list_nonneg simp: share_def res_nonneg_def e)
  have bal: "balanced_slot (slot_at c q) (outstanding c (Name (slot_at c q)))"
    if "q \<in> set (slots c)" "IsPartitionable (slot_at c q)" for q using acc that by (simp add: account_ok_def)
  have "balanced_slot (slot_at e q) (outstanding e (Name (slot_at e q)))"
    if q: "q \<in> set (slots c)" "IsPartitionable (slot_at e q)" for q
  proof (cases "q = p")
    case True
    then have "IsPartitionable (slot_at c p)" using q old(1) [of p] live by (auto simp: same_slotD)
    from bal [OF p(1) this] have "balanced_slot (Restore (Res (slot_at c r)) (slot_at c p)) (outstanding e (Name (slot_at c p)))"
      using nn [OF r] pos by (intro Restore_balanced) (simp_all add: out)
    moreover have "fullRes (slot_at e p) = fullRes (Restore (Res (slot_at c r)) (slot_at c p))"
      using old(1) [of p] live p by (auto simp: same_slot_def Restore_def Let_def)
    ultimately show ?thesis
      using True balanced_slot_cong [OF give] same_slotD(1) [OF old(1), of p] live p by auto
  next
    case False
    have ql: "q \<in> set (LiveSlots c)" using q live by blast
    have "Name (slot_at c q) \<noteq> Name (slot_at c p)" using registry_name_inj [OF reg ql] p live False by blast
    then show ?thesis
      using bal [of q] q same_slotD [OF old(1) [OF ql]]
        balanced_slot_cong [OF old(2) [OF ql False] same_slotD(7) [OF old(1) [OF ql]]] by (simp add: out)
  qed
  moreover have "res_nonneg (Res (slot_at e q))" if "q \<in> set (dslots e)" for q
  proof -
    have "q \<in> set (LiveSlots c)" "q \<noteq> p" using that live np by (auto simp: e)
    then show ?thesis using old(2) nn that by (auto simp: e)
  qed
  ultimately show ?thesis by (simp add: account_ok_def e)
qed

section \<open>Handlers that move resources\<close>

text \<open>The request ad of an event asks for no negative amount of anything.\<close>

definition fair_request :: "'x classad_api_scheme \<Rightarrow> Event \<Rightarrow> bool" where
  "fair_request L ev =
     (case ev of EvRequestClaim x \<Rightarrow> res_nonneg (requestedResources L (rc_reqAd x)) | _ \<Rightarrow> True)"

lemma account_PSlot:
  assumes inv: "core_inv L c" and ok: "mint_ok L" "counters_ok c" and acc: "account_ok c"
    and ps: "ps \<in> set (slots c)" "IsPartitionable (slot_at c ps)"
    and fair: "res_nonneg (requestedResources L (rc_reqAd ev))"
  shows "account_ok (doRequestClaimPSlot L w ev ps c)"
proof -
  obtain m m' cl where m: "minter c = Some m" and mint: "Mint L m = (m', Inr cl)"
    using next_mint [OF inv ok] by blast
  have reg: "registry_ok c" using inv by (simp add: core_inv_def)
  have live: "ps \<in> set (LiveSlots c)" using ps by (simp add: LiveSlots_def)
  have len: "q < length (heap c)" if "q \<in> set (LiveSlots c)" for q using registry_range [OF reg that] .
  let ?req = "requestedResources L (rc_reqAd ev)"
  let ?e = "pslot_carved L w ev ps m' cl c"
  have "account_ok ?e" if can: "CanCarve (slot_at c ps) ?req"
  proof (rule account_add [OF acc reg ps, where k = "length (heap c)" and req = ?req])
    show "same_slot (slot_at ?e q) (slot_at c q)" if "q \<in> set (LiveSlots c)" for q
      using len [OF that] len [OF live] quiet_slot_ops(1)
      by (auto simp: pslot_carved_def Let_def slot_at_carved quiet_slot_def)
    show "Res (slot_at ?e q) = Res (slot_at c q)" if "q \<in> set (LiveSlots c)" "q \<noteq> ps" for q
      using len [OF that(1)] len [OF live] that(2) by (auto simp: pslot_carved_def Let_def slot_at_carved)
  qed (use len [OF live] can fair in \<open>simp_all add: pslot_carved_def Let_def slot_at_carved frame_simps
        same_slotD(5) [OF accepted_dslot_fields(1)]\<close>)
  moreover have "still ?e (reAdvertise L w (emit x (snd (leftover_reply L w (rc_reqAd ev) ps
      (snd (claimed_reply L w (rc_reqAd ev) (length (heap c)) ?e))))))" for x
    by (auto simp: replies_on_slot intro!: still_rules)
  moreover have "still c (reject_claim c)" by (intro still_rules acct.refl)
  ultimately show ?thesis using acc still_account
    by (auto simp: doRequestClaimPSlot_minted [OF m mint] Let_def)
qed

lemma account_doRequestClaim:
  assumes inv: "core_inv L c" and ok: "mint_ok L" "counters_ok c" and acc: "account_ok c"
    and fair: "res_nonneg (requestedResources L (rc_reqAd ev))"
  shows "account_ok (doRequestClaim L w ev c)"
proof (cases "\<exists>r. findSlotByClaimID (rc_claimID ev) c = Some r \<and> IsPartitionable (slot_at c r)")
  case False
  then have "still c (doRequestClaim L w ev c)" by (intro still_request) auto
  then show ?thesis using acc still_account by blast
next
  case True
  then obtain r where r: "findSlotByClaimID (rc_claimID ev) c = Some r" "IsPartitionable (slot_at c r)" by blast
  then have live: "r \<in> set (LiveSlots c)" using find_claim_live by blast
  let ?c1 = "cancelMatchTimer (Name (slot_at c r)) c"
  have s: "still c ?c1" "still c (reject_claim c)" "still c (reject_claim ?c1)" by (intro still_rules acct.refl)+
  have "core_inv L ?c1" by (rule inv_cancelMatchTimer [OF inv live])
  moreover have "counters_ok ?c1" using ok by (simp add: counters_ok_def frame_simps)
  moreover have "r \<in> set (slots ?c1)" "IsPartitionable (slot_at ?c1 r)"
    using live r inv by (auto simp: core_inv_def shape_ok_def LiveSlots_def frame_simps
        IsPartitionable_def IsDynamic_def SlotTypeDynamic_def SlotTypePartitionable_def)
  ultimately have "account_ok (doRequestClaimPSlot L w ev r ?c1)"
    using account_PSlot ok(1) fair acc still_account [OF s(1)] by blast
  then show ?thesis using r acc s still_account by (auto simp: doRequestClaim_def Let_def frame_simps split: option.split)
qed

lemma account_release_dynamic:
  assumes inv: "core_inv L c" and acc: "account_ok c" and r: "r \<in> set (dslots c)"
  shows "account_ok (releaseSlot L w r c)"
proof -
  from release_dynamic_setup [OF inv r] obtain p where p: "p \<in> set (slots c)"
    "parent_of (slot_at c p) (slot_at c r)" "p < length (heap c)" 
    and rel: "releaseSlot L w r c = reAdvertise L w (persistSlot L p (restored L w r p (close_books (Name (slot_at c r)) c)))"
    and drop: "drop_named (heap c) (Name (slot_at c r)) (dslots c) = filter (\<lambda>q. q \<noteq> r) (dslots c)" by blast
  have reg: "registry_ok c" using inv by (simp add: core_inv_def)
  let ?c = "close_books (Name (slot_at c r)) c"
  let ?e = "restored L w r p ?c"
  note at = slot_at_restored [of p ?c, simplified frame_simps, OF p(3)]
  have "account_ok ?e"
    by (rule account_remove [OF acc reg r p(1)])
      (use p(2) quiet_slot_ops(5) in \<open>auto simp: at drop frame_simps parent_of_def quiet_slot_def\<close>)
  moreover have "still ?e (releaseSlot L w r c)" unfolding rel by (intro still_rules acct.refl)
  ultimately show ?thesis using still_account by blast
qed

lemma account_releaseSlot:
  assumes "core_inv L c" "account_ok c" "r \<in> set (LiveSlots c)"
  shows "account_ok (releaseSlot L w r c)"
proof (cases "r \<in> set (dslots c)")
  case True
  then show ?thesis using assms account_release_dynamic by blast
next
  case False
  then have "\<not> IsDynamic (slot_at c r)" using assms by (auto simp: core_inv_def shape_ok_def LiveSlots_def)
  then show ?thesis using still_release_static still_account assms(2) by blast
qed

lemma account_doAdoptFailed:
  assumes "core_inv L c" "account_ok c"
  shows "account_ok (doAdoptFailed L w n c)"
proof -
  have "still c (reAdvertise L w (persistSlot L r (on_slot r (\<lambda>s. set_idle w (map_claim f s)) (end_activation n a c))))"
    "still c (reAdvertise L w (end_activation n a c))" "still c (c\<lparr>activations := x\<rparr>)"
    for r f a x by (intro still_rules acct.refl; simp)+
  note s = this [THEN still_account]
  show ?thesis
    using assms s account_releaseSlot [OF assms] byName_live [OF assms(1)]
    by (auto simp: doAdoptFailed_def Let_def split: option.split)
qed

lemma account_quiet [simp]:
  "account_ok (reAdvertise L w c) = account_ok c" "account_ok (emit e c) = account_ok c"
  by (rule still_account, intro still_rules acct.refl)+

lemma account_handle:
  assumes inv: "core_inv L c" and ok: "mint_ok L" "counters_ok c" and acc: "account_ok c"
    and e: "ev \<noteq> EvAdopt" "fair_request L ev"
  shows "account_ok (handle L w ev c)"
proof (cases ev)
  case (EvReleaseClaim cid)
  then show ?thesis using acc account_releaseSlot [OF inv acc]
    by (auto simp: handle_def doReleaseByClaimID_def split: option.split dest!: find_claim_live)
next
  case (EvReleaseSlot x)
  then show ?thesis using acc account_releaseSlot [OF inv acc]
    by (auto simp: handle_def doReleaseSlot_def split: option.split dest!: byName_live [OF inv])
qed (use assms in \<open>simp_all add: handle_def still_account [OF still_matching(1)] still_account [OF still_matching(2)]
      still_account [OF acct.claim_reports(1)] still_account [OF acct.claim_reports(2)]
      still_account [OF acct.claim_reports(3)] still_account [OF still_exited]
      still_account [OF acct.starter_reports(1)] still_account [OF acct.starter_reports(2)]
      still_account [OF acct.starter_reports(3)] still_account [OF acct.starter_reports(4)] still_account [OF still_activate]
      account_doRequestClaim account_doAdoptFailed fair_request_def\<close>)

end
