(* ===== verification/Machine.thy ===== *)
theory Machine
  imports Main
begin

text \<open>
  The interface of a state machine with an invariant: what a step relation has to promise, and what
  every machine of the development then has. It is interpreted on the startd's event loop and on the
  two starter transports.
\<close>

locale machine =
  fixes step :: "'s \<Rightarrow> 's \<Rightarrow> bool" and inv :: "'s \<Rightarrow> bool"
  assumes step_inv: "step s t \<Longrightarrow> inv s \<Longrightarrow> inv t"
begin

lemma reachable_inv:
  assumes "step\<^sup>*\<^sup>* s t" "inv s"
  shows "inv t"
  using assms by (induction rule: rtranclp_induct) (auto intro: step_inv)

text \<open>A property that holds in every state with the invariant holds along every run.\<close>

lemma always:
  assumes "step\<^sup>*\<^sup>* s t" "inv s" "\<And>u. inv u \<Longrightarrow> P u"
  shows "P t"
  using reachable_inv assms by blast

text \<open>A relation between states that every step establishes, and that composes, holds along every run.\<close>

lemma along:
  assumes "step\<^sup>*\<^sup>* s t" "inv s" "\<And>u. R u u" "\<And>u v w. R u v \<Longrightarrow> R v w \<Longrightarrow> R u w"
    "\<And>u v. inv u \<Longrightarrow> step u v \<Longrightarrow> R u v"
  shows "R s t"
  using assms(1,2)
proof (induction rule: rtranclp_induct)
  case (step u v)
  then have "inv u" using reachable_inv by blast
  then show ?case using step assms(4,5) by blast
qed (rule assms(3))

end

end
