(* ===== verification/System.thy ===== *)
theory System
  imports Account Machine
begin

text \<open>
  The startd as a state machine. Any goroutine (a command handler, a timer, a keepalive, a supervisor,
  a reaper) may submit any event at any time; the loop takes events from its queue in order and reacts
  to its ticker; the persister writes behind it; a supervisor takes a message from its vacate channel.
  The only restriction is on wrap-around: a step that could mint or number a slot has its counters
  below their last value. The adoption of stored claims precedes the steps of this machine; \<open>Restart\<close> puts it before them. \<open>P\<close> restricts the events that
  arrive, for the properties that need it; \<open>\<lambda>_. True\<close> is the machine without restriction.
\<close>

inductive startd_step ::
  "(Event \<Rightarrow> bool) \<Rightarrow> ('c, 'x) persist_api_scheme \<Rightarrow> 'c Core \<Rightarrow> 'c Core \<Rightarrow> bool" for P L where
  submit: "ev \<noteq> EvAdopt \<Longrightarrow> P ev \<Longrightarrow> startd_step P L c (Submit ev c)"
| event: "counters_ok c \<Longrightarrow> startd_step P L c (loop_step L w NextEvent c)"
| tick: "startd_step P L c (loop_step L w Tick c)"
| persist: "visits_all w \<Longrightarrow> startd_step P L c (persister_run L w c)"
| relay: "relay_vacate n c = Some (m, d) \<Longrightarrow> startd_step P L c d"

definition startd_inv :: "(Event \<Rightarrow> bool) \<Rightarrow> ('c, 'x) persist_api_scheme \<Rightarrow> 'c Core \<Rightarrow> bool" where
  "startd_inv P L c \<longleftrightarrow> core_inv L c \<and> (\<forall>ev \<in> set (events c). ev \<noteq> EvAdopt \<and> P ev) \<and>
     length (events c) \<le> queue_capacity"

section \<open>Every step keeps the invariant\<close>

lemma view_commit [simp]: "core_view (commit L r c) = core_view c"
  by (simp add: commit_def core_view_def split: option.split sum.split)

lemma view_persister_run [simp]: "core_view (persister_run L w c) = core_view c"
proof -
  have "core_view (c\<lparr>persister_of := x\<rparr>) = core_view c" for x by (simp add: core_view_def)
  then show ?thesis by (simp add: persister_run_def split: option.split list.split)
qed

lemma view_Submit [simp]: "core_view (Submit ev c) = core_view c"
  by (simp add: Submit_def core_view_def)

text \<open>Handlers do not touch the queue: everything they want to happen later is a goroutine's event.\<close>

lemma events_shared [simp]:
  "events (emit e c) = events c" "events (on_slot r f c) = events c" "events (persistSlot L r c) = events c"
  "events (startMatchTimer r cid c) = events c" "events (cancelMatchTimer n c) = events c"
  "events (startAliveLoop r c) = events c" "events (cancelAliveLoop n c) = events c"
  "events (releaseDeferredDeactivate n c) = events c" "events (end_activation n a c) = events c"
  "events (killActivation n c) = events c" "events (store_delete L n c) = events c"
  "events (InvalidateSlot L w s c) = events c" "events (reject_claim c) = events c"
  "events (reject_activate c) = events c" "events (addDSlot d c) = events c"
  "events (removeDSlot n c) = events c" "events (refreshPSlotChildren r c) = events c"
  "events (unclaimSlot L w r c) = events c" "events (advertise_slot L w r c) = events c"
  by (simp_all add: emit_def on_slot_def persistSlot_def startMatchTimer_def cancelMatchTimer_def
      startAliveLoop_def cancelAliveLoop_def releaseDeferredDeactivate_def end_activation_def
      killActivation_def store_delete_def InvalidateSlot_def reject_claim_def reject_activate_def
      addDSlot_def removeDSlot_def refreshPSlotChildren_def unclaimSlot_def advertise_slot_def Let_def
      split: option.split prod.split sum.split)

lemma events_fold: "(\<And>r c. events (f r c) = events c) \<Longrightarrow> events (fold f rs c) = events c"
  by (induction rs arbitrary: c) auto

lemma events_reAdvertise [simp]: "events (reAdvertise L w c) = events c"
  by (simp add: reAdvertise_def Advertise_def events_fold)

lemma events_replies [simp]:
  "events (snd (claimed_reply L w req r c)) = events c" "events (snd (leftover_reply L w req r c)) = events c"
  by (simp_all add: claimed_reply_on_slot leftover_reply_on_slot)

lemma events_release [simp]: "events (releaseSlot L w r c) = events c"
  by (simp add: releaseSlot_def destroyDSlot_def Let_def split: option.split)

lemma events_request [simp]: "events (doRequestClaim L w ev c) = events c"
  by (simp add: doRequestClaim_def doRequestClaimPSlot_def Let_def case_prod_beta split: option.split sum.split)

lemma events_launch: "launch_starter w r a c = Inr (a', d) \<Longrightarrow> events d = events c"
  by (auto simp: launch_starter_def Let_def emit_def split: if_splits sum.splits prod.splits)

lemma events_activate [simp]: "events (doActivateClaim L w ev c) = events c"
  by (auto simp: doActivateClaim_def Let_def take_public_on_slot case_prod_beta events_launch
      split: option.split sum.split)

lemma events_handle: "ev \<noteq> EvAdopt \<Longrightarrow> events (handle L w ev c) = events c"
  by (cases ev)
    (auto simp: handle_def doMatchInfo_def doMatchTimeout_def doReleaseByClaimID_def doReleaseSlot_def
      doAliveOK_def doStarterUpdate_def doStarterFinal_def doStarterExited_def doStarterHello_def
      doAdoptFailed_def doDeactivate_def doVacate_def doVacateEscalate_def Let_def split: option.split)

lemma startd_inv_step:
  assumes ok: "mint_ok L" and s: "startd_step P L c d" and inv: "startd_inv P L c"
  shows "startd_inv P L d"
  using s
proof (cases rule: startd_step.cases)
  case (submit ev)
  then show ?thesis using inv core_inv_view [OF view_Submit, of L ev c]
    by (auto simp: startd_inv_def Submit_def)
next
  case (event w)
  show ?thesis
  proof (cases "events c")
    case Nil
    then show ?thesis using event inv by (simp add: loop_step_def)
  next
    case (Cons ev evs)
    then have ev: "ev \<noteq> EvAdopt" and rest: "\<forall>ev \<in> set evs. ev \<noteq> EvAdopt \<and> P ev" "length evs \<le> queue_capacity"
      using inv by (auto simp: startd_inv_def)
    have "core_view (c\<lparr>events := evs\<rparr>) = core_view c" by (simp add: core_view_def)
    from core_inv_view [OF this, of L] have "core_inv L (c\<lparr>events := evs\<rparr>)"
      using inv by (simp add: startd_inv_def)
    moreover have "counters_ok (c\<lparr>events := evs\<rparr>)" using event by (simp add: counters_ok_def)
    ultimately have "core_inv L (handle L w ev (c\<lparr>events := evs\<rparr>))" using inv_handle [OF _ ok _ ev] by blast
    then show ?thesis using event Cons rest
      by (simp add: loop_step_def startd_inv_def events_handle [OF ev])
  qed
next
  case (tick w)
  then show ?thesis using inv by (simp add: loop_step_def startd_inv_def)
next
  case (persist w)
  have "events (persister_run L w c) = events c"
  proof -
    have e: "events (commit L r x) = events x" for r x by (simp add: commit_def split: option.split sum.split)
    show ?thesis
      by (simp add: persister_run_def e split: option.split list.split)
  qed
  then show ?thesis using persist inv core_inv_view [OF view_persister_run, of L L w c]
    by (simp add: startd_inv_def)
next
  case (relay n m)
  then obtain a ms where "map_of (activations c) n = Some a"
    and d: "d = c\<lparr>activations := AList.update n (a\<lparr>vacateCh := ms\<rparr>) (activations c)\<rparr>"
    by (auto simp: relay_vacate_def split: option.splits list.splits)
  then have "core_inv L d" using inv_activation_update inv by (auto simp: startd_inv_def)
  then show ?thesis using inv d by (simp add: startd_inv_def)
qed

interpretation startd: machine "startd_step P L" "\<lambda>c. mint_ok L \<and> startd_inv P L c" for P L
  by unfold_locales (auto intro: startd_inv_step)

section \<open>The first state, and an example\<close>

lemma New_startd_inv: "mint_ok L \<Longrightarrow> opts_ok opts \<Longrightarrow> startd_inv P L (New L opts)"
  using New_inv [of L opts]
  by (simp add: startd_inv_def New_def prime_def split: option.split prod.split)

definition example_opts :: "(string, ad) gomap Options" where
  "example_opts =
     \<lparr>opt_Slots = BuildSlots example_host (\<lambda>k. if k = ''NUM_SLOTS'' then Some ''2'' else None) ''h''
        ''<h:9618>'' \<lparr>Cpus = 8, MemoryMB = 16000, DiskKB = 500000\<rparr> 0,
      opt_Advertiser = True, opt_UpdateInterval = 0, opt_Minter = Some (NewMinter ''<h:9618>'' 1),
      opt_AlivesMissed = 0, opt_MatchTimeout = 0, opt_ExecuteDir = ''/execute'',
      opt_StarterUpdateInterval = 0, opt_UIDDomain = [], opt_FileSystemDomain = [],
      opt_StarterMode = ''goroutine'', opt_StarterPath = [], opt_StarterSocketDir = [],
      opt_KillingTimeout = 0, opt_MaxVacateTime = 0, opt_Store = Some \<lparr>coll = [], dir = ''/d''\<rparr>\<rparr>"

lemma example_lib_mint_ok: "mint_ok example_lib"
  by (auto simp: mint_ok_def example_lib_def example_mint_def mint_id_def mint_options_def Itoa_inj)

lemma example_slots: "length (opt_Slots example_opts) \<le> 8"
  using num_slots_bounds(2) [of "\<lparr>Cpus = 8, MemoryMB = 16000, DiskKB = 500000\<rparr>"]
  by (simp add: example_opts_def BuildSlots_def BuildStaticSlots_def Let_def nat_le_iff)

lemma example_opts_ok: "opts_ok example_opts"
  using example_slots BuildSlots_fresh
  by (auto simp: opts_ok_def example_opts_def NewMinter_def in64_def)

definition example_world :: world where
  "example_world =
     \<lparr>now = 1000 * second, adNow = 1000 * second, whost = example_host, collectors = [''<c:9618>''],
      Getpid = 77, MkdirAll = (\<lambda>d. Inr ()), StartCmd = (\<lambda>p a. Inr 4711),
      sha256 = (\<lambda>s. s), exit_file = (\<lambda>f. None), visit = (\<lambda>ks. ks)\<rparr>"

lemma example_counters: "counters_ok (New example_lib example_opts)"
proof -
  have "opt_Minter example_opts = Some (NewMinter ''<h:9618>'' 1)" by (simp add: example_opts_def)
  note c = New_counters [OF example_lib_mint_ok example_opts_ok this]
  show ?thesis using example_slots by (simp add: counters_ok_def c in64_def NewMinter_def)
qed

text \<open>One event submitted to an idle loop and handled.\<close>

definition serve :: "('c, 'x) persist_api_scheme \<Rightarrow> world \<Rightarrow> Event \<Rightarrow> 'c Core \<Rightarrow> 'c Core" where
  "serve L w ev c = loop_step L w NextEvent (Submit ev c)"

lemma serve_idle: "events c = [] \<Longrightarrow> serve L w ev c = handle L w ev c"
proof -
  assume e: "events c = []"
  then have "c\<lparr>events := []\<rparr> = c" by simp
  note c = arg_cong [OF this, of "handle L w ev"]
  show ?thesis by (simp add: e c serve_def loop_step_def Submit_def queue_capacity_def)
qed

lemma serve_run:
  assumes "ev \<noteq> EvAdopt" "P ev" "counters_ok c"
  shows "(startd_step P L)\<^sup>*\<^sup>* c (serve L w ev c)"
proof -
  have "counters_ok (Submit ev c)" using assms(3) by (simp add: counters_ok_def Submit_def)
  then have "startd_step P L (Submit ev c) (serve L w ev c)" unfolding serve_def by (rule event)
  moreover have "startd_step P L c (Submit ev c)" by (rule submit) (use assms in simp_all)
  ultimately show ?thesis by auto
qed

section \<open>Conservation of resources\<close>

lemma account_step:
  assumes ok: "mint_ok L" and s: "startd_step (fair_request L) L c d" and inv: "startd_inv (fair_request L) L c"
    and acc: "account_ok c"
  shows "account_ok d"
  using s
proof (cases rule: startd_step.cases)
  case (event w)
  show ?thesis
  proof (cases "events c")
    case Nil
    then show ?thesis using event acc by (simp add: loop_step_def)
  next
    case (Cons ev evs)
    let ?c = "c\<lparr>events := evs\<rparr>"
    have "core_view ?c = core_view c" by (simp add: core_view_def)
    from core_inv_view [OF this, of L] have "core_inv L ?c" using inv by (simp add: startd_inv_def)
    moreover have "counters_ok ?c" using event by (simp add: counters_ok_def)
    moreover have "account_ok ?c" using acc still_account [OF pointwise_upd(8) [OF acct.refl]] by blast
    ultimately have "account_ok (handle L w ev ?c)"
      using account_handle [OF _ ok, of ?c ev] inv Cons by (simp add: startd_inv_def)
    then show ?thesis using event Cons by (simp add: loop_step_def)
  qed
qed (use acc in \<open>simp_all add: loop_step_def acct.background [THEN still_account]\<close>)

definition whole_pslots :: "'c Options \<Rightarrow> bool" where
  "whole_pslots opts \<longleftrightarrow>
     (\<forall>s \<in> set (opt_Slots opts). IsPartitionable s \<longrightarrow> Res s = fullRes s \<and> res_ok (Res s))"

lemma New_account:
  assumes "mint_ok L" "opts_ok opts" "whole_pslots opts"
  shows "account_ok (New L opts)"
proof -
  obtain m where m: "opt_Minter opts = Some m" "in64 (seq m)" "in64 (seq m + int (length (opt_Slots opts)))"
    using assms(2) by (auto simp: opts_ok_def)
  obtain m' ts where p: "prime_slots L m (opt_Slots opts) = (m', ts)" by fastforce
  note P = prime_slots_minted [OF assms(1) p m(2,3)]
  have f: "heap (New L opts) = ts" "slots (New L opts) = [0 ..< length (opt_Slots opts)]" "dslots (New L opts) = []"
    using p m by (simp_all add: New_def prime_def)
  have "balanced_slot (slot_at (New L opts) i) (outstanding (New L opts) n)"
    if "i < length (opt_Slots opts)" "IsPartitionable (slot_at (New L opts) i)" for i n
  proof -
    from P that(1) obtain cl where at: "slot_at (New L opts) i = SetClaim (Some cl) (opt_Slots opts ! i)"
      by (auto simp: slot_at_def f)
    have "IsPartitionable (opt_Slots opts ! i)" using that(2) by (simp add: at SetClaim_def IsPartitionable_def)
    then have "Res (opt_Slots opts ! i) = fullRes (opt_Slots opts ! i) \<and> res_ok (Res (opt_Slots opts ! i))"
      using assms(3) nth_mem [OF that(1)] unfolding whole_pslots_def by blast
    then show ?thesis
      by (auto simp: at SetClaim_def balanced_slot_def ledger_balanced_defs outstanding_def children_def f res_ok_def)
  qed
  then show ?thesis by (simp add: account_ok_def f)
qed

text \<open>The example's machine as one partitionable slot, and a claim request for a part of it.\<close>

definition example_popts :: "(string, ad) gomap Options" where
  "example_popts = example_opts\<lparr>opt_Slots := BuildSlots example_host
     (\<lambda>k. if k = ''SLOT_TYPE_1_PARTITIONABLE'' then Some ''true'' else None) ''h'' ''<h:9618>''
     \<lparr>Cpus = 8, MemoryMB = 16000, DiskKB = 500000\<rparr> 0\<rparr>"

definition example_request :: evRequestClaim where
  "example_request =
     \<lparr>rc_claimID = ''claim#1'',
      rc_reqAd = [(''RequestCpus'', AInt 2), (''RequestMemory'', AInt 1000), (''RequestDisk'', AInt 500)],
      rc_scheddAddr = ''<s:9618>'', rc_aliveInterval = 300, rc_clientMachine = ''submit''\<rparr>"

lemma example_popts_slots:
  "opt_Slots example_popts = [BuildPartitionableSlot example_host
     (\<lambda>k. if k = ''SLOT_TYPE_1_PARTITIONABLE'' then Some ''true'' else None) ''h'' ''<h:9618>''
     \<lparr>Cpus = 8, MemoryMB = 16000, DiskKB = 500000\<rparr> 0]"
  by (simp add: example_popts_def BuildSlots_def partitionableConfigured_def) code_simp

lemma example_popts_ok: "opts_ok example_popts" "whole_pslots example_popts"
proof -
  note one = example_popts_slots
  show "whole_pslots example_popts"
    by (simp add: one whole_pslots_def BuildPartitionableSlot_def res_ok_def in64_def)
  have "fresh_slot s" if "s \<in> set (opt_Slots example_popts)" for s
    using that BuildSlots_fresh(1) by (simp add: example_popts_def)
  then show "opts_ok example_popts" 
    using one by (auto simp: opts_ok_def example_popts_def example_opts_def NewMinter_def in64_def)
qed

lemma example_request_fair: "fair_request example_lib (EvRequestClaim example_request)"
proof -
  have "requestedResources example_lib (rc_reqAd example_request) = \<lparr>Cpus = 2, MemoryMB = 1000, DiskKB = 500\<rparr>"
    by code_simp
  then show ?thesis by (simp add: fair_request_def res_nonneg_def)
qed

lemma example_pcounters: "counters_ok (New example_lib example_popts)"
proof -
  have "opt_Minter example_popts = Some (NewMinter ''<h:9618>'' 1)" by (simp add: example_popts_def example_opts_def)
  note c = New_counters [OF example_lib_mint_ok example_popts_ok(1) this]
  show ?thesis by (simp add: counters_ok_def c in64_def NewMinter_def example_popts_slots)
qed

end
