(* ===== verification/Readopt.thy ===== *)
theory Readopt
  imports Startup
begin

text \<open>
  The restart of a startd: what \<^verbatim>\<open>doAdopt\<close> makes of the records a previous process left in the store. The
  records are adopted one by one and the parents of adopted dynamic slots are brought up to date at the end, so the
  invariant is kept in the meantime for the other parents only. What the records have to satisfy is
  stated for each record and for the state it is adopted in.
\<close>

section \<open>The invariant while some parents are out of date\<close>

definition children_off :: "string set \<Rightarrow> 'c Core \<Rightarrow> bool" where
  "children_off T c \<longleftrightarrow>
     (\<forall>p \<in> set (slots c). IsPartitionable (slot_at c p) \<and> Name (slot_at c p) \<notin> T \<longrightarrow>
        childClaimIDs (slot_at c p) = child_claim_ids (Name (slot_at c p)) c)"

definition core_inv_off :: "'x security_api_scheme \<Rightarrow> string set \<Rightarrow> 'c Core \<Rightarrow> bool" where
  "core_inv_off L T c \<longleftrightarrow> registry_ok c \<and> shape_ok c \<and> books_ok c \<and> children_off T c \<and> ids_ok L c"

lemma core_inv_off_none: "core_inv_off L {} c = core_inv L c"
  by (simp add: core_inv_off_def core_inv_def children_off_def children_ok_def)

text \<open>A claim id that is neither in use nor one the minter can give out.\<close>

definition foreign_id :: "'x security_api_scheme \<Rightarrow> 'c Core \<Rightarrow> string \<Rightarrow> bool" where
  "foreign_id L c i \<longleftrightarrow>
     (\<forall>q \<in> set (LiveSlots c). slot_claim_id (slot_at c q) \<noteq> i) \<and>
     (case minter c of None \<Rightarrow> False | Some m \<Rightarrow> \<forall>k. i \<noteq> mint_id L m k)"

lemma touch_ids_foreign:
  assumes reg: "registry_ok c" and ids: "ids_ok L c" and t: "touches r c d" and m: "minter d = minter c"
    and new: "foreign_id L c (slot_claim_id (slot_at d r))"
  shows "ids_ok L d"
proof -
  note live = touches_registry(2) [OF reg t]
  have same: "slot_claim_id (slot_at d q) = slot_claim_id (slot_at c q)" if "q \<in> set (LiveSlots c)" "q \<noteq> r" for q
    using strip_eqD [OF touches_slot [OF t that(2) registry_range [OF reg that(1)]]] by (simp add: slot_claim_id_def)
  obtain m0 where m0: "minter c = Some m0" using ids by (auto simp: ids_ok_def split: option.splits)
  have inj: "inj_on (\<lambda>r. slot_claim_id (slot_at c r)) (set (LiveSlots c))" using ids m0 by (simp add: ids_ok_def)
  have own: "slot_claim_id (slot_at d r) \<noteq> slot_claim_id (slot_at c q)" if "q \<in> set (LiveSlots c)" for q
    using new that by (force simp: foreign_id_def)
  have "inj_on (\<lambda>r. slot_claim_id (slot_at d r)) (set (LiveSlots c))"
  proof (rule inj_onI)
    fix p q assume p: "p \<in> set (LiveSlots c)" and q: "q \<in> set (LiveSlots c)"
      and eq: "slot_claim_id (slot_at d p) = slot_claim_id (slot_at d q)"
    show "p = q" using eq same [OF p] same [OF q] own [OF p] own [OF q] inj_onD [OF inj _ p q]
      by (cases "p = r"; cases "q = r") auto
  qed
  moreover have "k \<le> seq m0" if q: "q \<in> set (LiveSlots c)" "slot_claim_id (slot_at d q) = mint_id L m0 k" for q k
    using that same [OF q(1)] new ids m0 by (cases "q = r") (auto simp: ids_ok_def foreign_id_def)
  ultimately show ?thesis by (simp add: ids_ok_def m m0 live)
qed

lemma add_ids_foreign:
  assumes reg: "registry_ok c" and ids: "ids_ok L c" and a: "adds_dslot p N c d" and m: "minter d = minter c"
    and new: "foreign_id L c (slot_claim_id N)"
  shows "ids_ok L d"
proof -
  note A = adds_dslotD [OF a]
  note q = A(8) [OF registry_range [OF reg]]
  obtain m0 where m0: "minter c = Some m0" using ids by (auto simp: ids_ok_def split: option.splits)
  have nl: "length (heap c) \<notin> set (LiveSlots c)" using registry_range [OF reg] by blast
  have "inj_on (\<lambda>r. slot_claim_id (slot_at d r)) (set (LiveSlots c)) =
      inj_on (\<lambda>r. slot_claim_id (slot_at c r)) (set (LiveSlots c))"
    by (rule inj_on_cong) (simp add: quiet_slot_ok(2) [OF q])
  moreover have "slot_claim_id N \<notin> (\<lambda>r. slot_claim_id (slot_at d r)) ` set (LiveSlots c)"
    using new quiet_slot_ok(2) [OF q] by (force simp: foreign_id_def)
  ultimately have "inj_on (\<lambda>r. slot_claim_id (slot_at d r)) (set (LiveSlots d))"
    using ids nl m0 by (simp add: A(5,7) ids_ok_def)
  moreover have "k \<le> seq m0" if x: "x \<in> set (LiveSlots c)" and k: "slot_claim_id (slot_at d x) = mint_id L m0 k" for x k
    using ids m0 x k quiet_slot_ok(2) [OF q [OF x]] by (simp add: ids_ok_def)
  ultimately show ?thesis using m m0 new by (auto simp: ids_ok_def foreign_id_def A(5,7))
qed

lemma off_static:
  assumes inv: "core_inv_off L T c" and t: "touches r c d" and r: "r \<in> set (slots c)"
    and own: "slot_ok (slot_at d r)" "slot_books d (slot_at d r)" "childClaimIDs (slot_at d r) = childClaimIDs (slot_at c r)"
    and m: "minter d = minter c" and new: "foreign_id L c (slot_claim_id (slot_at d r))"
  shows "core_inv_off L T d"
proof -
  have reg: "registry_ok c" and books: "books_ok c" and ids: "ids_ok L c" using inv by (simp_all add: core_inv_off_def)
  have rl: "r \<in> set (LiveSlots c)" "r \<notin> set (dslots c)" using r reg by (auto simp: LiveSlots_def registry_ok_def)
  have cl: "slot_claim (slot_at c r) \<noteq> None" "slot_claim (slot_at d r) \<noteq> None"
    using books rl own(1) by (simp_all add: books_ok_def slot_ok_claim)
  note ch = touches_children [OF reg t cl(2,1)]
  have eq: "slots d = slots c" using t by (simp add: touches_def)
  have "children_off T d" unfolding children_off_def
  proof (intro ballI impI)
    fix p assume p: "p \<in> set (slots d)" "IsPartitionable (slot_at d p) \<and> Name (slot_at d p) \<notin> T"
    then have len: "p < length (heap c)" using registry_range [OF reg] by (simp add: eq LiveSlots_def)
    have "childClaimIDs (slot_at d p) = childClaimIDs (slot_at c p)"
      using own(3) strip_eqD(8) [OF touches_slot [OF t _ len]] by (cases "p = r") auto
    then show "childClaimIDs (slot_at d p) = child_claim_ids (Name (slot_at d p)) d"
      using inv p ch rl(2) same_slotD [OF touches_same [OF t len]] by (simp add: core_inv_off_def children_off_def eq)
  qed
  then show ?thesis
    using touches_registry(1) [OF reg t] touches_shape [OF reg _ t] touches_books [OF reg books t rl(1) own(1,2)]
      touch_ids_foreign [OF reg ids t m new] inv
    by (simp add: core_inv_off_def)
qed

lemma add_child_ids:
  assumes reg: "registry_ok c" and a: "adds_dslot p N c d" and n: "ParentName N \<noteq> n"
  shows "child_claim_ids n d = child_claim_ids n c"
proof -
  note A = adds_dslotD [OF a]
  have "quiet_slot (slot_at d r) (slot_at c r)" if "r \<in> set (dslots c)" for r
    using A(8) [OF registry_range [OF reg]] that by (simp add: LiveSlots_def)
  note child_list_cong [OF this, where n = n]
  then show ?thesis using n by (simp add: child_claim_ids_def A(3,5))
qed

lemma off_dynamic:
  assumes inv: "core_inv_off L T c" and a: "adds_dslot p N c d" and m: "minter d = minter c"
    and new: "foreign_id L c (slot_claim_id N)"
  shows "core_inv_off L (insert (Name (slot_at c p)) T) d"
proof -
  have reg: "registry_ok c" and books: "books_ok c" and ids: "ids_ok L c" and shape: "shape_ok c"
    using inv by (simp_all add: core_inv_off_def)
  note A = adds_dslotD [OF a]
  have par: "ParentName N = Name (slot_at c p)" using a by (simp add: adds_dslot_def next_dslot_def parent_of_def)
  have "children_off (insert (Name (slot_at c p)) T) d" unfolding children_off_def
  proof (intro ballI impI)
    fix x assume x: "x \<in> set (slots d)" "IsPartitionable (slot_at d x) \<and> Name (slot_at d x) \<notin> insert (Name (slot_at c p)) T"
    then have len: "x < length (heap c)" using registry_range [OF reg] by (simp add: A(2) LiveSlots_def)
    note q = quiet_slotD [OF A(8) [OF len]]
    have "x \<noteq> p" using x q(1) by auto
    then show "childClaimIDs (slot_at d x) = child_claim_ids (Name (slot_at d x)) d"
      using inv x q A(9) [OF len] add_child_ids [OF reg a, of "Name (slot_at c x)"] par
      by (auto simp: core_inv_off_def children_off_def A(2))
  qed
  then show ?thesis
    using add_registry [OF reg a] add_shape [OF reg shape a] add_books [OF reg books a] add_ids_foreign [OF reg ids a m new]
    by (simp add: core_inv_off_def)
qed

lemma off_refresh:
  assumes inv: "core_inv_off L T c" and p: "p \<in> set (slots c)"
  shows "core_inv_off L (T - {Name (slot_at c p)}) (refreshPSlotChildren p c)"
proof -
  let ?d = "refreshPSlotChildren p c"
  have reg: "registry_ok c" and books: "books_ok c" and ids: "ids_ok L c" using inv by (simp_all add: core_inv_off_def)
  have pl: "p \<in> set (LiveSlots c)" using p by (simp add: LiveSlots_def)
  have len: "p < length (heap c)" by (rule registry_range [OF reg pl])
  have t: "touches p c ?d" unfolding refreshPSlotChildren_def by (rule touches_on_slot) simp
  have at: "slot_at ?d q = (if q = p then SetChildClaimIDs (child_claim_ids (Name (slot_at c p)) c) (slot_at c p) else slot_at c q)" for q
    using len by (simp add: refreshPSlotChildren_def)
  have quiet: "quiet_slot (slot_at ?d q) (slot_at c q)" for q by (simp add: at)
  have same: "slot_claim_id (slot_at ?d q) = slot_claim_id (slot_at c q)" for q by (rule quiet_slot_ok(2) [OF quiet])
  have "inj_on (\<lambda>r. slot_claim_id (slot_at ?d r)) (set (LiveSlots c)) = inj_on (\<lambda>r. slot_claim_id (slot_at c r)) (set (LiveSlots c))"
    by (rule inj_on_cong) (simp add: same)
  moreover have "minter ?d = minter c" by (simp add: refreshPSlotChildren_def)
  ultimately have ids': "ids_ok L ?d" using ids unfolding ids_ok_def touches_registry(2) [OF reg t] same by simp
  have b: "slot_ok (slot_at c p)" "slot_books c (slot_at c p)" using books pl by (simp_all add: books_ok_def)
  have bk: "slot_books ?d s = slot_books c s" for s by (simp add: slot_books_def refreshPSlotChildren_def)
  have ch: "child_claim_ids n ?d = child_claim_ids n c" for n
    using child_list_cong [of "dslots c" ?d c n] quiet by (simp add: child_claim_ids_def refreshPSlotChildren_def)
  have "children_off (T - {Name (slot_at c p)}) ?d" unfolding children_off_def
  proof (intro ballI impI)
    fix x assume x: "x \<in> set (slots ?d)" "IsPartitionable (slot_at ?d x) \<and> Name (slot_at ?d x) \<notin> T - {Name (slot_at c p)}"
    then have xs: "x \<in> set (slots c)" by (simp add: refreshPSlotChildren_def)
    show "childClaimIDs (slot_at ?d x) = child_claim_ids (Name (slot_at ?d x)) ?d"
    proof (cases "x = p")
      case True
      then show ?thesis unfolding ch using at by (simp add: SetChildClaimIDs_def)
    next
      case False
      then have "Name (slot_at c x) \<noteq> Name (slot_at c p)"
        using registry_name_inj [OF reg _ pl, of x] xs by (simp add: LiveSlots_def)
      then show ?thesis unfolding ch using False x xs inv quiet_slotD [OF quiet [of x]] at [of x]
        by (simp add: core_inv_off_def children_off_def)
    qed
  qed
  moreover have "slot_ok (slot_at ?d p)" "slot_books ?d (slot_at ?d p)"
    unfolding bk quiet_slot_ok [OF quiet [of p]] by (rule b)+
  then have "books_ok ?d" by (rule touches_books [OF reg books t pl])
  ultimately show ?thesis
    using touches_registry(1) [OF reg t] touches_shape [OF reg _ t] ids' inv by (simp add: core_inv_off_def)
qed

section \<open>Records that can be adopted\<close>

definition claimed_record :: "Record \<Rightarrow> bool" where
  "claimed_record rc \<longleftrightarrow> EqualFold (rec_State rc) ''Claimed''"

definition busy_record :: "Record \<Rightarrow> bool" where
  "busy_record rc \<longleftrightarrow> EqualFold (rec_Activity rc) ''Busy''"

definition dynamic_record :: "Record \<Rightarrow> bool" where
  "dynamic_record rc \<longleftrightarrow> EqualFold (rec_SlotType rc) SlotTypeDynamic"

lemmas record_kinds = claimed_record_def busy_record_def dynamic_record_def

text \<open>
  A claim can be adopted when its id is nonempty, foreign to this process, and its session can be imported; when a busy
  one has the socket of its starter; when a dynamic slot is named after a configured partitionable slot and its number, and
  does not exist yet; and when the configured slot of another record, if there is one, is free.
\<close>

definition adoptable_claim :: "'x security_api_scheme \<Rightarrow> 'c Core \<Rightarrow> Record \<Rightarrow> bool" where
  "adoptable_claim L c rc \<longleftrightarrow>
     rec_ClaimID rc \<noteq> [] \<and> foreign_id L c (rec_ClaimID rc) \<and>
     ImportClaimSession L (rec_ClaimID rc) (rec_ScheddAddr rc) SurfaceCommands = Inr () \<and>
     (busy_record rc \<longrightarrow> rec_StarterSocket rc \<noteq> [])"

definition adoptable_slot :: "'c Core \<Rightarrow> Record \<Rightarrow> bool" where
  "adoptable_slot c rc \<longleftrightarrow>
     (if dynamic_record rc
      then rec_SlotName rc \<notin> live_names c \<and>
        (\<exists>p \<in> set (slots c). IsPartitionable (slot_at c p) \<and> Name (slot_at c p) = rec_ParentSlotName rc \<and>
           rec_SlotName rc = dslot_name (slot_at c p) (rec_DSlotSubID rc))
      else \<forall>q \<in> set (LiveSlots c). Name (slot_at c q) = rec_SlotName rc \<longrightarrow>
        q \<in> set (slots c) \<and> slot_state (slot_at c q) = ''Unclaimed'')"

definition adoptable :: "'x security_api_scheme \<Rightarrow> 'c Core \<Rightarrow> Record \<Rightarrow> bool" where
  "adoptable L c rc \<longleftrightarrow> adoptable_claim L c rc \<and> adoptable_slot c rc"

text \<open>What the startd holds for an adopted record.\<close>

definition is_rebuilt :: "Record \<Rightarrow> Slot \<Rightarrow> bool" where
  "is_rebuilt rc s \<longleftrightarrow> IsDynamic s \<and> ParentName s = rec_ParentSlotName rc \<and> SubID s = rec_DSlotSubID rc \<and>
     Res s = \<lparr>Cpus = rec_Cpus rc, MemoryMB = rec_MemoryMB rc, DiskKB = rec_DiskKB rc\<rparr>"

definition slot_holds :: "'x security_api_scheme \<Rightarrow> Record \<Rightarrow> Slot \<Rightarrow> bool" where
  "slot_holds L rc s \<longleftrightarrow>
     slot_claim s = Some (Adopt (adopt_options L rc)) \<and> slot_state s = ''Claimed'' \<and>
     activity s = activityOf (busy_record rc) \<and> (dynamic_record rc \<longrightarrow> is_rebuilt rc s)"

definition redialled :: "Record \<Rightarrow> activation \<Rightarrow> bool" where
  "redialled rc a \<longleftrightarrow>
     act_transport a = UnixStartd (rec_StarterSocket rc) \<and> socketPath a = rec_StarterSocket rc \<and>
     sandbox a = rec_Sandbox rc \<and> globalJID a = rec_GlobalJobID rc \<and> starterPid a = rec_StarterPid rc \<and>
     starterAddr a = rec_StarterIpAddr rc \<and> adopted a"

definition holds_claim :: "'x security_api_scheme \<Rightarrow> Record \<Rightarrow> 'c Core \<Rightarrow> bool" where
  "holds_claim L rc c \<longleftrightarrow>
     (\<exists>q. map_of (byName c) (rec_SlotName rc) = Some q \<and> q < length (heap c) \<and> slot_holds L rc (slot_at c q)) \<and>
     (busy_record rc \<longrightarrow> (\<exists>a. map_of (activations c) (rec_SlotName rc) = Some a \<and> redialled rc a))"

section \<open>The claim on its slot\<close>

lemma redial_frame [simp]:
  "heap (redial_starter L rc c) = heap c" "slots (redial_starter L rc c) = slots c" "dslots (redial_starter L rc c) = dslots c"
  "byName (redial_starter L rc c) = byName c" "dslotSeq (redial_starter L rc c) = dslotSeq c"
  "minter (redial_starter L rc c) = minter c" "aliveCancels (redial_starter L rc c) = aliveCancels c"
  "matchCancels (redial_starter L rc c) = matchCancels c" "slot_at (redial_starter L rc c) = slot_at c"
  "dom (map_of (activations (redial_starter L rc c))) =
     (if busy_record rc \<and> rec_StarterSocket rc \<noteq> [] then insert (rec_SlotName rc) (dom (map_of (activations c)))
      else dom (map_of (activations c)))"
  by (auto simp: redial_starter_def busy_record_def emit_def Let_def slot_at_def fun_eq_iff)

lemma redial_activations:
  "n \<noteq> rec_SlotName rc \<Longrightarrow> map_of (activations (redial_starter L rc c)) n = map_of (activations c) n"
  "busy_record rc \<Longrightarrow> rec_StarterSocket rc \<noteq> [] \<Longrightarrow>
     \<exists>a. map_of (activations (redial_starter L rc c)) (rec_SlotName rc) = Some a \<and> redialled rc a"
  by (auto simp: redial_starter_def busy_record_def emit_def Let_def redialled_def)

definition adopted_on :: "'x security_api_scheme \<Rightarrow> Record \<Rightarrow> Slot \<Rightarrow> Slot" where
  "adopted_on L rc = SetClaimState (Adopt (adopt_options L rc)) ''Claimed'' (activityOf (busy_record rc)) (unixTime (rec_Entered rc))"

lemma adopted_on_fields [simp]:
  "same_slot (adopted_on L rc s) s" "slot_claim (adopted_on L rc s) = Some (Adopt (adopt_options L rc))"
  "slot_state (adopted_on L rc s) = ''Claimed''" "activity (adopted_on L rc s) = activityOf (busy_record rc)"
  "childClaimIDs (adopted_on L rc s) = childClaimIDs s" "slot_claim_id (adopted_on L rc s) = rec_ClaimID rc"
  "claim_is ClaimedBusy (adopted_on L rc s) \<longleftrightarrow> busy_record rc" "claimed_slot (adopted_on L rc s)"
  "slot_ok (adopted_on L rc s)" "Res (adopted_on L rc s) = Res s"
  by (simp_all add: adopted_on_def SetClaimState_def SetStateActivity_def slot_claim_id_def claim_is_def claimed_slot_def
      slot_ok_def same_slot_def Adopt_def adopt_options_def activityOf_def busy_record_def)

lemma adopted_name [simp]: "Name (adopted_on L rc s) = Name s"
  by (rule same_slotD(1) [OF adopted_on_fields(1)])

lemma adopt_claim_eq:
  "adopt_claim L rc r c = redial_starter L rc (startAliveLoop r (on_slot r (adopted_on L rc) c))"
  by (simp add: adopt_claim_def adopted_on_def busy_record_def)

lemma adopt_claim_frame:
  assumes "r < length (heap c)"
  shows "slots (adopt_claim L rc r c) = slots c" "dslots (adopt_claim L rc r c) = dslots c" "byName (adopt_claim L rc r c) = byName c"
    "dslotSeq (adopt_claim L rc r c) = dslotSeq c" "minter (adopt_claim L rc r c) = minter c"
    "matchCancels (adopt_claim L rc r c) = matchCancels c" "length (heap (adopt_claim L rc r c)) = length (heap c)"
    "slot_at (adopt_claim L rc r c) q = (if q = r then adopted_on L rc (slot_at c r) else slot_at c q)"
    "dom (map_of (aliveCancels (adopt_claim L rc r c))) = insert (Name (slot_at c r)) (dom (map_of (aliveCancels c)))"
    "dom (map_of (activations (adopt_claim L rc r c))) =
       (if busy_record rc \<and> rec_StarterSocket rc \<noteq> [] then insert (rec_SlotName rc) (dom (map_of (activations c)))
        else dom (map_of (activations c)))"
  using assms by (simp_all add: adopt_claim_eq frame_simps adopted_name)

lemma adopt_claim_activations:
  "n \<noteq> rec_SlotName rc \<Longrightarrow> map_of (activations (adopt_claim L rc r c)) n = map_of (activations c) n"
  "adoptable_claim L e rc \<Longrightarrow> busy_record rc \<Longrightarrow>
     \<exists>a. map_of (activations (adopt_claim L rc r c)) (rec_SlotName rc) = Some a \<and> redialled rc a"
  by (simp_all add: adopt_claim_eq frame_simps adoptable_claim_def redial_activations)

lemma free_slot_books:
  assumes "books_ok c" "r \<in> set (LiveSlots c)" "slot_state (slot_at c r) = ''Unclaimed''"
  shows "Name (slot_at c r) \<notin> dom (map_of (activations c))" "Name (slot_at c r) \<notin> dom (map_of (matchCancels c))"
proof -
  have "slot_ok (slot_at c r)" "slot_books c (slot_at c r)" using assms by (simp_all add: books_ok_def)
  then show "Name (slot_at c r) \<notin> dom (map_of (activations c))" "Name (slot_at c r) \<notin> dom (map_of (matchCancels c))"
    using assms(3) by (simp_all add: slot_ok_def slot_books_def claim_is_def split: option.splits)
qed

text \<open>A record of a configured slot.\<close>

lemma off_adopt_static:
  assumes inv: "core_inv_off L T c" and ad: "adoptable_claim L c rc" and r: "r \<in> set (slots c)"
    and free: "slot_state (slot_at c r) = ''Unclaimed''" and n: "Name (slot_at c r) = rec_SlotName rc"
  shows "core_inv_off L T (adopt_claim L rc r c)"
proof -
  let ?d = "adopt_claim L rc r c"
  have reg: "registry_ok c" and books: "books_ok c" using inv by (simp_all add: core_inv_off_def)
  have rl: "r \<in> set (LiveSlots c)" using r by (simp add: LiveSlots_def)
  note F = adopt_claim_frame [OF registry_range [OF reg rl], of L rc]
  have busy: "busy_record rc \<Longrightarrow> rec_StarterSocket rc \<noteq> []" using ad by (simp add: adoptable_claim_def)
  have "touches r c ?d" unfolding touches_def same_books_off_def by (auto simp: F n)
  moreover have "slot_books ?d (slot_at ?d r)"
    using free_slot_books [OF books rl free] busy n by (auto simp: slot_books_def F)
  moreover have "foreign_id L c (slot_claim_id (slot_at ?d r))" using ad by (simp add: adoptable_claim_def F)
  ultimately show ?thesis by (intro off_static [OF inv _ r]) (simp_all add: F)
qed

text \<open>A record of a dynamic slot.\<close>

definition rebuilt :: "Record \<Rightarrow> Slot \<Rightarrow> Slot" where
  "rebuilt rc P = NewDynamicSlot P (rec_DSlotSubID rc)
     \<lparr>Cpus = rec_Cpus rc, MemoryMB = rec_MemoryMB rc, DiskKB = rec_DiskKB rc\<rparr> (unixTime (rec_Entered rc))"

definition recarved :: "Record \<Rightarrow> slotref \<Rightarrow> 'c Core \<Rightarrow> 'c Core" where
  "recarved rc p c =
     (let c1 = addDSlot (rebuilt rc (slot_at c p))
        (on_slot p (Carve \<lparr>Cpus = rec_Cpus rc, MemoryMB = rec_MemoryMB rc, DiskKB = rec_DiskKB rc\<rparr>) c)
      in if rec_DSlotSubID rc > dslotSeq c1 then c1\<lparr>dslotSeq := rec_DSlotSubID rc\<rparr> else c1)"

lemma recarved_fields:
  "slots (recarved rc p c) = slots c" "dslots (recarved rc p c) = dslots c @ [length (heap c)]"
  "length (heap (recarved rc p c)) = Suc (length (heap c))"
  "byName (recarved rc p c) = AList.update (dslot_name (slot_at c p) (rec_DSlotSubID rc)) (length (heap c)) (byName c)"
  "dslotSeq (recarved rc p c) = max (dslotSeq c) (rec_DSlotSubID rc)" "minter (recarved rc p c) = minter c"
  "activations (recarved rc p c) = activations c" "aliveCancels (recarved rc p c) = aliveCancels c"
  "matchCancels (recarved rc p c) = matchCancels c"
  by (simp_all add: recarved_def rebuilt_def Let_def)

lemma slot_at_recarved:
  assumes "q \<le> length (heap c)" "p < length (heap c)"
  shows "slot_at (recarved rc p c) q =
    (if q = length (heap c) then rebuilt rc (slot_at c p)
     else if q = p then Carve \<lparr>Cpus = rec_Cpus rc, MemoryMB = rec_MemoryMB rc, DiskKB = rec_DiskKB rc\<rparr> (slot_at c p)
     else slot_at c q)"
proof -
  have "slot_at (c\<lparr>dslotSeq := k\<rparr>) x = slot_at c x" for k x and c :: "'a Core" by (simp add: slot_at_def)
  then show ?thesis using assms by (auto simp: recarved_def Let_def slot_at_addDSlot)
qed

lemma quiet_carve [simp]: "quiet_slot (Carve req s) s" "childClaimIDs (Carve req s) = childClaimIDs s"
  by (simp_all add: quiet_slot_def same_slot_def Carve_def)

lemma off_adopt_dynamic:
  assumes inv: "core_inv_off L T c" and ad: "adoptable_claim L c rc" and p: "p \<in> set (slots c)" "IsPartitionable (slot_at c p)"
    and n: "rec_SlotName rc = dslot_name (slot_at c p) (rec_DSlotSubID rc)" "rec_SlotName rc \<notin> live_names c"
  shows "core_inv_off L (insert (Name (slot_at c p)) T) (adopt_claim L rc (length (heap c)) (recarved rc p c))"
proof -
  let ?c1 = "recarved rc p c" let ?x = "length (heap c)" let ?d = "adopt_claim L rc ?x ?c1"
  let ?N = "adopted_on L rc (rebuilt rc (slot_at c p))"
  have reg: "registry_ok c" using inv by (simp add: core_inv_off_def)
  have len: "p < length (heap c)" using registry_range [OF reg] p(1) by (simp add: LiveSlots_def)
  have x: "?x < length (heap ?c1)" by (simp add: recarved_fields)
  note F = adopt_claim_frame [OF x, of L rc] and G = recarved_fields [of rc p c] and at = slot_at_recarved [OF _ len, of _ rc]
  have N: "Name ?N = rec_SlotName rc" using n(1) by (simp add: rebuilt_def)
  note S = same_slotD [OF adopted_on_fields(1), of L rc "rebuilt rc (slot_at c p)"]
  have busy: "busy_record rc \<Longrightarrow> rec_StarterSocket rc \<noteq> []" using ad by (simp add: adoptable_claim_def)
  have "quiet_slot (slot_at ?d q) (slot_at c q) \<and> childClaimIDs (slot_at ?d q) = childClaimIDs (slot_at c q)" if "q < ?x" for q
    using that at [of q] F(8) [of q] by simp
  then have "grows_by p ?N c ?d" using N n(1) at [of ?x] by (simp add: grows_by_def F G)
  moreover have "next_dslot (slot_at c p) ?N c ?d"
    using S n N p(2) by (simp add: next_dslot_def F G rebuilt_def parent_of_def dslot_name_def)
  moreover have "dom (map_of (aliveCancels ?d)) = insert (Name ?N) (dom (map_of (aliveCancels c)))"
    using at [of ?x] by (simp add: F G)
  ultimately have a: "adds_dslot p ?N c ?d" unfolding adds_dslot_def
    using p(1) busy N by (simp add: F G)
  have "foreign_id L c (slot_claim_id ?N)" using ad by (simp add: adoptable_claim_def)
  from off_dynamic [OF inv a _ this] show ?thesis by (simp add: F G)
qed

section \<open>One record\<close>

text \<open>What the adoption of a record for the slot named \<open>n\<close> and the claim id \<open>i\<close> leaves alone.\<close>

definition kept_slot :: "Slot \<Rightarrow> Slot \<Rightarrow> bool" where
  "kept_slot s t \<longleftrightarrow> slot_claim s = slot_claim t \<and> slot_state s = slot_state t \<and> activity s = activity t \<and>
     (IsDynamic t \<longrightarrow> Res s = Res t)"

lemma slot_holds_kept: "same_slot s t \<Longrightarrow> kept_slot s t \<Longrightarrow> slot_holds L rc t \<Longrightarrow> slot_holds L rc s"
  by (simp add: slot_holds_def kept_slot_def is_rebuilt_def same_slotD)

definition keeps_others :: "string \<Rightarrow> string \<Rightarrow> 'c Core \<Rightarrow> 'c Core \<Rightarrow> bool" where
  "keeps_others n i c d \<longleftrightarrow>
     slots d = slots c \<and> minter d = minter c \<and> set (LiveSlots c) \<subseteq> set (LiveSlots d) \<and>
     (\<forall>q \<in> set (LiveSlots c). same_slot (slot_at d q) (slot_at c q) \<and>
        (Name (slot_at c q) \<noteq> n \<longrightarrow> kept_slot (slot_at d q) (slot_at c q))) \<and>
     (\<forall>x. x \<noteq> n \<longrightarrow> map_of (activations d) x = map_of (activations c) x) \<and>
     (\<forall>q \<in> set (LiveSlots d). Name (slot_at d q) = n \<and> slot_claim_id (slot_at d q) = i \<or> q \<in> set (LiveSlots c) \<and> Name (slot_at c q) \<noteq> n)"

lemma keeps_othersD:
  assumes "keeps_others n i c d"
  shows "slots d = slots c" "minter d = minter c" "q \<in> set (LiveSlots c) \<Longrightarrow> q \<in> set (LiveSlots d)"
    "q \<in> set (LiveSlots c) \<Longrightarrow> same_slot (slot_at d q) (slot_at c q)"
    "q \<in> set (LiveSlots c) \<Longrightarrow> Name (slot_at c q) \<noteq> n \<Longrightarrow> kept_slot (slot_at d q) (slot_at c q)"
    "x \<noteq> n \<Longrightarrow> map_of (activations d) x = map_of (activations c) x"
  using assms unfolding keeps_others_def by (simp_all add: subset_iff)

lemma keeps_names:
  assumes "keeps_others n i c d"
  shows "live_names c \<subseteq> live_names d" "live_names d \<subseteq> insert n (live_names c)"
proof -
  have same: "Name (slot_at d q) = Name (slot_at c q)" if "q \<in> set (LiveSlots c)" for q
    using assms that same_slotD(1) unfolding keeps_others_def by blast
  have sub: "set (LiveSlots c) \<subseteq> set (LiveSlots d)" using assms by (simp add: keeps_others_def)
  show "live_names c \<subseteq> live_names d"
  proof
    fix x assume "x \<in> live_names c"
    then obtain q where "q \<in> set (LiveSlots c)" "x = Name (slot_at c q)" by (auto simp: live_names_def)
    then have "q \<in> set (LiveSlots d)" "x = Name (slot_at d q)" using sub same by auto
    then show "x \<in> live_names d" by (simp add: live_names_def)
  qed
  show "live_names d \<subseteq> insert n (live_names c)"
  proof
    fix x assume "x \<in> live_names d"
    then obtain q where q: "q \<in> set (LiveSlots d)" "x = Name (slot_at d q)" by (auto simp: live_names_def)
    then have "Name (slot_at d q) = n \<or> q \<in> set (LiveSlots c)" using assms unfolding keeps_others_def by blast
    then show "x \<in> insert n (live_names c)" using q same by (auto simp: live_names_def)
  qed
qed

lemma keeps_adoptable:
  assumes k: "keeps_others n i c d" and ad: "adoptable L c rc" and ne: "rec_SlotName rc \<noteq> n" "rec_ClaimID rc \<noteq> i"
  shows "adoptable L d rc"
proof -
  have ids: "slot_claim_id (slot_at d q) = i \<or> q \<in> set (LiveSlots c) \<and> slot_claim_id (slot_at d q) = slot_claim_id (slot_at c q)"
    if "q \<in> set (LiveSlots d)" for q
    using k that unfolding keeps_others_def kept_slot_def slot_claim_id_def by (metis (no_types, lifting))
  have "foreign_id L d (rec_ClaimID rc)"
    using ad ne ids k unfolding adoptable_def adoptable_claim_def foreign_id_def keeps_others_def by metis
  then have "adoptable_claim L d rc" using ad by (simp add: adoptable_def adoptable_claim_def)
  moreover have "adoptable_slot d rc"
  proof (cases "dynamic_record rc")
    case True
    have eq: "slots d = slots c" using k by (simp add: keeps_others_def)
    have "Name (slot_at d q) = Name (slot_at c q) \<and> IsPartitionable (slot_at d q) = IsPartitionable (slot_at c q) \<and>
        dslot_name (slot_at d q) x = dslot_name (slot_at c q) x" if "q \<in> set (slots c)" for q x
    proof -
      have "q \<in> set (LiveSlots c)" using that by (simp add: LiveSlots_def)
      then have "same_slot (slot_at d q) (slot_at c q)" using k unfolding keeps_others_def by blast
      from same_slotD [OF this] show ?thesis by (simp add: dslot_name_def)
    qed
    then show ?thesis using ad True ne(1) keeps_names(2) [OF k] by (auto simp: adoptable_def adoptable_slot_def eq)
  next
    case False
    have "q \<in> set (slots d) \<and> slot_state (slot_at d q) = ''Unclaimed''"
      if q: "q \<in> set (LiveSlots d)" "Name (slot_at d q) = rec_SlotName rc" for q
    proof -
      have c: "q \<in> set (LiveSlots c)" using k q ne(1) unfolding keeps_others_def by metis
      then have "same_slot (slot_at d q) (slot_at c q)" using k unfolding keeps_others_def by blast
      then have n: "Name (slot_at c q) = rec_SlotName rc" using same_slotD(1) q(2) by metis
      then have "q \<in> set (slots c)" "slot_state (slot_at c q) = ''Unclaimed''"
        using ad False c by (simp_all add: adoptable_def adoptable_slot_def)
      then show ?thesis using k c n ne(1) unfolding keeps_others_def kept_slot_def by simp
    qed
    then show ?thesis using False by (simp add: adoptable_slot_def)
  qed
  ultimately show ?thesis by (simp add: adoptable_def)
qed

lemma keeps_holds:
  assumes k: "keeps_others n i c d" and reg: "registry_ok c" "registry_ok d" and h: "holds_claim L rc c" and ne: "rec_SlotName rc \<noteq> n"
  shows "holds_claim L rc d"
proof -
  obtain q where q: "map_of (byName c) (rec_SlotName rc) = Some q" "slot_holds L rc (slot_at c q)"
    using h unfolding holds_claim_def by blast
  have live: "q \<in> set (LiveSlots c)" "Name (slot_at c q) = rec_SlotName rc" using registry_byName [OF reg(1)] q(1) by simp_all
  then have d: "q \<in> set (LiveSlots d)" "same_slot (slot_at d q) (slot_at c q)" "kept_slot (slot_at d q) (slot_at c q)"
    using keeps_othersD(3-5) [OF k] ne by simp_all
  have "map_of (byName d) (rec_SlotName rc) = Some q"
    using registry_byName [OF reg(2)] d(1) live(2) same_slotD(1) [OF d(2)] by simp
  moreover have "map_of (activations d) (rec_SlotName rc) = map_of (activations c) (rec_SlotName rc)"
    by (rule keeps_othersD(6) [OF k ne])
  ultimately show ?thesis
    using h slot_holds_kept [OF d(2,3) q(2)] registry_range [OF reg(2) d(1)] unfolding holds_claim_def by simp
qed

lemma registry_None: "registry_ok c \<Longrightarrow> map_of (byName c) n = None \<longleftrightarrow> n \<notin> live_names c"
proof (cases "map_of (byName c) n")
  case (Some r)
  moreover assume "registry_ok c"
  ultimately have "r \<in> set (LiveSlots c)" "Name (slot_at c r) = n" using registry_byName by metis+
  then show ?thesis using Some by (auto simp: live_names_def)
next
  case None
  moreover assume "registry_ok c"
  ultimately show ?thesis using registry_byName [of c n] by (auto simp: live_names_def)
qed

lemma adopt_record_static:
  assumes reg: "registry_ok c" and cl: "claimed_record rc" "\<not> dynamic_record rc" and ad: "adoptable L c rc"
  shows "adopt_record L rc (k, tch, c) =
    (case map_of (byName c) (rec_SlotName rc) of
       None \<Rightarrow> (k, tch, store_delete L (rec_SlotName rc) c) | Some r \<Rightarrow> (Suc k, tch, adopt_claim L rc r c))"
  using cl ad by (auto simp: adopt_record_def adopt_on_slot_def record_kinds adoptable_def adoptable_claim_def split: option.split)

lemma adopt_record_dynamic:
  assumes reg: "registry_ok c" and cl: "claimed_record rc" "dynamic_record rc" and ad: "adoptable L c rc"
    and p: "p \<in> set (slots c)" "Name (slot_at c p) = rec_ParentSlotName rc" "rec_SlotName rc = dslot_name (slot_at c p) (rec_DSlotSubID rc)"
      "rec_SlotName rc \<notin> live_names c"
  shows "adopt_record L rc (k, tch, c) =
    (Suc k, AList.update (rec_ParentSlotName rc) p tch, adopt_claim L rc (length (heap c)) (recarved rc p c))"
proof -
  have pl: "p \<in> set (LiveSlots c)" using p(1) by (simp add: LiveSlots_def)
  have par: "map_of (byName c) (rec_ParentSlotName rc) = Some p" using registry_byName [OF reg] pl p(2) by simp
  have new: "map_of (byName c) (rec_SlotName rc) = None" using registry_None [OF reg] p(4) by simp
  have len: "p < length (heap c)" by (rule registry_range [OF reg pl])
  have rec: "reconstructDSlot rc c = (Some (length (heap c)), recarved rc p c)"
    using par new by (simp add: reconstructDSlot_def recarved_def rebuilt_def Let_def)
  have "rec_ParentSlotName rc \<noteq> rec_SlotName rc" using par new by auto
  then have names: "map_of (byName (recarved rc p c)) (rec_ParentSlotName rc) = Some p"
    "map_of (byName (recarved rc p c)) (rec_SlotName rc) = Some (length (heap c))"
    using par p(3) by (simp_all add: recarved_fields)
  have "Name (slot_at (recarved rc p c) p) = rec_ParentSlotName rc"
    using slot_at_recarved [OF less_imp_le [OF len] len, of rc] len p(2) quiet_slotD(1) [OF quiet_carve(1)] by simp
  then show ?thesis using cl ad rec names
    by (simp add: adopt_record_def adopt_on_slot_def record_kinds adoptable_def adoptable_claim_def)
qed

lemma adopt_record_skip: "\<not> claimed_record rc \<Longrightarrow> adopt_record L rc st = st"
  by (simp add: adopt_record_def claimed_record_def split: prod.split)

text \<open>The loop invariant of the adoption: the parents still to be refreshed are configured slots.\<close>

definition adoption_inv :: "'x security_api_scheme \<Rightarrow> 'c adoption \<Rightarrow> bool" where
  "adoption_inv L st \<longleftrightarrow> (case st of (k, tch, c) \<Rightarrow>
     core_inv_off L (dom (map_of tch)) c \<and>
     (\<forall>n p. map_of tch n = Some p \<longrightarrow> p \<in> set (slots c) \<and> Name (slot_at c p) = n))"

lemma adopt_static_step:
  assumes inv: "core_inv_off L T c" and ad: "adoptable L c rc" "\<not> dynamic_record rc"
    and r: "map_of (byName c) (rec_SlotName rc) = Some r"
  shows "core_inv_off L T (adopt_claim L rc r c)" "keeps_others (rec_SlotName rc) (rec_ClaimID rc) c (adopt_claim L rc r c)"
    "holds_claim L rc (adopt_claim L rc r c)"
proof -
  have reg: "registry_ok c" using inv by (simp add: core_inv_off_def)
  have live: "r \<in> set (LiveSlots c)" "Name (slot_at c r) = rec_SlotName rc" using registry_byName [OF reg] r by simp_all
  then have s: "r \<in> set (slots c)" "slot_state (slot_at c r) = ''Unclaimed''"
    using ad by (simp_all add: adoptable_def adoptable_slot_def)
  note F = adopt_claim_frame [OF registry_range [OF reg live(1)], of L rc]
  show "core_inv_off L T (adopt_claim L rc r c)" using off_adopt_static [OF inv _ s live(2)] ad(1) by (simp add: adoptable_def)
  have l: "LiveSlots (adopt_claim L rc r c) = LiveSlots c" by (simp add: LiveSlots_def F)
  have "Name (slot_at c q) \<noteq> rec_SlotName rc" if "q \<in> set (LiveSlots c)" "q \<noteq> r" for q
    using registry_name_inj [OF reg that(1) live(1)] that(2) live(2) by simp
  then show "keeps_others (rec_SlotName rc) (rec_ClaimID rc) c (adopt_claim L rc r c)"
    using live by (auto simp: keeps_others_def l F kept_slot_def adopt_claim_activations)
  show "holds_claim L rc (adopt_claim L rc r c)"
    using r registry_range [OF reg live(1)] adopt_claim_activations(2) [of L c rc r] ad
    by (auto simp: holds_claim_def slot_holds_def adoptable_def F)
qed

lemma adopt_dynamic_step:
  assumes inv: "core_inv_off L T c" and ad: "adoptable L c rc" and p: "p \<in> set (slots c)" "IsPartitionable (slot_at c p)"
    and n: "rec_SlotName rc = dslot_name (slot_at c p) (rec_DSlotSubID rc)" "rec_SlotName rc \<notin> live_names c"
    and par: "Name (slot_at c p) = rec_ParentSlotName rc"
  defines "d \<equiv> adopt_claim L rc (length (heap c)) (recarved rc p c)"
  shows "core_inv_off L (insert (Name (slot_at c p)) T) d" "keeps_others (rec_SlotName rc) (rec_ClaimID rc) c d" "holds_claim L rc d"
proof -
  let ?c1 = "recarved rc p c" let ?x = "length (heap c)"
  have reg: "registry_ok c" using inv by (simp add: core_inv_off_def)
  have len: "p < length (heap c)" using registry_range [OF reg] p(1) by (simp add: LiveSlots_def)
  have x: "?x < length (heap ?c1)" by (simp add: recarved_fields)
  note F = adopt_claim_frame [OF x, of L rc] and G = recarved_fields [of rc p c] and at = slot_at_recarved [OF _ len, of _ rc]
  note A = adopt_claim_activations [where r = ?x and c = ?c1 and rc = rc and L = L]
  show "core_inv_off L (insert (Name (slot_at c p)) T) d"
    unfolding d_def using off_adopt_dynamic [OF inv _ p n] ad by (simp add: adoptable_def)
  have N: "slot_at d ?x = adopted_on L rc (rebuilt rc (slot_at c p))" using at [of ?x] by (simp add: d_def F)
  have old: "same_slot (slot_at d q) (slot_at c q) \<and> kept_slot (slot_at d q) (slot_at c q)" if "q \<in> set (LiveSlots c)" for q
  proof -
    have q: "slot_at d q = (if q = p then Carve \<lparr>Cpus = rec_Cpus rc, MemoryMB = rec_MemoryMB rc, DiskKB = rec_DiskKB rc\<rparr> (slot_at c p)
        else slot_at c q)" using registry_range [OF reg that] at [of q] F(8) [of q] by (simp add: d_def)
    have "\<not> IsDynamic (slot_at c p)" using p(2) by (simp add: IsPartitionable_def IsDynamic_def slot_type_defs)
    then show ?thesis using quiet_carve(1) by (auto simp: q kept_slot_def quiet_slot_def)
  qed
  have l: "LiveSlots d = LiveSlots c @ [?x]" by (simp add: d_def LiveSlots_def F G)
  have new: "Name (slot_at d ?x) = rec_SlotName rc" using n(1) by (simp add: N rebuilt_def)
  have "Name (slot_at c q) \<noteq> rec_SlotName rc" if "q \<in> set (LiveSlots c)" for q
    using n(2) that by (force simp: live_names_def)
  moreover have "map_of (activations d) z = map_of (activations c) z" if "z \<noteq> rec_SlotName rc" for z
    using A(1) [OF that] by (simp add: d_def G)
  moreover have "slots d = slots c" "minter d = minter c" by (simp_all add: d_def F G)
  ultimately show "keeps_others (rec_SlotName rc) (rec_ClaimID rc) c d"
    using old new N unfolding keeps_others_def l by auto
  have "is_rebuilt rc (slot_at d ?x)"
    using par same_slotD [OF adopted_on_fields(1), of L rc "rebuilt rc (slot_at c p)"] unfolding N
    by (simp add: is_rebuilt_def rebuilt_def NewDynamicSlot_def IsDynamic_def)
  then have "slot_holds L rc (slot_at d ?x)" by (simp add: slot_holds_def N)
  moreover have "?x < length (heap d)" "map_of (byName d) (rec_SlotName rc) = Some ?x" using n(1) by (simp_all add: d_def F G)
  ultimately show "holds_claim L rc d"
    using A(2) ad unfolding holds_claim_def d_def adoptable_def by blast
qed

text \<open>The step of the loop. Dropping a record changes the store only.\<close>

lemma store_upd [simp]:
  "slot_at (c\<lparr>store := s\<rparr>) = slot_at c" "LiveSlots (c\<lparr>store := s\<rparr>) = LiveSlots c" "live_names (c\<lparr>store := s\<rparr>) = live_names c"
  "core_inv_off L T (c\<lparr>store := s\<rparr>) = core_inv_off L T c" "adoptable L (c\<lparr>store := s\<rparr>) rc = adoptable L c rc"
  "holds_claim L rc (c\<lparr>store := s\<rparr>) = holds_claim L rc c"
proof -
  show at: "slot_at (c\<lparr>store := s\<rparr>) = slot_at c" by (simp add: slot_at_def fun_eq_iff)
  show live: "LiveSlots (c\<lparr>store := s\<rparr>) = LiveSlots c" by (simp add: LiveSlots_def)
  show names: "live_names (c\<lparr>store := s\<rparr>) = live_names c" by (simp add: live_names_def at live)
  have "slot_books (c\<lparr>store := s\<rparr>) = slot_books c" "child_claim_ids n (c\<lparr>store := s\<rparr>) = child_claim_ids n c" for n
    by (simp_all add: slot_books_def child_claim_ids_def at fun_eq_iff)
  then show "core_inv_off L T (c\<lparr>store := s\<rparr>) = core_inv_off L T c"
    by (cases "minter c")
      (simp_all add: core_inv_off_def registry_ok_def shape_ok_def books_ok_def children_off_def ids_ok_def at live names)
  show "adoptable L (c\<lparr>store := s\<rparr>) rc = adoptable L c rc"
    by (cases "minter c") (simp_all add: adoptable_def adoptable_claim_def adoptable_slot_def foreign_id_def at live names)
  show "holds_claim L rc (c\<lparr>store := s\<rparr>) = holds_claim L rc c" by (simp add: holds_claim_def at)
qed

definition can_hold :: "'c Core \<Rightarrow> Record \<Rightarrow> bool" where
  "can_hold c rc \<longleftrightarrow> claimed_record rc \<and> (dynamic_record rc \<or> rec_SlotName rc \<in> live_names c)"

lemma adoption_step:
  assumes inv: "adoption_inv L (k, tch, c)" and ad: "claimed_record rc \<longrightarrow> adoptable L c rc"
    and st: "adopt_record L rc (k, tch, c) = (k', tch', d)"
  shows "adoption_inv L (k', tch', d) \<and> (can_hold c rc \<longrightarrow> holds_claim L rc d) \<and>
    ((\<exists>s. d = c\<lparr>store := s\<rparr>) \<or> claimed_record rc \<and> keeps_others (rec_SlotName rc) (rec_ClaimID rc) c d)"
proof (cases "claimed_record rc")
  case False
  then have eq: "k' = k" "tch' = tch" "d = c" using st by (simp_all add: adopt_record_skip)
  moreover have "\<exists>s. c = c\<lparr>store := s\<rparr>" by (rule exI [of _ "store c"]) simp
  ultimately show ?thesis using False inv by (simp add: can_hold_def)
next
  case True
  have off: "core_inv_off L (dom (map_of tch)) c" and reg: "registry_ok c"
    using inv by (simp_all add: adoption_inv_def core_inv_off_def)
  have tch: "\<And>n p. map_of tch n = Some p \<Longrightarrow> p \<in> set (slots c) \<and> Name (slot_at c p) = n"
    using inv by (simp add: adoption_inv_def)
  show ?thesis
  proof (cases "dynamic_record rc")
    case dyn: True
    then obtain p where p: "p \<in> set (slots c)" "IsPartitionable (slot_at c p)" "Name (slot_at c p) = rec_ParentSlotName rc"
      "rec_SlotName rc = dslot_name (slot_at c p) (rec_DSlotSubID rc)" "rec_SlotName rc \<notin> live_names c"
      using ad [rule_format, OF True] by (auto simp: adoptable_def adoptable_slot_def)
    note S = adopt_dynamic_step [OF off ad [rule_format, OF True] p(1,2,4,5,3)]
    have eq: "k' = Suc k" "tch' = AList.update (rec_ParentSlotName rc) p tch" "d = adopt_claim L rc (length (heap c)) (recarved rc p c)"
      using adopt_record_dynamic [OF reg True dyn ad [rule_format, OF True] p(1,3,4,5), of k tch] st by simp_all
    have "slots d = slots c" "\<And>q. q \<in> set (slots c) \<Longrightarrow> Name (slot_at d q) = Name (slot_at c q)"
      using S(2) same_slotD(1) unfolding eq keeps_others_def by (auto simp: LiveSlots_def)
    then have "adoption_inv L (k', tch', d)"
      using S(1) p tch by (auto simp: adoption_inv_def eq(2) simp flip: eq(3))
    then show ?thesis using S(2,3) True eq(3) by simp
  next
    case dyn: False
    note R = adopt_record_static [OF reg True dyn ad [rule_format, OF True], of k tch]
    show ?thesis
    proof (cases "map_of (byName c) (rec_SlotName rc)")
      case None
      then have eq: "tch' = tch" "d = store_delete L (rec_SlotName rc) c" using R st by simp_all
      then obtain s where s: "d = c\<lparr>store := s\<rparr>"
        by (cases "store c") (auto simp: store_delete_def intro: that [of None])
      have "rec_SlotName rc \<notin> live_names c" using registry_None [OF reg] None by simp
      then have "\<not> can_hold c rc" using dyn by (simp add: can_hold_def)
      then show ?thesis using inv eq(1) unfolding s by (auto simp: adoption_inv_def)
    next
      case (Some r)
      then have eq: "tch' = tch" "d = adopt_claim L rc r c" using R st by simp_all
      note S = adopt_static_step [OF off ad [rule_format, OF True] dyn Some]
      have "slots d = slots c" "\<And>q. q \<in> set (slots c) \<Longrightarrow> Name (slot_at d q) = Name (slot_at c q)"
        using S(2) same_slotD(1) unfolding eq keeps_others_def by (auto simp: LiveSlots_def)
      then show ?thesis using S True tch by (simp add: adoption_inv_def eq)
    qed
  qed
qed

section \<open>All the records\<close>

definition adoptable_records :: "'x security_api_scheme \<Rightarrow> 'c Core \<Rightarrow> Record list \<Rightarrow> bool" where
  "adoptable_records L c rs \<longleftrightarrow>
     (let cs = filter claimed_record rs
      in distinct (map rec_SlotName cs) \<and> distinct (map rec_ClaimID cs) \<and> (\<forall>rc \<in> set cs. adoptable L c rc))"

lemma adoption_step_keeps:
  assumes inv: "adoption_inv L (k, tch, c)" and ad: "claimed_record rc \<longrightarrow> adoptable L c rc"
    and st: "adopt_record L rc (k, tch, c) = (k', tch', d)"
    and rc': "claimed_record rc \<Longrightarrow> rec_SlotName rc' \<noteq> rec_SlotName rc \<and> rec_ClaimID rc' \<noteq> rec_ClaimID rc"
  shows "adoptable L c rc' \<Longrightarrow> adoptable L d rc'" "can_hold c rc' \<Longrightarrow> can_hold d rc'" "holds_claim L rc' c \<Longrightarrow> holds_claim L rc' d"
proof -
  note S = adoption_step [OF inv ad st]
  have reg: "registry_ok c" "registry_ok d" using inv S by (simp_all add: adoption_inv_def core_inv_off_def)
  consider s where "d = c\<lparr>store := s\<rparr>" | "claimed_record rc" "keeps_others (rec_SlotName rc) (rec_ClaimID rc) c d" using S by blast
  note cases = this
  show "adoptable L c rc' \<Longrightarrow> adoptable L d rc'" using cases rc' by cases (auto intro: keeps_adoptable)
  show "can_hold c rc' \<Longrightarrow> can_hold d rc'" using cases by cases (auto simp: can_hold_def dest: keeps_names(1) [THEN subsetD, rotated])
  show "holds_claim L rc' c \<Longrightarrow> holds_claim L rc' d" using cases rc' reg by cases (auto intro: keeps_holds)
qed

lemma adoptable_rest:
  assumes inv: "adoption_inv L (k, tch, c)" and rs: "adoptable_records L c (rc # rs)"
    and st: "adopt_record L rc (k, tch, c) = (k', tch', d)"
  shows "claimed_record rc \<longrightarrow> adoptable L c rc" "adoptable_records L d rs"
    "\<And>x. x \<in> set rs \<Longrightarrow> claimed_record x \<Longrightarrow> claimed_record rc \<Longrightarrow>
       rec_SlotName x \<noteq> rec_SlotName rc \<and> rec_ClaimID x \<noteq> rec_ClaimID rc"
proof -
  show ad: "claimed_record rc \<longrightarrow> adoptable L c rc" using rs by (simp add: adoptable_records_def Let_def)
  show ne: "rec_SlotName x \<noteq> rec_SlotName rc \<and> rec_ClaimID x \<noteq> rec_ClaimID rc"
    if "x \<in> set rs" "claimed_record x" "claimed_record rc" for x
    using rs that by (auto simp: adoptable_records_def Let_def image_iff)
  have "adoptable L d x" if "x \<in> set rs" "claimed_record x" for x
    using adoption_step_keeps(1) [OF inv ad st ne [OF that]] rs that by (simp add: adoptable_records_def Let_def split: if_splits)
  then show "adoptable_records L d rs" using rs by (simp add: adoptable_records_def Let_def split: if_splits)
qed

text \<open>A relation between the state and the records still to come that every step maintains.\<close>

lemma adoption_loop_induct:
  assumes "adoption_inv L (k, tch, c)" "adoptable_records L c rs" "fold (adopt_record L) rs (k, tch, c) = (k', tch', d)" "P c rs"
    and step: "\<And>k tch c rc rs k' tch' d. adoption_inv L (k, tch, c) \<Longrightarrow> claimed_record rc \<longrightarrow> adoptable L c rc \<Longrightarrow>
      adopt_record L rc (k, tch, c) = (k', tch', d) \<Longrightarrow> P c (rc # rs) \<Longrightarrow> P d rs"
  shows "P d []"
  using assms(1-4)
proof (induction rs arbitrary: k tch c)
  case (Cons rc rs)
  obtain k1 t1 c1 where st: "adopt_record L rc (k, tch, c) = (k1, t1, c1)" by (metis prod_cases3)
  note rest = adoptable_rest [OF Cons.prems(1,2) st]
  show ?case
    using Cons.IH [OF _ rest(2)] adoption_step [OF Cons.prems(1) rest(1) st] step [OF Cons.prems(1) rest(1) st Cons.prems(4)]
      Cons.prems(3) st by auto
qed simp

lemma adoption_loop:
  assumes "adoption_inv L (k, tch, c)" "adoptable_records L c rs" "fold (adopt_record L) rs (k, tch, c) = (k', tch', d)"
  shows "adoption_inv L (k', tch', d) \<and> (\<forall>rc \<in> set rs. can_hold c rc \<longrightarrow> holds_claim L rc d) \<and>
    (\<forall>rc. rec_SlotName rc \<notin> rec_SlotName ` set (filter claimed_record rs) \<and>
       rec_ClaimID rc \<notin> rec_ClaimID ` set (filter claimed_record rs) \<and> holds_claim L rc c \<longrightarrow> holds_claim L rc d)"
  using assms
proof (induction rs arbitrary: k tch c)
  case (Cons rc rs)
  obtain k1 t1 c1 where st: "adopt_record L rc (k, tch, c) = (k1, t1, c1)" by (metis prod_cases3)
  note rest = adoptable_rest [OF Cons.prems(1,2) st]
  note ad = rest(1) and ne = rest(3)
  note S = adoption_step [OF Cons.prems(1) ad st] and K = adoption_step_keeps [OF Cons.prems(1) ad st]
  from Cons.IH [OF _ rest(2)] have IH: "adoption_inv L (k', tch', d)" "\<And>x. x \<in> set rs \<Longrightarrow> can_hold c1 x \<Longrightarrow> holds_claim L x d"
    "\<And>x. rec_SlotName x \<notin> rec_SlotName ` set (filter claimed_record rs) \<Longrightarrow>
       rec_ClaimID x \<notin> rec_ClaimID ` set (filter claimed_record rs) \<Longrightarrow> holds_claim L x c1 \<Longrightarrow> holds_claim L x d"
    using S Cons.prems(3) st by auto
  have "holds_claim L rc d" if h: "can_hold c rc"
  proof -
    have cl: "claimed_record rc" using h by (simp add: can_hold_def)
    have "rec_SlotName rc \<notin> rec_SlotName ` set (filter claimed_record rs)"
      "rec_ClaimID rc \<notin> rec_ClaimID ` set (filter claimed_record rs)" using ne cl by force+
    then show ?thesis using IH(3) S h by blast
  qed
  moreover have "holds_claim L x d" if "x \<in> set rs" "can_hold c x" for x
    using IH(2) K(2) [OF ne [OF that(1)]] that by (auto simp: can_hold_def)
  moreover have "holds_claim L x d" if "rec_SlotName x \<notin> rec_SlotName ` set (filter claimed_record (rc # rs))"
    "rec_ClaimID x \<notin> rec_ClaimID ` set (filter claimed_record (rc # rs))" "holds_claim L x c" for x
    using that IH(3) K(3) [of x] by (auto split: if_splits)
  ultimately show ?case using IH(1) by (metis set_ConsD)
qed simp

section \<open>The parents, and the whole adoption\<close>

definition refresh_parent :: "(string, slotref) gomap \<Rightarrow> string \<Rightarrow> 'c Core \<Rightarrow> 'c Core" where
  "refresh_parent tch n c = (case map_of tch n of None \<Rightarrow> c | Some p \<Rightarrow> refreshPSlotChildren p c)"

lemma refresh_frame:
  assumes "p < length (heap c)"
  shows "slots (refreshPSlotChildren p c) = slots c" "Name (slot_at (refreshPSlotChildren p c) q) = Name (slot_at c q)"
    "holds_claim L rc (refreshPSlotChildren p c) = holds_claim L rc c"
  using assms by (auto simp: refreshPSlotChildren_def SetChildClaimIDs_def holds_claim_def slot_holds_def is_rebuilt_def IsDynamic_def)

lemma refresh_loop:
  assumes "core_inv_off L T c" "T \<subseteq> dom (map_of tch)" "\<forall>n p. map_of tch n = Some p \<longrightarrow> p \<in> set (slots c) \<and> Name (slot_at c p) = n"
  shows "core_inv_off L (T - set ns) (fold (refresh_parent tch) ns c) \<and>
    holds_claim L rc (fold (refresh_parent tch) ns c) = holds_claim L rc c"
  using assms
proof (induction ns arbitrary: c T)
  case (Cons n ns)
  show ?case
  proof (cases "map_of tch n")
    case None
    then have "n \<notin> T" using Cons.prems(2) by blast
    then have "T - set (n # ns) = T - set ns" by auto
    then show ?thesis using None Cons by (simp add: refresh_parent_def)
  next
    case (Some p)
    then have p: "p \<in> set (slots c)" "Name (slot_at c p) = n" using Cons.prems(3) by simp_all
    then have len: "p < length (heap c)" using Cons.prems(1) registry_range [of c p] by (simp add: core_inv_off_def LiveSlots_def)
    have "T - set (n # ns) = T - {n} - set ns" by auto
    then show ?thesis
      using Cons.IH [of "T - {n}" "refreshPSlotChildren p c"] off_refresh [OF Cons.prems(1) p(1)] Cons.prems(2,3) Some p(2)
      by (auto simp: refresh_parent_def refresh_frame [OF len])
  qed
qed simp

definition stored_records :: "('c, 'x) persist_api_scheme \<Rightarrow> 'c Core \<Rightarrow> Record list" where
  "stored_records L c = (case store c of None \<Rightarrow> [] | Some st \<Rightarrow> store_List L st)"

lemma holds_view:
  assumes v: "core_view d = core_view c"
  shows "holds_claim L rc d = holds_claim L rc c"
proof -
  note f = view_eq_fields [OF v]
  have "slot_holds L rc (slot_at d q) = slot_holds L rc (slot_at c q)" if "q < length (heap c)" for q
  proof -
    have "q < length (heap d)" using that f(9) by simp
    note view_eq_slot [OF v this]
    from arg_cong [OF this, of "slot_holds L rc"] show ?thesis by (simp add: slot_holds_def is_rebuilt_def IsDynamic_def)
  qed
  then show ?thesis unfolding holds_claim_def f(3,6,9) by (intro ex_cong1 conj_cong refl) simp_all
qed

lemma doAdopt_holds:
  assumes inv: "core_inv L c" and rs: "adoptable_records L c (stored_records L c)" and w: "visits_all w"
  shows "core_inv L (doAdopt L w c)" "\<And>rc. rc \<in> set (stored_records L c) \<Longrightarrow> can_hold c rc \<Longrightarrow> holds_claim L rc (doAdopt L w c)"
proof -
  obtain k tch d where loop: "fold (adopt_record L) (stored_records L c) (0, [], c) = (k, tch, d)" by (metis prod_cases3)
  have "adoption_inv L (0, [], c)" using inv by (simp add: adoption_inv_def core_inv_off_none)
  note A = adoption_loop [OF this rs loop]
  let ?e = "fold (refresh_parent tch) (visit w (map fst tch)) d"
  have all: "dom (map_of tch) - set (visit w (map fst tch)) = {}" using w by (simp add: visits_all_def dom_map_of_conv_image_fst)
  have R: "core_inv L ?e" "holds_claim L rc ?e = holds_claim L rc d" for rc
    using refresh_loop [of L "dom (map_of tch)" d tch "visit w (map fst tch)" rc] A all
    by (simp_all add: adoption_inv_def core_inv_off_none)
  have "doAdopt L w c = ?e \<or> doAdopt L w c = reAdvertise L w ?e"
    using loop by (simp add: doAdopt_def stored_records_def refresh_parent_def [abs_def] Let_def)
  then have v: "core_view (doAdopt L w c) = core_view ?e" by auto
  show "core_inv L (doAdopt L w c)" using R(1) core_inv_view [OF v, of L] by simp
  show "holds_claim L rc (doAdopt L w c)" if "rc \<in> set (stored_records L c)" "can_hold c rc" for rc
    using A that R(2) [of rc] holds_view [OF v, of L rc] by simp
qed

end
