(* ===== verification/Recarve.thy ===== *)
theory Recarve
  imports System Readopt
begin

text \<open>
  What a run and an adoption leave alone, and what they conserve: the configured slots stay what they are, and the
  resources that the records of dynamic slots take from their parents again come out of the parents' shares exactly.
\<close>

section \<open>The configured slots stay what they are\<close>

definition keeps_config :: "'c Core \<Rightarrow> 'c Core \<Rightarrow> bool" where
  "keeps_config c d \<longleftrightarrow> slots d = slots c \<and> (\<forall>r \<in> set (slots c). same_slot (slot_at d r) (slot_at c r))"

lemma keeps_config_trans: "keeps_config c d \<Longrightarrow> keeps_config d e \<Longrightarrow> keeps_config c e"
  by (auto simp: keeps_config_def intro: same_slot_trans)

lemma still_config: "still c d \<Longrightarrow> keeps_config c d"
  by (simp add: pointwise_def still_slot_def keeps_config_def)

lemma config_quiet [simp]: "keeps_config c (reAdvertise L w c)" "keeps_config c (emit e c)"
  by (intro still_config still_rules acct.refl)+

lemma config_PSlot:
  assumes inv: "core_inv L c" and ok: "mint_ok L" "counters_ok c" and ps: "ps \<in> set (slots c)"
  shows "keeps_config c (doRequestClaimPSlot L w ev ps c)"
proof -
  obtain m m' cl where m: "minter c = Some m" and mint: "Mint L m = (m', Inr cl)"
    using next_mint [OF inv ok] by blast
  have len: "q < length (heap c)" if "q \<in> set (slots c)" for q
    using registry_range [of c q] inv that by (simp add: core_inv_def LiveSlots_def)
  let ?e = "pslot_carved L w ev ps m' cl c"
  have "same_slot (slot_at ?e q) (slot_at c q)" if "q \<in> set (slots c)" for q
    using len [OF that] len [OF ps] quiet_slot_ops(1) by (auto simp: pslot_carved_def Let_def slot_at_carved quiet_slot_def)
  then have "keeps_config c ?e" by (simp add: keeps_config_def pslot_carved_def Let_def frame_simps)
  moreover have "still ?e (reAdvertise L w (emit x (snd (leftover_reply L w (rc_reqAd ev) ps
      (snd (claimed_reply L w (rc_reqAd ev) (length (heap c)) ?e))))))" for x
    by (auto simp: replies_on_slot intro!: still_rules)
  ultimately have "keeps_config c (reAdvertise L w (emit x (snd (leftover_reply L w (rc_reqAd ev) ps
      (snd (claimed_reply L w (rc_reqAd ev) (length (heap c)) ?e))))))" for x
    using still_config keeps_config_trans by blast
  moreover have "keeps_config c (reject_claim c)" by (intro still_config still_rules acct.refl)
  ultimately show ?thesis by (simp add: doRequestClaimPSlot_minted [OF m mint] Let_def)
qed

lemma config_doRequestClaim:
  assumes inv: "core_inv L c" and ok: "mint_ok L" "counters_ok c"
  shows "keeps_config c (doRequestClaim L w ev c)"
proof (cases "\<exists>r. findSlotByClaimID (rc_claimID ev) c = Some r \<and> IsPartitionable (slot_at c r)")
  case False
  then have "still c (doRequestClaim L w ev c)" by (intro still_request) auto
  then show ?thesis by (rule still_config)
next
  case True
  then obtain r where r: "findSlotByClaimID (rc_claimID ev) c = Some r" "IsPartitionable (slot_at c r)" by blast
  then have live: "r \<in> set (LiveSlots c)" using find_claim_live by blast
  let ?c1 = "cancelMatchTimer (Name (slot_at c r)) c"
  have s: "still c ?c1" "still c (reject_claim c)" "still c (reject_claim ?c1)" by (intro still_rules acct.refl)+
  have "r \<in> set (slots ?c1)"
    using live r inv by (auto simp: core_inv_def shape_ok_def LiveSlots_def frame_simps
        IsPartitionable_def IsDynamic_def SlotTypeDynamic_def SlotTypePartitionable_def)
  moreover have "counters_ok ?c1" using ok by (simp add: counters_ok_def frame_simps)
  ultimately have "keeps_config c (doRequestClaimPSlot L w ev r ?c1)"
    using config_PSlot [OF inv_cancelMatchTimer [OF inv live] ok(1)] keeps_config_trans [OF still_config [OF s(1)]] by blast
  then show ?thesis using r still_config [OF s(2)] still_config [OF s(3)]
    by (auto simp: doRequestClaim_def Let_def frame_simps split: option.split)
qed

lemma config_releaseSlot:
  assumes inv: "core_inv L c" and r: "r \<in> set (LiveSlots c)"
  shows "keeps_config c (releaseSlot L w r c)"
proof (cases "r \<in> set (dslots c)")
  case True
  from release_dynamic_setup [OF inv True] obtain p where p: "p < length (heap c)"
    and rel: "releaseSlot L w r c = reAdvertise L w (persistSlot L p (restored L w r p (close_books (Name (slot_at c r)) c)))"
    by blast
  let ?c = "close_books (Name (slot_at c r)) c"
  let ?e = "restored L w r p ?c"
  note at = slot_at_restored [of p ?c, simplified frame_simps, OF p]
  have "keeps_config c ?e" using quiet_slot_ops(5) by (auto simp: keeps_config_def at frame_simps quiet_slot_def)
  moreover have "still ?e (releaseSlot L w r c)" unfolding rel by (intro still_rules acct.refl)
  ultimately show ?thesis using still_config keeps_config_trans by blast
next
  case False
  then have "\<not> IsDynamic (slot_at c r)" using assms by (auto simp: core_inv_def shape_ok_def LiveSlots_def)
  then show ?thesis using still_release_static still_config by blast
qed

lemma config_doAdoptFailed:
  assumes "core_inv L c"
  shows "keeps_config c (doAdoptFailed L w n c)"
proof -
  have "still c (reAdvertise L w (persistSlot L r (on_slot r (\<lambda>s. set_idle w (map_claim f s)) (end_activation n a c))))"
    "still c (reAdvertise L w (end_activation n a c))" "still c (c\<lparr>activations := x\<rparr>)"
    for r f a x by (intro still_rules acct.refl; simp)+
  note s = this [THEN still_config]
  show ?thesis
    using s config_releaseSlot [OF assms] byName_live [OF assms] still_config [OF acct.refl]
    by (auto simp: doAdoptFailed_def Let_def split: option.split)
qed

lemma config_handle:
  assumes inv: "core_inv L c" and ok: "mint_ok L" "counters_ok c" and e: "ev \<noteq> EvAdopt"
  shows "keeps_config c (handle L w ev c)"
proof (cases ev)
  case (EvReleaseClaim cid)
  then show ?thesis using config_releaseSlot [OF inv] still_config [OF acct.refl]
    by (auto simp: handle_def doReleaseByClaimID_def split: option.split dest!: find_claim_live)
next
  case (EvReleaseSlot x)
  then show ?thesis using config_releaseSlot [OF inv] still_config [OF acct.refl]
    by (auto simp: handle_def doReleaseSlot_def split: option.split dest!: byName_live [OF inv])
qed (use assms in \<open>simp_all add: handle_def still_config [OF still_matching(1)] still_config [OF still_matching(2)]
      still_config [OF acct.claim_reports(1)] still_config [OF acct.claim_reports(2)]
      still_config [OF acct.claim_reports(3)] still_config [OF still_exited]
      still_config [OF acct.starter_reports(1)] still_config [OF acct.starter_reports(2)]
      still_config [OF acct.starter_reports(3)] still_config [OF acct.starter_reports(4)] still_config [OF still_activate]
      config_doRequestClaim config_doAdoptFailed\<close>)

lemma config_step:
  assumes ok: "mint_ok L" and s: "startd_step P L c d" and inv: "startd_inv P L c"
  shows "keeps_config c d"
  using s
proof (cases rule: startd_step.cases)
  case (event w)
  show ?thesis
  proof (cases "events c")
    case Nil
    then show ?thesis using event still_config [OF acct.refl] by (simp add: loop_step_def)
  next
    case (Cons ev evs)
    let ?c = "c\<lparr>events := evs\<rparr>"
    have v: "core_view ?c = core_view c" by (simp add: core_view_def)
    have "core_inv L ?c" using inv core_inv_view [OF v, of L] by (simp add: startd_inv_def)
    moreover have "counters_ok ?c" using event by (simp add: counters_ok_def)
    moreover have "ev \<noteq> EvAdopt" using inv Cons by (simp add: startd_inv_def)
    moreover have "keeps_config c ?c" by (intro still_config still_rules acct.refl)
    ultimately show ?thesis using config_handle [OF _ ok, of ?c ev w] keeps_config_trans event(1) Cons
      by (simp add: loop_step_def) blast
  qed
qed (simp_all add: loop_step_def still_config acct.background)

section \<open>Resources through the adoption\<close>

definition record_res :: "Record \<Rightarrow> Resources" where
  "record_res rc = \<lparr>Cpus = rec_Cpus rc, MemoryMB = rec_MemoryMB rc, DiskKB = rec_DiskKB rc\<rparr>"

text \<open>What the dynamic slots among the records take from the slot named \<open>n\<close>.\<close>

definition owed :: "string \<Rightarrow> (Resources \<Rightarrow> int) \<Rightarrow> Record list \<Rightarrow> int" where
  "owed n f rs = (\<Sum>rc \<leftarrow> rs. if claimed_record rc \<and> dynamic_record rc \<and> rec_ParentSlotName rc = n then f (record_res rc) else 0)"

definition spare :: "Slot \<Rightarrow> Record list \<Rightarrow> Resources" where
  "spare s rs = \<lparr>Cpus = Cpus (Res s) - owed (Name s) Cpus rs, MemoryMB = MemoryMB (Res s) - owed (Name s) MemoryMB rs,
     DiskKB = DiskKB (Res s) - owed (Name s) DiskKB rs\<rparr>"

definition records_fit :: "'c Core \<Rightarrow> Record list \<Rightarrow> bool" where
  "records_fit c rs \<longleftrightarrow>
     (\<forall>rc \<in> set rs. claimed_record rc \<and> dynamic_record rc \<longrightarrow> res_nonneg (record_res rc)) \<and>
     (\<forall>p \<in> set (slots c). IsPartitionable (slot_at c p) \<longrightarrow> res_nonneg (spare (slot_at c p) rs))"

lemma owed_Cons:
  "owed n f (rc # rs) = (if claimed_record rc \<and> dynamic_record rc \<and> rec_ParentSlotName rc = n then f (record_res rc) else 0) + owed n f rs"
  by (simp add: owed_def)

lemma owed_nonneg:
  assumes "\<forall>rc \<in> set rs. claimed_record rc \<and> dynamic_record rc \<longrightarrow> res_nonneg (record_res rc)"
  shows "0 \<le> owed n Cpus rs" "0 \<le> owed n MemoryMB rs" "0 \<le> owed n DiskKB rs"
  using assms by (auto simp: owed_def res_nonneg_def intro!: sum_list_nonneg)

lemma still_adopt_claim: "still c (adopt_claim L rc r c)"
  unfolding adopt_claim_def redial_starter_def Let_def by (auto intro!: still_rules acct.refl)

lemma still_fit: "still c d \<Longrightarrow> records_fit d rs = records_fit c rs"
  by (simp add: records_fit_def pointwise_def still_slot_def same_slot_def IsPartitionable_def spare_def)

lemma Carve_exact:
  assumes "balanced_slot s b" "res_nonneg r" "CanCarve s r"
  shows "Res (Carve r s) = \<lparr>Cpus = Cpus (Res s) - Cpus r, MemoryMB = MemoryMB (Res s) - MemoryMB r, DiskKB = DiskKB (Res s) - DiskKB r\<rparr>"
proof -
  have "fullRes (Carve r s) = fullRes s" by (simp add: Carve_def)
  then show ?thesis using assms(1) Carve_balanced [OF assms]
    by (intro res_eqI) (auto simp: balanced_slot_def ledger_balanced_defs res_add_def)
qed

text \<open>A dynamic slot is carved again: the accounts stay balanced, and what the rest of the records leaves is the same.\<close>

definition same_spare :: "Record list \<Rightarrow> 'c Core \<Rightarrow> Record list \<Rightarrow> 'c Core \<Rightarrow> bool" where
  "same_spare rs d rs0 c \<longleftrightarrow> slots d = slots c \<and>
     (\<forall>p \<in> set (slots c). IsPartitionable (slot_at d p) = IsPartitionable (slot_at c p) \<and>
        (IsPartitionable (slot_at c p) \<longrightarrow> spare (slot_at d p) rs = spare (slot_at c p) rs0))"

lemma fit_recarved:
  assumes off: "core_inv_off L T c" and acc: "account_ok c" and fit: "records_fit c (rc # rs)"
    and rc: "claimed_record rc" "dynamic_record rc"
    and p: "p \<in> set (slots c)" "IsPartitionable (slot_at c p)" "Name (slot_at c p) = rec_ParentSlotName rc"
  shows "account_ok (recarved rc p c)" "same_spare rs (recarved rc p c) (rc # rs) c"
proof -
  let ?e = "recarved rc p c" let ?s = "slot_at c p"
  have reg: "registry_ok c" using off by (simp add: core_inv_off_def)
  have live: "p \<in> set (LiveSlots c)" using p(1) by (simp add: LiveSlots_def)
  have len: "q < length (heap c)" if "q \<in> set (LiveSlots c)" for q using registry_range [OF reg that] .
  note at = slot_at_recarved [OF _ len [OF live], of _ rc, folded record_res_def] and G = recarved_fields [of rc p c]
  have old: "slot_at ?e q = (if q = p then Carve (record_res rc) ?s else slot_at c q)" if "q \<in> set (LiveSlots c)" for q
    using at [of q] len [OF that] by simp
  have nn: "res_nonneg (record_res rc)" and rest: "\<forall>x \<in> set rs. claimed_record x \<and> dynamic_record x \<longrightarrow> res_nonneg (record_res x)"
    using fit rc by (simp_all add: records_fit_def)
  have "res_nonneg (spare ?s (rc # rs))" using fit p by (simp add: records_fit_def)
  then have can: "CanCarve ?s (record_res rc)"
    using rc p(3) owed_nonneg [OF rest, of "Name ?s"] by (simp add: CanCarve_def res_nonneg_def spare_def owed_Cons)
  show "account_ok ?e"
  proof (rule account_add [OF acc reg p(1,2), where k = "length (heap c)" and req = "record_res rc"])
    show "same_slot (slot_at ?e q) (slot_at c q)" if "q \<in> set (LiveSlots c)" for q
      using old [OF that] quiet_carve(1) by (simp add: quiet_slot_def)
    show "ParentName (slot_at ?e (length (heap c))) = Name ?s" "Res (slot_at ?e (length (heap c))) = record_res rc"
      using at [of "length (heap c)"] by (simp_all add: rebuilt_def NewDynamicSlot_def record_res_def)
  qed (use old [OF live] old can nn in \<open>simp_all add: G\<close>)
  have bal: "balanced_slot ?s (outstanding c (Name ?s))" using acc p(1,2) unfolding account_ok_def by blast
  have here: "spare (slot_at ?e p) rs = spare ?s (rc # rs)"
    using old [OF live] Carve_exact [OF bal nn can] quiet_slotD(1) [OF quiet_carve(1)] rc p(3) by (simp add: spare_def owed_Cons)
  have there: "spare (slot_at c q) rs = spare (slot_at c q) (rc # rs)" if "q \<in> set (slots c)" "q \<noteq> p" for q
    using registry_name_inj [OF reg _ live, of q] that p(3) by (auto simp: LiveSlots_def spare_def owed_Cons)
  show "same_spare rs ?e (rc # rs) c"
    using here there old p(2) unfolding same_spare_def G by (auto simp: LiveSlots_def Carve_def IsPartitionable_def)
qed

definition fit_kept :: "'c Core \<Rightarrow> Record list \<Rightarrow> 'c Core \<Rightarrow> Record list \<Rightarrow> bool" where
  "fit_kept c0 rs0 c rs \<longleftrightarrow> account_ok c \<and> records_fit c rs \<and> same_spare rs c rs0 c0"

lemma same_spare_fit:
  assumes "same_spare rs d (rc # rs) c" "records_fit c (rc # rs)"
  shows "records_fit d rs"
  using assms by (auto simp: records_fit_def same_spare_def)

lemma same_spare_trans: "same_spare rs d rs1 c \<Longrightarrow> same_spare rs1 c rs0 b \<Longrightarrow> same_spare rs d rs0 b"
  by (simp add: same_spare_def)

lemma still_spare: "still c d \<Longrightarrow> same_spare rs d rs c"
  by (simp add: same_spare_def pointwise_def still_slot_def same_slot_def IsPartitionable_def spare_def)

lemma fit_step:
  assumes inv: "adoption_inv L (k, tch, c)" and ad: "claimed_record rc \<longrightarrow> adoptable L c rc"
    and st: "adopt_record L rc (k, tch, c) = (k', tch', d)" and fit: "fit_kept c0 rs0 c (rc # rs)"
  shows "fit_kept c0 rs0 d rs"
proof -
  have reg: "registry_ok c" and off: "core_inv_off L (dom (map_of tch)) c"
    using inv by (simp_all add: adoption_inv_def core_inv_off_def)
  have acc: "account_ok c" and rf: "records_fit c (rc # rs)" using fit by (simp_all add: fit_kept_def)
  have "account_ok d \<and> same_spare rs d (rc # rs) c"
  proof (cases "claimed_record rc \<and> dynamic_record rc")
    case True
    then obtain p where p: "p \<in> set (slots c)" "IsPartitionable (slot_at c p)" "Name (slot_at c p) = rec_ParentSlotName rc"
      "rec_SlotName rc = dslot_name (slot_at c p) (rec_DSlotSubID rc)" "rec_SlotName rc \<notin> live_names c"
      using ad by (auto simp: adoptable_def adoptable_slot_def)
    have "d = adopt_claim L rc (length (heap c)) (recarved rc p c)"
      using adopt_record_dynamic [OF reg _ _ _ p(1,3,4,5), of L k tch] True ad st by simp
    then have s: "still (recarved rc p c) d" using still_adopt_claim by simp
    show ?thesis using fit_recarved [OF off acc rf _ _ p(1-3)] True still_account [OF s] same_spare_trans [OF still_spare [OF s]]
      by simp
  next
    case False
    have "same_spare rs c (rc # rs) c" using False by (auto simp: same_spare_def spare_def owed_Cons)
    moreover have "still c d"
    proof (cases "claimed_record rc")
      case cl: True
      have "still c (store_delete L n c)" for n
        by (rule pointwise_frame [OF _ _ _ acct.refl]) (simp_all add: store_delete_def split: option.split)
      then show ?thesis using adopt_record_static [OF reg cl, of L k tch] False cl ad st still_adopt_claim
        by (auto split: option.splits)
    next
      case False
      then show ?thesis using st by (simp add: adopt_record_skip)
    qed
    ultimately show ?thesis using acc still_account still_spare same_spare_trans by blast
  qed
  then show ?thesis using fit same_spare_fit same_spare_trans unfolding fit_kept_def by blast
qed

lemma doAdopt_refreshed:
  assumes "fold (adopt_record L) (stored_records L c) (0, [], c) = (k, tch, d)"
  shows "still d (doAdopt L w c)"
proof -
  have "still d (fold (refresh_parent tch) ns d)" for ns
    by (rule acct.folded) (auto simp: refresh_parent_def refreshPSlotChildren_def split: option.split intro!: still_rules acct.refl)
  moreover have "doAdopt L w c = fold (refresh_parent tch) (visit w (map fst tch)) d \<or>
      doAdopt L w c = reAdvertise L w (fold (refresh_parent tch) (visit w (map fst tch)) d)"
    using assms by (simp add: doAdopt_def stored_records_def refresh_parent_def [abs_def] Let_def)
  ultimately show ?thesis using acct.reAdvertise by metis
qed

lemma doAdopt_account:
  assumes inv: "core_inv L c" and rs: "adoptable_records L c (stored_records L c)"
    and acc: "account_ok c" and fit: "records_fit c (stored_records L c)"
  shows "account_ok (doAdopt L w c)" "same_spare [] (doAdopt L w c) (stored_records L c) c"
proof -
  obtain k tch d where loop: "fold (adopt_record L) (stored_records L c) (0, [], c) = (k, tch, d)" by (metis prod_cases3)
  note s = doAdopt_refreshed [OF loop, of w]
  have "adoption_inv L (0, [], c)" using inv by (simp add: adoption_inv_def core_inv_off_none)
  moreover have "fit_kept c (stored_records L c) c (stored_records L c)" using acc fit by (simp add: fit_kept_def same_spare_def)
  ultimately have "fit_kept c (stored_records L c) d []"
    using adoption_loop_induct [OF _ rs loop, of "fit_kept c (stored_records L c)"] fit_step by blast
  then show "account_ok (doAdopt L w c)" "same_spare [] (doAdopt L w c) (stored_records L c) c"
    using still_account [OF s] same_spare_trans [OF still_spare [OF s]] by (simp_all add: fit_kept_def)
qed

lemma doAdopt_config:
  assumes inv: "core_inv L c" and rs: "adoptable_records L c (stored_records L c)"
  shows "keeps_config c (doAdopt L w c)"
proof -
  obtain k tch d where loop: "fold (adopt_record L) (stored_records L c) (0, [], c) = (k, tch, d)" by (metis prod_cases3)
  have step: "keeps_config x y"
    if "adoption_inv L (i, t, x)" "claimed_record rc \<longrightarrow> adoptable L x rc" "adopt_record L rc (i, t, x) = (j, u, y)" for i t x rc j u y
    using adoption_step [OF that] keeps_othersD(1,4) [of "rec_SlotName rc" "rec_ClaimID rc" x y]
    by (auto simp: keeps_config_def LiveSlots_def same_slot_def)
  have "adoption_inv L (0, [], c)" using inv by (simp add: adoption_inv_def core_inv_off_none)
  then have "keeps_config c d"
    by (rule adoption_loop_induct [OF _ rs loop, of "\<lambda>x rs. keeps_config c x"])
      (use step keeps_config_trans still_config [OF acct.refl] in blast)+
  then show ?thesis using keeps_config_trans still_config doAdopt_refreshed [OF loop] by blast
qed

end
