(* ===== verification/Durable.thy ===== *)
theory Durable
  imports Recarve
begin

text \<open>
  What is on disk about the claims. A transition hands the record of its slot to the writer, which commits it later;
  \<open>latest\<close> is the record of a name that will be in the store once the writer has caught up. The invariant \<open>recorded_off\<close> says
  that it describes the slot as it is, but for the slots in a set that a handler has changed and not yet persisted; every
  handler ends with that set empty.
\<close>

section \<open>Records and what they say about a slot\<close>

text \<open>The parts of a record that a restart does not depend on: two times and the text of the job ad.\<close>

definition essential :: "Record \<Rightarrow> Record" where
  "essential rc = rc\<lparr>rec_LeaseDeadline := 0, rec_Entered := 0, rec_JobAd := []\<rparr>"

definition slot_trace :: "('c, 'x) persist_api_scheme \<Rightarrow> Slot \<Rightarrow> activation option \<Rightarrow> Record option" where
  "slot_trace L s act =
     (if slot_state s = ''Claimed'' then map_option (\<lambda>cl. essential (slot_record L s cl act)) (slot_claim s) else None)"

definition trace_at :: "('c, 'x) persist_api_scheme \<Rightarrow> 'c Core \<Rightarrow> slotref \<Rightarrow> Record option" where
  "trace_at L c r = slot_trace L (slot_at c r) (map_of (activations c) (Name (slot_at c r)))"

definition matches :: "Record option \<Rightarrow> Record option \<Rightarrow> bool" where
  "matches rc tr =
     (case tr of
        Some t \<Rightarrow> map_option essential rc = Some t
      | None \<Rightarrow> (case rc of None \<Rightarrow> True | Some x \<Rightarrow> \<not> claimed_record x))"

definition on_its_way :: "persister \<Rightarrow> string \<Rightarrow> Record option" where
  "on_its_way p n =
     (case map_of (pending p) n of Some r \<Rightarrow> Some r | None \<Rightarrow> List.find (\<lambda>r. rec_SlotName r = n) (batch p))"

definition latest :: "('c, 'x) persist_api_scheme \<Rightarrow> 'c Core \<Rightarrow> string \<Rightarrow> Record option" where
  "latest L c n =
     (case (persister_of c, store c) of
        (Some p, Some st) \<Rightarrow> (case on_its_way p n of Some r \<Rightarrow> Some r | None \<Rightarrow> Get L st n)
      | _ \<Rightarrow> None)"

definition fit_record :: "Record \<Rightarrow> bool" where
  "fit_record r \<longleftrightarrow> rec_SlotName r \<noteq> [] \<and> record_wf r"

definition writer_ok :: "('c, 'x) persist_api_scheme \<Rightarrow> 'c Core \<Rightarrow> bool" where
  "writer_ok L c \<longleftrightarrow>
     (case (persister_of c, store c) of
        (Some p, Some st) \<Rightarrow>
          distinct (map fst (pending p)) \<and> distinct (map rec_SlotName (batch p)) \<and>
          (\<forall>n r. map_of (pending p) n = Some r \<longrightarrow> rec_SlotName r = n \<and> fit_record r) \<and>
          (\<forall>r \<in> set (batch p). fit_record r) \<and> (\<forall>n r. Get L st n = Some r \<longrightarrow> rec_SlotName r = n)
      | _ \<Rightarrow> False)"

definition named :: "'c Core \<Rightarrow> bool" where
  "named c \<longleftrightarrow> inj_on (\<lambda>r. Name (slot_at c r)) (set (LiveSlots c)) \<and>
     (\<forall>r \<in> set (LiveSlots c). r < length (heap c) \<and> Name (slot_at c r) \<noteq> [] \<and>
        (IsDynamic (slot_at c r) \<longrightarrow> ParentName (slot_at c r) \<noteq> []))"

definition recorded_off :: "('c, 'x) persist_api_scheme \<Rightarrow> slotref set \<Rightarrow> 'c Core \<Rightarrow> bool" where
  "recorded_off L D c \<longleftrightarrow> writer_ok L c \<and> named c \<and>
     (\<forall>r \<in> set (LiveSlots c) - D. matches (latest L c (Name (slot_at c r))) (trace_at L c r)) \<and>
     (\<forall>n. n \<notin> live_names c \<longrightarrow> matches (latest L c n) None)"

text \<open>What is relied on of the store: reading and writing as documented, and no write fails.\<close>

definition store_lib_ok :: "('c, 'x) persist_api_scheme \<Rightarrow> bool" where
  "store_lib_ok L \<longleftrightarrow> classad_ok L \<and> collection_ok L \<and> (\<forall>c k ad. \<exists>c'. coll_put L c k ad = Inr c')"

lemma essential_fields [simp]:
  "rec_SlotName (essential rc) = rec_SlotName rc" "rec_ClaimID (essential rc) = rec_ClaimID rc"
  "rec_State (essential rc) = rec_State rc" "rec_Activity (essential rc) = rec_Activity rc"
  "rec_SlotType (essential rc) = rec_SlotType rc" "essential (essential rc) = essential rc"
  "claimed_record (essential rc) = claimed_record rc"
  by (simp_all add: essential_def claimed_record_def)

lemma matches_slot:
  assumes "slot_claim s \<noteq> None" "slot_ok s"
  shows "matches (map_option (\<lambda>cl. slot_record L s cl act) (slot_claim s)) (slot_trace L s act)"
  using assms by (auto simp: matches_def slot_trace_def slot_ok_def slot_record_def claimed_record_def fold_eval
      split: option.splits)

section \<open>Operations that leave the records alone\<close>

lemma recorded_frame:
  assumes "slots d = slots c" "dslots d = dslots c" "length (heap d) = length (heap c)" "slot_at d = slot_at c"
    "\<And>n. map_of (activations d) n = map_of (activations c) n" "persister_of d = persister_of c" "store d = store c"
  shows "recorded_off L D d = recorded_off L D c"
  using assms by (simp add: recorded_off_def writer_ok_def named_def trace_at_def latest_def live_names_def LiveSlots_def)

lemma recorded_quiet [simp]:
  "recorded_off L D (emit e c) = recorded_off L D c" "recorded_off L D (startMatchTimer r cid c) = recorded_off L D c"
  "recorded_off L D (cancelMatchTimer n c) = recorded_off L D c" "recorded_off L D (startAliveLoop r c) = recorded_off L D c"
  "recorded_off L D (cancelAliveLoop n c) = recorded_off L D c"
  "recorded_off L D (releaseDeferredDeactivate n c) = recorded_off L D c"
  "recorded_off L D (reject_claim c) = recorded_off L D c" "recorded_off L D (reject_activate c) = recorded_off L D c"
  "recorded_off L D (InvalidateSlot K w s c) = recorded_off L D c"
  by (rule recorded_frame; simp add: frame_simps emit_def startMatchTimer_def cancelMatchTimer_def startAliveLoop_def
      cancelAliveLoop_def releaseDeferredDeactivate_def reject_claim_def reject_activate_def InvalidateSlot_def Let_def
      split: option.split)+

lemma recorded_upd [simp]:
  "recorded_off L D (c\<lparr>matchCancels := x1\<rparr>) = recorded_off L D c" "recorded_off L D (c\<lparr>minter := x2\<rparr>) = recorded_off L D c"
  "recorded_off L D (c\<lparr>sandboxSeq := x3\<rparr>) = recorded_off L D c" "recorded_off L D (c\<lparr>activationGen := x3\<rparr>) = recorded_off L D c"
  "recorded_off L D (c\<lparr>fresh := x4\<rparr>) = recorded_off L D c" "recorded_off L D (c\<lparr>deferredDeactivate := x1\<rparr>) = recorded_off L D c"
  "recorded_off L D (c\<lparr>events := x5\<rparr>) = recorded_off L D c" "recorded_off L D (c\<lparr>dslotSeq := x3\<rparr>) = recorded_off L D c"
  by (rule recorded_frame; simp add: slot_at_def fun_eq_iff)+

lemma recorded_weaken: "recorded_off L D c \<Longrightarrow> D \<subseteq> E \<Longrightarrow> recorded_off L E c"
  by (auto simp: recorded_off_def)

section \<open>Operations on one slot\<close>

definition same_trace :: "('c, 'x) persist_api_scheme \<Rightarrow> Slot \<Rightarrow> Slot \<Rightarrow> bool" where
  "same_trace L s t \<longleftrightarrow> same_slot s t \<and> (\<forall>act. slot_trace L s act = slot_trace L t act)"

lemma recorded_slots:
  assumes rec: "recorded_off L D c" and f: "slots d = slots c" "dslots d = dslots c" "length (heap d) = length (heap c)"
    "persister_of d = persister_of c" "store d = store c"
    and s: "\<And>q. q \<in> set (LiveSlots c) \<Longrightarrow> same_slot (slot_at d q) (slot_at c q)"
    and t: "\<And>q. q \<in> set (LiveSlots c) \<Longrightarrow> q \<notin> E \<Longrightarrow> q \<notin> D \<Longrightarrow> trace_at L d q = trace_at L c q"
  shows "recorded_off L (D \<union> E) d"
proof -
  have live: "LiveSlots d = LiveSlots c" by (simp add: LiveSlots_def f)
  note S = same_slotD [OF s]
  have lat: "latest L d = latest L c" by (simp add: latest_def f fun_eq_iff)
  have names: "live_names d = live_names c" by (simp add: live_names_def live S(1))
  have "writer_ok L d = writer_ok L c" by (simp add: writer_ok_def f)
  moreover have "inj_on (\<lambda>r. Name (slot_at d r)) (set (LiveSlots c)) = inj_on (\<lambda>r. Name (slot_at c r)) (set (LiveSlots c))"
    by (rule inj_on_cong) (simp add: S(1))
  then have "named d = named c" by (simp add: named_def live f S)
  ultimately show ?thesis using rec t by (simp add: recorded_off_def live lat names S(1))
qed

lemma slot_at_on: "slot_at (on_slot r f c) q = (if q = r \<and> r < length (heap c) then f (slot_at c r) else slot_at c q)"
  by (cases "r < length (heap c)") (simp_all add: on_slot_def slot_at_def list_update_beyond)

lemma activations_on [simp]: "activations (on_slot r f c) = activations c"
  by (simp add: on_slot_def)

lemma recorded_on_slot:
  assumes "recorded_off L D c" "same_trace L (f (slot_at c r)) (slot_at c r)"
  shows "recorded_off L D (on_slot r f c)"
proof -
  have "same_slot (slot_at (on_slot r f c) q) (slot_at c q) \<and> trace_at L (on_slot r f c) q = trace_at L c q"
    if "q < length (heap c)" for q
    using assms(2) that by (auto simp: same_trace_def trace_at_def slot_at_on same_slotD(1))
  moreover have "q < length (heap c)" if "q \<in> set (LiveSlots c)" for q
    using assms(1) that by (simp add: recorded_off_def named_def)
  ultimately show ?thesis
    using recorded_slots [OF assms(1), of "on_slot r f c" "{}"] by (simp add: on_slot_def)
qed

lemma recorded_touch:
  assumes "recorded_off L D c" "same_slot (f (slot_at c r)) (slot_at c r)"
  shows "recorded_off L (insert r D) (on_slot r f c)"
proof -
  have "same_slot (slot_at (on_slot r f c) q) (slot_at c q) \<and> (q \<noteq> r \<longrightarrow> trace_at L (on_slot r f c) q = trace_at L c q)"
    if "q < length (heap c)" for q
    using assms(2) that by (auto simp: trace_at_def slot_at_on)
  moreover have "q < length (heap c)" if "q \<in> set (LiveSlots c)" for q
    using assms(1) that by (simp add: recorded_off_def named_def)
  ultimately show ?thesis
    using recorded_slots [OF assms(1), of "on_slot r f c" "{r}"] by (simp add: on_slot_def)
qed

text \<open>Activations: a change at the name of a slot, at no slot's name, or one that no record shows.\<close>

lemma recorded_activations:
  assumes rec: "recorded_off L D c"
    and x: "\<And>q. q \<in> set (LiveSlots c) \<Longrightarrow> q \<notin> E \<Longrightarrow> q \<notin> D \<Longrightarrow> slot_trace L (slot_at c q) (map_of x (Name (slot_at c q))) = trace_at L c q"
  shows "recorded_off L (D \<union> E) (c\<lparr>activations := x\<rparr>)"
  by (rule recorded_slots [OF rec]) (use x in \<open>simp_all add: trace_at_def slot_at_def same_slot_def\<close>)

lemma recorded_activation_of:
  assumes rec: "recorded_off L D c" and n: "r \<in> set (LiveSlots c)" "Name (slot_at c r) = n"
    and x: "\<And>m. m \<noteq> n \<Longrightarrow> map_of x m = map_of (activations c) m"
  shows "recorded_off L (insert r D) (c\<lparr>activations := x\<rparr>)"
proof -
  have "Name (slot_at c q) \<noteq> n" if "q \<in> set (LiveSlots c)" "q \<noteq> r" for q
    using rec n that by (auto simp: recorded_off_def named_def dest: inj_onD)
  then show ?thesis using recorded_activations [OF rec, of "{r}" x] x by (simp add: trace_at_def)
qed

text \<open>The record of a slot is handed to the writer.\<close>

lemma slot_record_fit:
  assumes "named c" "r \<in> set (LiveSlots c)"
  shows "fit_record (slot_record L (slot_at c r) cl act)"
  using assms by (auto simp: named_def fit_record_def record_wf_def slot_record_def)

lemma latest_put:
  assumes "persister_of c = Some p" "store c = Some st"
  shows "latest L (c\<lparr>persister_of := Some (persister_put rc p)\<rparr>) n = (if n = rec_SlotName rc then Some rc else latest L c n)"
  using assms by (simp add: latest_def persister_put_def on_its_way_def split: option.split)

lemma writer_persist:
  assumes "named c" "r \<in> set (LiveSlots c)" "writer_ok L c"
  shows "writer_ok L (persistSlot K r c)"
proof (cases "persister_of c")
  case p: (Some p)
  show ?thesis
  proof (cases "slot_claim (slot_at c r)")
    case (Some cl)
    have "fit_record (slot_record K (slot_at c r) cl (map_of (activations c) (Name (slot_at c r))))"
      by (rule slot_record_fit [OF assms(1,2)])
    then show ?thesis using assms(3) p Some
      by (auto simp: persistSlot_def writer_ok_def persister_put_def distinct_update Let_def split: option.splits)
  qed (use assms p in \<open>simp add: persistSlot_def\<close>)
qed (use assms in \<open>simp add: persistSlot_def\<close>)

lemma recorded_persist:
  assumes rec: "recorded_off L (insert r D) c" and r: "r \<in> set (LiveSlots c)" "slot_ok (slot_at c r)"
  shows "recorded_off L D (persistSlot L r c)"
proof -
  obtain p st where p: "persister_of c = Some p" "store c = Some st"
    using rec by (auto simp: recorded_off_def writer_ok_def split: option.splits)
  obtain cl where cl: "slot_claim (slot_at c r) = Some cl" using slot_ok_claim [OF r(2)] by blast
  define rc where "rc = slot_record L (slot_at c r) cl (map_of (activations c) (Name (slot_at c r)))"
  let ?d = "c\<lparr>persister_of := Some (persister_put rc p)\<rparr>"
  have d: "persistSlot L r c = ?d" using p cl by (simp add: persistSlot_def rc_def Let_def)
  have n: "rec_SlotName rc = Name (slot_at c r)" by (simp add: rc_def slot_record_def)
  have nm: "named c" using rec by (simp add: recorded_off_def)
  have same: "slot_at ?d = slot_at c" "LiveSlots ?d = LiveSlots c" "live_names ?d = live_names c" "named ?d = named c"
    "trace_at L ?d = trace_at L c"
    by (simp_all add: slot_at_def fun_eq_iff LiveSlots_def live_names_def named_def trace_at_def)
  have w: "writer_ok L ?d" using writer_persist [OF nm r(1), of L L] rec d by (simp add: recorded_off_def)
  have own: "matches (Some rc) (trace_at L c r)"
    using matches_slot [of "slot_at c r" L] r(2) cl by (simp add: rc_def trace_at_def)
  have ne: "Name (slot_at c q) \<noteq> Name (slot_at c r)" if "q \<in> set (LiveSlots c)" "q \<noteq> r" for q
    using nm r(1) that by (auto simp: named_def dest: inj_onD)
  have live: "Name (slot_at c r) \<in> live_names c" using r(1) by (simp add: live_names_def)
  note lat = latest_put [OF p, of L rc, unfolded n]
  have "matches (latest L ?d (Name (slot_at c q))) (trace_at L c q)" if "q \<in> set (LiveSlots c)" "q \<notin> D" for q
    using that own ne rec by (cases "q = r") (simp_all add: lat recorded_off_def)
  moreover have "matches (latest L ?d m) None" if "m \<notin> live_names c" for m
    using that live rec by (auto simp: lat recorded_off_def)
  ultimately show ?thesis using w nm unfolding d recorded_off_def same by blast
qed

text \<open>A dynamic slot appears under a new name.\<close>

lemma recorded_add:
  assumes rec: "recorded_off L D c" and n: "Name d \<notin> live_names c" "Name d \<noteq> []" "ParentName d \<noteq> []"
  shows "recorded_off L (insert (length (heap c)) D) (addDSlot d c)"
proof -
  let ?e = "addDSlot d c" let ?x = "length (heap c)"
  have nm: "named c" using rec by (simp add: recorded_off_def)
  have lt: "q < ?x" if "q \<in> set (LiveSlots c)" for q using nm that by (simp add: named_def)
  have live: "LiveSlots ?e = LiveSlots c @ [?x]" "length (heap ?e) = Suc ?x" by (simp_all add: addDSlot_def LiveSlots_def Let_def)
  have old: "slot_at ?e q = slot_at c q" if "q \<in> set (LiveSlots c)" for q using lt [OF that] by (simp add: slot_at_addDSlot)
  have new: "slot_at ?e ?x = d" by (simp add: slot_at_addDSlot)
  have same: "activations ?e = activations c" "latest L ?e = latest L c" "writer_ok L ?e = writer_ok L c"
    by (simp_all add: addDSlot_def latest_def writer_ok_def Let_def fun_eq_iff)
  have names: "live_names ?e = insert (Name d) (live_names c)" using old new by (auto simp: live_names_def live)
  have "inj_on (\<lambda>r. Name (slot_at ?e r)) (set (LiveSlots c)) = inj_on (\<lambda>r. Name (slot_at c r)) (set (LiveSlots c))"
    by (rule inj_on_cong) (simp add: old)
  moreover have "Name d \<notin> (\<lambda>r. Name (slot_at ?e r)) ` set (LiveSlots c)" using n(1) old by (auto simp: live_names_def)
  ultimately have "named ?e" using nm n(2,3) old new lt by (auto simp: named_def live less_SucI)
  then show ?thesis using rec old by (auto simp: recorded_off_def live same names trace_at_def)
qed

text \<open>A dynamic slot disappears, and its record with it, if none is on its way.\<close>

definition settled :: "'c Core \<Rightarrow> string \<Rightarrow> bool" where
  "settled c n = (case persister_of c of None \<Rightarrow> True | Some p \<Rightarrow> on_its_way p n = None)"

lemma latest_delete:
  assumes "store_lib_ok L"
  shows "latest L (store_delete L n c) m =
    (if m = n then (case persister_of c of None \<Rightarrow> None | Some p \<Rightarrow> if store c = None then None else on_its_way p n) else latest L c m)"
proof -
  have "Get L (Delete L n st) m = (if m = n then None else Get L st m)" for st
    using assms by (simp add: store_lib_ok_def collection_ok_def Get_def Delete_def)
  then show ?thesis by (auto simp: latest_def store_delete_def split: option.split)
qed

lemma writer_delete:
  assumes ok: "store_lib_ok L" and w: "writer_ok L c"
  shows "writer_ok L (store_delete L n (removeDSlot n c))"
proof -
  have "Get L (Delete L n st) m = (if m = n then None else Get L st m)" for st m
    using ok by (simp add: store_lib_ok_def collection_ok_def Get_def Delete_def)
  then show ?thesis using w
    by (auto simp: writer_ok_def store_delete_def removeDSlot_def split: option.splits if_splits)
qed

lemma recorded_remove:
  assumes rec: "recorded_off L (insert r D) c" and ok: "store_lib_ok L" and r: "r \<in> set (dslots c)" "Name (slot_at c r) = n"
    and s: "settled c n" and dl: "drop_named (heap c) n (dslots c) = filter (\<lambda>q. q \<noteq> r) (dslots c)" "r \<notin> set (slots c)"
  shows "recorded_off L D (store_delete L n (removeDSlot n c))"
proof -
  let ?e = "store_delete L n (removeDSlot n c)"
  have nm: "named c" using rec by (simp add: recorded_off_def)
  have live: "LiveSlots ?e = filter (\<lambda>q. q \<noteq> r) (LiveSlots c)"
    using dl by (auto simp: LiveSlots_def store_delete_def removeDSlot_def split: option.split intro: filter_True [symmetric])
  have same: "slot_at ?e = slot_at c" "length (heap ?e) = length (heap c)" "activations ?e = activations c"
    by (simp_all add: store_delete_def removeDSlot_def slot_at_def fun_eq_iff split: option.split)
  have w: "writer_ok L ?e" using writer_delete [OF ok] rec by (simp add: recorded_off_def)
  have lat: "latest L ?e m = (if m = n then None else latest L c m)" for m
  proof -
    have "latest L (removeDSlot n c) m = latest L c m" by (simp add: latest_def removeDSlot_def)
    then show ?thesis using s latest_delete [OF ok, of n "removeDSlot n c" m]
      by (simp add: settled_def removeDSlot_def split: option.splits)
  qed
  have rl: "r \<in> set (LiveSlots c)" using r(1) by (simp add: LiveSlots_def)
  have ne: "Name (slot_at c q) \<noteq> n" if "q \<in> set (LiveSlots c)" "q \<noteq> r" for q
    using nm rl r(2) that by (auto simp: named_def dest: inj_onD)
  have "named ?e" using nm by (auto simp: named_def live same intro: inj_on_subset)
  moreover have "matches (latest L ?e m) None" if "m \<notin> live_names ?e" for m
  proof (cases "m = n")
    case False
    then have "m \<notin> live_names c" using that r(2) by (auto simp: live_names_def live same)
    then show ?thesis using rec False by (simp add: lat recorded_off_def)
  qed (simp add: lat matches_def)
  moreover have "matches (latest L ?e (Name (slot_at c q))) (trace_at L ?e q)" if "q \<in> set (LiveSlots ?e) - D" for q
    using that ne rec by (auto simp: recorded_off_def lat live trace_at_def same)
  ultimately show ?thesis using w by (simp add: recorded_off_def same)
qed

section \<open>The writer\<close>

lemma Put_fit:
  assumes ok: "store_lib_ok L" and r: "fit_record r"
  obtains st' where "Put L r st = Inr st'" "\<And>n. Get L st' n = (if n = rec_SlotName r then Some r else Get L st n)"
proof -
  have lib: "classad_ok L" "collection_ok L" using ok by (simp_all add: store_lib_ok_def)
  obtain c where put: "coll_put L (coll st) (rec_SlotName r) (toAd r) = Inr c" using ok unfolding store_lib_ok_def by blast
  from collection_putD(1) [OF lib(2) put] obtain ad where ad: "coll_get L c (rec_SlotName r) = Some ad" "ad_equiv ad (toAd r)" by blast
  have "recordFromAd L ad = r" using recordFromAd_equiv [OF lib(1) ad(2)] r by (simp add: fit_record_def)
  then show thesis
    using that [of "st\<lparr>coll := c\<rparr>"] put ad(1) collection_putD(2) [OF lib(2) put] r by (simp add: Put_def Get_def fit_record_def)
qed

text \<open>
  What the writer does changes neither the slots nor the records that will be in the store in the end.
\<close>

definition same_core :: "'c Core \<Rightarrow> 'c Core \<Rightarrow> bool" where
  "same_core c d \<longleftrightarrow> heap d = heap c \<and> slots d = slots c \<and> dslots d = dslots c \<and> activations d = activations c"

lemma same_core_traces:
  assumes "same_core c d"
  shows "LiveSlots d = LiveSlots c" "trace_at L d = trace_at L c" "slot_at d = slot_at c"
  using assms by (simp_all add: same_core_def LiveSlots_def trace_at_def slot_at_def fun_eq_iff)

definition writes :: "('c, 'x) persist_api_scheme \<Rightarrow> 'c Core \<Rightarrow> 'c Core \<Rightarrow> bool" where
  "writes L c d \<longleftrightarrow> same_core c d \<and> (writer_ok L c \<longrightarrow> writer_ok L d \<and> (\<forall>n. latest L d n = latest L c n))"

lemma writes_refl [simp]: "writes L c c"
  by (simp add: writes_def same_core_def)

lemma writes_trans: "writes L c d \<Longrightarrow> writes L d e \<Longrightarrow> writes L c e"
  by (simp add: writes_def same_core_def)

lemma writes_emit: "writes L c (emit e d) = writes L c d" "persister_of (emit e d) = persister_of d"
  by (simp_all add: writes_def same_core_def emit_def latest_def writer_ok_def)

lemma writes_recorded:
  assumes w: "writes L c d" and rec: "recorded_off L D c"
  shows "recorded_off L D d"
proof -
  have S: "same_core c d" "writer_ok L d" "latest L d = latest L c" using w rec by (auto simp: writes_def recorded_off_def)
  note T = same_core_traces(1,3) [OF S(1)] same_core_traces(2) [OF S(1), of L]
  have "length (heap d) = length (heap c)" using S(1) by (simp add: same_core_def)
  then show ?thesis using rec S(2,3) T by (simp add: recorded_off_def named_def live_names_def)
qed

lemma writes_commit:
  assumes ok: "store_lib_ok L" and p: "persister_of c = Some p" "batch p = r # rs"
  shows "writes L c (commit L r (c\<lparr>persister_of := Some (p\<lparr>batch := rs\<rparr>)\<rparr>))"
proof -
  let ?e = "commit L r (c\<lparr>persister_of := Some (p\<lparr>batch := rs\<rparr>)\<rparr>)"
  have "same_core c ?e" by (simp add: same_core_def commit_def split: option.split sum.split)
  moreover have "writer_ok L ?e \<and> (\<forall>n. latest L ?e n = latest L c n)" if c: "writer_ok L c"
  proof -
    obtain st where st: "store c = Some st" using c p by (auto simp: writer_ok_def split: option.splits)
    have w: "fit_record r" "distinct (map rec_SlotName (r # rs))" using c p st by (simp_all add: writer_ok_def)
    obtain st' where put: "Put L r st = Inr st'" "\<And>n. Get L st' n = (if n = rec_SlotName r then Some r else Get L st n)"
      using Put_fit [OF ok w(1), of st] by blast
    let ?d = "c\<lparr>persister_of := Some (p\<lparr>batch := rs\<rparr>), store := Some st'\<rparr>"
    have "find (\<lambda>x. rec_SlotName x = rec_SlotName r) rs = None" using w(2) by (simp add: find_None_iff) (metis imageI)
    then have "latest L ?d n = latest L c n" for n using p st put(2)
      by (auto simp: latest_def on_its_way_def split: option.split)
    moreover have "writer_ok L ?d" using c p st put(2) by (auto simp: writer_ok_def split: if_splits)
    moreover have "?e = ?d" using put(1) st by (simp add: commit_def)
    ultimately show ?thesis by simp
  qed
  ultimately show ?thesis by (simp add: writes_def)
qed

lemma find_taken:
  assumes "\<And>k r. f k = Some r \<Longrightarrow> rec_SlotName r = k"
  shows "List.find (\<lambda>r. rec_SlotName r = n) (List.map_filter f ks) = (if n \<in> set ks then f n else None)"
proof (induction ks)
  case (Cons k ks)
  then show ?case using assms [of k] by (cases "f k") (auto simp: List.map_filter_def)
qed (simp add: List.map_filter_def)

lemma writes_take:
  assumes w: "visits_all w" and p: "persister_of c = Some p" "batch p = []"
  shows "writes L c (c\<lparr>persister_of := Some (take_batch w (p\<lparr>wake := b\<rparr>))\<rparr>)"
proof -
  let ?q = "take_batch w (p\<lparr>wake := b\<rparr>)" let ?d = "c\<lparr>persister_of := Some ?q\<rparr>"
  have "writer_ok L ?d \<and> (\<forall>n. latest L ?d n = latest L c n)" if c: "writer_ok L c"
  proof -
    obtain st where st: "store c = Some st" using c p by (auto simp: writer_ok_def split: option.splits)
    have k: "\<And>n r. map_of (pending p) n = Some r \<Longrightarrow> rec_SlotName r = n \<and> fit_record r" and di: "distinct (map fst (pending p))"
      using c p st by (simp_all add: writer_ok_def)
    let ?ks = "visit w (map fst (pending p))" let ?b = "List.map_filter (map_of (pending p)) ?ks"
    have ks: "set ?ks = dom (map_of (pending p))" "distinct ?ks"
      using w di by (simp_all add: visits_all_def dom_map_of_conv_image_fst)
    have "map rec_SlotName ?b = ?ks"
    proof -
      have "map rec_SlotName (List.map_filter (map_of (pending p)) xs) = xs" if "set xs \<subseteq> dom (map_of (pending p))" for xs
        using that k by (induction xs) (auto simp: List.map_filter_def)
      then show ?thesis using ks(1) by simp
    qed
    moreover have "fit_record r" if "r \<in> set ?b" for r using that k by (force simp: List.map_filter_def)
    ultimately have "writer_ok L ?d" using c p st ks(2) by (auto simp: writer_ok_def take_batch_def)
    moreover have "find (\<lambda>r. rec_SlotName r = n) ?b = map_of (pending p) n" for n
      using find_taken [of "map_of (pending p)" n ?ks] k ks(1) by (auto simp: domIff split: if_splits)
    then have "on_its_way ?q n = on_its_way p n" for n
      using p(2) by (auto simp: on_its_way_def take_batch_def split: option.split)
    then have "latest L ?d n = latest L c n" for n by (simp add: latest_def p(1) st)
    ultimately show ?thesis by blast
  qed
  then show ?thesis by (simp add: writes_def same_core_def)
qed

lemma writes_persister_run:
  assumes "store_lib_ok L" "visits_all w"
  shows "writes L c (persister_run L w c)"
  using assms writes_commit writes_take
  by (auto simp: persister_run_def split: option.split list.split)

lemma writes_commits:
  assumes "store_lib_ok L" "persister_of c = Some p"
  shows "writes L c (fold (commit L) (batch p) (c\<lparr>persister_of := Some (p\<lparr>batch := []\<rparr>)\<rparr>)) \<and>
    persister_of (fold (commit L) (batch p) (c\<lparr>persister_of := Some (p\<lparr>batch := []\<rparr>)\<rparr>)) = Some (p\<lparr>batch := []\<rparr>)"
  using assms
proof (induction "batch p" arbitrary: c p)
  case Nil
  have "p\<lparr>batch := []\<rparr> = p" using Nil(1) by (metis persister.surjective persister.update_convs(3))
  moreover have "c\<lparr>persister_of := Some p\<rparr> = c" using Nil(3) by simp
  ultimately have "c\<lparr>persister_of := Some (p\<lparr>batch := []\<rparr>)\<rparr> = c" "p\<lparr>batch := []\<rparr> = p" by simp_all
  then show ?case using Nil(1) [symmetric] Nil(3) by (simp only: fold_simps writes_refl simp_thms)
next
  case (Cons r rs)
  let ?c = "commit L r (c\<lparr>persister_of := Some (p\<lparr>batch := rs\<rparr>)\<rparr>)" let ?p = "p\<lparr>batch := rs\<rparr>"
  have comm: "(commit L r x)\<lparr>persister_of := y\<rparr> = commit L r (x\<lparr>persister_of := y\<rparr>)" for r x y
    by (simp add: commit_def split: option.split sum.split)
  have "persister_of (commit L r x) = persister_of x" for r x by (simp add: commit_def split: option.split sum.split)
  then have q: "persister_of ?c = Some ?p" by simp
  note IH = Cons.hyps(1) [of ?p ?c]
  have "fold (commit L) (batch p) (c\<lparr>persister_of := Some (p\<lparr>batch := []\<rparr>)\<rparr>) =
      fold (commit L) (batch ?p) (?c\<lparr>persister_of := Some (?p\<lparr>batch := []\<rparr>)\<rparr>)"
    by (simp add: Cons.hyps(2) [symmetric] comm)
  then show ?case
    using IH writes_trans [OF writes_commit [OF Cons.prems(1,2) Cons.hyps(2) [symmetric]]] Cons.prems(1) q by simp
qed

text \<open>After the last round nothing is on its way.\<close>

lemma writes_stop:
  assumes p: "persister_of c = Some p0" and ok: "store_lib_ok L" and w: "visits_all w"
  shows "writes L c (Stop L w c)" "\<And>n. settled (Stop L w c) n"
proof -
  let ?c = "loop_step L w CtxCancelled c"
  have "writes L c (fold (\<lambda>r c. emit (f r c) c) rs x) \<and> persister_of (fold (\<lambda>r c. emit (f r c) c) rs x) = Some p0"
    if "writes L c x" "persister_of x = Some p0" for f :: "slotref \<Rightarrow> 'a Core \<Rightarrow> effect" and rs x
    using that by (induction rs arbitrary: x) (simp_all add: writes_emit)
  then have c: "writes L c ?c" "persister_of ?c = Some p0" using p by (simp_all add: loop_step_def Invalidate_def)
  let ?d = "fold (commit L) (batch p0) (?c\<lparr>persister_of := Some (p0\<lparr>batch := []\<rparr>)\<rparr>)"
  have d: "writes L ?c ?d" "persister_of ?d = Some (p0\<lparr>batch := []\<rparr>)" using writes_commits [OF ok c(2)] by blast+
  let ?q = "take_batch w (p0\<lparr>batch := []\<rparr>)" let ?e = "?d\<lparr>persister_of := Some ?q\<rparr>"
  have e: "writes L ?d ?e" using writes_take [OF w d(2), of L "wake p0"] by simp
  let ?f = "fold (commit L) (batch ?q) (?e\<lparr>persister_of := Some (?q\<lparr>batch := []\<rparr>)\<rparr>)"
  have f: "writes L ?e ?f" "persister_of ?f = Some (?q\<lparr>batch := []\<rparr>)" using writes_commits [OF ok, of ?e ?q] by simp_all
  have eq: "Stop L w c = ?f" using c(2) d(2) by (simp add: Stop_def persister_stop_def flush_def Let_def)
  show "writes L c (Stop L w c)" unfolding eq by (rule writes_trans [OF writes_trans [OF writes_trans [OF c(1) d(1)] e] f(1)])
  have "pending ?q = []" by (simp add: take_batch_def)
  then show "settled (Stop L w c) n" for n unfolding eq settled_def f(2) by (simp add: on_its_way_def)
qed

lemma writer_running: "writer_ok L c \<Longrightarrow> \<exists>p st. persister_of c = Some p \<and> store c = Some st"
  by (auto simp: writer_ok_def split: option.splits)

end
