(* ===== verification/Restart.thy ===== *)
theory Restart
  imports Durable "HOL-Library.Multiset"
begin

text \<open>
  A restart as a whole: the records that a running startd wrote for its claims are what the next one, with the same slots,
  adopts. \<open>startd_life\<close> are the states of a startd over any number of runs and restarts. The configured slots are
  never changed by a run, so they are the slots of the next process; the resources
  of the dynamic slots fit because they were carved out of the same slots before.
\<close>

section \<open>The records of a running startd\<close>

definition claim_records :: "('c, 'x) persist_api_scheme \<Rightarrow> 'c Core \<Rightarrow> Record list" where
  "claim_records L c = List.map_filter (trace_at L c) (LiveSlots c)"

lemma essential_kinds [simp]:
  "dynamic_record (essential rc) = dynamic_record rc" "busy_record (essential rc) = busy_record rc"
  "record_res (essential rc) = record_res rc" "rec_ParentSlotName (essential rc) = rec_ParentSlotName rc" "rec_DSlotSubID (essential rc) = rec_DSlotSubID rc"
  "adoptable L e (essential rc) = adoptable L e rc" "can_hold e (essential rc) = can_hold e rc"
  by (simp_all add: essential_def dynamic_record_def busy_record_def record_res_def adoptable_def adoptable_claim_def
      adoptable_slot_def can_hold_def claimed_record_def)

lemma essential_eqD:
  assumes "essential a = essential b"
  shows "rec_ClaimID a = rec_ClaimID b" "rec_PublicClaimID a = rec_PublicClaimID b" "rec_ScheddAddr a = rec_ScheddAddr b"
    "rec_ScheddName a = rec_ScheddName b" "rec_User a = rec_User b" "rec_ClientMachine a = rec_ClientMachine b"
    "rec_AliveInterval a = rec_AliveInterval b" "rec_GlobalJobID a = rec_GlobalJobID b" "rec_StarterPid a = rec_StarterPid b"
    "rec_StarterSocket a = rec_StarterSocket b" "rec_StarterIpAddr a = rec_StarterIpAddr b" "rec_Sandbox a = rec_Sandbox b"
    "rec_DSlotSubID a = rec_DSlotSubID b"
  using assms by (cases a; cases b; simp add: essential_def)+

lemmas trace_def = trace_at_def slot_trace_def essential_def

lemma New_slots:
  assumes "mint_ok L" "opts_ok opts" "opt_Minter opts = Some m"
  shows "slots (New L opts) = [0 ..< length (opt_Slots opts)]" "dslots (New L opts) = []" "store (New L opts) = opt_Store opts"
    "i < length (opt_Slots opts) \<Longrightarrow> same_slot (slot_at (New L opts) i) (opt_Slots opts ! i)"
    "i < length (opt_Slots opts) \<Longrightarrow> Res (slot_at (New L opts) i) = Res (opt_Slots opts ! i)"
    "i < length (opt_Slots opts) \<Longrightarrow> slot_state (slot_at (New L opts) i) = ''Unclaimed''"
    "i < length (opt_Slots opts) \<Longrightarrow> \<exists>k. slot_claim_id (slot_at (New L opts) i) = mint_id L m k"
proof -
  have m: "in64 (seq m)" "in64 (seq m + int (length (opt_Slots opts)))" using assms(2,3) by (auto simp: opts_ok_def)
  obtain m' ts where p: "prime_slots L m (opt_Slots opts) = (m', ts)" by fastforce
  note P = prime_slots_minted [OF assms(1) p m]
  have f: "heap (New L opts) = ts" using p assms(3) by (simp add: New_def prime_def)
  show "slots (New L opts) = [0 ..< length (opt_Slots opts)]" "dslots (New L opts) = []" "store (New L opts) = opt_Store opts"
    using p assms(3) by (simp_all add: New_def prime_def)
  show "same_slot (slot_at (New L opts) i) (opt_Slots opts ! i)" "Res (slot_at (New L opts) i) = Res (opt_Slots opts ! i)"
    "slot_state (slot_at (New L opts) i) = ''Unclaimed''" "\<exists>k. slot_claim_id (slot_at (New L opts) i) = mint_id L m k"
    if i: "i < length (opt_Slots opts)"
  proof -
    from P i obtain cl where at: "slot_at (New L opts) i = SetClaim (Some cl) (opt_Slots opts ! i)"
      and cl: "claimID cl = mint_id L m (seq m + int i + 1)" by (auto simp: slot_at_def f)
    have "fresh_slot (opt_Slots opts ! i)" using assms(2) i by (simp add: opts_ok_def)
    then show "slot_state (slot_at (New L opts) i) = ''Unclaimed''" by (simp add: at SetClaim_def fresh_slot_def)
    show "same_slot (slot_at (New L opts) i) (opt_Slots opts ! i)" "Res (slot_at (New L opts) i) = Res (opt_Slots opts ! i)"
      by (simp_all add: at SetClaim_def same_slot_def)
    show "\<exists>k. slot_claim_id (slot_at (New L opts) i) = mint_id L m k" using cl by (auto simp: at SetClaim_def slot_claim_id_def)
  qed
qed

text \<open>
  A state of a process with the configured slots \<open>ss\<close>; \<open>same_slots c e\<close> relates it to the start of another one.
\<close>

definition configured :: "Slot list \<Rightarrow> 'c Core \<Rightarrow> bool" where
  "configured ss c \<longleftrightarrow> slots c = [0 ..< length ss] \<and> (\<forall>i < length ss. same_slot (slot_at c i) (ss ! i))"

lemma configured_keeps:
  assumes "configured ss c" "keeps_config c d"
  shows "configured ss d"
proof -
  have "same_slot (slot_at d i) (slot_at c i)" "same_slot (slot_at c i) (ss ! i)" if "i < length ss" for i
    using assms that by (simp_all add: configured_def keeps_config_def)
  then show ?thesis using assms same_slot_trans by (simp add: configured_def keeps_config_def) blast
qed

lemma configured_New: "mint_ok L \<Longrightarrow> opts_ok opts \<Longrightarrow> configured (opt_Slots opts) (New L opts)"
  using New_slots [of L opts] by (auto simp: configured_def opts_ok_def)

definition same_slots :: "'c Core \<Rightarrow> 'c Core \<Rightarrow> bool" where
  "same_slots c e \<longleftrightarrow> slots e = slots c \<and> dslots e = [] \<and>
     (\<forall>r \<in> set (slots c). same_slot (slot_at e r) (slot_at c r) \<and> slot_state (slot_at e r) = ''Unclaimed'' \<and>
        SlotType (slot_at c r) \<in> {SlotTypeStatic, SlotTypePartitionable})"

lemma restart_same_slots:
  assumes c: "configured (opt_Slots opts) c" and ok: "mint_ok L" "opts_ok opts"
  shows "same_slots c (New L opts)"
proof -
  obtain m where "opt_Minter opts = Some m" using ok by (auto simp: opts_ok_def)
  note N = New_slots [OF ok this]
  have "same_slot (slot_at (New L opts) r) (slot_at c r) \<and> SlotType (slot_at c r) \<in> {SlotTypeStatic, SlotTypePartitionable}"
    if "r < length (opt_Slots opts)" for r
  proof -
    have "same_slot (slot_at c r) (opt_Slots opts ! r)" using c that by (simp add: configured_def)
    moreover have "fresh_slot (opt_Slots opts ! r)" using ok(2) that by (simp add: opts_ok_def)
    ultimately show ?thesis using N(4) [of r] that by (simp add: same_slot_def fresh_slot_def)
  qed
  then show ?thesis using N(1,2,6) c by (simp add: same_slots_def configured_def)
qed

text \<open>
  What the next process needs of the claims: an id of its own kind, a session that can be imported, and the socket
  of the starter of a busy slot.
\<close>

definition resumable :: "('c, 'x) persist_api_scheme \<Rightarrow> Minter \<Rightarrow> 'c Core \<Rightarrow> bool" where
  "resumable L m c \<longleftrightarrow>
     (\<forall>r \<in> set (LiveSlots c). case trace_at L c r of None \<Rightarrow> True | Some rc \<Rightarrow>
        rec_ClaimID rc \<noteq> [] \<and> (\<forall>k. rec_ClaimID rc \<noteq> mint_id L m k) \<and>
        ImportClaimSession L (rec_ClaimID rc) (rec_ScheddAddr rc) SurfaceCommands = Inr () \<and>
        (activity (slot_at c r) = ''Busy'' \<longrightarrow> rec_StarterSocket rc \<noteq> []))"

lemma trace_kinds:
  assumes ok: "slot_ok (slot_at c r)" and rc: "trace_at L c r = Some rc"
  shows "claimed_record rc" "busy_record rc \<longleftrightarrow> activity (slot_at c r) = ''Busy''" "rec_SlotName rc = Name (slot_at c r)"
    "rec_ClaimID rc = slot_claim_id (slot_at c r)" "rec_SlotType rc = SlotType (slot_at c r)"
proof -
  obtain cl where cl: "slot_claim (slot_at c r) = Some cl" "slot_state (slot_at c r) = ''Claimed''"
    "rc = essential (slot_record L (slot_at c r) cl (map_of (activations c) (Name (slot_at c r))))"
    using rc by (auto simp: trace_at_def slot_trace_def split: if_splits)
  show "claimed_record rc" by (simp add: claimed_record_def cl slot_record_def fold_eval)
  show "busy_record rc \<longleftrightarrow> activity (slot_at c r) = ''Busy''"
    using ok cl(1,2) by (auto simp: slot_ok_def busy_record_def cl(3) slot_record_def fold_eval)
  show "rec_SlotName rc = Name (slot_at c r)" "rec_ClaimID rc = slot_claim_id (slot_at c r)" "rec_SlotType rc = SlotType (slot_at c r)"
    by (simp_all add: cl slot_record_def slot_claim_id_def)
qed

lemma trace_dynamic:
  assumes "IsDynamic (slot_at c r)" "trace_at L c r = Some rc"
  shows "dynamic_record rc" "rec_ParentSlotName rc = ParentName (slot_at c r)" "rec_DSlotSubID rc = SubID (slot_at c r)"
    "record_res rc = Res (slot_at c r)"
  using assms by (auto simp: trace_def slot_record_def dynamic_record_def IsDynamic_def SlotTypeDynamic_def
      fold_eval record_res_def split: if_splits)

lemma trace_static:
  assumes "SlotType (slot_at c r) \<in> {SlotTypeStatic, SlotTypePartitionable}" "trace_at L c r = Some rc"
  shows "\<not> dynamic_record rc"
  using assms by (auto simp: trace_def slot_record_def dynamic_record_def slot_type_defs
      fold_eval split: if_splits)

lemma restart_adoptable:
  assumes inv: "core_inv L c" and e: "same_slots c e" and m: "minter e = Some m"
    and ids: "\<And>q. q \<in> set (LiveSlots e) \<Longrightarrow> \<exists>k. slot_claim_id (slot_at e q) = mint_id L m k"
    and res: "resumable L m c" and r: "r \<in> set (LiveSlots c)" and rc: "trace_at L c r = Some rc"
  shows "adoptable L e rc" "can_hold e rc"
proof -
  have reg: "registry_ok c" and shape: "shape_ok c" and ok: "slot_ok (slot_at c r)"
    using inv r by (simp_all add: core_inv_def books_ok_def)
  note K = trace_kinds [OF ok rc]
  have live: "LiveSlots e = slots c" using e by (simp add: same_slots_def LiveSlots_def)
  have name: "Name (slot_at e q) = Name (slot_at c q)" if "q \<in> set (slots c)" for q
    using e that same_slotD(1) unfolding same_slots_def by blast
  have R: "rec_ClaimID rc \<noteq> []" "\<And>k. rec_ClaimID rc \<noteq> mint_id L m k"
    "ImportClaimSession L (rec_ClaimID rc) (rec_ScheddAddr rc) SurfaceCommands = Inr ()"
    "activity (slot_at c r) = ''Busy'' \<longrightarrow> rec_StarterSocket rc \<noteq> []"
    using res r rc unfolding resumable_def by force+
  then have "foreign_id L e (rec_ClaimID rc)" unfolding foreign_id_def by (simp add: m) (metis ids)
  then have claim: "adoptable_claim L e rc" using R K(2) by (simp add: adoptable_claim_def)
  have "adoptable_slot e rc \<and> can_hold e rc"
  proof (cases "r \<in> set (dslots c)")
    case True
    then obtain p where p: "p \<in> set (slots c)" "parent_of (slot_at c p) (slot_at c r)" and d: "IsDynamic (slot_at c r)"
      "Name (slot_at c r) = dslot_name (slot_at c r) (SubID (slot_at c r))" using shape by (auto simp: shape_ok_def)
    note D = trace_dynamic [OF d(1) rc]
    have s: "same_slot (slot_at e p) (slot_at c p)" "p \<in> set (slots e)" using e p(1) by (simp_all add: same_slots_def)
    have "Name (slot_at e p) = rec_ParentSlotName rc" "IsPartitionable (slot_at e p)"
      "rec_SlotName rc = dslot_name (slot_at e p) (rec_DSlotSubID rc)"
      using same_slotD [OF s(1)] p(2) d(2) D K by (simp_all add: parent_of_def dslot_name_def)
    moreover have "rec_SlotName rc \<notin> live_names e"
    proof
      assume "rec_SlotName rc \<in> live_names e"
      then obtain q where q: "q \<in> set (slots c)" "Name (slot_at c q) = Name (slot_at c r)"
        using K(3) name by (auto simp: live_names_def live)
      then have "q = r" using registry_name_inj [OF reg _ r, of q] by (simp add: LiveSlots_def)
      then show False using q(1) True reg by (auto simp: registry_ok_def LiveSlots_def)
    qed
    ultimately show ?thesis using D(1) s(2) K(1) by (auto simp: adoptable_slot_def can_hold_def)
  next
    case False
    then have s: "r \<in> set (slots c)" using r by (simp add: LiveSlots_def)
    then have nd: "\<not> dynamic_record rc" using trace_static [OF _ rc] e by (simp add: same_slots_def)
    have "rec_SlotName rc \<in> live_names e" using s K(3) name [OF s] by (force simp: live_names_def live)
    then show ?thesis using nd K(1) e by (auto simp: adoptable_slot_def can_hold_def live same_slots_def)
  qed
  then show "adoptable L e rc" "can_hold e rc" using claim by (simp_all add: adoptable_def)
qed

lemma map_filter_Cons:
  "List.map_filter f (x # xs) = (case f x of None \<Rightarrow> [] | Some y \<Rightarrow> [y]) @ List.map_filter f xs"
  by (simp add: List.map_filter_def split: option.split)

lemma distinct_map_filter:
  assumes "distinct xs" "inj_on g (set xs)" "\<And>x y. x \<in> set xs \<Longrightarrow> f x = Some y \<Longrightarrow> h y = g x"
  shows "distinct (map h (List.map_filter f xs))"
proof -
  have "map h (List.map_filter f xs) = map g (filter (\<lambda>x. f x \<noteq> None) xs)"
    using assms(3) by (induction xs) (auto simp: List.map_filter_def)
  then show ?thesis using assms(1,2) by (simp add: distinct_map inj_on_subset [of g "set xs"])
qed

lemma sum_map_filter:
  fixes g :: "'b \<Rightarrow> int"
  shows "(\<Sum>y \<leftarrow> List.map_filter f xs. g y) = (\<Sum>x \<leftarrow> xs. case f x of None \<Rightarrow> 0 | Some y \<Rightarrow> g y)"
  by (induction xs) (auto simp: map_filter_Cons List.map_filter_def split: option.split)

lemma in_claim_records: "rc \<in> set (claim_records L c) \<longleftrightarrow> (\<exists>r \<in> set (LiveSlots c). trace_at L c r = Some rc)"
  unfolding claim_records_def by (force simp: List.map_filter_def)

text \<open>
  The store is current when its claimed records are, in some order and in what is essential, those of the claimed slots.
\<close>

definition store_current :: "('c, 'x) persist_api_scheme \<Rightarrow> 'c Core \<Rightarrow> Record list \<Rightarrow> bool" where
  "store_current L c rs \<longleftrightarrow> mset (map essential (filter claimed_record rs)) = mset (claim_records L c)"

lemma current_set: "store_current L c rs \<Longrightarrow> essential ` set (filter claimed_record rs) = set (claim_records L c)"
  unfolding store_current_def by (metis set_map set_mset_mset)

lemma restart_records:
  assumes inv: "core_inv L c" and e: "same_slots c e" and m: "minter e = Some m"
    and ids: "\<And>q. q \<in> set (LiveSlots e) \<Longrightarrow> \<exists>k. slot_claim_id (slot_at e q) = mint_id L m k"
    and res: "resumable L m c" and rs: "store_current L c rs"
  shows "adoptable_records L e rs"
proof -
  have reg: "registry_ok c" and ok: "\<And>r. r \<in> set (LiveSlots c) \<Longrightarrow> slot_ok (slot_at c r)"
    using inv by (simp_all add: core_inv_def books_ok_def)
  have inj: "inj_on (\<lambda>r. slot_claim_id (slot_at c r)) (set (LiveSlots c))" "inj_on (\<lambda>r. Name (slot_at c r)) (set (LiveSlots c))"
    "distinct (LiveSlots c)" using inv reg by (auto simp: core_inv_def ids_ok_def registry_ok_def split: option.splits)
  have "distinct (map rec_SlotName (claim_records L c))" "distinct (map rec_ClaimID (claim_records L c))"
    unfolding claim_records_def using trace_kinds(3,4) ok
    by (blast intro: distinct_map_filter [OF inj(3,2)] distinct_map_filter [OF inj(3,1)])+
  moreover have "mset (map h (map essential (filter claimed_record rs))) = mset (map h (claim_records L c))" for h :: "Record \<Rightarrow> string"
    using rs unfolding store_current_def by (metis mset_map)
  from this [of rec_SlotName] this [of rec_ClaimID]
  have "mset (map rec_SlotName (filter claimed_record rs)) = mset (map rec_SlotName (claim_records L c))"
    "mset (map rec_ClaimID (filter claimed_record rs)) = mset (map rec_ClaimID (claim_records L c))" by (simp_all add: comp_def)
  ultimately have "distinct (map rec_SlotName (filter claimed_record rs))" "distinct (map rec_ClaimID (filter claimed_record rs))"
    using mset_eq_imp_distinct_iff by blast+
  moreover have "adoptable L e rc" if "rc \<in> set (filter claimed_record rs)" for rc
  proof -
    have "essential rc \<in> set (claim_records L c)" using that current_set [OF rs] by blast
    then show ?thesis using restart_adoptable(1) [OF inv e m ids res, of _ "essential rc"] by (auto simp: in_claim_records)
  qed
  ultimately show ?thesis unfolding adoptable_records_def Let_def by blast
qed

lemma owed_current:
  assumes inv: "core_inv L c" and e: "same_slots c e" and rs: "store_current L c rs"
  shows "owed n f rs = (\<Sum>q \<leftarrow> dslots c. share c n f q)"
proof -
  let ?g = "\<lambda>rc. if claimed_record rc \<and> dynamic_record rc \<and> rec_ParentSlotName rc = n then f (record_res rc) else 0"
  let ?h = "\<lambda>q. case trace_at L c q of None \<Rightarrow> 0 | Some rc \<Rightarrow> ?g rc"
  have ok: "\<And>r. r \<in> set (LiveSlots c) \<Longrightarrow> slot_ok (slot_at c r)" using inv by (simp add: core_inv_def books_ok_def)
  have "owed n f rs = (\<Sum>rc \<leftarrow> filter claimed_record rs. ?g rc)" unfolding owed_def by (induction rs) auto
  also have "\<dots> = (\<Sum>rc \<leftarrow> claim_records L c. ?g rc)"
  proof -
    have "image_mset ?g (mset (map essential (filter claimed_record rs))) = image_mset ?g (mset (claim_records L c))"
      using rs by (simp only: store_current_def)
    from arg_cong [OF this, of sum_mset] have "(\<Sum>rc \<leftarrow> filter claimed_record rs. ?g (essential rc)) = (\<Sum>rc \<leftarrow> claim_records L c. ?g rc)"
      by (simp only: mset_map [symmetric] sum_mset_sum_list map_map comp_def)
    then show ?thesis by (simp only: essential_fields essential_kinds)
  qed
  also have "\<dots> = (\<Sum>q \<leftarrow> slots c. ?h q) + (\<Sum>q \<leftarrow> dslots c. ?h q)"
    by (simp add: claim_records_def sum_map_filter LiveSlots_def)
  also have "map ?h (slots c) = map (\<lambda>q. 0) (slots c)"
  proof (rule map_cong [OF refl])
    fix q assume "q \<in> set (slots c)"
    then have "SlotType (slot_at c q) \<in> {SlotTypeStatic, SlotTypePartitionable}" using e by (simp add: same_slots_def)
    then show "?h q = 0" using trace_static [of c q L] by (cases "trace_at L c q") auto
  qed
  also have "map ?h (dslots c) = map (share c n f) (dslots c)"
  proof (rule map_cong [OF refl])
    fix q assume q: "q \<in> set (dslots c)"
    then have live: "q \<in> set (LiveSlots c)" and d: "IsDynamic (slot_at c q)"
      using inv by (auto simp: core_inv_def shape_ok_def LiveSlots_def)
    from ok [OF live] d obtain rc where rc: "trace_at L c q = Some rc"
      by (auto simp: slot_ok_def trace_def split: option.splits)
    then show "?h q = share c n f q"
      using trace_kinds(1) [OF ok [OF live] rc] trace_dynamic [OF d rc] by (simp add: share_def)
  qed
  finally show ?thesis by (simp add: sum_list_triv)
qed

section \<open>A startd over its restarts\<close>

definition restartable :: "('c, 'x) persist_api_scheme \<Rightarrow> 'c Core \<Rightarrow> 'c Options \<Rightarrow> bool" where
  "restartable L c opts \<longleftrightarrow> opts_ok opts \<and>
     (case opt_Minter opts of None \<Rightarrow> False | Some m \<Rightarrow> resumable L m c) \<and>
     (case opt_Store opts of None \<Rightarrow> False | Some st \<Rightarrow> store_current L c (store_List L st))"

lemma restart_adopts:
  assumes inv: "core_inv L c" and conf: "configured (opt_Slots opts) c" and ok: "mint_ok L" "restartable L c opts"
  shows "adoptable_records L (New L opts) (stored_records L (New L opts))" "core_inv L (New L opts)" "same_slots c (New L opts)"
    "store_current L c (stored_records L (New L opts))"
    "r \<in> set (LiveSlots c) \<Longrightarrow> trace_at L c r = Some t \<Longrightarrow>
       \<exists>rc \<in> set (stored_records L (New L opts)). essential rc = t \<and> can_hold (New L opts) rc"
proof -
  obtain m st where m: "opt_Minter opts = Some m" "resumable L m c" and st: "opt_Store opts = Some st" "store_current L c (store_List L st)"
    and opts: "opts_ok opts" using ok(2) by (auto simp: restartable_def split: option.splits)
  note N = New_slots [OF ok(1) opts m(1)]
  show e: "same_slots c (New L opts)" by (rule restart_same_slots [OF conf ok(1) opts])
  show "core_inv L (New L opts)" by (rule New_inv [OF ok(1) opts])
  have rs: "stored_records L (New L opts) = store_List L st" using N(3) st by (simp add: stored_records_def)
  then show cur: "store_current L c (stored_records L (New L opts))" using st by simp
  let ?m = "m\<lparr>seq := seq m + int (length (opt_Slots opts))\<rparr>"
  have mint: "minter (New L opts) = Some ?m" using New_counters(1) [OF ok(1) opts m(1)] .
  have res: "resumable L ?m c" using m(2) unfolding resumable_def mint_id_seq .
  have ids: "\<exists>k. slot_claim_id (slot_at (New L opts) q) = mint_id L ?m k" if "q \<in> set (LiveSlots (New L opts))" for q
    using N(7) [of q] that N(1,2) by (simp add: LiveSlots_def)
  show "adoptable_records L (New L opts) (stored_records L (New L opts))"
    by (rule restart_records [OF inv e mint ids res cur])
  show "\<exists>rc \<in> set (stored_records L (New L opts)). essential rc = t \<and> can_hold (New L opts) rc"
    if r: "r \<in> set (LiveSlots c)" "trace_at L c r = Some t"
  proof -
    have "t \<in> set (claim_records L c)" using r in_claim_records by metis
    then have "t \<in> essential ` set (filter claimed_record (stored_records L (New L opts)))" by (simp only: current_set [OF cur])
    then obtain rc where "rc \<in> set (stored_records L (New L opts))" "essential rc = t" by auto
    then show ?thesis using restart_adoptable(2) [OF inv e mint ids res r] by auto
  qed
qed

lemma events_adopt_record: "events (snd (snd (adopt_record L rc st))) = events (snd (snd st))"
proof -
  have "events (redial_starter L rc c) = events c" for c :: "'a Core" by (simp add: redial_starter_def Let_def)
  then have a: "events (adopt_claim L rc r c) = events c" for r and c :: "'a Core" by (simp add: adopt_claim_def)
  have o: "events (snd (snd (adopt_on_slot L rc s))) = events (snd (snd s))" for s :: "'a adoption"
    by (auto simp: adopt_on_slot_def a split: prod.split option.split sum.split)
  have "events (snd (reconstructDSlot rc c)) = events c" for c :: "'a Core"
    by (simp add: reconstructDSlot_def Let_def split: option.split)
  then have r: "reconstructDSlot rc c = (x, d) \<Longrightarrow> events d = events c" for x d and c :: "'a Core" by (metis snd_conv)
  show ?thesis by (auto simp: adopt_record_def o split: prod.split option.split dest!: r)
qed

lemma events_doAdopt [simp]: "events (doAdopt L w c) = events c"
proof -
  have f: "events (snd (snd (fold (adopt_record L) rs st))) = events (snd (snd st))" for rs st
    by (induction rs arbitrary: st) (simp_all add: events_adopt_record)
  obtain k tch d where loop: "fold (adopt_record L) (stored_records L c) (0, [], c) = (k, tch, d)" by (metis prod_cases3)
  have "events d = events c" using f [of "stored_records L c" "(0, [], c)"] loop by simp
  moreover have "events (fold (refresh_parent tch) ns d) = events d" for ns
    by (rule events_fold) (simp add: refresh_parent_def split: option.split)
  ultimately show ?thesis
    using loop by (simp add: doAdopt_def stored_records_def refresh_parent_def [abs_def] Let_def)
qed

text \<open>
  The states of a startd with the configured slots \<open>ss\<close>, over any number of restarts.
\<close>

inductive startd_life ::
  "(Event \<Rightarrow> bool) \<Rightarrow> ('c, 'x) persist_api_scheme \<Rightarrow> Slot list \<Rightarrow> 'c Core \<Rightarrow> bool" for P L ss where
  boot: "opts_ok opts \<Longrightarrow> opt_Slots opts = ss \<Longrightarrow> startd_life P L ss (New L opts)"
| run: "startd_life P L ss c \<Longrightarrow> startd_step P L c d \<Longrightarrow> startd_life P L ss d"
| restart: "startd_life P L ss c \<Longrightarrow> restartable L c opts \<Longrightarrow> opt_Slots opts = ss \<Longrightarrow> visits_all w \<Longrightarrow>
    startd_life P L ss (handle L w EvAdopt (New L opts))"

interpretation life: machine "startd_step P L" "startd_life P L ss" for P L ss
  by unfold_locales (rule startd_life.run)

lemma life_inv:
  assumes "startd_life P L ss c" "mint_ok L"
  shows "startd_inv P L c \<and> configured ss c"
  using assms
proof (induction rule: startd_life.induct)
  case (boot opts)
  then show ?case using New_startd_inv configured_New by blast
next
  case (run c d)
  then show ?case using startd_inv_step config_step configured_keeps by blast
next
  case (restart c opts w)
  then have inv: "core_inv L c" "configured (opt_Slots opts) c" and ok: "opts_ok opts"
    by (simp_all add: startd_inv_def restartable_def)
  note A = restart_adopts [OF inv restart.prems restart.hyps(2)]
  have "events (New L opts) = []" using ok New_counters(3) [OF restart.prems ok] by (auto simp: opts_ok_def)
  then have "startd_inv P L (doAdopt L w (New L opts))"
    using doAdopt_holds(1) [OF A(2,1) restart.hyps(4)] by (simp add: startd_inv_def)
  moreover have "configured ss (doAdopt L w (New L opts))"
    using configured_keeps [OF configured_New doAdopt_config [OF A(2,1)]] restart.hyps(3) restart.prems ok by simp
  moreover have "startd_inv P L (emit x d) = startd_inv P L d" "configured ss (emit x d) = configured ss d" for x d
    by (simp_all add: startd_inv_def configured_def frame_simps)
  ultimately show ?case by (simp add: handle_def)
qed

lemma restart_fit:
  assumes inv: "core_inv L c" and conf: "configured (opt_Slots opts) c" and ok: "mint_ok L" "restartable L c opts"
    and acc: "account_ok c" and whole: "whole_pslots opts"
  shows "records_fit (New L opts) (stored_records L (New L opts))"
    "p \<in> set (slots c) \<Longrightarrow> IsPartitionable (slot_at c p) \<Longrightarrow> spare (slot_at (New L opts) p) (stored_records L (New L opts)) = Res (slot_at c p)"
proof -
  let ?e = "New L opts" let ?rs = "stored_records L ?e"
  note A = restart_adopts [OF inv conf ok]
  obtain m where opts: "opts_ok opts" "opt_Minter opts = Some m" using ok(2) by (auto simp: restartable_def opts_ok_def)
  note N = New_slots [OF ok(1) opts]
  note owed = owed_current [OF inv A(3,4)]
  show sp: "spare (slot_at ?e p) ?rs = Res (slot_at c p)" if p: "p \<in> set (slots c)" "IsPartitionable (slot_at c p)" for p
  proof -
    have i: "p < length (opt_Slots opts)" using conf p(1) by (simp add: configured_def)
    have s: "same_slot (slot_at c p) (opt_Slots opts ! p)" "same_slot (slot_at ?e p) (opt_Slots opts ! p)"
      using conf i N(4) by (simp_all add: configured_def)
    have "Res (slot_at ?e p) = fullRes (slot_at c p)"
      using whole p(2) N(5) [OF i] i same_slotD(7,9) [OF s(1)] by (simp add: whole_pslots_def)
    moreover have "Name (slot_at ?e p) = Name (slot_at c p)" using same_slotD(1) [OF s(1)] same_slotD(1) [OF s(2)] by simp
    moreover have "balanced_slot (slot_at c p) (outstanding c (Name (slot_at c p)))"
      using acc p unfolding account_ok_def by blast
    ultimately show ?thesis
      by (intro res_eqI) (auto simp: spare_def owed outstanding_share balanced_slot_def ledger_balanced_defs)
  qed
  have "res_nonneg (record_res rc)" if rc: "rc \<in> set ?rs" "claimed_record rc" "dynamic_record rc" for rc
  proof -
    have "essential rc \<in> set (claim_records L c)" using current_set [OF A(4)] rc by auto
    then obtain r where r: "r \<in> set (LiveSlots c)" "trace_at L c r = Some (essential rc)" by (auto simp: in_claim_records)
    have "r \<notin> set (slots c)" using trace_static [OF _ r(2)] rc(3) A(3) by (auto simp: same_slots_def)
    then have d: "r \<in> set (dslots c)" using r(1) by (simp add: LiveSlots_def)
    then have "IsDynamic (slot_at c r)" using inv by (simp add: core_inv_def shape_ok_def)
    then show ?thesis using trace_dynamic(4) [OF _ r(2)] acc d by (simp add: account_ok_def)
  qed
  moreover have "res_nonneg (spare (slot_at ?e p) ?rs)" if p: "p \<in> set (slots ?e)" "IsPartitionable (slot_at ?e p)" for p
  proof -
    have "p \<in> set (slots c)" "IsPartitionable (slot_at c p)" using p A(3) same_slotD(9) unfolding same_slots_def by metis+
    then show ?thesis using sp acc unfolding account_ok_def by (auto simp: balanced_slot_def ledger_balanced_defs res_nonneg_def)
  qed
  ultimately show "records_fit ?e ?rs" by (simp add: records_fit_def)
qed

lemma life_account:
  assumes "startd_life (fair_request L) L ss c" "mint_ok L" "\<forall>s \<in> set ss. IsPartitionable s \<longrightarrow> Res s = fullRes s \<and> res_ok (Res s)"
  shows "account_ok c"
  using assms
proof (induction rule: startd_life.induct)
  case (boot opts)
  then have "whole_pslots opts" by (simp only: whole_pslots_def)
  then show ?case using boot New_account by blast
next
  case (run c d)
  then show ?case using account_step life_inv by blast
next
  case (restart c opts w)
  have w: "whole_pslots opts" unfolding whole_pslots_def restart.hyps(3) by (rule restart.prems(2))
  have inv: "core_inv L c" "configured (opt_Slots opts) c" and acc: "account_ok c"
    using life_inv [OF restart.hyps(1) restart.prems(1)] restart.hyps(3) restart.IH [OF restart.prems] by (simp_all add: startd_inv_def)
  have ok: "opts_ok opts" using restart.hyps(2) by (simp add: restartable_def)
  note A = restart_adopts [OF inv restart.prems(1) restart.hyps(2)]
    and F = restart_fit [OF inv restart.prems(1) restart.hyps(2) acc w]
  show ?case using doAdopt_account(1) [OF A(2,1) New_account [OF restart.prems(1) ok w] F(1)] by (simp add: handle_def)
qed

section \<open>The claims after a restart\<close>

definition same_terms :: "Claim \<Rightarrow> Claim \<Rightarrow> bool" where
  "same_terms a b \<longleftrightarrow> claimID b = claimID a \<and> publicClaimID b = publicClaimID a \<and> claim_state b = claim_state a \<and>
     scheddAddr b = scheddAddr a \<and> scheddName b = scheddName a \<and> user b = user a \<and>
     clientMachine b = clientMachine a \<and> aliveInterval b = aliveInterval a"

definition same_job :: "activation \<Rightarrow> activation \<Rightarrow> bool" where
  "same_job a b \<longleftrightarrow> act_transport b = UnixStartd (socketPath a) \<and> socketPath b = socketPath a \<and> sandbox b = sandbox a \<and>
     globalJID b = globalJID a \<and> starterPid b = starterPid a \<and> starterAddr b = starterAddr a"

definition same_claim :: "Slot \<Rightarrow> Slot \<Rightarrow> bool" where
  "same_claim s t \<longleftrightarrow> slot_state t = slot_state s \<and> activity t = activity s \<and> SlotType t = SlotType s \<and>
     (case (slot_claim s, slot_claim t) of (Some a, Some b) \<Rightarrow> same_terms a b | _ \<Rightarrow> False) \<and>
     (IsDynamic s \<longrightarrow> ParentName t = ParentName s \<and> SubID t = SubID s \<and> Res t = Res s)"

definition resumed :: "'c Core \<Rightarrow> slotref \<Rightarrow> 'c Core \<Rightarrow> bool" where
  "resumed c r d \<longleftrightarrow>
     (let n = Name (slot_at c r)
      in (case map_of (byName d) n of None \<Rightarrow> False | Some q \<Rightarrow> same_claim (slot_at c r) (slot_at d q)) \<and>
         map_of (aliveCancels d) n \<noteq> None \<and>
         (case (map_of (activations c) n, map_of (activations d) n) of
            (None, None) \<Rightarrow> True | (Some a, Some b) \<Rightarrow> same_job a b | _ \<Rightarrow> False))"

lemma holds_same_claim:
  assumes ok: "slot_ok (slot_at c r)" and rc: "trace_at L c r = Some (essential rc)" and h: "slot_holds L rc t"
    and ty: "IsDynamic (slot_at c r) \<or> SlotType t = SlotType (slot_at c r) \<and> \<not> IsDynamic (slot_at c r)"
  shows "same_claim (slot_at c r) t"
proof -
  let ?s = "slot_at c r"
  obtain cl where cl: "slot_claim ?s = Some cl" "slot_state ?s = ''Claimed''"
    "essential rc = essential (slot_record L ?s cl (map_of (activations c) (Name ?s)))"
    using rc by (auto simp: trace_at_def slot_trace_def split: if_splits)
  note K = trace_kinds [OF ok rc, simplified] and E = essential_eqD [OF cl(3)]
  have t: "slot_claim t = Some (Adopt (adopt_options L rc))" "slot_state t = ''Claimed''" "activity t = activityOf (busy_record rc)"
    using h by (simp_all add: slot_holds_def)
  have st: "claim_state (Adopt (adopt_options L rc)) = claim_state cl" "activityOf (busy_record rc) = activity ?s"
    using ok K(2) cl(1,2) by (auto simp: slot_ok_def Adopt_def adopt_options_def activityOf_def busy_record_def)
  then have "same_terms cl (Adopt (adopt_options L rc))"
    by (simp add: same_terms_def Adopt_def adopt_options_def E slot_record_def)
  moreover have "SlotType t = SlotType ?s \<and> (IsDynamic ?s \<longrightarrow> ParentName t = ParentName ?s \<and> SubID t = SubID ?s \<and> Res t = Res ?s)"
  proof (cases "IsDynamic ?s")
    case True
    from trace_dynamic [OF True rc] h have "is_rebuilt rc t" by (simp add: slot_holds_def)
    then show ?thesis using trace_dynamic(2-4) [OF True rc] True
      by (simp add: is_rebuilt_def IsDynamic_def) (simp add: record_res_def)
  qed (use ty in simp)
  ultimately show ?thesis using t st(2) cl(1,2) by (simp add: same_claim_def)
qed

lemma resumed_emit: "resumed c r (emit x d) = resumed c r d"
proof -
  have "byName (emit x d) = byName d" "aliveCancels (emit x d) = aliveCancels d" "activations (emit x d) = activations d"
    "slot_at (emit x d) = slot_at d" by (simp_all add: frame_simps)
  then show ?thesis unfolding resumed_def by presburger
qed

lemma holds_resumed:
  assumes inv: "core_inv L c" and r: "r \<in> set (LiveSlots c)" "trace_at L c r = Some (essential rc)"
    and d: "registry_ok d" "books_ok d" "\<And>q. q \<in> set (slots c) \<Longrightarrow> q \<in> set (slots d) \<and> same_slot (slot_at d q) (slot_at c q)"
    and h: "holds_claim L rc d"
  shows "resumed c r d"
proof -
  let ?n = "Name (slot_at c r)"
  have so: "slot_ok (slot_at c r)" "slot_books c (slot_at c r)" using inv r by (simp_all add: core_inv_def books_ok_def)
  note K = trace_kinds [OF so(1) r(2), simplified]
  obtain cl where cl: "slot_claim (slot_at c r) = Some cl" "slot_state (slot_at c r) = ''Claimed''"
    "essential rc = essential (slot_record L (slot_at c r) cl (map_of (activations c) ?n))"
    using r(2) by (auto simp: trace_at_def slot_trace_def split: if_splits)
  obtain q where q: "map_of (byName d) ?n = Some q" "slot_holds L rc (slot_at d q)" using h K(3) by (auto simp: holds_claim_def)
  have live: "q \<in> set (LiveSlots d)" "Name (slot_at d q) = ?n" using registry_byName [OF d(1)] q(1) by simp_all
  have "IsDynamic (slot_at c r) \<or> SlotType (slot_at d q) = SlotType (slot_at c r) \<and> \<not> IsDynamic (slot_at c r)"
  proof (cases "r \<in> set (dslots c)")
    case True
    then show ?thesis using inv by (simp add: core_inv_def shape_ok_def)
  next
    case False
    then have rs: "r \<in> set (slots c)" using r(1) by (simp add: LiveSlots_def)
    then have s: "r \<in> set (slots d)" "same_slot (slot_at d r) (slot_at c r)" using d(3) by simp_all
    then have "q = r" using registry_name_inj [OF d(1) live(1), of r] live(2) same_slotD(1) [OF s(2)] by (simp add: LiveSlots_def)
    moreover have "\<not> IsDynamic (slot_at c r)" using inv rs by (simp add: core_inv_def shape_ok_def)
    ultimately show ?thesis using same_slotD(2) [OF s(2)] by simp
  qed
  note same = holds_same_claim [OF so(1) r(2) q(2) this]
  have b: "slot_books d (slot_at d q)" "claimed_slot (slot_at d q)" "claim_is ClaimedBusy (slot_at d q) \<longleftrightarrow> busy_record rc"
    using d(2) live(1) q(2) by (auto simp: books_ok_def slot_holds_def claimed_slot_def claim_is_def Adopt_def
        adopt_options_def busy_record_def)
  have "map_of (aliveCancels d) ?n \<noteq> None" using b(1,2) live(2) by (auto simp: slot_books_def)
  moreover have "case (map_of (activations c) ?n, map_of (activations d) ?n) of
      (None, None) \<Rightarrow> True | (Some a, Some b) \<Rightarrow> same_job a b | _ \<Rightarrow> False"
  proof (cases "busy_record rc")
    case True
    then obtain b where b: "map_of (activations d) ?n = Some b" "redialled rc b" using h K(3) by (auto simp: holds_claim_def)
    have "claim_is ClaimedBusy (slot_at c r)" using True K(2) so(1) cl(1,2) by (auto simp: slot_ok_def claim_is_def)
    then obtain a where "map_of (activations c) ?n = Some a" using so(2) by (auto simp: slot_books_def)
    then show ?thesis using b essential_eqD [OF cl(3)] by (simp add: redialled_def slot_record_def same_job_def)
  next
    case False
    then have "map_of (activations d) ?n = None" using b live(2) by (auto simp: slot_books_def)
    moreover have "\<not> claim_is ClaimedBusy (slot_at c r)" using False K(2) so(1) cl(1,2) by (auto simp: slot_ok_def claim_is_def)
    then have "map_of (activations c) ?n = None" using so(2) by (auto simp: slot_books_def)
    ultimately show ?thesis by simp
  qed
  ultimately show ?thesis using same q(1) by (simp add: resumed_def)
qed

lemma claimed_trace:
  assumes "slot_ok (slot_at c r)"
  shows "slot_state (slot_at c r) = ''Claimed'' \<longleftrightarrow> trace_at L c r \<noteq> None"
  using slot_ok_claim [OF assms] by (auto simp: trace_at_def slot_trace_def)

lemma restart_resumes:
  assumes inv: "core_inv L c" and conf: "configured (opt_Slots opts) c" and ok: "mint_ok L" "restartable L c opts"
    and w: "visits_all w" and r: "r \<in> set (LiveSlots c)" "slot_state (slot_at c r) = ''Claimed''"
  shows "resumed c r (handle L w EvAdopt (New L opts))"
proof -
  let ?d = "doAdopt L w (New L opts)"
  note A = restart_adopts [OF inv conf ok]
  have "slot_ok (slot_at c r)" using inv r by (simp add: core_inv_def books_ok_def)
  then obtain t where t: "trace_at L c r = Some t" using claimed_trace [of c r L] r(2) by auto
  from A(5) [OF r(1) t] obtain rc where rc: "rc \<in> set (stored_records L (New L opts))" "essential rc = t" "can_hold (New L opts) rc" by blast
  have D: "core_inv L ?d" "holds_claim L rc ?d" using doAdopt_holds [OF A(2,1) w] rc by blast+
  have "keeps_config (New L opts) ?d" by (rule doAdopt_config [OF A(2,1)])
  then have "resumed c r ?d"
    using holds_resumed [OF inv r(1), of rc ?d] t rc(2) D A(3)
    by (auto simp: core_inv_def keeps_config_def same_slots_def same_slot_def)
  then show ?thesis by (simp add: handle_def resumed_emit)
qed

section \<open>An example\<close>

text \<open>
  A library whose claim ids carry the birth date of the process, as those of the real one do, and a startd with one
  partitionable slot that has carved a dynamic slot for a request. Its successor starts later, with the record in its store.
\<close>

definition epoch_mint :: "MintClaimOptions \<Rightarrow> string + Minted" where
  "epoch_mint o' =
     (let cid = ''claim#'' @ (if opt_Birthdate o' = 1 then ''A'' else ''B'') @ Itoa (opt_SequenceNum o')
      in Inr \<lparr>minted_ClaimID = cid, minted_PublicClaimID = ''claim#...'', minted_SessionID = cid\<rparr>)"

definition epoch_lib :: "(string, ad) gomap persist_api" where
  "epoch_lib = example_lib\<lparr>MintClaimSession := epoch_mint\<rparr>"

definition epoch_request :: evRequestClaim where
  "epoch_request = example_request\<lparr>rc_claimID := ''claim#A1''\<rparr>"

definition claimed_core :: "(string, ad) gomap Core" where
  "claimed_core = serve epoch_lib example_world (EvRequestClaim epoch_request) (New epoch_lib example_popts)"

definition next_opts :: "(string, ad) gomap Options" where
  "next_opts = example_popts\<lparr>opt_Minter := Some (NewMinter ''<h:9618>'' 2),
     opt_Store := Some \<lparr>coll = map (\<lambda>rc. (rec_SlotName rc, toAd rc)) (claim_records epoch_lib claimed_core), dir = ''/d''\<rparr>\<rparr>"

lemma epoch_mint_ok: "mint_ok epoch_lib"
  by (auto simp: mint_ok_def epoch_lib_def epoch_mint_def mint_id_def mint_options_def Itoa_inj Let_def)

lemma epoch_resources: "requestedResources epoch_lib (rc_reqAd epoch_request) = \<lparr>Cpus = 2, MemoryMB = 1000, DiskKB = 500\<rparr>"
  by code_simp

lemma claimed_core_life:
  "startd_life (fair_request epoch_lib) epoch_lib (opt_Slots example_popts) claimed_core"
  "startd_life (\<lambda>_. True) epoch_lib (opt_Slots example_popts) claimed_core"
proof -
  have m: "opt_Minter example_popts = Some (NewMinter ''<h:9618>'' 1)" by (simp add: example_popts_def example_opts_def)
  note c = New_counters [OF epoch_mint_ok example_popts_ok(1) m]
  have ok: "counters_ok (New epoch_lib example_popts)" by (simp add: counters_ok_def c in64_def NewMinter_def example_popts_slots)
  have "fair_request epoch_lib (EvRequestClaim epoch_request)" by (simp add: fair_request_def res_nonneg_def epoch_resources)
  note run = serve_run [where P = "fair_request epoch_lib", OF _ this ok, of epoch_lib example_world]
    and any = serve_run [where P = "\<lambda>_. True", OF _ TrueI ok, of "EvRequestClaim epoch_request" epoch_lib example_world]
  have b: "startd_life P epoch_lib (opt_Slots example_popts) (New epoch_lib example_popts)" for P
    by (rule startd_life.boot [OF example_popts_ok(1) refl])
  show "startd_life (fair_request epoch_lib) epoch_lib (opt_Slots example_popts) claimed_core"
    unfolding claimed_core_def by (rule life.reachable_inv [OF run b]) simp
  show "startd_life (\<lambda>_. True) epoch_lib (opt_Slots example_popts) claimed_core"
    unfolding claimed_core_def by (rule life.reachable_inv [OF any b]) simp
qed

lemma first_core:
  "findSlotByClaimID ''claim#A1'' (New epoch_lib example_popts) = Some 0"
  "requirements_met epoch_lib example_world (slot_at (New epoch_lib example_popts) 0) (rc_reqAd epoch_request)"
  by code_simp+

lemma first_slot:
  "LiveSlots (New epoch_lib example_popts) = [0]" "slot_state (slot_at (New epoch_lib example_popts) 0) = ''Unclaimed''"
  "IsPartitionable (slot_at (New epoch_lib example_popts) 0)"
  "CanCarve (slot_at (New epoch_lib example_popts) 0) (requestedResources epoch_lib (rc_reqAd epoch_request))"
  "map_option claim_state (slot_claim (slot_at (New epoch_lib example_popts) 0)) = Some Unclaimed"
  "activations (New epoch_lib example_popts) = []" "length (heap (New epoch_lib example_popts)) = 1"
proof -
  let ?c = "New epoch_lib example_popts"
  have m: "opt_Minter example_popts = Some (NewMinter ''<h:9618>'' 1)" by (simp add: example_popts_def example_opts_def)
  have len: "length (opt_Slots example_popts) = 1" by (simp add: example_popts_slots)
  note N = New_slots [OF epoch_mint_ok example_popts_ok(1) m, unfolded len]
  show live: "LiveSlots ?c = [0]" using N(1,2) by (simp add: LiveSlots_def)
  show un: "slot_state (slot_at ?c 0) = ''Unclaimed''" using N(6) by simp
  show "IsPartitionable (slot_at ?c 0)"
    using same_slotD(9) [OF N(4) [OF zero_less_one]] by (simp add: example_popts_slots BuildPartitionableSlot_def IsPartitionable_def)
  show "CanCarve (slot_at ?c 0) (requestedResources epoch_lib (rc_reqAd epoch_request))"
    using N(5) [OF zero_less_one] by (simp add: example_popts_slots BuildPartitionableSlot_def CanCarve_def epoch_resources)
  have "slot_ok (slot_at ?c 0)" using New_inv [OF epoch_mint_ok example_popts_ok(1)] live by (simp add: core_inv_def books_ok_def)
  then show "map_option claim_state (slot_claim (slot_at ?c 0)) = Some Unclaimed" using un by (auto simp: slot_ok_def split: option.splits)
  show "activations ?c = []" "length (heap ?c) = 1"
    using prime_slots_minted [OF epoch_mint_ok, of "NewMinter ''<h:9618>'' 1" "opt_Slots example_popts"]
    by (auto simp: New_def prime_def m len NewMinter_def in64_def split: prod.split)
qed

lemma claimed_core_view:
  obtains c1 m' cl where "core_view claimed_core = core_view (pslot_carved epoch_lib example_world epoch_request 0 m' cl c1)"
    "slot_at c1 = slot_at (New epoch_lib example_popts)" "length (heap c1) = 1" "LiveSlots c1 = [0]"
    "activations c1 = []" "claimID cl = ''claim#A'' @ Itoa 2"
proof -
  let ?c = "New epoch_lib example_popts" let ?c1 = "cancelMatchTimer (Name (slot_at ?c 0)) ?c"
  have m: "opt_Minter example_popts = Some (NewMinter ''<h:9618>'' 1)" by (simp add: example_popts_def example_opts_def)
  note C = New_counters [OF epoch_mint_ok example_popts_ok(1) m]
  let ?m = "(NewMinter ''<h:9618>'' 1)\<lparr>seq := 1\<rparr>"
  have min: "minter ?c = Some ?m" by (simp add: C example_popts_slots NewMinter_def)
  have "in64 (seq ?m + 1)" by (simp add: in64_def)
  from Mint_ok [OF epoch_mint_ok this] obtain cl where mint: "Mint epoch_lib ?m = (?m\<lparr>seq := seq ?m + 1\<rparr>, Inr cl)"
    and cl: "claimID cl = mint_id epoch_lib ?m (seq ?m + 1)" by blast
  have r: "rc_claimID epoch_request = ''claim#A1''" by (simp add: epoch_request_def)
  obtain x where x: "slot_claim (slot_at ?c 0) = Some x" "claim_state x = Unclaimed" using first_slot(5) by auto
  have "claimed_core = doRequestClaim epoch_lib example_world epoch_request ?c"
    by (simp add: claimed_core_def serve_idle [OF C(3)] handle_def)
  also have "\<dots> = doRequestClaimPSlot epoch_lib example_world epoch_request 0 ?c1"
    using first_core first_slot(3) x by (simp add: doRequestClaim_def r Let_def frame_simps)
  finally have eq: "claimed_core = doRequestClaimPSlot epoch_lib example_world epoch_request 0 ?c1" .
  have "minter ?c1 = Some ?m" using min by (simp add: frame_simps)
  from doRequestClaimPSlot_minted [OF this mint] have "core_view claimed_core =
      core_view (pslot_carved epoch_lib example_world epoch_request 0 (?m\<lparr>seq := seq ?m + 1\<rparr>) cl ?c1)"
    unfolding eq using first_core first_slot(3,4) by (simp add: Let_def frame_simps)
  moreover have "claimID cl = ''claim#A'' @ Itoa 2"
    by (simp add: cl mint_id_def epoch_lib_def epoch_mint_def mint_options_def NewMinter_def Let_def)
  ultimately show thesis
    using first_slot by (intro that [of _ cl ?c1]) (simp_all add: frame_simps LiveSlots_def)
qed

lemma claimed_core_slots:
  "LiveSlots claimed_core = [0, 1]" "activations claimed_core = []"
  "slot_state (slot_at claimed_core 0) = ''Unclaimed''" "slot_state (slot_at claimed_core 1) = ''Claimed''"
  "activity (slot_at claimed_core 1) = ''Idle''" "slot_claim_id (slot_at claimed_core 1) = ''claim#A'' @ Itoa 2"
  "IsDynamic (slot_at claimed_core 1)" "ParentName (slot_at claimed_core 1) \<noteq> []"
proof -
  obtain c1 m' cl where v: "core_view claimed_core = core_view (pslot_carved epoch_lib example_world epoch_request 0 m' cl c1)"
    and c1: "slot_at c1 = slot_at (New epoch_lib example_popts)" "length (heap c1) = 1" "LiveSlots c1 = [0]" "activations c1 = []"
    and cl: "claimID cl = ''claim#A'' @ Itoa 2" by (rule claimed_core_view)
  let ?e = "pslot_carved epoch_lib example_world epoch_request 0 m' cl c1"
  have live: "LiveSlots ?e = [0, 1]" using c1(2,3) by (simp add: pslot_carved_def Let_def LiveSlots_def)
  note f = view_eq_fields [OF v]
  show "LiveSlots claimed_core = [0, 1]" using live by (simp add: LiveSlots_def f(1,2))
  show "activations claimed_core = []" using c1(4) by (simp add: f(6) pslot_carved_def Let_def)
  have len: "length (heap claimed_core) = 2" using c1(2) by (simp add: f(9) pslot_carved_def Let_def)
  note s = strip_eqD [OF view_eq_slot [OF v]]
  have "slot_state (slot_at ?e 0) = ''Unclaimed''"
    using c1(1,2) first_slot(2) by (simp add: pslot_carved_def Let_def slot_at_carved SetChildClaimIDs_def Carve_def)
  then show "slot_state (slot_at claimed_core 0) = ''Unclaimed''" using s(3) [of 0] len by simp
  obtain t i k q where d: "slot_at ?e 1 = accepted_dslot t i cl (NewDynamicSlot (slot_at (New epoch_lib example_popts) 0) k q t)"
    using c1(1,2) by (auto simp: pslot_carved_def Let_def slot_at_carved intro: that)
  let ?N = "NewDynamicSlot (slot_at (New epoch_lib example_popts) 0) k q t"
  note D = same_slotD [OF accepted_dslot_fields(1), of t i cl ?N]
  have P: "ParentName (slot_at ?e 1) = Name (slot_at (New epoch_lib example_popts) 0)"
    using D(5) unfolding d by (simp add: NewDynamicSlot_def)
  show "slot_state (slot_at claimed_core 1) = ''Claimed''" "activity (slot_at claimed_core 1) = ''Idle''"
    "slot_claim_id (slot_at claimed_core 1) = ''claim#A'' @ Itoa 2"
    using s [of 1] len accepted_dslot_fields [of t i cl ?N] cl unfolding d slot_claim_id_def by simp_all
  have m: "opt_Minter example_popts = Some (NewMinter ''<h:9618>'' 1)" by (simp add: example_popts_def example_opts_def)
  have "Name (slot_at (New epoch_lib example_popts) 0) \<noteq> []"
    using same_slotD(1) [OF New_slots(4) [OF epoch_mint_ok example_popts_ok(1) m, of 0]]
    by (simp add: example_popts_slots BuildPartitionableSlot_def)
  then show "ParentName (slot_at claimed_core 1) \<noteq> []" using P s [of 1] len by simp
  show "IsDynamic (slot_at claimed_core 1)" using D(8) s [of 1] len unfolding d[symmetric] by (simp add: IsDynamic_def NewDynamicSlot_def)
qed

lemma next_restartable: "restartable epoch_lib claimed_core next_opts" "opt_Slots next_opts = opt_Slots example_popts"
  "resumable epoch_lib (NewMinter ''<h:9618>'' 2) claimed_core" "opts_ok next_opts"
proof -
  show same: "opt_Slots next_opts = opt_Slots example_popts" by (simp add: next_opts_def)
  have inv: "core_inv epoch_lib claimed_core" using life_inv [OF claimed_core_life(2) epoch_mint_ok] by (simp add: startd_inv_def)
  then have ok: "slot_ok (slot_at claimed_core 1)" using claimed_core_slots(1) by (simp add: core_inv_def books_ok_def)
  then obtain cl where cl: "slot_claim (slot_at claimed_core 1) = Some cl" using slot_ok_claim by blast
  let ?rc = "essential (slot_record epoch_lib (slot_at claimed_core 1) cl None)"
  have r1: "trace_at epoch_lib claimed_core 1 = Some ?rc" and r0: "trace_at epoch_lib claimed_core 0 = None"
    using cl claimed_core_slots(2-4) by (simp_all add: trace_at_def slot_trace_def)
  have rs: "claim_records epoch_lib claimed_core = [?rc]"
    by (simp add: claim_records_def claimed_core_slots(1) map_filter_Cons r0 r1 [simplified] List.map_filter_def)
  have "record_wf ?rc" using claimed_core_slots(7,8) by (simp add: record_wf_def slot_record_def essential_def)
  moreover have "classad_ok epoch_lib" by (rule classad_ok_literal_reader) (simp_all add: epoch_lib_def example_lib_def)
  ultimately have "recordFromAd epoch_lib (toAd ?rc) = ?rc" by (intro recordFromAd_equiv) (simp_all add: ad_equiv_def)
  then have "store_List epoch_lib \<lparr>coll = [(rec_SlotName ?rc, toAd ?rc)], dir = ''/d''\<rparr> = [?rc]"
    by (simp add: store_List_def epoch_lib_def example_lib_def)
  moreover have "claimed_record ?rc" using trace_kinds(1) [OF ok r1] .
  ultimately have "store_current epoch_lib claimed_core (store_List epoch_lib \<lparr>coll = [(rec_SlotName ?rc, toAd ?rc)], dir = ''/d''\<rparr>)"
    by (simp add: store_current_def rs)
  moreover show "resumable epoch_lib (NewMinter ''<h:9618>'' 2) claimed_core"
    using trace_kinds(4) [OF ok r1] claimed_core_slots(5,6) r0 r1
    by (auto simp: resumable_def claimed_core_slots(1) mint_id_def epoch_lib_def epoch_mint_def mint_options_def
        NewMinter_def Let_def example_lib_def)
  moreover show "opts_ok next_opts"
    using example_popts_ok(1) unfolding opts_ok_def same by (simp add: example_popts_slots next_opts_def NewMinter_def in64_def)
  ultimately show "restartable epoch_lib claimed_core next_opts" by (simp add: restartable_def next_opts_def rs)
qed

lemma example_visits: "visits_all example_world"
  by (simp add: visits_all_def example_world_def)

section \<open>The properties\<close>

text \<open>
  C1. From its construction with fresh slots of distinct names on, whatever commands, timers and reports of starters arrive in whatever
  order, the startd keeps its slots consistent:
  the index by name lists exactly the live slots, no two of which share a name or a claim
  id; each slot's advertised state and activity agree with the state of its claim; a starter is
  recorded for exactly the busy slots and a keepalive runs for exactly the claimed ones; an armed match
  timer belongs to a matched slot; every dynamic slot is claimed, has its parent among the configured
  partitionable slots, and is listed among its parent's child claims. This assumes that the minting of a claim id never fails and never repeats an
  id, and that the counters do not reach their last value. It holds over any number of restarts with the same slots, provided that at each restart the store holds exactly the
  claims, every claim has a session that can be imported and an id that the new startd does not mint, and every busy claim was recorded with the socket of its starter, that is, its starter
  is a process: a busy claim of a goroutine starter is outside the statement, for the next startd takes it up as busy with no starter.
\<close>

theorem startd_consistent:
  assumes "mint_ok L" "startd_life (\<lambda>_. True) L ss c"
  shows "registry_ok c \<and> shape_ok c \<and> books_ok c \<and> children_ok c \<and> ids_ok L c \<and>
    length (events c) \<le> queue_capacity"
  using life_inv [OF assms(2,1)] by (simp add: startd_inv_def core_inv_def)

theorem startd_consistent_witness:
  "registry_ok (handle epoch_lib example_world EvAdopt (New epoch_lib next_opts))"
proof -
  have "startd_life (\<lambda>_. True) epoch_lib (opt_Slots example_popts) (handle epoch_lib example_world EvAdopt (New epoch_lib next_opts))"
    by (rule startd_life.restart [OF claimed_core_life(2) next_restartable(1,2) example_visits])
  from startd_consistent [OF epoch_mint_ok this] show ?thesis by blast
qed

text \<open>
  C2. As long as no claim request asks for a negative amount, no claim id fails to be minted or repeats, the counters do not reach their last value and the
  partitionable slots are whole when they are configured, no processor, megabyte or kilobyte is lost
  or handed out twice: in every state the startd reaches, what is left on a partitionable slot and what
  its dynamic slots hold add up to the whole slot, and neither is negative. Restarts are included when they are made with the same slots, with a store that
  holds exactly the claims (no record of a slot that was destroyed is left in it), with sessions that can be imported and ids that the new startd does not mint, and with a starter
  socket on record for every busy claim.
\<close>

theorem resources_conserved:
  assumes "mint_ok L" "whole_pslots opts" "startd_life (fair_request L) L (opt_Slots opts) c"
  shows "\<forall>p \<in> set (slots c). IsPartitionable (slot_at c p) \<longrightarrow>
    res_add (Res (slot_at c p)) (outstanding c (Name (slot_at c p))) = fullRes (slot_at c p) \<and>
    res_nonneg (Res (slot_at c p)) \<and> res_nonneg (outstanding c (Name (slot_at c p)))"
proof -
  have "account_ok c" using life_account [OF assms(3,1)] assms(2) unfolding whole_pslots_def by blast
  then show ?thesis
    by (auto simp: account_ok_def balanced_slot_def ledger_balanced_defs res_add_def res_nonneg_def)
qed

theorem resources_conserved_witness:
  "let c = handle epoch_lib example_world EvAdopt (New epoch_lib next_opts)
   in filter (\<lambda>p. IsPartitionable (slot_at c p) \<and>
        (res_add (Res (slot_at c p)) (outstanding c (Name (slot_at c p))) \<noteq> fullRes (slot_at c p) \<or>
         \<not> res_nonneg (Res (slot_at c p)))) (slots c) = []"
proof -
  have "startd_life (fair_request epoch_lib) epoch_lib (opt_Slots example_popts) (handle epoch_lib example_world EvAdopt (New epoch_lib next_opts))"
    by (rule startd_life.restart [OF claimed_core_life(1) next_restartable(1,2) example_visits])
  from resources_conserved [OF epoch_mint_ok example_popts_ok(2) this] show ?thesis
    unfolding Let_def filter_empty_conv by blast
qed

text \<open>
  C20. A restart moves no resources: what is left on each partitionable slot is the same before and after, when the startd is restarted with
  the same slots, whole as configured, with a store that holds exactly the claims (no record of a slot that was destroyed is left in it), with sessions that
  can be imported and ids that the new startd does not mint, and with a starter socket on record for every busy claim; and when up to then no request asked for a negative amount and no minting of a claim
  id failed.
\<close>

theorem restart_keeps_resources:
  assumes "mint_ok L" "whole_pslots opts" "startd_life (fair_request L) L (opt_Slots opts) c" "restartable L c opts"
  shows "\<forall>p \<in> set (slots c). IsPartitionable (slot_at c p) \<longrightarrow>
    Res (slot_at (handle L w EvAdopt (New L opts)) p) = Res (slot_at c p)"
proof -
  have inv: "core_inv L c" "configured (opt_Slots opts) c" using life_inv [OF assms(3,1)] by (simp_all add: startd_inv_def)
  have acc: "account_ok c" using life_account [OF assms(3,1)] assms(2) unfolding whole_pslots_def by blast
  have ok: "opts_ok opts" using assms(4) by (simp add: restartable_def)
  note A = restart_adopts [OF inv assms(1,4)] and F = restart_fit [OF inv assms(1,4) acc assms(2)]
  have "same_spare [] (doAdopt L w (New L opts)) (stored_records L (New L opts)) (New L opts)"
    by (rule doAdopt_account(2) [OF A(2,1) New_account [OF assms(1) ok assms(2)] F(1)])
  then have S: "\<And>p. p \<in> set (slots (New L opts)) \<Longrightarrow> IsPartitionable (slot_at (New L opts) p) \<Longrightarrow>
      spare (slot_at (doAdopt L w (New L opts)) p) [] = spare (slot_at (New L opts) p) (stored_records L (New L opts))"
    by (simp add: same_spare_def)
  have nil: "spare s [] = Res s" for s by (simp add: spare_def owed_def)
  show ?thesis
  proof (intro ballI impI)
    fix p assume p: "p \<in> set (slots c)" "IsPartitionable (slot_at c p)"
    then have "p \<in> set (slots (New L opts))" "same_slot (slot_at (New L opts) p) (slot_at c p)" using A(3) by (simp_all add: same_slots_def)
    then show "Res (slot_at (handle L w EvAdopt (New L opts)) p) = Res (slot_at c p)"
      using S [of p] F(2) [OF p] p(2) same_slotD(9) [of "slot_at (New L opts) p"] by (simp add: nil handle_def frame_simps)
  qed
qed

theorem restart_keeps_resources_witness:
  "Res (slot_at (handle epoch_lib example_world EvAdopt (New epoch_lib next_opts)) 0) = Res (slot_at claimed_core 0)"
proof -
  have l: "startd_life (fair_request epoch_lib) epoch_lib (opt_Slots next_opts) claimed_core"
    using claimed_core_life(1) by (simp add: next_restartable(2))
  have w: "whole_pslots next_opts" using example_popts_ok(2) unfolding whole_pslots_def next_restartable(2) .
  have "configured (opt_Slots example_popts) claimed_core" using life_inv [OF claimed_core_life(2) epoch_mint_ok] by blast
  then have "0 \<in> set (slots claimed_core)" "IsPartitionable (slot_at claimed_core 0)"
    using same_slotD(9) [of "slot_at claimed_core 0" "opt_Slots example_popts ! 0"]
    by (simp_all add: configured_def example_popts_slots BuildPartitionableSlot_def IsPartitionable_def)
  then show ?thesis using restart_keeps_resources [OF epoch_mint_ok w l next_restartable(1)] by blast
qed

end
