(* ===== verification/Recorded.thy ===== *)
theory Recorded
  imports Durable
begin

text \<open>
  Every handler of the event loop hands the writer the records of the slots it changes, last and in their final state. The
  one exception is the destruction of a dynamic slot: its record is deleted at once, and one that is still on its way
  comes back; here the slot is \<open>settled\<close> when it is destroyed.
\<close>

section \<open>Changes that no record shows\<close>

lemma same_trace_refl [simp]: "same_trace L s s"
  by (simp add: same_trace_def same_slot_def)

lemma same_trace_bump [simp]: "same_trace L (bump s) s" "same_trace L (SetChildClaimIDs ids s) s"
  by (auto simp: same_trace_def same_slot_def slot_trace_def bump_def SetChildClaimIDs_def slot_record_def IsDynamic_def
      split: option.split)

lemma same_trace_claim [simp]:
  "same_trace L (map_claim (ExtendLease a t) s) s" "same_trace L (map_claim (SetUpdateAd ad) s) s"
  "same_trace L (map_claim (SetFinal f x y) s) s"
  by (cases "slot_claim s"; simp add: same_trace_def slot_trace_def map_claim_def slot_record_def IsDynamic_def ExtendLease_def
      SetUpdateAd_def SetFinal_def essential_def same_slot_def EnteredCurrentState_def)+

lemma same_trace_resources:
  "\<not> IsDynamic s \<Longrightarrow> same_trace L (Carve req s) s" "\<not> IsDynamic s \<Longrightarrow> same_trace L (Restore req s) s"
  by (auto simp: same_trace_def slot_trace_def slot_record_def IsDynamic_def Carve_def Restore_def same_slot_def Let_def
      split: option.split)

lemma recorded_bump: "recorded_off L D c \<Longrightarrow> recorded_off L D (on_slot r bump c)"
  by (rule recorded_on_slot) simp_all

lemma recorded_reAdvertise [simp]: "recorded_off L D c \<Longrightarrow> recorded_off L D (reAdvertise K w c)"
proof -
  have one: "recorded_off L D (advertise_slot K w r x)" if "recorded_off L D x" for r x
    using advertise_slot_bump [of K w r x] that recorded_bump by auto
  have "recorded_off L D (fold (advertise_slot K w) rs x)" if "recorded_off L D x" for rs x
    using that by (induction rs arbitrary: x) (simp_all add: one)
  then show "recorded_off L D c \<Longrightarrow> recorded_off L D (reAdvertise K w c)" by (simp add: reAdvertise_def Advertise_def)
qed

lemma recorded_replies [simp]:
  assumes "recorded_off L D c"
  shows "recorded_off L D (snd (claimed_reply K w req r c))" "recorded_off L D (snd (leftover_reply K w req r c))"
    "recorded_off L D (snd (take_public K w r c))"
  using assms by (auto simp: claimed_reply_on_slot leftover_reply_on_slot take_public_on_slot intro: recorded_bump)

text \<open>An activation that shows the same in the record.\<close>

definition same_mark :: "activation \<Rightarrow> activation \<Rightarrow> bool" where
  "same_mark a b \<longleftrightarrow> globalJID a = globalJID b \<and> starterPid a = starterPid b \<and> socketPath a = socketPath b \<and>
     starterAddr a = starterAddr b \<and> sandbox a = sandbox b"

lemma recorded_mark:
  assumes rec: "recorded_off L D c" and a: "map_of (activations c) n = Some a" "same_mark b a"
  shows "recorded_off L D (c\<lparr>activations := AList.update n b (activations c)\<rparr>)"
proof -
  have "slot_trace L s (Some b) = slot_trace L s (Some a)" for s
    using a(2) by (auto simp: slot_trace_def slot_record_def essential_def same_mark_def)
  then show ?thesis using recorded_activations [OF rec, of "{}" "AList.update n b (activations c)"] a(1)
    by (auto simp: trace_at_def)
qed

lemma recorded_end_activation:
  assumes rec: "recorded_off L D c" and r: "r \<in> set (LiveSlots c)" "Name (slot_at c r) = n"
  shows "recorded_off L (insert r D) (end_activation n a c)" "recorded_off L (insert r D) (killActivation n c)"
proof -
  have e: "recorded_off L (insert r D) (end_activation n b x)" if "recorded_off L D x" "LiveSlots x = LiveSlots c" "slot_at x = slot_at c" for b x
    unfolding end_activation_def recorded_quiet
    by (rule recorded_activation_of [OF that(1)]) (use r that in auto)
  show "recorded_off L (insert r D) (end_activation n a c)" by (rule e [OF rec]) simp_all
  have "recorded_off L (insert r D) c" by (rule recorded_weaken [OF rec]) blast
  then show "recorded_off L (insert r D) (killActivation n c)"
    using e rec by (auto simp: killActivation_def Let_def LiveSlots_def frame_simps split: option.split)
qed

section \<open>Matching, claiming and releasing a configured slot\<close>

lemma recorded_doMatchInfo:
  assumes inv: "core_inv L c" and rec: "recorded_off L {} c"
  shows "recorded_off L {} (doMatchInfo L w cid c)"
proof -
  have "recorded_off L {} (persistSlot L r (on_slot r (SetStateActivity ''Matched'' ''Idle'' (now w)) c))"
    if r: "r \<in> set (LiveSlots c)" "slot_state (slot_at c r) = ''Unclaimed''" for r
  proof (rule recorded_persist)
    show "recorded_off L {r} (on_slot r (SetStateActivity ''Matched'' ''Idle'' (now w)) c)"
      using recorded_touch [OF rec] by simp
    have "r < length (heap c)" "slot_ok (slot_at c r)" using inv r registry_range by (auto simp: core_inv_def books_ok_def)
    then show "slot_ok (slot_at (on_slot r (SetStateActivity ''Matched'' ''Idle'' (now w)) c) r)"
      using r(2) by (auto simp: slot_at_on slot_ok_def SetStateActivity_def IsDynamic_def split: option.splits)
  qed (use r in \<open>simp add: LiveSlots_def frame_simps\<close>)
  then show ?thesis using rec
    by (auto simp: doMatchInfo_def split: option.split dest: find_claim_live)
qed

lemma recorded_unclaim:
  assumes inv: "core_inv L c" and ok: "mint_ok L" "counters_ok c" and r: "r \<in> set (LiveSlots c)" "\<not> IsDynamic (slot_at c r)"
    and d: "recorded_off L (insert r D) d" "minter d = minter c" "slot_at d = slot_at c" "LiveSlots d = LiveSlots c" "length (heap d) = length (heap c)"
  shows "recorded_off L D (persistSlot L r (unclaimSlot L w r d))"
proof -
  obtain m cl where cl: "claim_state cl = Unclaimed" and u: "unclaimSlot L w r d =
      on_slot r (SetClaimState cl ''Unclaimed'' ''Idle'' (now w)) (d\<lparr>minter := Some (m\<lparr>seq := seq m + 1\<rparr>)\<rparr>)"
    by (rule unclaim_minted [OF inv ok d(2)])
  let ?d = "d\<lparr>minter := Some (m\<lparr>seq := seq m + 1\<rparr>)\<rparr>"
  have at: "slot_at ?d = slot_at c" "LiveSlots ?d = LiveSlots c" "length (heap ?d) = length (heap c)"
    using d by (simp_all add: slot_at_def LiveSlots_def fun_eq_iff)
  have len: "r < length (heap c)" using inv r registry_range by (auto simp: core_inv_def)
  show ?thesis unfolding u
  proof (rule recorded_persist)
    show "recorded_off L (insert r D) (on_slot r (SetClaimState cl ''Unclaimed'' ''Idle'' (now w)) ?d)"
      using recorded_touch [of L "insert r D" ?d _ r] d(1) by simp
    show "slot_ok (slot_at (on_slot r (SetClaimState cl ''Unclaimed'' ''Idle'' (now w)) ?d) r)"
      using len cl r(2) at(3) d(3) by (simp add: slot_at_on slot_ok_def SetClaimState_def SetStateActivity_def IsDynamic_def)
  qed (use r at in \<open>simp add: LiveSlots_def frame_simps\<close>)
qed

lemma recorded_doMatchTimeout:
  assumes inv: "core_inv L c" and ok: "mint_ok L" "counters_ok c" and rec: "recorded_off L {} c"
  shows "recorded_off L {} (doMatchTimeout L w ev c)"
proof -
  let ?c = "c\<lparr>matchCancels := AList.delete (mt_slotName ev) (matchCancels c)\<rparr>"
  have "recorded_off L {} (persistSlot L r (unclaimSlot L w r ?c))"
    if r: "r \<in> set (LiveSlots c)" "slot_state (slot_at c r) = ''Matched''" for r
  proof (rule recorded_unclaim [OF inv ok r(1)])
    show "\<not> IsDynamic (slot_at c r)" using inv r by (auto simp: core_inv_def books_ok_def slot_ok_def split: option.splits)
    show "recorded_off L {r} ?c" using recorded_weaken [OF rec] by simp
  qed (simp_all add: slot_at_def LiveSlots_def fun_eq_iff)
  then show ?thesis using rec byName_live [OF inv]
    by (auto simp: doMatchTimeout_def Let_def slot_at_def split: option.split)
qed

lemma recorded_static_claim:
  assumes inv: "core_inv L c" and rec: "recorded_off L {} c" and r: "r \<in> set (LiveSlots c)" "claim_is Unclaimed (slot_at c r)"
    "\<not> IsDynamic (slot_at c r)"
  shows "recorded_off L {} (persistSlot L r (on_slot r (AcceptClaim t info) c))"
proof (rule recorded_persist)
  show "recorded_off L {r} (on_slot r (AcceptClaim t info) c)" using recorded_touch [OF rec] by simp
  have "r < length (heap c)" using inv r registry_range by (auto simp: core_inv_def)
  then show "slot_ok (slot_at (on_slot r (AcceptClaim t info) c) r)"
    using r(2,3) by (auto simp: slot_at_on slot_ok_def claim_is_def AcceptClaim_def SetStateActivity_def IsDynamic_def Accept_def Let_def
        split: option.splits)
qed (use r in \<open>simp add: LiveSlots_def frame_simps\<close>)

lemma recorded_release_static:
  assumes inv: "core_inv L c" and ok: "mint_ok L" "counters_ok c" and rec: "recorded_off L {} c"
    and r: "r \<in> set (LiveSlots c)" "\<not> IsDynamic (slot_at c r)"
  shows "recorded_off L {} (releaseSlot L w r c)"
proof -
  let ?n = "Name (slot_at c r)" let ?c = "cancelAliveLoop ?n (cancelMatchTimer ?n c)"
  have at: "slot_at ?c = slot_at c" "LiveSlots ?c = LiveSlots c" by (simp_all add: frame_simps LiveSlots_def)
  have "recorded_off L {r} (killActivation ?n ?c)"
    using recorded_end_activation(2) [of L "{}" ?c r ?n] rec r(1) at by simp
  then have "recorded_off L {} (persistSlot L r (unclaimSlot L w r (killActivation ?n ?c)))"
    by (intro recorded_unclaim [OF inv ok r]) (simp_all add: frame_simps LiveSlots_def)
  then show ?thesis using r(2) by (simp add: releaseSlot_def Let_def frame_simps)
qed

section \<open>Dynamic slots\<close>

lemma recorded_carved:
  assumes rec: "recorded_off L {} c" and live: "ps \<in> set (LiveSlots c)" and lt: "ps < length (heap c)"
    and nd: "\<not> IsDynamic (slot_at c ps)" and ok: "slot_ok (slot_at c ps)"
    and d: "slot_ok d" "Name d \<notin> live_names c" "Name d \<noteq> []" "ParentName d \<noteq> []"
  shows "recorded_off L {} (carved L ps req d c)"
proof -
  let ?x = "length (heap c)" let ?a = "addDSlot d (on_slot ps (Carve req) c)" let ?b = "refreshPSlotChildren ps ?a"
  have c1: "recorded_off L {} (on_slot ps (Carve req) c)"
    by (rule recorded_on_slot [OF rec]) (rule same_trace_resources(1) [OF nd])
  have "Name (slot_at (on_slot ps (Carve req) c) q) = Name (slot_at c q)" for q by (simp add: slot_at_on Carve_def)
  then have "live_names (on_slot ps (Carve req) c) = live_names c" by (simp add: live_names_def LiveSlots_def frame_simps)
  then have "recorded_off L {?x} ?a" using recorded_add [OF c1, of d] d by (simp add: on_slot_def)
  then have b: "recorded_off L {?x} ?b" unfolding refreshPSlotChildren_def by (rule recorded_on_slot) simp
  have at: "slot_at ?b = slot_at (carved L ps req d c)" by (simp add: carved_def frame_simps)
  have "quiet_slot (slot_at ?b ps) (slot_at c ps)"
    using lt by (simp add: at slot_at_carved quiet_slot_ops(1))
  then have B: "LiveSlots ?b = LiveSlots c @ [?x]" "slot_at ?b ?x = d" "slot_ok (slot_at ?b ps) = slot_ok (slot_at c ps)"
    using lt quiet_slot_ok(1) by (simp_all add: at slot_at_carved) (simp_all add: LiveSlots_def frame_simps refreshPSlotChildren_def)
  have p1: "recorded_off L {ps} (persistSlot L ?x ?b)"
    by (rule recorded_persist) (use recorded_weaken [OF b, of "{?x, ps}"] B d(1) in \<open>simp_all\<close>)
  have "recorded_off L {} (persistSlot L ps (persistSlot L ?x ?b))"
    by (rule recorded_persist [OF p1]) (use live B ok in \<open>simp_all add: frame_simps LiveSlots_def\<close>)
  then show ?thesis by (simp add: carved_def)
qed

lemma recorded_PSlot:
  assumes inv: "core_inv L c" and ok: "mint_ok L" "counters_ok c" and rec: "recorded_off L {} c" and ps: "ps \<in> set (slots c)"
  shows "recorded_off L {} (doRequestClaimPSlot L w ev ps c)"
proof -
  obtain m cl where m: "minter c = Some m" and mint: "Mint L m = (m\<lparr>seq := seq m + 1\<rparr>, Inr cl)" and seq: "in64 (dslotSeq c + 1)"
    by (rule next_mint [OF inv ok])
  have live: "ps \<in> set (LiveSlots c)" and s: "\<not> IsDynamic (slot_at c ps)" "ps < length (heap c)" "slot_ok (slot_at c ps)"
    using inv ps registry_range [of c ps] by (simp_all add: core_inv_def LiveSlots_def shape_ok_def books_ok_def)
  let ?req = "requestedResources L (rc_reqAd ev)" let ?m = "m\<lparr>seq := seq m + 1\<rparr>"
  let ?c1 = "c\<lparr>minter := Some ?m, dslotSeq := dslotSeq c + 1\<rparr>"
  let ?N = "NewDynamicSlot (slot_at c ps) (dslotSeq c + 1) ?req (now w)"
  let ?d = "accepted_dslot (now w) (accept_info L w ev ?c1) cl ?N"
  note D = same_slotD [OF accepted_dslot_fields(1), of "now w" "accept_info L w ev ?c1" cl ?N]
  have at: "slot_at ?c1 = slot_at c" "LiveSlots ?c1 = LiveSlots c" "live_names ?c1 = live_names c" "length (heap ?c1) = length (heap c)"
    by (simp_all add: slot_at_def LiveSlots_def live_names_def fun_eq_iff)
  have "recorded_off L {} (carved L ps ?req ?d ?c1)"
  proof (rule recorded_carved)
    show "Name ?d \<notin> live_names ?c1"
    proof
      assume "Name ?d \<in> live_names ?c1"
      then obtain r where "r \<in> set (LiveSlots c)" "Name (slot_at c r) = dslot_name (slot_at c ps) (dslotSeq c + 1)"
        unfolding at D(1) by (auto simp: live_names_def NewDynamicSlot_def)
      then show False using dslot_name_fresh [of c r "dslotSeq c + 1" "slot_at c ps"] inv by (simp add: core_inv_def)
    qed
    show "Name ?d \<noteq> []" unfolding D(1) by (simp add: NewDynamicSlot_def dslot_name_def)
    have "Name (slot_at c ps) \<noteq> []" using rec live by (simp add: recorded_off_def named_def)
    then show "ParentName ?d \<noteq> []" unfolding D(5) by (simp add: NewDynamicSlot_def)
  qed (use rec live s at in simp_all)
  then have "recorded_off L {} (pslot_carved L w ev ps ?m cl c)" using seq by (simp add: pslot_carved_def Let_def slot_at_def)
  then show ?thesis using rec by (simp add: doRequestClaimPSlot_minted [OF m mint] Let_def)
qed

lemma recorded_doRequestClaim:
  assumes inv: "core_inv L c" and ok: "mint_ok L" "counters_ok c" and rec: "recorded_off L {} c"
  shows "recorded_off L {} (doRequestClaim L w ev c)"
proof (cases "findSlotByClaimID (rc_claimID ev) c")
  case None
  then show ?thesis using rec by (simp add: doRequestClaim_def)
next
  case (Some r)
  then have live: "r \<in> set (LiveSlots c)" using find_claim_live by blast
  have so: "slot_ok (slot_at c r)" and shape: "shape_ok c" using inv live by (simp_all add: core_inv_def books_ok_def)
  let ?c1 = "cancelMatchTimer (Name (slot_at c r)) c"
  have c1: "core_inv L ?c1" "counters_ok ?c1" "recorded_off L {} ?c1" "slot_at ?c1 = slot_at c" "LiveSlots ?c1 = LiveSlots c"
    using inv_cancelMatchTimer [OF inv live] ok rec by (simp_all add: counters_ok_def frame_simps LiveSlots_def)
  have nd: "\<not> IsDynamic (slot_at c r)" if "claim_is Unclaimed (slot_at c r)"
    using so that by (auto simp: slot_ok_def claim_is_def split: option.splits)
  then have "r \<in> set (slots c)" if "claim_is Unclaimed (slot_at c r)" using live shape that by (auto simp: LiveSlots_def shape_ok_def)
  then have "recorded_off L {} (doRequestClaimPSlot L w ev r ?c1)" if "claim_is Unclaimed (slot_at c r)"
    using recorded_PSlot [OF c1(1) ok(1) c1(2,3), of r] that by (simp add: frame_simps)
  moreover have "recorded_off L {} (persistSlot L r (on_slot r (AcceptClaim (now w) info) ?c1))" if "claim_is Unclaimed (slot_at c r)" for info
    using recorded_static_claim [OF c1(1,3)] live that nd c1(4,5) by simp
  ultimately show ?thesis using Some rec
    by (auto simp: doRequestClaim_def Let_def case_prod_beta claim_is_def split: option.split)
qed

lemma recorded_release_dynamic:
  assumes inv: "core_inv L c" and lib: "store_lib_ok L" and rec: "recorded_off L {} c" and r: "r \<in> set (dslots c)"
    and s: "settled c (Name (slot_at c r))"
  shows "recorded_off L {} (releaseSlot L w r c)"
proof -
  let ?n = "Name (slot_at c r)" let ?c = "close_books ?n c"
  from release_dynamic_setup [OF inv r] obtain p where p: "p \<in> set (slots c)" "p < length (heap c)"
    and rel: "releaseSlot L w r c = reAdvertise L w (persistSlot L p (restored L w r p ?c))"
    and drop: "drop_named (heap c) ?n (dslots c) = filter (\<lambda>q. q \<noteq> r) (dslots c)" by blast
  have live: "r \<in> set (LiveSlots c)" "p \<in> set (LiveSlots c)" using r p by (simp_all add: LiveSlots_def)
  have nd: "\<not> IsDynamic (slot_at c p)" and ok: "slot_ok (slot_at c p)" and rs: "r \<notin> set (slots c)"
    using inv p live r by (auto simp: core_inv_def shape_ok_def books_ok_def registry_ok_def LiveSlots_def)
  let ?b = "cancelAliveLoop ?n (cancelMatchTimer ?n c)"
  have "recorded_off L {r} ?c" unfolding close_books_def
    using recorded_end_activation(2) [of L "{}" ?b r ?n] rec live by (simp add: LiveSlots_def frame_simps)
  moreover have "persister_of ?c = persister_of c"
    by (simp add: close_books_def killActivation_def end_activation_def cancelAliveLoop_def cancelMatchTimer_def
        emit_def Let_def split: option.split)
  then have "settled ?c ?n" using s by (simp add: settled_def)
  ultimately have "recorded_off L {} (store_delete L ?n (removeDSlot ?n ?c))"
    by (intro recorded_remove [OF _ lib]) (use r rs drop in \<open>simp_all add: frame_simps\<close>)
  then have "recorded_off L {} (unlisted L w r ?c)" by (simp add: unlisted_def Let_def frame_simps)
  then have "recorded_off L {} (on_slot p (Restore (Res (slot_at ?c r))) (unlisted L w r ?c))"
    by (rule recorded_on_slot) (use nd in \<open>simp add: same_trace_resources frame_simps\<close>)
  then have "recorded_off L {} (restored L w r p ?c)" unfolding restored_def refreshPSlotChildren_def by (rule recorded_on_slot) simp
  moreover have "p \<in> set (LiveSlots (restored L w r p ?c))" using p(1) by (simp add: LiveSlots_def frame_simps)
  moreover have "quiet_slot (slot_at (restored L w r p ?c) p) (slot_at c p)"
    using p(2) by (simp add: slot_at_restored frame_simps quiet_slot_ops(5))
  then have "slot_ok (slot_at (restored L w r p ?c) p)" using ok quiet_slot_ok(1) by blast
  ultimately have "recorded_off L {} (persistSlot L p (restored L w r p ?c))"
    by (intro recorded_persist) (auto intro: recorded_weaken)
  then show ?thesis by (simp add: rel)
qed

section \<open>Starters\<close>

lemma recorded_claim_reports:
  assumes "core_inv L c" "recorded_off L {} c"
  shows "recorded_off L {} (doAliveOK w n c)" "recorded_off L {} (doStarterUpdate su c)" "recorded_off L {} (doStarterFinal sf c)"
  using assms by (auto simp: doAliveOK_def doStarterUpdate_def doStarterFinal_def split: option.split
      intro!: recorded_on_slot)

lemma recorded_vacates:
  assumes "recorded_off L {} c"
  shows "recorded_off L {} (doVacate va c)" "recorded_off L {} (doVacateEscalate ve c)" "recorded_off L {} (doDeactivate de c)"
    "relay_vacate n c = Some (m, d) \<Longrightarrow> recorded_off L {} d"
  using assms by (auto simp: doVacate_def doVacateEscalate_def doDeactivate_def relay_vacate_def Let_def send_vacate_def same_mark_def
      split: option.splits list.splits intro!: recorded_mark)

lemma recorded_doStarterHello:
  assumes inv: "core_inv L c" and rec: "recorded_off L {} c"
  shows "recorded_off L {} (doStarterHello L ev c)"
proof (cases "map_of (activations c) (sh_slotName ev)")
  case None
  then show ?thesis using rec by (simp add: doStarterHello_def)
next
  case (Some a)
  from activation_busy [OF inv Some] obtain r where r: "map_of (byName c) (sh_slotName ev) = Some r"
    "r \<in> set (LiveSlots c)" "Name (slot_at c r) = sh_slotName ev" by blast
  have ok: "slot_ok (slot_at c r)" using inv r by (simp add: core_inv_def books_ok_def)
  have "recorded_off L {} (persistSlot L r (c\<lparr>activations := AList.update (sh_slotName ev) b (activations c)\<rparr>))" for b
    by (rule recorded_persist [OF recorded_activation_of [OF rec r(2,3)]]) (use r ok in simp_all)
  moreover have "recorded_off L {} (c\<lparr>activations := AList.update (sh_slotName ev) a (activations c)\<rparr>)"
    by (rule recorded_mark [OF rec Some]) (simp add: same_mark_def)
  ultimately show ?thesis using Some r(1) by (simp add: doStarterHello_def Let_def)
qed

text \<open>The activation of a busy slot ends and the claim goes back to idle.\<close>

lemma recorded_wind_down:
  assumes inv: "core_inv L c" and a: "map_of (activations c) n = Some a" and r: "map_of (byName c) n = Some r"
    and d: "recorded_off L {r} d" "slot_at d = slot_at c" "LiveSlots d = LiveSlots c" "length (heap d) = length (heap c)"
    and f: "\<And>cl. claim_state (f cl) = claim_state cl"
  shows "recorded_off L {} (persistSlot L r (on_slot r (\<lambda>s. set_idle w (map_claim f s)) d))"
proof (rule recorded_persist)
  from activation_busy [OF inv a] r have b: "claim_is ClaimedBusy (slot_at c r)" "r \<in> set (LiveSlots c)" "r < length (heap c)" by auto
  let ?g = "\<lambda>s. set_idle w (map_claim f s)"
  have "same_slot (?g s) s" for s by (rule same_slot_trans [OF same_slot_set_idle same_slot_ops(3)])
  then show "recorded_off L {r} (on_slot r ?g d)" using recorded_touch [of L "{r}" d ?g r] d(1) by simp
  show "r \<in> set (LiveSlots (on_slot r ?g d))" using b(2) d(3) by (simp add: LiveSlots_def)
  have "slot_ok (slot_at c r)" using inv b by (simp add: core_inv_def books_ok_def)
  then show "slot_ok (slot_at (on_slot r ?g d) r)"
    using b(1,3) d f by (auto simp: slot_at_on slot_preds split: option.splits)
qed

lemma recorded_ended:
  assumes inv: "core_inv L c" and rec: "recorded_off L {} c" and a: "map_of (activations c) n = Some a" and r: "map_of (byName c) n = Some r"
  shows "recorded_off L {r} (end_activation n a c)" "slot_at (end_activation n a c) = slot_at c"
    "LiveSlots (end_activation n a c) = LiveSlots c" "length (heap (end_activation n a c)) = length (heap c)"
  using recorded_end_activation(1) [OF rec, of r n a] byName_live [OF inv r] by (simp_all add: frame_simps LiveSlots_def)

lemma recorded_doStarterExited:
  assumes inv: "core_inv L c" and rec: "recorded_off L {} c"
  shows "recorded_off L {} (doStarterExited L w n c)"
proof (cases "map_of (activations c) n")
  case None
  then show ?thesis using rec by (simp add: doStarterExited_def)
next
  case (Some a)
  from activation_busy [OF inv Some] obtain r where r: "map_of (byName c) n = Some r" "claim_is ClaimedBusy (slot_at c r)" by blast
  have id: "map_claim (\<lambda>cl. cl) s = s" for s by (simp add: map_claim_def option.map_ident)
  let ?d = "releaseDeferredDeactivate n (end_activation n a c)"
  have "recorded_off L {} (persistSlot L r (on_slot r (set_idle w) ?d))"
    using recorded_wind_down [OF inv Some r(1), of ?d "\<lambda>cl. cl" w] recorded_ended [OF inv rec Some r(1)]
    by (simp add: id frame_simps LiveSlots_def)
  then show ?thesis using Some r by (simp add: doStarterExited_def frame_simps Let_def)
qed

lemma recorded_launch:
  assumes la: "launch_starter w r a c = Inr (a', d)" and rec: "recorded_off L {} c" and r: "r \<in> set (LiveSlots c)"
  shows "recorded_off L {r} d"
proof -
  let ?n = "Name (slot_at c r)"
  have "recorded_off L {r} (c\<lparr>activations := AList.update ?n b (activations c)\<rparr>)" for b
    by (rule recorded_activation_of [OF rec r refl]) simp
  moreover have "(emit x c)\<lparr>activations := y\<rparr> = emit x (c\<lparr>activations := y\<rparr>)" for x y by (simp add: emit_def)
  ultimately show ?thesis using la by (auto simp: launch_starter_def Let_def split: if_splits sum.splits prod.splits)
qed

lemma recorded_doActivateClaim:
  assumes inv: "core_inv L c" and rec: "recorded_off L {} c"
  shows "recorded_off L {} (doActivateClaim L w ev c)"
proof (cases "findSlotByClaimID (ac_claimID ev) c")
  case None
  then show ?thesis using rec by (simp add: doActivateClaim_def)
next
  case (Some r)
  then have r: "r \<in> set (LiveSlots c)" "r < length (heap c)" "slot_ok (slot_at c r)"
    using inv find_claim_live [OF Some] by (auto simp: core_inv_def books_ok_def dest: registry_range)
  let ?f = "\<lambda>s. SetStateActivity ''Claimed'' ''Busy'' (now w) (map_claim (SetBusy (now w)) s)"
  let ?c1 = "c\<lparr>sandboxSeq := wrap64 (sandboxSeq c + 1)\<rparr>"
  let ?c2 = "?c1\<lparr>activationGen := wrap64 (activationGen ?c1 + 1), fresh := Suc (fresh ?c1)\<rparr>" let ?c3 = "on_slot r bump ?c2"
  have c3: "recorded_off L {} ?c3" by (rule recorded_bump) (use rec in simp)
  have ok: "recorded_off L {} (persistSlot L r (on_slot r ?f (emit e d)))"
    if la: "launch_starter w r a ?c3 = Inr (a', d)" and may: "may_activate L w ev r c" for a a' d e
  proof (rule recorded_persist)
    have r3: "r \<in> set (LiveSlots ?c3)" using r by (simp add: LiveSlots_def)
    have same: "same_slot (?f s) s" for s by (rule same_slot_trans [OF same_slot_ops(1) same_slot_ops(3)])
    show "recorded_off L {r} (on_slot r ?f (emit e d))"
      using recorded_touch [of L "{r}" "emit e d" ?f r] recorded_launch [OF la c3 r3] same by simp
    have d: "slot_at d r = bump (slot_at c r)" "length (heap d) = length (heap c)" "LiveSlots d = LiveSlots c"
      using launch_frame(1,2) [OF la] r(2) by (simp_all add: slot_at_def on_slot_def LiveSlots_def touches_def)
    show "r \<in> set (LiveSlots (on_slot r ?f (emit e d)))" using r(1) d(3) by (simp add: LiveSlots_def frame_simps)
    show "slot_ok (slot_at (on_slot r ?f (emit e d)) r)"
      using may r(2,3) d by (auto simp: slot_at_on frame_simps may_activate_def slot_preds bump_def split: option.splits)
  qed
  show ?thesis using Some rec c3 take_public_on_slot [of L w r ?c2] ok
    by (cases "may_activate L w ev r c") (auto simp: doActivateClaim_def Let_def split: sum.split prod.split)
qed

section \<open>Every event\<close>

text \<open>The dynamic slots that a step destroys have no record on its way.\<close>

definition tidy :: "'c Core \<Rightarrow> 'c Core \<Rightarrow> bool" where
  "tidy c d \<longleftrightarrow> (\<forall>r \<in> set (dslots c). r \<in> set (dslots d) \<or> settled c (Name (slot_at c r)))"

lemma recorded_releaseSlot:
  assumes inv: "core_inv L c" and lib: "store_lib_ok L" and ok: "mint_ok L" "counters_ok c" and rec: "recorded_off L {} c"
    and r: "r \<in> set (LiveSlots c)" and t: "tidy c (releaseSlot L w r c)"
  shows "recorded_off L {} (releaseSlot L w r c)"
proof (cases "r \<in> set (dslots c)")
  case True
  from release_dynamic_setup [OF inv True] obtain p
    where rel: "releaseSlot L w r c = reAdvertise L w (persistSlot L p (restored L w r p (close_books (Name (slot_at c r)) c)))"
      and drop: "drop_named (heap c) (Name (slot_at c r)) (dslots c) = filter (\<lambda>q. q \<noteq> r) (dslots c)" by blast
  have "dslots (releaseSlot L w r c) = filter (\<lambda>q. q \<noteq> r) (dslots c)"
    unfolding rel view_eq_fields(2) [OF view_reAdvertise] using drop by (simp add: frame_simps)
  then have "settled c (Name (slot_at c r))" using t True by (auto simp: tidy_def)
  then show ?thesis by (rule recorded_release_dynamic [OF inv lib rec True])
next
  case False
  then have "\<not> IsDynamic (slot_at c r)" using inv r by (auto simp: core_inv_def shape_ok_def LiveSlots_def)
  then show ?thesis by (rule recorded_release_static [OF inv ok rec r])
qed

lemma recorded_doAdoptFailed:
  assumes inv: "core_inv L c" and lib: "store_lib_ok L" and ok: "mint_ok L" "counters_ok c" and rec: "recorded_off L {} c"
    and t: "tidy c (doAdoptFailed L w n c)"
  shows "recorded_off L {} (doAdoptFailed L w n c)"
proof (cases "map_of (activations c) n")
  case None
  then show ?thesis using rec by (simp add: doAdoptFailed_def)
next
  case (Some a)
  from activation_busy [OF inv Some] obtain r where r: "map_of (byName c) n = Some r" "claim_is ClaimedBusy (slot_at c r)"
    "r \<in> set (LiveSlots c)" by blast
  show ?thesis
  proof (cases "readExitMarker w (sandbox a)")
    case None
    then have "doAdoptFailed L w n c = releaseSlot L w r c" using Some r by (simp add: doAdoptFailed_def)
    then show ?thesis using recorded_releaseSlot [OF inv lib ok rec r(3)] t by simp
  next
    case (Some m)
    have "recorded_off L {} (persistSlot L r (on_slot r (\<lambda>s. set_idle w (map_claim (SetFinal f x y) s)) (end_activation n a c)))" for f x y
      by (rule recorded_wind_down [OF inv \<open>map_of (activations c) n = Some a\<close> r(1) recorded_ended [OF inv rec \<open>map_of (activations c) n = Some a\<close> r(1)]])
        (simp add: SetFinal_def)
    then show ?thesis using Some r \<open>map_of (activations c) n = Some a\<close> by (simp add: doAdoptFailed_def frame_simps Let_def)
  qed
qed

lemma recorded_handle:
  assumes inv: "core_inv L c" and lib: "store_lib_ok L" and ok: "mint_ok L" "counters_ok c" and rec: "recorded_off L {} c"
    and e: "ev \<noteq> EvAdopt" and t: "tidy c (handle L w ev c)"
  shows "recorded_off L {} (handle L w ev c)"
proof (cases ev)
  case (EvReleaseClaim cid)
  then show ?thesis using assms recorded_releaseSlot [OF inv lib ok rec]
    by (auto simp: handle_def doReleaseByClaimID_def split: option.splits dest: find_claim_live)
next
  case (EvReleaseSlot x)
  then show ?thesis using assms recorded_releaseSlot [OF inv lib ok rec]
    by (auto simp: handle_def doReleaseSlot_def split: option.splits dest: byName_live [OF inv])
qed (use assms in \<open>simp_all add: handle_def recorded_doMatchInfo recorded_doMatchTimeout recorded_doRequestClaim
      recorded_claim_reports recorded_doActivateClaim recorded_doStarterExited
      recorded_doStarterHello recorded_doAdoptFailed recorded_vacates\<close>)

end
