(* ===== verification/Lives.thy ===== *)
theory Lives
  imports Restart Recorded
begin

text \<open>
  Claims across restarts, without an assumption on what is in the store. In every state of a startd the records it has
  written or handed to its writer describe its claims; stopping it writes the rest; and a startd that has adopted the records describes
  its claims by them again.
\<close>

section \<open>Every step keeps the claims recorded\<close>

lemma recorded_step:
  assumes lib: "store_lib_ok L" and ok: "mint_ok L" and s: "startd_step P L c d" and inv: "startd_inv P L c"
    and rec: "recorded_off L {} c" and t: "tidy c d"
  shows "recorded_off L {} d"
  using s
proof (cases rule: startd_step.cases)
  case (submit ev)
  then show ?thesis using rec by (simp add: Submit_def)
next
  case (event w)
  show ?thesis
  proof (cases "events c")
    case Nil
    then show ?thesis using event rec by (simp add: loop_step_def)
  next
    case (Cons ev evs)
    let ?c = "c\<lparr>events := evs\<rparr>"
    have v: "core_view ?c = core_view c" by (simp add: core_view_def)
    have "core_inv L ?c" using inv core_inv_view [OF v, of L] by (simp add: startd_inv_def)
    moreover have "counters_ok ?c" using event by (simp add: counters_ok_def)
    moreover have "ev \<noteq> EvAdopt" using inv Cons by (simp add: startd_inv_def)
    moreover have d: "d = handle L w ev ?c" using event(1) Cons by (simp add: loop_step_def)
    moreover have "tidy ?c d" using t by (simp add: tidy_def settled_def slot_at_def)
    ultimately show ?thesis using recorded_handle [OF _ lib ok, of ?c ev w] rec by simp
  qed
next
  case (tick w)
  then show ?thesis using rec by (simp add: loop_step_def)
next
  case (persist w)
  then show ?thesis using writes_recorded [OF writes_persister_run [OF lib] rec] by simp
next
  case (relay n m)
  then show ?thesis using recorded_vacates(4) [OF rec] by blast
qed

section \<open>What is left behind\<close>

lemma stored_Get:
  assumes "store_lib_ok L"
  shows "rc \<in> set (store_List L st) \<longleftrightarrow> (\<exists>n. Get L st n = Some rc)"
proof -
  have "set (coll_scan L (coll st)) = ran (coll_get L (coll st))"
    by (rule collection_scan) (use assms in \<open>simp add: store_lib_ok_def\<close>)
  then show ?thesis by (auto simp: store_List_def Get_def ran_def)
qed

lemma map_Some_names: "map Some xs = map f ks \<Longrightarrow> (\<And>k r. f k = Some r \<Longrightarrow> g r = k) \<Longrightarrow> map g xs = ks"
  by (induction xs arbitrary: ks) (auto simp: Cons_eq_map_conv)

lemma distinct_map_filter_pred: "distinct (map g xs) \<Longrightarrow> distinct (map g (filter P xs))"
  by (simp add: distinct_map inj_on_subset [of g "set xs"])

lemma stored_distinct:
  assumes "store_lib_ok L" "\<And>n r. Get L st n = Some r \<Longrightarrow> rec_SlotName r = n"
  shows "distinct (map rec_SlotName (store_List L st))"
proof -
  obtain ks where ks: "distinct ks" "map Some (coll_scan L (coll st)) = map (coll_get L (coll st)) ks"
    using assms(1) unfolding store_lib_ok_def collection_ok_def by metis
  have "map Some (store_List L st) = map (Get L st) ks"
  proof -
    have "map Some (store_List L st) = map (map_option (recordFromAd L)) (map Some (coll_scan L (coll st)))"
      by (simp add: store_List_def)
    then show ?thesis unfolding ks(2) by (simp add: Get_def)
  qed
  from map_Some_names [OF this assms(2)] show ?thesis using ks(1) by simp
qed

lemma settled_current:
  assumes lib: "store_lib_ok L" and di: "distinct (LiveSlots c)" and so: "\<And>r. r \<in> set (LiveSlots c) \<Longrightarrow> slot_ok (slot_at c r)"
    and rec: "recorded_off L {} c" and s: "\<And>n. settled c n" and st: "store c = Some st"
  shows "store_current L c (store_List L st)"
proof -
  obtain p where p: "persister_of c = Some p" "\<And>n r. Get L st n = Some r \<Longrightarrow> rec_SlotName r = n"
    using rec st by (auto simp: recorded_off_def writer_ok_def split: option.splits)
  have lat: "latest L c n = Get L st n" for n using s [of n] st p(1) by (simp add: latest_def settled_def)
  let ?rs = "map essential (filter claimed_record (store_List L st))"
  have inj: "inj_on (\<lambda>r. Name (slot_at c r)) (set (LiveSlots c))" using rec by (simp add: recorded_off_def named_def)
  have "map rec_SlotName ?rs = map rec_SlotName (filter claimed_record (store_List L st))" by simp
  then have "distinct (map rec_SlotName ?rs)" using stored_distinct [OF lib p(2)] distinct_map_filter_pred by metis
  then have d1: "distinct ?rs" by (simp only: distinct_map)
  have "distinct (map rec_SlotName (claim_records L c))"
    unfolding claim_records_def using trace_kinds(3) so by (blast intro: distinct_map_filter [OF di inj])
  then have d2: "distinct (claim_records L c)" by (simp only: distinct_map)
  have "t \<in> set ?rs \<longleftrightarrow> t \<in> set (claim_records L c)" for t
  proof
    assume "t \<in> set ?rs"
    then obtain rc n where rc: "t = essential rc" "claimed_record rc" "Get L st n = Some rc" by (auto simp: stored_Get [OF lib])
    have n: "n \<in> live_names c"
    proof (rule ccontr)
      assume "n \<notin> live_names c"
      then have "matches (Some rc) None" using rec rc(3) lat by (metis recorded_off_def)
      then show False using rc(2) by (simp add: matches_def)
    qed
    then obtain r where r: "r \<in> set (LiveSlots c)" "Name (slot_at c r) = n" by (auto simp: live_names_def)
    then have "matches (Some rc) (trace_at L c r)" using rec rc(3) lat by (auto simp: recorded_off_def)
    then have "trace_at L c r = Some t" using rc(1,2) by (auto simp: matches_def split: option.splits)
    then show "t \<in> set (claim_records L c)" using r in_claim_records by metis
  next
    assume "t \<in> set (claim_records L c)"
    then obtain r where r: "r \<in> set (LiveSlots c)" "trace_at L c r = Some t" by (auto simp: in_claim_records)
    then have "matches (Get L st (Name (slot_at c r))) (Some t)" using rec lat by (auto simp: recorded_off_def)
    then obtain rc where rc: "Get L st (Name (slot_at c r)) = Some rc" "essential rc = t" by (auto simp: matches_def)
    have "claimed_record rc" using trace_kinds(1) [OF so [OF r(1)] r(2)] rc(2) by auto
    then show "t \<in> set ?rs" using rc stored_Get [OF lib] by auto
  qed
  then show ?thesis using set_eq_iff_mset_eq_distinct [OF d1 d2] unfolding store_current_def by blast
qed

text \<open>The store of a startd that was stopped, or that died when its writer had nothing left to do.\<close>

definition leaves :: "('c, 'x) persist_api_scheme \<Rightarrow> 'c Core \<Rightarrow> 'c Store \<Rightarrow> bool" where
  "leaves L c st \<longleftrightarrow> (\<exists>v. visits_all v \<and> store (Stop L v c) = Some st) \<or> (\<forall>n. settled c n) \<and> store c = Some st"

lemma leaves_current:
  assumes lib: "store_lib_ok L" and inv: "core_inv L c" and rec: "recorded_off L {} c" and st: "leaves L c st"
  shows "store_current L c (store_List L st)" "\<And>n r. Get L st n = Some r \<Longrightarrow> rec_SlotName r = n"
proof -
  obtain d where d: "same_core c d" "recorded_off L {} d" "\<And>n. settled d n" "store d = Some st"
  proof -
    obtain p where p: "persister_of c = Some p" using rec writer_running [of L c] by (auto simp: recorded_off_def)
    have "same_core c c" by (simp add: same_core_def)
    moreover have "same_core c (Stop L v c)" "recorded_off L {} (Stop L v c)" if "visits_all v" for v
      using writes_stop(1) [OF p lib that] writes_recorded [OF _ rec] by (simp_all add: writes_def)
    ultimately show thesis using that st writes_stop(2) [OF p lib] rec unfolding leaves_def by metis
  qed
  note S = same_core_traces(1,3) [OF d(1)] same_core_traces(2) [OF d(1), of L]
  have "store_current L d (store_List L st)"
    by (rule settled_current [OF lib _ _ d(2-4)]) (use inv S in \<open>simp_all add: core_inv_def registry_ok_def books_ok_def\<close>)
  moreover have "claim_records L d = claim_records L c" by (simp add: claim_records_def S)
  ultimately show "store_current L c (store_List L st)" by (simp add: store_current_def)
  show "\<And>n r. Get L st n = Some r \<Longrightarrow> rec_SlotName r = n"
    using d(2,4) by (auto simp: recorded_off_def writer_ok_def split: option.splits)
qed

section \<open>What is taken up\<close>

lemma core_named:
  assumes reg: "registry_ok c" and shape: "shape_ok c"
  shows "named c"
proof -
  have "Name (slot_at c r) \<noteq> []" if "r \<in> set (slots c)" for r
    using shape that by (simp add: shape_ok_def config_name_def)
  moreover have "Name (slot_at c r) \<noteq> [] \<and> (\<exists>p \<in> set (slots c). Name (slot_at c p) = ParentName (slot_at c r))" if r: "r \<in> set (dslots c)" for r
  proof -
    have "Name (slot_at c r) = dslot_name (slot_at c r) (SubID (slot_at c r))" "\<exists>p \<in> set (slots c). parent_of (slot_at c p) (slot_at c r)"
      using shape r by (auto simp: shape_ok_def)
    then show ?thesis by (auto simp: dslot_name_def parent_of_def)
  qed
  moreover have "\<not> IsDynamic (slot_at c r)" if "r \<in> set (slots c)" for r using shape that by (simp add: shape_ok_def)
  moreover have "inj_on (\<lambda>r. Name (slot_at c r)) (set (LiveSlots c))" by (rule inj_onI) (use registry_name_inj [OF reg] in blast)
  ultimately show ?thesis using registry_range [OF reg] by (fastforce simp: named_def LiveSlots_def)
qed

lemma resumed_trace:
  assumes r: "resumed c r d" "trace_at L c r = Some t" and q: "map_of (byName d) (Name (slot_at c r)) = Some q" "Name (slot_at d q) = Name (slot_at c r)"
  shows "trace_at L d q = Some t"
proof -
  let ?n = "Name (slot_at c r)"
  obtain cl where cl: "slot_claim (slot_at c r) = Some cl" "slot_state (slot_at c r) = ''Claimed''"
    "t = essential (slot_record L (slot_at c r) cl (map_of (activations c) ?n))"
    using r(2) by (auto simp: trace_at_def slot_trace_def split: if_splits)
  have same: "same_claim (slot_at c r) (slot_at d q)" using r(1) q(1) by (simp add: resumed_def Let_def)
  then obtain cl' where cl': "slot_claim (slot_at d q) = Some cl'" "same_terms cl cl'"
    using cl(1) by (auto simp: same_claim_def split: option.splits)
  have dyn: "IsDynamic (slot_at d q) = IsDynamic (slot_at c r)" using same by (simp add: same_claim_def IsDynamic_def)
  have act: "(map_of (activations c) ?n = None \<and> map_of (activations d) ?n = None) \<or>
      (\<exists>a b. map_of (activations c) ?n = Some a \<and> map_of (activations d) ?n = Some b \<and> same_job a b)"
    using r(1) by (auto simp: resumed_def Let_def split: option.splits)
  show ?thesis using same cl cl' dyn act q(2)
    by (auto simp: trace_at_def slot_trace_def same_claim_def same_terms_def same_job_def slot_record_def essential_def)
qed

lemma adopt_claim_store [simp]: "store (adopt_claim L rc r c) = store c" "persister_of (adopt_claim L rc r c) = persister_of c"
  by (simp_all add: adopt_claim_def redial_starter_def startAliveLoop_def on_slot_def emit_def Let_def split: option.split)

lemma recarved_store [simp]: "store (recarved rc p c) = store c" "persister_of (recarved rc p c) = persister_of c"
  by (simp_all add: recarved_def addDSlot_def on_slot_def Let_def)

lemma adopt_record_store:
  assumes reg: "registry_ok c" and ad: "claimed_record rc \<longrightarrow> adoptable L c rc \<and> can_hold c rc"
    and st: "adopt_record L rc (k, tch, c) = (k', tch', d)"
  shows "store d = store c \<and> persister_of d = persister_of c"
proof (cases "claimed_record rc")
  case cl: True
  show ?thesis
  proof (cases "dynamic_record rc")
    case True
    then obtain p where p: "p \<in> set (slots c)" "Name (slot_at c p) = rec_ParentSlotName rc"
      "rec_SlotName rc = dslot_name (slot_at c p) (rec_DSlotSubID rc)" "rec_SlotName rc \<notin> live_names c"
      using ad cl by (auto simp: adoptable_def adoptable_slot_def)
    show ?thesis using adopt_record_dynamic [OF reg cl True _ p, of L k tch] ad cl st by auto
  next
    case False
    then have "map_of (byName c) (rec_SlotName rc) \<noteq> None" using ad cl registry_None [OF reg] by (simp add: can_hold_def)
    then show ?thesis using adopt_record_static [OF reg cl False, of L k tch] ad cl st by auto
  qed
qed (use st in \<open>simp add: adopt_record_skip\<close>)

text \<open>
  The loop: the configured slots stay, no record is dropped, and only slots with a record become claimed.
\<close>

definition taken_up :: "'c Core \<Rightarrow> string set \<Rightarrow> 'c Core \<Rightarrow> Record list \<Rightarrow> bool" where
  "taken_up e N c rs \<longleftrightarrow> keeps_config e c \<and> store c = store e \<and> persister_of c = persister_of e \<and>
     (\<forall>rc \<in> set (filter claimed_record rs). can_hold c rc \<and> rec_SlotName rc \<in> N) \<and>
     (\<forall>q \<in> set (LiveSlots c). slot_state (slot_at c q) = ''Claimed'' \<longrightarrow> Name (slot_at c q) \<in> N)"

lemma taken_up_step:
  assumes inv: "adoption_inv L (k, tch, c)" and ad: "claimed_record rc \<longrightarrow> adoptable L c rc"
    and st: "adopt_record L rc (k, tch, c) = (k', tch', d)" and t: "taken_up e N c (rc # rs)"
  shows "taken_up e N d rs"
proof -
  have reg: "registry_ok c" using inv by (simp add: adoption_inv_def core_inv_off_def)
  have h: "claimed_record rc \<longrightarrow> can_hold c rc \<and> rec_SlotName rc \<in> N" using t by (simp add: taken_up_def)
  then have S: "store d = store c \<and> persister_of d = persister_of c" using adopt_record_store [OF reg _ st] ad by blast
  consider s where "d = c\<lparr>store := s\<rparr>" | "claimed_record rc" "keeps_others (rec_SlotName rc) (rec_ClaimID rc) c d"
    using adoption_step [OF inv ad st] by blast
  then show ?thesis
  proof cases
    case 1
    then have "d = c" using S by simp
    then show ?thesis using t by (auto simp: taken_up_def)
  next
    case 2
    note K = keeps_othersD [OF 2(2)]
    have "keeps_config c d" using K by (auto simp: keeps_config_def LiveSlots_def same_slot_def)
    then have "keeps_config e d" using t keeps_config_trans unfolding taken_up_def by blast
    moreover have "can_hold d x" if "can_hold c x" for x using that keeps_names(1) [OF 2(2)] by (auto simp: can_hold_def)
    moreover have "Name (slot_at d q) \<in> N" if q: "q \<in> set (LiveSlots d)" "slot_state (slot_at d q) = ''Claimed''" for q
    proof (cases "Name (slot_at d q) = rec_SlotName rc")
      case False
      then have c: "q \<in> set (LiveSlots c)" "Name (slot_at c q) \<noteq> rec_SlotName rc"
        using 2(2) q(1) unfolding keeps_others_def by blast+
      then have "slot_state (slot_at c q) = ''Claimed''" "Name (slot_at d q) = Name (slot_at c q)"
        using K(5) [OF c] q(2) same_slotD(1) [OF K(4) [OF c(1)]] by (simp_all add: kept_slot_def)
      then show ?thesis using t c(1) by (simp add: taken_up_def)
    qed (use h 2(1) in simp)
    ultimately show ?thesis using t S by (simp add: taken_up_def)
  qed
qed

lemma recorded_taken_up:
  assumes inv: "core_inv L c" and lib: "store_lib_ok L" and e: "same_slots c e" "core_inv L e"
    and cur: "store_current L c (store_List L st)" "\<And>n r. Get L st n = Some r \<Longrightarrow> rec_SlotName r = n"
    and d: "registry_ok d" "shape_ok d" "books_ok d" "taken_up e (rec_SlotName ` set (filter claimed_record (store_List L st))) d []"
      "store e = Some st" "persister_of e = Some newPersister"
    and h: "\<And>rc. rc \<in> set (store_List L st) \<Longrightarrow> claimed_record rc \<Longrightarrow> holds_claim L rc d"
  shows "recorded_off L {} d"
proof -
  have S: "store d = Some st" "persister_of d = Some newPersister" "keeps_config e d" using d(4-6) by (simp_all add: taken_up_def)
  have lat: "latest L d n = Get L st n" for n by (simp add: latest_def S on_its_way_def newPersister_def)
  have conf: "q \<in> set (slots d) \<and> same_slot (slot_at d q) (slot_at c q)" if "q \<in> set (slots c)" for q
    using that S(3) e(1) by (auto simp: keeps_config_def same_slots_def same_slot_def)
  have own: "n \<in> live_names d \<and> (\<forall>q \<in> set (LiveSlots d). Name (slot_at d q) = n \<longrightarrow> trace_at L d q = Some (essential rc))"
    if rc: "Get L st n = Some rc" "claimed_record rc" for n rc
  proof -
    have mem: "rc \<in> set (store_List L st)" using rc(1) stored_Get [OF lib] by blast
    then have "essential rc \<in> essential ` set (filter claimed_record (store_List L st))" using rc(2) by auto
    then have "essential rc \<in> set (claim_records L c)" by (simp only: current_set [OF cur(1)])
    then obtain r where r: "r \<in> set (LiveSlots c)" "trace_at L c r = Some (essential rc)" by (auto simp: in_claim_records)
    have res: "resumed c r d" by (rule holds_resumed [OF inv r d(1,3) conf h [OF mem rc(2)]])
    have "slot_ok (slot_at c r)" using inv r(1) by (simp add: core_inv_def books_ok_def)
    then have n: "Name (slot_at c r) = n" using trace_kinds(3) [OF _ r(2)] cur(2) [OF rc(1)] by simp
    then obtain q where q: "map_of (byName d) n = Some q" using res by (auto simp: resumed_def Let_def split: option.splits)
    have "q \<in> set (LiveSlots d)" "Name (slot_at d q) = n" using registry_byName [OF d(1)] q by simp_all
    then show ?thesis
      using resumed_trace [OF res r(2)] q n registry_name_inj [OF d(1)] by (auto simp: live_names_def)
  qed
  have other: "trace_at L d q = None" if q: "q \<in> set (LiveSlots d)" and no: "\<And>rc. Get L st (Name (slot_at d q)) = Some rc \<Longrightarrow> \<not> claimed_record rc" for q
  proof (rule ccontr)
    assume "trace_at L d q \<noteq> None"
    then have "slot_state (slot_at d q) = ''Claimed''" by (auto simp: trace_at_def slot_trace_def split: if_splits)
    then obtain rc where rc: "rc \<in> set (store_List L st)" "claimed_record rc" "rec_SlotName rc = Name (slot_at d q)"
      using d(4) q by (auto simp: taken_up_def)
    then have "Get L st (Name (slot_at d q)) = Some rc" using stored_Get [OF lib] cur(2) by metis
    then show False using no rc(2) by blast
  qed
  have "matches (Get L st (Name (slot_at d q))) (trace_at L d q)" if "q \<in> set (LiveSlots d)" for q
  proof (cases "\<exists>rc. Get L st (Name (slot_at d q)) = Some rc \<and> claimed_record rc")
    case True
    then show ?thesis using own that by (auto simp: matches_def)
  next
    case False
    then show ?thesis using other [OF that] by (auto simp: matches_def split: option.split)
  qed
  moreover have "matches (Get L st n) None" if "n \<notin> live_names d" for n
    using own [of n] that by (auto simp: matches_def split: option.split)
  moreover have "writer_ok L d" using cur(2) by (simp add: writer_ok_def S newPersister_def)
  ultimately show ?thesis using core_named [OF d(1,2)] by (simp add: recorded_off_def lat)
qed

lemma recorded_adopted:
  assumes inv: "core_inv L c" and conf: "configured (opt_Slots opts) c" and ok: "mint_ok L" "restartable L c opts" and lib: "store_lib_ok L"
    and st: "opt_Store opts = Some st" "\<And>n r. Get L st n = Some r \<Longrightarrow> rec_SlotName r = n" and w: "visits_all w"
  shows "recorded_off L {} (handle L w EvAdopt (New L opts))"
proof -
  let ?e = "New L opts" let ?rs = "stored_records L ?e"
  note A = restart_adopts [OF inv conf ok]
  obtain m where opts: "opts_ok opts" "opt_Minter opts = Some m" using ok(2) by (auto simp: restartable_def opts_ok_def)
  have rs: "?rs = store_List L st" "store ?e = Some st"
    using New_slots(3) [OF ok(1) opts] st by (simp_all add: stored_records_def)
  obtain k tch d where loop: "fold (adopt_record L) ?rs (0, [], ?e) = (k, tch, d)" by (metis prod_cases3)
  have start: "adoption_inv L (0, [], ?e)" using A(2) by (simp add: adoption_inv_def core_inv_off_none)
  note D = adoption_loop [OF start A(1) loop]
  have hold: "can_hold ?e rc" if "rc \<in> set ?rs" "claimed_record rc" for rc
  proof -
    have "essential rc \<in> essential ` set (filter claimed_record ?rs)" using that by auto
    then have "essential rc \<in> set (claim_records L c)" by (simp only: current_set [OF A(4)])
    then obtain r where "r \<in> set (LiveSlots c)" "trace_at L c r = Some (essential rc)" by (auto simp: in_claim_records)
    from A(5) [OF this] show ?thesis by (metis essential_kinds(7))
  qed
  let ?N = "rec_SlotName ` set (filter claimed_record ?rs)"
  have "taken_up ?e ?N ?e ?rs"
    using hold New_slots(1,2,6) [OF ok(1) opts] still_config [OF acct.refl] by (auto simp: taken_up_def LiveSlots_def)
  then have "taken_up ?e ?N d []"
    using adoption_loop_induct [OF start A(1) loop, of "taken_up ?e ?N"] taken_up_step by blast
  moreover have "persister_of ?e = Some newPersister" using st(1) opts(2)
    by (simp add: New_def prime_def split: prod.split)
  moreover have "holds_claim L rc d" if "rc \<in> set (store_List L st)" "claimed_record rc" for rc
    using D hold that unfolding rs(1) by blast
  ultimately have d: "recorded_off L {} d"
    using D A(4) st(2) rs by (intro recorded_taken_up [OF inv lib A(3,2)]) (simp_all add: adoption_inv_def core_inv_off_def)
  have "recorded_off L {} (fold (refresh_parent tch) ns x)" if "recorded_off L {} x" for ns x
    using that by (induction ns arbitrary: x) (simp_all add: refresh_parent_def refreshPSlotChildren_def recorded_on_slot split: option.split)
  then show ?thesis using d loop
    by (simp add: handle_def doAdopt_def stored_records_def refresh_parent_def [abs_def] Let_def)
qed

section \<open>A startd over its restarts\<close>

text \<open>
  The states of a startd that starts without claims in its store, and of its successors, each started with what the
  one before has left. A step may destroy a dynamic slot only when the slot's record is not on its way.
\<close>

definition no_claims :: "('c, 'x) persist_api_scheme \<Rightarrow> 'c Store \<Rightarrow> bool" where
  "no_claims L st \<longleftrightarrow> (\<forall>n r. Get L st n = Some r \<longrightarrow> rec_SlotName r = n \<and> \<not> claimed_record r)"

definition successor :: "('c, 'x) persist_api_scheme \<Rightarrow> 'c Core \<Rightarrow> 'c Options \<Rightarrow> bool" where
  "successor L c opts \<longleftrightarrow> opts_ok opts \<and>
     (case opt_Minter opts of None \<Rightarrow> False | Some m \<Rightarrow> resumable L m c) \<and>
     (case opt_Store opts of None \<Rightarrow> False | Some st \<Rightarrow> leaves L c st)"

inductive tidy_life ::
  "(Event \<Rightarrow> bool) \<Rightarrow> ('c, 'x) persist_api_scheme \<Rightarrow> Slot list \<Rightarrow> 'c Core \<Rightarrow> bool" for P L ss where
  boot: "opts_ok opts \<Longrightarrow> opt_Slots opts = ss \<Longrightarrow> opt_Store opts = Some st \<Longrightarrow> no_claims L st \<Longrightarrow> tidy_life P L ss (New L opts)"
| run: "tidy_life P L ss c \<Longrightarrow> startd_step P L c d \<Longrightarrow> tidy c d \<Longrightarrow> tidy_life P L ss d"
| restart: "tidy_life P L ss c \<Longrightarrow> successor L c opts \<Longrightarrow> opt_Slots opts = ss \<Longrightarrow> visits_all w \<Longrightarrow>
    tidy_life P L ss (handle L w EvAdopt (New L opts))"

lemma recorded_New:
  assumes ok: "mint_ok L" "opts_ok opts" and st: "opt_Store opts = Some st" "no_claims L st"
  shows "recorded_off L {} (New L opts)"
proof -
  let ?e = "New L opts"
  obtain m where m: "opt_Minter opts = Some m" using ok(2) by (auto simp: opts_ok_def)
  note N = New_slots [OF ok m]
  have p: "persister_of ?e = Some newPersister" using st(1) m by (simp add: New_def prime_def split: prod.split)
  have lat: "latest L ?e n = Get L st n" for n by (simp add: latest_def p N(3) st(1) on_its_way_def newPersister_def)
  have none: "matches (Get L st n) None" for n using st(2) by (auto simp: no_claims_def matches_def split: option.split)
  have "trace_at L ?e r = None" if "r \<in> set (LiveSlots ?e)" for r
    using N(1,2,6) that by (simp add: LiveSlots_def trace_at_def slot_trace_def)
  moreover have "named ?e" using New_inv [OF ok] core_named by (auto simp: core_inv_def)
  moreover have "writer_ok L ?e" using st(2) by (auto simp: writer_ok_def p N(3) st(1) newPersister_def no_claims_def)
  ultimately show ?thesis using none by (simp add: recorded_off_def lat)
qed

lemma successor_restartable:
  assumes lib: "store_lib_ok L" and inv: "core_inv L c" and rec: "recorded_off L {} c" and s: "successor L c opts"
  shows "restartable L c opts" "\<exists>st. opt_Store opts = Some st \<and> (\<forall>n r. Get L st n = Some r \<longrightarrow> rec_SlotName r = n)"
proof -
  obtain st where st: "opt_Store opts = Some st" "leaves L c st" using s by (auto simp: successor_def split: option.splits)
  note C = leaves_current [OF lib inv rec st(2)]
  show "restartable L c opts" using s st C(1) by (simp add: successor_def restartable_def)
  show "\<exists>st. opt_Store opts = Some st \<and> (\<forall>n r. Get L st n = Some r \<longrightarrow> rec_SlotName r = n)" using st(1) C(2) by blast
qed

lemma tidy_life_recorded:
  assumes "tidy_life P L ss c" "mint_ok L" "store_lib_ok L"
  shows "startd_life P L ss c \<and> recorded_off L {} c"
  using assms
proof (induction rule: tidy_life.induct)
  case (boot opts st)
  then show ?case using startd_life.boot recorded_New by blast
next
  case (run c d)
  then have l: "startd_life P L ss c" "recorded_off L {} c" by blast+
  have inv: "startd_inv P L c" using life_inv [OF l(1)] run.prems by blast
  show ?case using startd_life.run [OF l(1) run.hyps(2)] recorded_step [OF run.prems(2,1) run.hyps(2) inv l(2) run.hyps(3)] by blast
next
  case (restart c opts w)
  then have l: "startd_life P L ss c" "recorded_off L {} c" by blast+
  have inv: "core_inv L c" "configured (opt_Slots opts) c"
    using life_inv [OF l(1) restart.prems(1)] restart.hyps(3) by (simp_all add: startd_inv_def)
  note R = successor_restartable [OF restart.prems(2) inv(1) l(2) restart.hyps(2)]
  show ?case
    using startd_life.restart [OF l(1) R(1) restart.hyps(3,4)] recorded_adopted [OF inv restart.prems(1) R(1) restart.prems(2) _ _ restart.hyps(4)] R(2)
    by blast
qed

section \<open>The exception\<close>

lemma writer_cong: "persister_of d = persister_of c \<Longrightarrow> store d = store c \<Longrightarrow> writer_ok L d = writer_ok L c \<and> latest L d = latest L c"
  by (simp add: writer_ok_def latest_def fun_eq_iff)

lemma reAdvertise_writer: "persister_of (reAdvertise L w c) = persister_of c" "store (reAdvertise L w c) = store c"
proof -
  have "persister_of (advertise_slot L w r d) = persister_of d \<and> store (advertise_slot L w r d) = store d" for r and d :: "'a Core"
    using advertise_slot_bump [of L w r d] by (auto simp: emit_def on_slot_def)
  then have "persister_of (fold (advertise_slot L w) rs d) = persister_of d \<and> store (fold (advertise_slot L w) rs d) = store d" for rs and d :: "'a Core"
    by (induction rs arbitrary: d) simp_all
  then show "persister_of (reAdvertise L w c) = persister_of c" "store (reAdvertise L w c) = store c"
    by (simp_all add: reAdvertise_def Advertise_def)
qed

text \<open>A dynamic slot that is released is gone, but not what is on its way about it.\<close>

lemma restored_name: "q < length (heap c) \<Longrightarrow> Name (slot_at (restored L w r q (close_books n c)) x) = Name (slot_at c x)"
  using slot_at_restored [of q "close_books n c" L w r x] quiet_slotD(1) [OF quiet_slot_ops(5)] by (simp add: frame_simps)

lemma destroyed_unlisted:
  assumes inv: "core_inv L c" and r: "r \<in> set (dslots c)"
  shows "Name (slot_at c r) \<notin> live_names (releaseSlot L w r c)"
proof -
  let ?n = "Name (slot_at c r)"
  from release_dynamic_setup [OF inv r] obtain q where q: "q < length (heap c)"
    and rel: "releaseSlot L w r c = reAdvertise L w (persistSlot L q (restored L w r q (close_books ?n c)))"
    and drop: "drop_named (heap c) ?n (dslots c) = filter (\<lambda>x. x \<noteq> r) (dslots c)" by blast
  have reg: "registry_ok c" and live: "r \<in> set (LiveSlots c)" using inv r by (simp_all add: core_inv_def LiveSlots_def)
  have v: "core_view (restored L w r q (close_books ?n c)) = core_view (releaseSlot L w r c)" by (simp add: rel)
  have "r \<notin> set (slots c)" using reg r by (auto simp: registry_ok_def LiveSlots_def)
  then have "set (LiveSlots (releaseSlot L w r c)) = set (LiveSlots c) - {r}"
    using view_eq_fields(1,2) [OF v, symmetric] drop by (auto simp: LiveSlots_def frame_simps)
  moreover have "Name (slot_at (releaseSlot L w r c) x) = Name (slot_at c x)" if "x \<in> set (LiveSlots c)" for x
    using strip_eqD(1) [OF view_eq_slot [OF v], of x] registry_range [OF reg that] restored_name [OF q, of L w r ?n x] by (simp add: frame_simps)
  ultimately show ?thesis
    unfolding live_names_def using registry_name_inj [OF reg _ live] by auto metis
qed

text \<open>What the writer will have written about a dynamic slot when the slot has been destroyed.\<close>

lemma destroyed_latest:
  assumes inv: "core_inv L c" and lib: "store_lib_ok L" and rec: "recorded_off L {} c" and r: "r \<in> set (dslots c)"
    and p: "persister_of c = Some p"
  shows "writer_ok L (releaseSlot L w r c)" "latest L (releaseSlot L w r c) (Name (slot_at c r)) = on_its_way p (Name (slot_at c r))"
proof -
  let ?n = "Name (slot_at c r)" let ?c = "close_books ?n c"
  from release_dynamic_setup [OF inv r] obtain q where q: "q \<in> set (slots c)" "q < length (heap c)"
    and rel: "releaseSlot L w r c = reAdvertise L w (persistSlot L q (restored L w r q ?c))" by blast
  let ?e = "restored L w r q ?c" let ?d = "store_delete L ?n (removeDSlot ?n ?c)"
  have reg: "registry_ok c" using inv by (simp add: core_inv_def)
  have live: "r \<in> set (LiveSlots c)" "q \<in> set (LiveSlots c)" using r q by (simp_all add: LiveSlots_def)
  obtain st where w: "writer_ok L c" and st: "store c = Some st" using rec writer_running [of L c] by (auto simp: recorded_off_def)
  have c: "persister_of ?c = persister_of c" "store ?c = store c"
    by (simp_all add: close_books_def killActivation_def end_activation_def cancelAliveLoop_def cancelMatchTimer_def
        emit_def Let_def split: option.split)
  have wd: "writer_ok L ?d" using writer_delete [OF lib, of ?c] writer_cong [OF c, of L] w by simp
  have "latest L ?d ?n = on_its_way p ?n"
    using latest_delete [OF lib, of ?n "removeDSlot ?n ?c" ?n] c p st by (simp add: removeDSlot_def)
  moreover have "persister_of ?e = persister_of ?d" "store ?e = store ?d"
    by (simp_all add: restored_def refreshPSlotChildren_def on_slot_def unlisted_def InvalidateSlot_def emit_def frame_simps Let_def)
  note E = writer_cong [OF this, of L]
  ultimately have e: "writer_ok L ?e" "latest L ?e ?n = on_its_way p ?n" using wd by simp_all
  have v: "core_view ?e = core_view (releaseSlot L w r c)" by (simp add: rel)
  have "core_inv L ?e" using inv_release_dynamic [OF inv r, of w] core_inv_view [OF v, of L] by simp
  then have nm: "named ?e" using core_named [of ?e] by (simp add: core_inv_def)
  have ql: "q \<in> set (LiveSlots ?e)" using q(1) by (simp add: LiveSlots_def frame_simps)
  have "q \<noteq> r" using reg q(1) r by (auto simp: registry_ok_def LiveSlots_def)
  then have ne: "Name (slot_at c q) \<noteq> ?n" using registry_name_inj [OF reg live(2,1)] by blast
  let ?f = "persistSlot L q ?e"
  have "writer_ok L ?f" by (rule writer_persist [OF nm ql e(1)])
  moreover have "latest L ?f ?n = latest L ?e ?n"
    using ne writer_running [OF e(1)] latest_put [of ?e _ _ L _ ?n]
    by (auto simp: persistSlot_def slot_record_def restored_name [OF q(2)] Let_def split: option.split)
  ultimately show "writer_ok L (releaseSlot L w r c)" "latest L (releaseSlot L w r c) ?n = on_its_way p ?n"
    using e(2) writer_cong [OF reAdvertise_writer, of L L w ?f] by (simp_all add: rel)
qed

text \<open>
  A dynamic slot that is destroyed while its record is still on its way: the record is deleted first and written
  afterwards, so the store claims a slot that the startd has released, and the next startd takes it up.
\<close>

theorem destroyed_claim_returns:
  assumes "mint_ok L" "store_lib_ok L" "tidy_life (\<lambda>_. True) L ss c" "r \<in> set (dslots c)" "\<not> settled c (Name (slot_at c r))" "visits_all v"
  shows "Name (slot_at c r) \<notin> live_names (releaseSlot L w r c) \<and>
    (\<exists>st rc. store (Stop L v (releaseSlot L w r c)) = Some st \<and> rc \<in> set (store_List L st) \<and> claimed_record rc \<and>
       rec_SlotName rc = Name (slot_at c r) \<and> rec_ClaimID rc = slot_claim_id (slot_at c r))"
proof -
  let ?n = "Name (slot_at c r)" let ?d = "releaseSlot L w r c"
  have l: "startd_life (\<lambda>_. True) L ss c" and rec: "recorded_off L {} c" using tidy_life_recorded [OF assms(3,1,2)] by blast+
  have inv: "core_inv L c" using life_inv [OF l assms(1)] by (simp add: startd_inv_def)
  have live: "r \<in> set (LiveSlots c)" and so: "slot_ok (slot_at c r)" "IsDynamic (slot_at c r)"
    using assms(4) inv by (auto simp: LiveSlots_def core_inv_def books_ok_def shape_ok_def)
  obtain p rc where p: "persister_of c = Some p" "on_its_way p ?n = Some rc"
    using assms(5) by (auto simp: settled_def split: option.splits)
  note D = destroyed_latest [OF inv assms(2) rec assms(4) p(1), of w]
  obtain t where t: "trace_at L c r = Some t" using claimed_trace [OF so(1), of L] so by (auto simp: slot_ok_def split: option.splits)
  have "latest L c ?n = Some rc" using p writer_running [of L c] rec by (auto simp: latest_def recorded_off_def)
  then have rc: "essential rc = t" using rec live t by (auto simp: recorded_off_def matches_def)
  obtain p' where p': "persister_of ?d = Some p'" using writer_running [OF D(1)] by blast
  note S = writes_stop [OF p' assms(2,6)]
  have w: "writer_ok L (Stop L v ?d)" "latest L (Stop L v ?d) ?n = Some rc" using S(1) D(1,2) p(2) by (simp_all add: writes_def)
  then obtain q st where st: "persister_of (Stop L v ?d) = Some q" "store (Stop L v ?d) = Some st" using writer_running by blast
  have "Get L st ?n = Some rc" using w(2) st S(2) [of ?n] by (simp add: latest_def settled_def)
  then have "rc \<in> set (store_List L st)" using stored_Get [OF assms(2)] by blast
  then show ?thesis using destroyed_unlisted [OF inv assms(4), of w] st(2) trace_kinds [OF so(1) t] unfolding rc [symmetric] by auto
qed

section \<open>The properties\<close>

text \<open>
  C3. Claims survive a restart. When a startd is stopped, or dies when its writer has nothing left to do, the next startd with the same slots
  finds every claim in the store and resumes it: a slot of the same name and type holds the claim under the same id,
  with the same schedd, user and keepalive interval, in the same state and activity; a dynamic slot is carved again from the same parent
  with the same number and the same resources; the keepalives run; and the starter of a busy slot is redialled at its
  socket, for the same job and sandbox. This holds over any number of runs and restarts, under these conditions: the sessions of the claims can be
  imported and their ids are none that the next startd mints; every busy claim has the socket of its starter on record, which starter processes have and goroutine starters, which end with the startd,
  do not; no dynamic slot was destroyed while its record was still on its way to the store; the first startd found no claims in the store; no write
  to the store fails; and no minting of a claim id fails.
\<close>

theorem claims_survive_restart:
  assumes "mint_ok L" "store_lib_ok L" "tidy_life (\<lambda>_. True) L (opt_Slots opts) c" "successor L c opts" "visits_all w"
  shows "\<forall>r \<in> set (LiveSlots c). slot_state (slot_at c r) = ''Claimed'' \<longrightarrow>
    resumed c r (handle L w EvAdopt (New L opts))"
proof -
  have l: "startd_life (\<lambda>_. True) L (opt_Slots opts) c" "recorded_off L {} c" using tidy_life_recorded [OF assms(3,1,2)] by blast+
  have inv: "core_inv L c" "configured (opt_Slots opts) c" using life_inv [OF l(1) assms(1)] by (simp_all add: startd_inv_def)
  from restart_resumes [OF inv assms(1) successor_restartable(1) [OF assms(2) inv(1) l(2) assms(4)] assms(5)] show ?thesis by blast
qed

text \<open>The startd of the example, stopped, and its successor.\<close>

definition heir_opts :: "(string, ad) gomap Options" where
  "heir_opts = next_opts\<lparr>opt_Store := store (Stop epoch_lib example_world claimed_core)\<rparr>"

lemma epoch_store_ok: "store_lib_ok epoch_lib"
proof -
  have "classad_ok epoch_lib" by (rule classad_ok_literal_reader) (simp_all add: epoch_lib_def example_lib_def)
  moreover have "collection_ok epoch_lib" using example_lib_collection_ok by (simp add: epoch_lib_def collection_ok_def)
  moreover have "\<exists>c'. coll_put epoch_lib c k ad = Inr c'" for c k ad by (simp add: epoch_lib_def example_lib_def)
  ultimately show ?thesis by (simp add: store_lib_ok_def)
qed

lemma claimed_core_tidy: "tidy_life (\<lambda>_. True) epoch_lib (opt_Slots example_popts) claimed_core"
proof -
  let ?c = "New epoch_lib example_popts" let ?e = "Submit (EvRequestClaim epoch_request) ?c"
  have m: "opt_Minter example_popts = Some (NewMinter ''<h:9618>'' 1)" by (simp add: example_popts_def example_opts_def)
  note C = New_counters [OF epoch_mint_ok example_popts_ok(1) m]
  have ok: "counters_ok ?e" by (simp add: counters_ok_def C in64_def NewMinter_def example_popts_slots Submit_def)
  have st: "opt_Store example_popts = Some \<lparr>coll = [], dir = ''/d''\<rparr>" "no_claims epoch_lib \<lparr>coll = [], dir = ''/d''\<rparr>"
    by (simp_all add: example_popts_def example_opts_def no_claims_def Get_def epoch_lib_def example_lib_def)
  have ds: "dslots ?c = []" "dslots ?e = []"
    using New_slots(2) [OF epoch_mint_ok example_popts_ok(1) m] by (simp_all add: Submit_def)
  have "tidy_life (\<lambda>_. True) epoch_lib (opt_Slots example_popts) ?c"
    by (rule tidy_life.boot [OF example_popts_ok(1) refl st])
  then have "tidy_life (\<lambda>_. True) epoch_lib (opt_Slots example_popts) ?e"
    by (rule tidy_life.run) (use ds in \<open>simp_all add: tidy_def startd_step.submit\<close>)
  then show ?thesis unfolding claimed_core_def serve_def
    by (rule tidy_life.run) (use ds ok in \<open>simp_all add: tidy_def startd_step.event\<close>)
qed

lemma request_store [simp]: "store (doRequestClaim L w ev c) = store c"
proof -
  have "store (persistSlot L r c) = store c" "store (startMatchTimer r cid c) = store c" "store (cancelMatchTimer n c) = store c"
    "store (startAliveLoop r c) = store c" "store (emit e c) = store c" "store (on_slot r f c) = store c" "store (addDSlot d c) = store c"
    for r cid n e f d and c :: "'a Core"
    by (simp_all add: persistSlot_def startMatchTimer_def cancelMatchTimer_def startAliveLoop_def emit_def on_slot_def addDSlot_def
        Let_def split: option.split)
  note frame = this
  show ?thesis
    by (simp add: doRequestClaim_def doRequestClaimPSlot_def reject_claim_def refreshPSlotChildren_def claimed_reply_on_slot leftover_reply_on_slot
        frame reAdvertise_writer Let_def case_prod_beta split: option.split sum.split)
qed

lemma claimed_core_unsettled: "\<not> settled claimed_core (Name (slot_at claimed_core 1))"
proof
  let ?n = "Name (slot_at claimed_core 1)"
  assume s: "settled claimed_core ?n"
  have m: "opt_Minter example_popts = Some (NewMinter ''<h:9618>'' 1)" by (simp add: example_popts_def example_opts_def)
  note C = New_counters [OF epoch_mint_ok example_popts_ok(1) m]
  have "store claimed_core = opt_Store example_popts"
    using New_slots(3) [OF epoch_mint_ok example_popts_ok(1) m] by (simp add: claimed_core_def serve_idle [OF C(3)] handle_def)
  then have st: "store claimed_core = Some \<lparr>coll = [], dir = ''/d''\<rparr>" by (simp add: example_popts_def example_opts_def)
  have rec: "recorded_off epoch_lib {} claimed_core" using tidy_life_recorded [OF claimed_core_tidy epoch_mint_ok epoch_store_ok] by blast
  have "latest epoch_lib claimed_core ?n = None"
    using s st by (auto simp: latest_def settled_def Get_def epoch_lib_def example_lib_def split: option.split)
  moreover have "matches (latest epoch_lib claimed_core ?n) (trace_at epoch_lib claimed_core 1)"
    using rec claimed_core_slots(1) by (simp add: recorded_off_def)
  moreover have "slot_ok (slot_at claimed_core 1)"
    using life_inv [OF claimed_core_life(2) epoch_mint_ok] claimed_core_slots(1) by (simp add: startd_inv_def core_inv_def books_ok_def)
  then have "trace_at epoch_lib claimed_core 1 \<noteq> None" using claimed_trace [of claimed_core 1 epoch_lib] claimed_core_slots(4) by simp
  ultimately show False by (auto simp: matches_def)
qed

lemma heir: "successor epoch_lib claimed_core heir_opts" "opt_Slots heir_opts = opt_Slots example_popts"
proof -
  have r: "recorded_off epoch_lib {} claimed_core" using tidy_life_recorded [OF claimed_core_tidy epoch_mint_ok epoch_store_ok] by blast
  obtain p where p: "persister_of claimed_core = Some p" using r writer_running [of epoch_lib claimed_core] by (auto simp: recorded_off_def)
  have "recorded_off epoch_lib {} (Stop epoch_lib example_world claimed_core)"
    by (rule writes_recorded [OF writes_stop(1) [OF p epoch_store_ok example_visits] r])
  then obtain st where st: "store (Stop epoch_lib example_world claimed_core) = Some st"
    using writer_running [of epoch_lib "Stop epoch_lib example_world claimed_core"] by (auto simp: recorded_off_def)
  then have "leaves epoch_lib claimed_core st" unfolding leaves_def using example_visits by blast
  moreover have "opt_Minter heir_opts = Some (NewMinter ''<h:9618>'' 2)" by (simp add: heir_opts_def next_opts_def)
  moreover have "opts_ok heir_opts" using next_restartable(4) unfolding opts_ok_def heir_opts_def by simp
  ultimately show "successor epoch_lib claimed_core heir_opts"
    using next_restartable(3) st by (simp add: successor_def heir_opts_def)
  show "opt_Slots heir_opts = opt_Slots example_popts" using next_restartable(2) by (simp add: heir_opts_def)
qed

theorem claims_survive_restart_witness:
  "resumed claimed_core 1 (handle epoch_lib example_world EvAdopt (New epoch_lib heir_opts))"
proof -
  have "tidy_life (\<lambda>_. True) epoch_lib (opt_Slots heir_opts) claimed_core" using claimed_core_tidy by (simp add: heir(2))
  from claims_survive_restart [OF epoch_mint_ok epoch_store_ok this heir(1) example_visits] show ?thesis
    using claimed_core_slots(1,4) by simp
qed

text \<open>
  C4. At every moment, the store and what is on its way to it say about each claimed slot what the startd itself
  knows of the claim and its starter, and say of no other slot that it is claimed. All fields of the record are compared but the lease deadline, the time
  of the last change and the text of the job ad. This holds over any number of restarts as in C3 and as long as no
  dynamic slot is destroyed while its record is still on its way (such a record is written after it was deleted), no write to the store fails and
  no minting of a claim id fails.
\<close>

theorem claims_recorded:
  assumes "mint_ok L" "store_lib_ok L" "tidy_life (\<lambda>_. True) L ss c"
  shows "(\<forall>r \<in> set (LiveSlots c). matches (latest L c (Name (slot_at c r))) (trace_at L c r)) \<and>
    (\<forall>n. n \<notin> live_names c \<longrightarrow> matches (latest L c n) None)"
  using tidy_life_recorded [OF assms(3,1,2)] by (simp add: recorded_off_def)

theorem claims_recorded_witness:
  "matches (latest epoch_lib claimed_core (Name (slot_at claimed_core 1))) (trace_at epoch_lib claimed_core 1) \<and>
   trace_at epoch_lib claimed_core 1 \<noteq> None"
proof -
  have "slot_claim (slot_at claimed_core 1) \<noteq> None" using claimed_core_slots(6) by (auto simp: slot_claim_id_def split: option.splits)
  then show ?thesis
    using claims_recorded [OF epoch_mint_ok epoch_store_ok claimed_core_tidy] claimed_core_slots(1,4)
    by (auto simp: trace_at_def slot_trace_def)
qed

theorem destroyed_claim_returns_witness:
  "\<exists>st rc. store (Stop epoch_lib example_world (releaseSlot epoch_lib example_world 1 claimed_core)) = Some st \<and>
     rc \<in> set (store_List epoch_lib st) \<and> claimed_record rc"
proof -
  have "1 \<in> set (LiveSlots claimed_core)" "1 \<notin> set (slots claimed_core)"
    using life_inv [OF claimed_core_life(2) epoch_mint_ok] claimed_core_slots(1,7)
    by (auto simp: startd_inv_def core_inv_def shape_ok_def)
  then have "1 \<in> set (dslots claimed_core)" by (simp add: LiveSlots_def)
  from destroyed_claim_returns [OF epoch_mint_ok epoch_store_ok claimed_core_tidy this claimed_core_unsettled example_visits] show ?thesis by blast
qed

end
