(* ===== verification/Protocol.thy ===== *)
theory Protocol
  imports Slotwise
begin

text \<open>
  The claim protocol of one slot. Its abstract specification is a machine with four phases; the
  refinement below shows that every event of the loop, whatever else it does, moves each live slot
  along at most one edge of it, that a slot returns to the free phase only under a claim id that was
  never in use, and that a slot appears only as an idle claimed slot under such an id.
\<close>

section \<open>The specification\<close>

datatype phase = Free | Matched | Idle | Busy

inductive phase_step :: "phase \<Rightarrow> phase \<Rightarrow> bool" where
  offer: "phase_step Free Matched"
| claim: "phase_step Free Idle"
| claim_match: "phase_step Matched Idle"
| activate: "phase_step Idle Busy"
| finish: "phase_step Busy Idle"

code_pred phase_step .

inductive_simps phase_step_simps [simp]:
  "phase_step Free q" "phase_step Matched q" "phase_step Idle q" "phase_step Busy q"

section \<open>Abstraction\<close>

definition phase_of :: "Slot \<Rightarrow> phase" where
  "phase_of s =
     (if slot_state s = ''Unclaimed'' then Free
      else if slot_state s = ''Matched'' then Matched
      else if activity s = ''Busy'' then Busy else Idle)"

definition key :: "Slot \<Rightarrow> phase \<times> string" where
  "key s = (phase_of s, slot_claim_id s)"

abbreviation calm_slot :: "Slot \<Rightarrow> Slot \<Rightarrow> bool" where
  "calm_slot \<equiv> (\<lambda>s t. key s = key t)"

lemma key_bump [simp]: "key (bump s) = key s"
  by (simp add: key_def phase_of_def bump_def slot_claim_id_def)

interpretation calm: slotwise calm_slot
  by unfold_locales simp_all

lemma key_claim:
  "(\<And>cl. claimID (f cl) = claimID cl) \<Longrightarrow> key (map_claim f s) = key s"
  by (cases "slot_claim s") (simp_all add: key_def phase_of_def slot_claim_id_def map_claim_def)

lemma key_ops [simp]:
  "key (SetChildClaimIDs ids s) = key s" "key (Carve req s) = key s" "key (Restore req s) = key s"
  "key (map_claim (ExtendLease a t) s) = key s" "key (map_claim (SetUpdateAd ad) s) = key s"
  "key (map_claim (SetFinal f x y) s) = key s"
  by (simp_all add: key_claim frame_simps)
    (simp_all add: key_def phase_of_def slot_claim_id_def SetChildClaimIDs_def Carve_def Restore_def Let_def)

definition fresh_id :: "'x security_api_scheme \<Rightarrow> 'c Core \<Rightarrow> string \<Rightarrow> bool" where
  "fresh_id L c i \<longleftrightarrow> (\<exists>m k. minter c = Some m \<and> seq m < k \<and> i = mint_id L m k)"

definition minter_on :: "'c Core \<Rightarrow> 'c Core \<Rightarrow> bool" where
  "minter_on c d \<longleftrightarrow>
     (\<exists>m k. minter c = Some m \<and> seq m \<le> k \<and> minter d = Some (m\<lparr>seq := k\<rparr>))"

definition slot_evolves :: "'x security_api_scheme \<Rightarrow> 'c Core \<Rightarrow> Slot \<Rightarrow> Slot \<Rightarrow> bool" where
  "slot_evolves L c s t \<longleftrightarrow>
     slot_claim_id t = slot_claim_id s \<and> phase_step\<^sup>=\<^sup>= (phase_of s) (phase_of t) \<or>
     phase_of t = Free \<and> fresh_id L c (slot_claim_id t)"

definition evolves :: "'x security_api_scheme \<Rightarrow> 'c Core \<Rightarrow> 'c Core \<Rightarrow> bool" where
  "evolves L c d \<longleftrightarrow> minter_on c d \<and> slots d = slots c \<and>
     (\<forall>q \<in> set (LiveSlots d).
        if q \<in> set (LiveSlots c) then slot_evolves L c (slot_at c q) (slot_at d q)
        else phase_of (slot_at d q) = Idle \<and> fresh_id L c (slot_claim_id (slot_at d q)))"

lemma slot_evolves_key: "key t = key t' \<Longrightarrow> slot_evolves L c s t = slot_evolves L c s t'"
  by (simp add: slot_evolves_def key_def)

lemma slot_evolves_calm: "key t = key s \<Longrightarrow> slot_evolves L c s t"
  by (simp add: slot_evolves_def key_def)

lemma minter_on_same: "ids_ok L c \<Longrightarrow> minter d = minter c \<Longrightarrow> minter_on c d"
  by (auto simp: minter_on_def ids_ok_def split: option.splits)

lemma evolves_calm:
  "ids_ok L c \<Longrightarrow> minter d = minter c \<Longrightarrow> pointwise calm_slot c d \<Longrightarrow> evolves L c d"
  by (auto simp: evolves_def pointwise_def LiveSlots_def minter_on_same intro: slot_evolves_calm)

text \<open>Calm work, one operation on one slot, calm work.\<close>

lemma evolves_at:
  assumes "pointwise calm_slot c c0" "pointwise calm_slot (on_slot r f c0) d" "minter_on c d"
    "slot_evolves L c (slot_at c r) (f (slot_at c0 r))"
  shows "evolves L c d"
proof -
  have "slot_evolves L c (slot_at c q) (slot_at d q)" for q
  proof -
    have "key (slot_at d q) = key (slot_at (on_slot r f c0) q)" "key (slot_at c0 q) = key (slot_at c q)"
      using assms(1,2) by (simp_all add: pointwise_def)
    then show ?thesis using assms(4) slot_evolves_key [of "slot_at d q" "f (slot_at c0 r)" L c "slot_at c q"]
      by (auto split: if_splits intro: slot_evolves_calm)
  qed
  then show ?thesis using assms(1-3) by (auto simp: evolves_def LiveSlots_def pointwise_def)
qed

section \<open>Matching and activation\<close>

lemma minter_quiet [simp]:
  "minter (reAdvertise L w c) = minter c" "minter (snd (claimed_reply L w req r c)) = minter c"
  "minter (snd (leftover_reply L w req r c)) = minter c"
  using view_eq_fields(5) [OF view_reAdvertise] view_eq_fields(5) [OF view_replies(1)]
    view_eq_fields(5) [OF view_replies(2)] by blast+

lemma minter_reports:
  "minter (doAliveOK w n c) = minter c" "minter (doStarterUpdate eu c) = minter c"
  "minter (doStarterFinal ef c) = minter c" "minter (doStarterHello L eh c) = minter c"
  "minter (doDeactivate ed c) = minter c" "minter (doVacate ev c) = minter c"
  "minter (doVacateEscalate ee c) = minter c"
  by (simp_all add: doAliveOK_def doStarterUpdate_def doStarterFinal_def doStarterHello_def doDeactivate_def
      doVacate_def doVacateEscalate_def frame_simps Let_def split: option.split)

lemma evolves_match: "core_inv L c \<Longrightarrow> evolves L c (doMatchInfo K w cid c)"
proof (cases "doMatchInfo K w cid c = c")
  case True
  then show "core_inv L c \<Longrightarrow> ?thesis" by (auto simp: core_inv_def intro!: evolves_calm)
next
  case False
  assume inv: "core_inv L c"
  from False obtain r where s: "slot_state (slot_at c r) = ''Unclaimed''"
    and d: "doMatchInfo K w cid c = reAdvertise K w (startMatchTimer r cid (persistSlot K r
      (on_slot r (SetStateActivity ''Matched'' ''Idle'' (now w)) c)))"
    by (auto simp: doMatchInfo_def split: option.splits if_splits)
  show ?thesis
  proof (rule evolves_at [OF calm.refl])
    show "pointwise calm_slot (on_slot r (SetStateActivity ''Matched'' ''Idle'' (now w)) c) (doMatchInfo K w cid c)"
      unfolding d by (intro calm.rules calm.refl)
    show "minter_on c (doMatchInfo K w cid c)"
      unfolding d using inv by (intro minter_on_same [of L]) (simp_all add: frame_simps core_inv_def)
  qed (use s in \<open>simp add: slot_evolves_def phase_of_def slot_claim_id_def\<close>)
qed

lemma slot_ok_phase:
  assumes "slot_ok s"
  shows "claim_is Unclaimed s \<Longrightarrow> phase_of s \<in> {Free, Matched}"
    "claim_is ClaimedIdle s \<Longrightarrow> phase_of s = Idle" "claim_is ClaimedBusy s \<Longrightarrow> phase_of s = Busy"
  using assms by (auto simp: slot_ok_def claim_is_def phase_of_def split: option.splits)

lemma evolves_activate:
  assumes inv: "core_inv L c"
  shows "evolves L c (doActivateClaim K w ev c)"
proof (cases "\<exists>r. findSlotByClaimID (ac_claimID ev) c = Some r \<and> may_activate K w ev r c")
  case False
  have "minter (reject_activate c) = minter c" "pointwise calm_slot c (reject_activate c)"
    by (simp_all add: frame_simps calm.rules)
  then show ?thesis using False inv
    by (auto simp: doActivateClaim_def core_inv_def split: option.split intro!: evolves_calm)
next
  case True
  then obtain r where r: "findSlotByClaimID (ac_claimID ev) c = Some r" "may_activate K w ev r c" by blast
  have ids: "ids_ok L c" using inv by (simp add: core_inv_def)
  have live: "r \<in> set (LiveSlots c)" using r(1) find_claim_live by blast
  then have idle: "phase_of (slot_at c r) = Idle"
    using core_inv_books [OF inv live] r(2) slot_ok_phase(2) by (auto simp: may_activate_def)
  let ?c1 = "c\<lparr>sandboxSeq := wrap64 (sandboxSeq c + 1)\<rparr>"
  let ?c3 = "on_slot r bump (?c1\<lparr>activationGen := wrap64 (activationGen ?c1 + 1), fresh := Suc (fresh ?c1)\<rparr>)"
  let ?f = "\<lambda>s. SetStateActivity ''Claimed'' ''Busy'' (now w) (map_claim (SetBusy (now w)) s)"
  have calm: "pointwise calm_slot c ?c3" "pointwise calm_slot c (reject_activate ?c1)"
    "pointwise calm_slot c (reject_activate (emit x ?c3))" for x
    by (intro calm.rules calm.refl; simp)+
  have m: "minter (reject_activate ?c1) = minter c" "minter (reject_activate (emit x ?c3)) = minter c" for x
    by (simp_all add: frame_simps)
  have go: "evolves L c (reAdvertise K w (emit x (persistSlot K r (on_slot r ?f (emit y e)))))"
    if la: "launch_starter w r a ?c3 = Inr (a', e)" for a a' e x y
  proof (rule evolves_at)
    show "pointwise calm_slot c (emit y e)"
      using calm.launched [OF la calm(1)] by (intro calm.rules)
    then have "key (slot_at e r) = key (slot_at c r)" by (simp add: pointwise_def frame_simps)
    then show "slot_evolves L c (slot_at c r) (?f (slot_at (emit y e) r))"
      using idle
      by (simp add: slot_evolves_def phase_of_def slot_claim_id_def frame_simps key_def split: option.splits)
    show "pointwise calm_slot (on_slot r ?f (emit y e))
        (reAdvertise K w (emit x (persistSlot K r (on_slot r ?f (emit y e)))))"
      by (intro calm.rules calm.refl)
    show "minter_on c (reAdvertise K w (emit x (persistSlot K r (on_slot r ?f (emit y e)))))"
      using launch_frame(3) [OF la] by (intro minter_on_same [OF ids]) (simp add: frame_simps)
  qed
  show ?thesis
    using r evolves_calm [OF ids m(1) calm(2)] evolves_calm [OF ids m(2) calm(3)] go
      take_public_on_slot [of K w r "?c1\<lparr>activationGen := wrap64 (activationGen ?c1 + 1), fresh := Suc (fresh ?c1)\<rparr>"]
    by (auto simp: doActivateClaim_def Let_def split: sum.split prod.split)
qed

section \<open>The end of a starter\<close>

lemma evolves_wind_down:
  assumes inv: "core_inv L c" and a: "map_of (activations c) n = Some a" and r: "map_of (byName c) n = Some r"
    and calm: "pointwise calm_slot c c0" and m: "minter c0 = minter c" and f: "\<And>cl. claimID (f cl) = claimID cl"
  shows "evolves L c (reAdvertise K w (persistSlot K r (on_slot r (\<lambda>s. set_idle w (map_claim f s)) c0)))"
    (is "evolves L c ?d")
proof (rule evolves_at [OF calm])
  show "pointwise calm_slot (on_slot r (\<lambda>s. set_idle w (map_claim f s)) c0) ?d"
    by (intro calm.rules calm.refl)
  have "slot_ok (slot_at c r)" "claim_is ClaimedBusy (slot_at c r)"
    using activation_busy [OF inv a] r core_inv_books [OF inv] by auto
  then have "phase_of (slot_at c r) = Busy" by (rule slot_ok_phase(3))
  moreover have "slot_claim_id (set_idle w (map_claim f s)) = slot_claim_id s" for s
    by (simp add: slot_claim_id_def f frame_simps split: option.split)
  moreover have "key (slot_at c0 r) = key (slot_at c r)" using calm by (simp add: pointwise_def)
  ultimately show "slot_evolves L c (slot_at c r) (set_idle w (map_claim f (slot_at c0 r)))"
    by (simp add: slot_evolves_def key_def) (simp add: phase_of_def)
  show "minter_on c ?d" using inv m by (intro minter_on_same [of L]) (simp_all add: core_inv_def frame_simps)
qed

lemma evolves_exited:
  assumes inv: "core_inv L c"
  shows "evolves L c (doStarterExited K w n c)"
proof (cases "map_of (activations c) n")
  case None
  have "pointwise calm_slot c (releaseDeferredDeactivate n c)" by (intro calm.rules calm.refl)
  then show ?thesis using None inv
    by (auto simp: doStarterExited_def core_inv_def frame_simps intro!: evolves_calm)
next
  case (Some a)
  from activation_busy [OF inv Some] obtain r where r: "map_of (byName c) n = Some r"
    "claim_is ClaimedBusy (slot_at c r)" by blast
  have id: "map_claim (\<lambda>cl. cl) s = s" for s by (simp add: map_claim_def option.map_ident)
  let ?d = "releaseDeferredDeactivate n (end_activation n a c)"
  have "evolves L c (reAdvertise K w (persistSlot K r (on_slot r (\<lambda>s. set_idle w (map_claim (\<lambda>cl. cl) s)) ?d)))"
    by (rule evolves_wind_down [OF inv Some r(1)]) (simp_all add: frame_simps calm.rules)
  then show ?thesis using Some r by (simp add: doStarterExited_def id frame_simps Let_def)
qed

section \<open>Releasing\<close>

lemma evolves_unclaim:
  assumes inv: "core_inv L c" and ok: "mint_ok L" "counters_ok c"
    and c0: "pointwise calm_slot c c0" "minter c0 = minter c"
  shows "evolves L c (reAdvertise L w (persistSlot L r (unclaimSlot L w r c0)))" (is "evolves L c ?d")
proof -
  obtain m cl where m: "minter c = Some m" and cl: "claimID cl = mint_id L m (seq m + 1)"
    and u: "unclaimSlot L w r c0 =
      on_slot r (SetClaimState cl ''Unclaimed'' ''Idle'' (now w)) (c0\<lparr>minter := Some (m\<lparr>seq := seq m + 1\<rparr>)\<rparr>)"
    by (rule unclaim_minted [OF inv ok c0(2)])
  have "fresh_id L c (claimID cl)" unfolding fresh_id_def cl using m by force
  then have "slot_evolves L c (slot_at c r) (SetClaimState cl ''Unclaimed'' ''Idle'' (now w) s)" for s
    by (simp add: slot_evolves_def phase_of_def slot_claim_id_def)
  moreover have "minter_on c ?d" unfolding minter_on_def using m
    by (intro exI [of _ m] exI [of _ "seq m + 1"]) (simp add: u frame_simps)
  moreover have "pointwise calm_slot (unclaimSlot L w r c0) ?d" by (intro calm.rules calm.refl)
  ultimately show ?thesis using evolves_at [OF pointwise_upd(3) [OF c0(1)]] unfolding u by blast
qed

lemma evolves_timeout:
  assumes inv: "core_inv L c" and ok: "mint_ok L" "counters_ok c"
  shows "evolves L c (doMatchTimeout L w ev c)"
proof -
  let ?d = "c\<lparr>matchCancels := AList.delete (mt_slotName ev) (matchCancels c)\<rparr>"
  have ids: "ids_ok L c" using inv by (simp add: core_inv_def)
  have "evolves L c (reAdvertise L w (persistSlot L r (unclaimSlot L w r ?d)))" for r
    by (rule evolves_unclaim [OF inv ok]) (simp_all add: calm.rules)
  moreover have "evolves L c ?d" by (rule evolves_calm [OF ids]) (simp_all add: calm.rules)
  moreover have "evolves L c c" by (rule evolves_calm [OF ids]) simp_all
  ultimately show ?thesis by (simp add: doMatchTimeout_def Let_def split: option.split)
qed

lemma evolves_release:
  assumes inv: "core_inv L c" and ok: "mint_ok L" "counters_ok c" and r: "r \<in> set (LiveSlots c)"
  shows "evolves L c (releaseSlot L w r c)"
proof (cases "r \<in> set (dslots c)")
  case True
  from release_dynamic_setup [OF inv True] obtain p where p: "p < length (heap c)"
    and rel: "releaseSlot L w r c =
      reAdvertise L w (persistSlot L p (restored L w r p (close_books (Name (slot_at c r)) c)))"
    and drop: "drop_named (heap c) (Name (slot_at c r)) (dslots c) = filter (\<lambda>q. q \<noteq> r) (dslots c)" by blast
  let ?e = "restored L w r p (close_books (Name (slot_at c r)) c)"
  have "pointwise calm_slot ?e (releaseSlot L w r c)" unfolding rel by (intro calm.rules calm.refl)
  moreover have "key (slot_at ?e q) = key (slot_at c q)" for q
    using p by (simp add: slot_at_restored frame_simps)
  ultimately have "set (LiveSlots (releaseSlot L w r c)) \<subseteq> set (LiveSlots c)"
    "\<forall>q. key (slot_at (releaseSlot L w r c) q) = key (slot_at c q)" "slots (releaseSlot L w r c) = slots c"
    by (auto simp: pointwise_def LiveSlots_def frame_simps drop)
  moreover have "minter_on c (releaseSlot L w r c)"
    using inv unfolding rel by (intro minter_on_same [of L]) (simp_all add: core_inv_def frame_simps)
  ultimately show ?thesis unfolding evolves_def by (auto intro: slot_evolves_calm)
next
  case False
  then have static: "\<not> IsDynamic (slot_at c r)" using inv r by (auto simp: core_inv_def shape_ok_def LiveSlots_def)
  let ?n = "Name (slot_at c r)"
  let ?d = "killActivation ?n (cancelAliveLoop ?n (cancelMatchTimer ?n c))"
  have "evolves L c (reAdvertise L w (persistSlot L r (unclaimSlot L w r ?d)))"
    by (rule evolves_unclaim [OF inv ok]) (simp_all add: frame_simps calm.rules)
  then show ?thesis using static by (simp add: releaseSlot_def frame_simps Let_def)
qed

lemma evolves_adopt_failed:
  assumes inv: "core_inv L c" and ok: "mint_ok L" "counters_ok c"
  shows "evolves L c (doAdoptFailed L w n c)"
proof (cases "map_of (activations c) n")
  case None
  then show ?thesis using inv by (auto simp: doAdoptFailed_def core_inv_def intro!: evolves_calm)
next
  case (Some a)
  from activation_busy [OF inv Some] obtain r where r: "map_of (byName c) n = Some r"
    "claim_is ClaimedBusy (slot_at c r)" "r \<in> set (LiveSlots c)" by blast
  let ?d = "end_activation n a c"
  have "evolves L c (reAdvertise L w (persistSlot L r (on_slot r (\<lambda>s. set_idle w (map_claim (SetFinal f x y) s)) ?d)))" for f x y
    by (rule evolves_wind_down [OF inv Some r(1)]) (simp_all add: frame_simps calm.rules)
  then show ?thesis
    using Some r evolves_release [OF inv ok r(3)]
    by (auto simp: doAdoptFailed_def frame_simps Let_def split: option.split)
qed

section \<open>Claiming\<close>

lemma evolves_accept:
  assumes inv: "core_inv L c" and r: "r \<in> set (LiveSlots c)" and cl: "claim_is Unclaimed (slot_at c r)"
    and c0: "pointwise calm_slot c c0" "minter c0 = minter c" "slot_at c0 r = slot_at c r"
  shows "evolves L c (reAdvertise K w (emit x (startAliveLoop r (snd (claimed_reply K w req r
    (persistSlot K r (on_slot r (AcceptClaim t i) c0)))))))" (is "evolves L c ?d")
proof (rule evolves_at [OF c0(1)])
  have "slot_ok (slot_at c r)" using core_inv_books [OF inv r] by blast
  then have "phase_of (slot_at c r) \<in> {Free, Matched}" using cl by (rule slot_ok_phase(1))
  moreover obtain y where "slot_claim (slot_at c r) = Some y" using cl by (auto simp: claim_is_def split: option.splits)
  ultimately show "slot_evolves L c (slot_at c r) (AcceptClaim t i (slot_at c0 r))"
    by (auto simp: c0(3) slot_evolves_def phase_of_def slot_claim_id_def frame_simps split: if_splits)
  show "pointwise calm_slot (on_slot r (AcceptClaim t i) c0) ?d"
    by (intro calm.rules calm.refl)
  show "minter_on c ?d"
    using inv c0 by (intro minter_on_same [of L]) (simp_all add: core_inv_def frame_simps)
qed

lemma evolves_pslot:
  assumes inv: "core_inv L c" and ok: "mint_ok L" "counters_ok c"
    and ps: "ps \<in> set (slots c)" "IsPartitionable (slot_at c ps)"
  shows "evolves L c (doRequestClaimPSlot L w ev ps c)"
proof -
  obtain m cl where m: "minter c = Some m" and mint: "Mint L m = (m\<lparr>seq := seq m + 1\<rparr>, Inr cl)"
    and cl: "claimID cl = mint_id L m (seq m + 1)" by (rule next_mint [OF inv ok])
  have len: "q < length (heap c)" if "q \<in> set (LiveSlots c)" for q
    using registry_range inv that by (auto simp: core_inv_def)
  have psl: "ps < length (heap c)" using len ps by (simp add: LiveSlots_def)
  let ?e = "pslot_carved L w ev ps (m\<lparr>seq := seq m + 1\<rparr>) cl c"
  have old: "key (slot_at ?e q) = key (slot_at c q)" if "q \<in> set (LiveSlots c)" for q
    using len [OF that] psl by (simp add: pslot_carved_def Let_def slot_at_carved)
  have "fresh_id L c (claimID cl)" unfolding fresh_id_def cl using m by force
  then have new: "phase_of (slot_at ?e (length (heap c))) = Idle" "fresh_id L c (slot_claim_id (slot_at ?e (length (heap c))))"
    using psl by (simp_all add: pslot_carved_def Let_def slot_at_carved phase_of_def)
  have "minter_on c ?e" unfolding minter_on_def
    using m by (intro exI [of _ m] exI [of _ "seq m + 1"]) (simp add: pslot_carved_def Let_def)
  note minter = this
  have all: "evolves L c d" if d: "pointwise calm_slot ?e d" "minter d = minter ?e" for d
  proof -
    have live: "LiveSlots d = LiveSlots c @ [length (heap c)]" and sl: "slots d = slots c"
      using d(1) by (simp_all add: pointwise_def LiveSlots_def pslot_carved_def Let_def)
    have k: "key (slot_at d q) = key (slot_at ?e q)" for q using d(1) by (simp add: pointwise_def)
    have "length (heap c) \<notin> set (LiveSlots c)" using len by blast
    then show ?thesis unfolding evolves_def
      using sl minter d(2) old new k
      by (auto simp: live minter_on_def intro!: slot_evolves_calm) (auto simp: key_def)
  qed
  have "evolves L c (reAdvertise L w (emit x (snd (leftover_reply L w (rc_reqAd ev) ps
      (snd (claimed_reply L w (rc_reqAd ev) (length (heap c)) ?e))))))" for x
    by (rule all) (simp_all add: frame_simps calm.rules)
  moreover have "evolves L c (reject_claim c)"
    using inv by (intro evolves_calm) (simp_all add: core_inv_def frame_simps calm.rules)
  ultimately show ?thesis by (simp add: doRequestClaimPSlot_minted [OF m mint] Let_def)
qed

lemma evolves_trans_calm:
  assumes "pointwise calm_slot c c0" "minter c0 = minter c" "evolves L c0 d"
  shows "evolves L c d"
proof -
  have k: "phase_of (slot_at c0 q) = phase_of (slot_at c q)" "slot_claim_id (slot_at c0 q) = slot_claim_id (slot_at c q)" for q
    using assms(1) by (simp_all add: pointwise_def key_def)
  have live: "LiveSlots c0 = LiveSlots c" "slots c0 = slots c" using assms(1) by (simp_all add: pointwise_def LiveSlots_def)
  have "fresh_id L c0 i = fresh_id L c i" "minter_on c0 d = minter_on c d" for i
    by (simp_all add: fresh_id_def minter_on_def assms(2) fun_eq_iff)
  note m = this
  show ?thesis using assms(3) unfolding evolves_def slot_evolves_def live k m .
qed

lemma evolves_request:
  assumes inv: "core_inv L c" and ok: "mint_ok L" "counters_ok c"
  shows "evolves L c (doRequestClaim L w ev c)"
proof -
  have rej: "evolves L c (reject_claim c)"
    using inv by (intro evolves_calm) (simp_all add: core_inv_def frame_simps calm.rules)
  show ?thesis
  proof (cases "findSlotByClaimID (rc_claimID ev) c")
    case None
    then show ?thesis using rej by (simp add: doRequestClaim_def)
  next
    case (Some r)
    then have r: "r \<in> set (LiveSlots c)" using find_claim_live by blast
    let ?c1 = "cancelMatchTimer (Name (slot_at c r)) c"
    have c1: "pointwise calm_slot c ?c1" "minter ?c1 = minter c" "slot_at ?c1 r = slot_at c r"
      by (simp_all add: frame_simps calm.rules)
    have rej1: "evolves L c (reject_claim ?c1)"
      using inv by (intro evolves_calm) (simp_all add: core_inv_def frame_simps calm.rules)
    have "evolves L c (doRequestClaimPSlot L w ev r ?c1)" if "IsPartitionable (slot_at c r)"
    proof (rule evolves_trans_calm [OF c1(1,2) evolves_pslot [OF inv_cancelMatchTimer [OF inv r] ok(1)]])
      show "counters_ok ?c1" using ok by (simp add: counters_ok_def frame_simps)
      show "r \<in> set (slots ?c1)" using that r inv
        by (auto simp: core_inv_def shape_ok_def LiveSlots_def frame_simps IsPartitionable_def IsDynamic_def
            SlotTypeDynamic_def SlotTypePartitionable_def)
      show "IsPartitionable (slot_at ?c1 r)" using that by (simp add: frame_simps)
    qed
    moreover note evolves_accept [OF inv r _ c1, of L w _ "rc_reqAd ev" "now w" "accept_info L w ev ?c1"]
    ultimately show ?thesis using Some rej rej1
      by (auto simp: doRequestClaim_def Let_def case_prod_beta frame_simps claim_is_def split: option.split)
  qed
qed

section \<open>Every event\<close>

lemma evolves_handle:
  assumes inv: "core_inv L c" and ok: "mint_ok L" "counters_ok c" and e: "ev \<noteq> EvAdopt"
  shows "evolves L c (handle L w ev c)"
proof -
  have ids: "ids_ok L c" using inv by (simp add: core_inv_def)
  note calm = evolves_calm [OF ids]
  show ?thesis
  proof (cases ev)
    case (EvReleaseClaim cid)
    then show ?thesis using calm [of c] evolves_release [OF inv ok]
      by (auto simp: handle_def doReleaseByClaimID_def split: option.split dest!: find_claim_live)
  next
    case (EvReleaseSlot x)
    then show ?thesis using calm [of c] evolves_release [OF inv ok]
      by (auto simp: handle_def doReleaseSlot_def split: option.split dest!: byName_live [OF inv])
  qed (use e in \<open>simp_all add: handle_def evolves_match [OF inv] evolves_timeout [OF inv ok]
      evolves_request [OF inv ok] evolves_activate [OF inv] evolves_exited [OF inv]
      evolves_adopt_failed [OF inv ok] calm calm.rules calm.claim_reports calm.starter_reports
      minter_reports frame_simps\<close>)
qed

end
