(* ===== verification/Lifetime.thy ===== *)
theory Lifetime
  imports Lives Protocol
begin

text \<open>
  Claims over whole runs of the startd: each step of the machine refines the protocol of one slot,
  and a claim id that has left the registry never comes back.
\<close>

abbreviation run :: "('c, 'x) persist_api_scheme \<Rightarrow> 'c Core \<Rightarrow> 'c Core \<Rightarrow> bool" where
  "run L \<equiv> (startd_step (\<lambda>_. True) L)\<^sup>*\<^sup>*"

abbreviation life :: "('c, 'x) persist_api_scheme \<Rightarrow> Slot list \<Rightarrow> 'c Core \<Rightarrow> bool" where
  "life L \<equiv> startd_life (\<lambda>_. True) L"

lemma reached_inv:
  assumes "mint_ok L" "life L ss c"
  shows "startd_inv (\<lambda>_. True) L c"
  using life_inv [OF assms(2,1)] by blast

lemma example_life: "life example_lib (opt_Slots example_opts) (New example_lib example_opts)"
  by (rule startd_life.boot [OF example_opts_ok refl])

section \<open>Every step refines the protocol\<close>

lemma minter_background:
  "minter (Submit ev c) = minter c" "minter (persister_run L w c) = minter c"
  "relay_vacate n c = Some (m, d) \<Longrightarrow> minter d = minter c"
  using view_eq_fields(5) [OF view_Submit] view_eq_fields(5) [OF view_persister_run]
  by (auto simp: relay_vacate_def split: option.splits list.splits)

lemma step_evolves:
  assumes ok: "mint_ok L" and s: "startd_step P L c d" and inv: "startd_inv P L c"
  shows "evolves L c d"
  using s
proof (cases rule: startd_step.cases)
  case (event w)
  show ?thesis
  proof (cases "events c")
    case Nil
    then show ?thesis using event inv
      by (auto simp: loop_step_def startd_inv_def core_inv_def intro!: evolves_calm)
  next
    case (Cons ev evs)
    let ?c = "c\<lparr>events := evs\<rparr>"
    have "core_view ?c = core_view c" by (simp add: core_view_def)
    from core_inv_view [OF this, of L] have "core_inv L ?c" using inv by (simp add: startd_inv_def)
    moreover have "counters_ok ?c" using event by (simp add: counters_ok_def)
    ultimately have "evolves L ?c (handle L w ev ?c)"
      using evolves_handle [OF _ ok, of ?c ev] inv Cons by (simp add: startd_inv_def)
    then have "evolves L c (handle L w ev ?c)"
      by (rule evolves_trans_calm [rotated 2]) (simp_all add: calm.rules)
    then show ?thesis using event Cons by (simp add: loop_step_def)
  qed
next
  case (tick w)
  then show ?thesis using inv
    by (auto simp: startd_inv_def core_inv_def loop_step_def intro!: evolves_calm calm.rules)
qed (use inv in \<open>auto simp: startd_inv_def core_inv_def minter_background intro!: evolves_calm calm.background\<close>)

text \<open>
  C6. Every step of the startd, before and after any number of restarts as in C1, refines the claim protocol: the configured slots stay; a slot that is
  live before and after the step keeps its claim id and moves along at most one edge of the protocol
  (offered, claimed, activated, finished), or else it is free again under a claim id that was never
  issued before; and a slot that appears is an idle claimed slot, also under a new id. In particular no
  slot becomes busy without having been claimed, and a claim never changes hands. This assumes that the minting of a claim id never fails: when it
  does, a released slot is free under its old id.
\<close>

theorem claim_protocol_refined:
  assumes "mint_ok L" "life L ss c" "startd_step (\<lambda>_. True) L c d"
  shows "slots d = slots c \<and>
    (\<forall>q \<in> set (LiveSlots d).
       if q \<in> set (LiveSlots c)
       then slot_claim_id (slot_at d q) = slot_claim_id (slot_at c q) \<and>
              phase_step\<^sup>=\<^sup>= (phase_of (slot_at c q)) (phase_of (slot_at d q)) \<or>
            phase_of (slot_at d q) = Free \<and> fresh_id L c (slot_claim_id (slot_at d q))
       else phase_of (slot_at d q) = Idle \<and> fresh_id L c (slot_claim_id (slot_at d q)))"
  using step_evolves [OF assms(1,3) reached_inv [OF assms(1,2)]]
  unfolding evolves_def slot_evolves_def by blast

text \<open>A match notification moves the first slot from free to matched, under its id.\<close>

theorem claim_protocol_refined_witness:
  "\<exists>c d. startd_step (\<lambda>_. True) example_lib c d \<and> phase_of (slot_at c 0) = Free \<and> phase_of (slot_at d 0) = Matched \<and>
     slot_claim_id (slot_at d 0) = slot_claim_id (slot_at c 0)"
proof -
  let ?c = "Submit (EvMatchInfo ''claim#1'') (New example_lib example_opts)"
  let ?d = "loop_step example_lib example_world NextEvent ?c"
  have "startd_step (\<lambda>_. True) example_lib (New example_lib example_opts) ?c" by (rule submit) simp_all
  then have life: "life example_lib (opt_Slots example_opts) ?c" by (rule startd_life.run [OF example_life])
  have "counters_ok ?c" by code_simp
  then have step: "startd_step (\<lambda>_. True) example_lib ?c ?d" by (rule event)
  have p: "phase_of (slot_at ?c 0) = Free" "phase_of (slot_at ?d 0) = Matched" by code_simp+
  have "0 \<in> set (LiveSlots ?d)" "0 \<in> set (LiveSlots ?c)" by code_simp+
  with claim_protocol_refined [OF example_lib_mint_ok life step] p
  have "slot_claim_id (slot_at ?d 0) = slot_claim_id (slot_at ?c 0)" by (metis phase.distinct(1))
  with step p show ?thesis by blast
qed

section \<open>A claim id that is gone stays gone\<close>

definition live_ids :: "'c Core \<Rightarrow> string set" where
  "live_ids c = (\<lambda>r. slot_claim_id (slot_at c r)) ` set (LiveSlots c)"

lemma find_iff:
  assumes "core_inv L c"
  shows "findSlotByClaimID cid c = None \<longleftrightarrow> cid \<notin> live_ids c"
proof -
  have "has_claim_id cid (slot_at c r) \<longleftrightarrow> slot_claim_id (slot_at c r) = cid" if "r \<in> set (LiveSlots c)" for r
    using core_inv_books [OF assms that]
    by (auto simp: has_claim_id_def slot_claim_id_def dest: slot_ok_claim split: option.splits)
  then show ?thesis by (auto simp: findSlotByClaimID_def find_None_iff live_ids_def)
qed

text \<open>From \<open>c\<close> on, the only ids that appear are those the minter of \<open>c\<close> has not issued yet.\<close>

definition ids_grow :: "'x security_api_scheme \<Rightarrow> 'c Core \<Rightarrow> 'c Core \<Rightarrow> bool" where
  "ids_grow L c d \<longleftrightarrow> minter c = None \<or>
     minter_on c d \<and> (\<forall>i \<in> live_ids d. i \<in> live_ids c \<or> fresh_id L c i)"

lemma evolves_ids: "evolves L c d \<Longrightarrow> ids_grow L c d"
  unfolding evolves_def ids_grow_def live_ids_def slot_evolves_def
  by (auto split: if_splits)

lemma fresh_id_later:
  assumes "minter_on c d" "fresh_id L d i"
  shows "fresh_id L c i"
proof -
  obtain m k where m: "minter c = Some m" "seq m \<le> k" "minter d = Some (m\<lparr>seq := k\<rparr>)"
    using assms(1) by (auto simp: minter_on_def)
  with assms(2) obtain l where "k < l" "i = mint_id L m l" by (auto simp: fresh_id_def)
  then show ?thesis unfolding fresh_id_def using m by (intro exI [of _ m] exI [of _ l]) simp
qed

lemma minter_on_trans:
  assumes "minter_on c d" "minter_on d e"
  shows "minter_on c e"
proof -
  obtain m k where m: "minter c = Some m" "seq m \<le> k" "minter d = Some (m\<lparr>seq := k\<rparr>)"
    using assms(1) by (auto simp: minter_on_def)
  with assms(2) obtain l where "k \<le> l" "minter e = Some (m\<lparr>seq := l\<rparr>)" by (auto simp: minter_on_def)
  then show ?thesis unfolding minter_on_def using m by (intro exI [of _ m] exI [of _ l]) simp
qed

lemma ids_grow_trans: "ids_grow L c d \<Longrightarrow> ids_grow L d e \<Longrightarrow> ids_grow L c e"
proof -
  assume a: "ids_grow L c d" "ids_grow L d e"
  show ?thesis
  proof (cases "minter c = None")
    case False
    then have cd: "minter_on c d" "\<And>i. i \<in> live_ids d \<Longrightarrow> i \<in> live_ids c \<or> fresh_id L c i"
      using a(1) by (auto simp: ids_grow_def)
    then have de: "minter_on d e" "\<And>i. i \<in> live_ids e \<Longrightarrow> i \<in> live_ids d \<or> fresh_id L d i"
      using a(2) by (auto simp: ids_grow_def minter_on_def)
    have "minter_on c e" using cd(1) de(1) by (rule minter_on_trans)
    then show ?thesis using cd de fresh_id_later unfolding ids_grow_def by blast
  qed (simp add: ids_grow_def)
qed

lemma run_ids_grow:
  assumes "mint_ok L" "startd_inv P L c" "(startd_step P L)\<^sup>*\<^sup>* c d"
  shows "ids_grow L c d"
proof (rule startd.along [OF assms(3), where R = "ids_grow L"])
  show "mint_ok L \<and> startd_inv P L c" using assms by blast
  show "ids_grow L u u" for u
    by (cases "minter u") (auto simp: ids_grow_def minter_on_def)
  show "ids_grow L u v" if "mint_ok L \<and> startd_inv P L u" "startd_step P L u v" for u v
    using step_evolves that evolves_ids by blast
qed (rule ids_grow_trans)

lemma live_id_not_fresh:
  assumes inv: "core_inv L c" and i: "i \<in> live_ids c" and cd: "minter_on c d"
  shows "\<not> fresh_id L d i"
proof
  assume "fresh_id L d i"
  then obtain m k where m: "minter d = Some m" "seq m < k" "i = mint_id L m k" by (auto simp: fresh_id_def)
  from cd m obtain m0 where m0: "minter c = Some m0" "seq m0 \<le> seq m" "\<And>k. mint_id L m k = mint_id L m0 k"
    by (auto simp: minter_on_def)
  obtain r where r: "r \<in> set (LiveSlots c)" "slot_claim_id (slot_at c r) = i" using i by (auto simp: live_ids_def)
  have "ids_ok L c" using inv by (simp add: core_inv_def)
  from mint_fresh [OF this m0(1) _ r(1), of k] show False using m m0 r(2) by simp
qed

text \<open>
  C7. A claim id is a capability that can be revoked for good: once a slot has been found under an id,
  and later no slot is, no slot is ever found under that id again while the process runs, also when it began
  by adopting the claims of an earlier one.
\<close>

theorem revoked_id_stays_revoked:
  assumes "mint_ok L" "life L ss c" "findSlotByClaimID cid c = Some r"
    "run L c d" "findSlotByClaimID cid d = None" "run L d e"
  shows "findSlotByClaimID cid e = None"
proof -
  have ic: "startd_inv (\<lambda>_. True) L c" by (rule reached_inv [OF assms(1,2)])
  have d: "life L ss d" by (rule life.reachable_inv [OF assms(4,2)])
  have id: "startd_inv (\<lambda>_. True) L d" by (rule reached_inv [OF assms(1) d])
  have ie: "startd_inv (\<lambda>_. True) L e" by (rule reached_inv [OF assms(1) life.reachable_inv [OF assms(6) d]])
  have inv: "core_inv L c" "core_inv L d" "core_inv L e" using ic id ie by (simp_all add: startd_inv_def)
  have c: "cid \<in> live_ids c" using find_iff [OF inv(1), of cid] assms(3) by simp
  have "minter c \<noteq> None" "minter d \<noteq> None" using inv by (auto simp: core_inv_def ids_ok_def split: option.splits)
  then have g: "minter_on c d" "\<forall>i \<in> live_ids e. i \<in> live_ids d \<or> fresh_id L d i"
    using run_ids_grow [OF assms(1) ic assms(4)] run_ids_grow [OF assms(1) id assms(6)]
    by (auto simp: ids_grow_def)
  then have "cid \<notin> live_ids e"
    using live_id_not_fresh [OF inv(1) c g(1)] find_iff [OF inv(2), of cid] assms(5) by blast
  then show ?thesis using find_iff [OF inv(3), of cid] by blast
qed

section \<open>Release revokes the claim id\<close>

lemma fresh_not_live:
  assumes "core_inv L c" "i \<in> live_ids c" "fresh_id L c j"
  shows "j \<noteq> i"
proof -
  obtain m where "minter c = Some m" using assms(3) by (auto simp: fresh_id_def)
  then have "minter_on c c" by (auto simp: minter_on_def intro: exI [of _ "seq m"])
  then show ?thesis using live_id_not_fresh [OF assms(1,2)] assms(3) by blast
qed

lemma own_id:
  assumes "core_inv L c" "r \<in> set (LiveSlots c)" "q \<in> set (LiveSlots c)"
    "slot_claim_id (slot_at c q) = slot_claim_id (slot_at c r)"
  shows "q = r"
  using assms by (auto simp: core_inv_def ids_ok_def split: option.splits dest: inj_onD)

lemma unclaim_revokes:
  assumes inv: "core_inv L c" and ok: "mint_ok L" "counters_ok c" and r: "r \<in> set (LiveSlots c)"
    and c0: "pointwise calm_slot c c0" "minter c0 = minter c" "length (heap c0) = length (heap c)"
  shows "slot_claim_id (slot_at c r) \<notin> live_ids (reAdvertise L w (persistSlot L r (unclaimSlot L w r c0)))"
    (is "_ \<notin> live_ids ?d")
proof -
  obtain m cl where m: "minter c = Some m" and cl: "claimID cl = mint_id L m (seq m + 1)"
    and u: "unclaimSlot L w r c0 =
      on_slot r (SetClaimState cl ''Unclaimed'' ''Idle'' (now w)) (c0\<lparr>minter := Some (m\<lparr>seq := seq m + 1\<rparr>)\<rparr>)"
    by (rule unclaim_minted [OF inv ok c0(2)])
  have "fresh_id L c (claimID cl)" unfolding fresh_id_def cl using m by force
  then have new: "claimID cl \<noteq> slot_claim_id (slot_at c r)"
    using fresh_not_live [OF inv] r by (auto simp: live_ids_def)
  have "pointwise calm_slot (unclaimSlot L w r c0) ?d" by (intro calm.rules calm.refl)
  then have d: "LiveSlots ?d = LiveSlots c" "slot_claim_id (slot_at ?d q) = slot_claim_id (slot_at (unclaimSlot L w r c0) q)" for q
    using c0(1) by (simp_all add: pointwise_def LiveSlots_def u key_def)
  have k: "slot_claim_id (slot_at c0 q) = slot_claim_id (slot_at c q)" for q
    using c0(1) by (simp add: pointwise_def key_def)
  have "r < length (heap c0)" using r inv c0(3) registry_range by (auto simp: core_inv_def)
  then have "slot_claim_id (slot_at ?d r) = claimID cl" "q \<noteq> r \<Longrightarrow> slot_claim_id (slot_at ?d q) = slot_claim_id (slot_at c q)" for q
    unfolding d(2) unfolding u by (simp_all add: k) (simp add: slot_claim_id_def)
  then show ?thesis using new own_id [OF inv r] by (force simp: live_ids_def d(1))
qed

lemma release_revokes:
  assumes inv: "core_inv L c" and ok: "mint_ok L" "counters_ok c" and r: "r \<in> set (LiveSlots c)"
  shows "slot_claim_id (slot_at c r) \<notin> live_ids (releaseSlot L w r c)"
proof (cases "r \<in> set (dslots c)")
  case True
  from release_dynamic_setup [OF inv True] obtain p where p: "p < length (heap c)"
    and rel: "releaseSlot L w r c =
      reAdvertise L w (persistSlot L p (restored L w r p (close_books (Name (slot_at c r)) c)))"
    and drop: "drop_named (heap c) (Name (slot_at c r)) (dslots c) = filter (\<lambda>q. q \<noteq> r) (dslots c)" by blast
  let ?e = "restored L w r p (close_books (Name (slot_at c r)) c)"
  have "pointwise calm_slot ?e (releaseSlot L w r c)" unfolding rel by (intro calm.rules calm.refl)
  moreover have "key (slot_at ?e q) = key (slot_at c q)" for q
    using p by (simp add: slot_at_restored frame_simps)
  moreover have "r \<notin> set (slots c)" using inv True by (auto simp: core_inv_def registry_ok_def LiveSlots_def)
  ultimately have "set (LiveSlots (releaseSlot L w r c)) \<subseteq> set (LiveSlots c) - {r}"
    "\<And>q. slot_claim_id (slot_at (releaseSlot L w r c) q) = slot_claim_id (slot_at c q)"
    by (auto simp: pointwise_def LiveSlots_def frame_simps drop key_def)
  then show ?thesis using own_id [OF inv r] by (auto simp: live_ids_def)
next
  case False
  then have static: "\<not> IsDynamic (slot_at c r)" using inv r by (auto simp: core_inv_def shape_ok_def LiveSlots_def)
  let ?n = "Name (slot_at c r)"
  have "slot_claim_id (slot_at c r) \<notin> live_ids (reAdvertise L w (persistSlot L r (unclaimSlot L w r
      (killActivation ?n (cancelAliveLoop ?n (cancelMatchTimer ?n c))))))"
    by (rule unclaim_revokes [OF inv ok r]) (simp_all add: frame_simps calm.rules)
  then show ?thesis using static by (simp add: releaseSlot_def frame_simps Let_def)
qed

lemma books_quiet:
  "activations (reAdvertise L w c) = activations c" "aliveCancels (reAdvertise L w c) = aliveCancels c"
  "matchCancels (reAdvertise L w c) = matchCancels c"
  using view_eq_fields(6-8) [OF view_reAdvertise] by blast+

lemma unclaim_books:
  "activations (unclaimSlot L w r c) = activations c" "aliveCancels (unclaimSlot L w r c) = aliveCancels c"
  "matchCancels (unclaimSlot L w r c) = matchCancels c"
  by (simp_all add: unclaimSlot_def split: option.split prod.split sum.split)

lemma destroy_books:
  "activations (destroyDSlot L w r c) = activations c" "aliveCancels (destroyDSlot L w r c) = aliveCancels c"
  "matchCancels (destroyDSlot L w r c) = matchCancels c"
  by (simp_all add: destroyDSlot_def books_quiet frame_simps refreshPSlotChildren_def Let_def split: option.split)

lemma release_closes_books:
  "Name (slot_at c r) \<notin> dom (map_of (activations (releaseSlot L w r c)))"
  "Name (slot_at c r) \<notin> dom (map_of (aliveCancels (releaseSlot L w r c)))"
  "Name (slot_at c r) \<notin> dom (map_of (matchCancels (releaseSlot L w r c)))"
  by (simp_all only: releaseSlot_def Let_def split: if_split)
    (simp_all add: frame_simps books_quiet unclaim_books destroy_books)

lemma release_id_gone:
  assumes "core_inv L c" "mint_ok L" "counters_ok c" "findSlotByClaimID cid c = Some r"
  shows "findSlotByClaimID cid (handle L w (EvReleaseClaim cid) c) = None"
proof -
  have r: "r \<in> set (LiveSlots c)" "has_claim_id cid (slot_at c r)" using find_claim_live [OF assms(4)] by auto
  have "slot_claim_id (slot_at c r) = cid" using r(2) by (auto simp: has_claim_id_def slot_claim_id_def split: option.splits)
  then show ?thesis
    using find_iff [OF inv_releaseSlot [OF assms(1-3) r(1)], of cid w] release_revokes [OF assms(1-3) r(1), of w] assms(4)
    by (auto simp: handle_def doReleaseByClaimID_def)
qed

text \<open>When no claim id can be minted, a slot that is set free keeps its claim.\<close>

theorem failed_mint_keeps_claim:
  assumes "minter c = Some m" "Mint L m = (m', Inl err)" "r < length (heap c)"
  shows "slot_claim (slot_at (unclaimSlot L w r c) r) = slot_claim (slot_at c r) \<and> slot_state (slot_at (unclaimSlot L w r c) r) = ''Unclaimed''"
  using assms by (simp add: unclaimSlot_def SetStateActivity_def on_slot_def slot_at_def)

text \<open>
  C21. RELEASE_CLAIM revokes at once, when a new claim id can be minted for the slot and the counters are not at their last value: after the event no slot is found under the released id, no starter
  and no keepalive is recorded for the slot, and no match timer is armed for it. When the minting fails, the slot is set free but keeps the released claim.
\<close>

theorem release_claim_revokes:
  assumes "mint_ok L" "life L ss c" "counters_ok c" "findSlotByClaimID cid c = Some r"
  shows "findSlotByClaimID cid (handle L w (EvReleaseClaim cid) c) = None \<and>
    Name (slot_at c r) \<notin> dom (map_of (activations (handle L w (EvReleaseClaim cid) c))) \<and>
    Name (slot_at c r) \<notin> dom (map_of (aliveCancels (handle L w (EvReleaseClaim cid) c))) \<and>
    Name (slot_at c r) \<notin> dom (map_of (matchCancels (handle L w (EvReleaseClaim cid) c)))"
proof -
  have inv: "core_inv L c" using reached_inv [OF assms(1,2)] by (simp add: startd_inv_def)
  have h: "handle L w (EvReleaseClaim cid) c = releaseSlot L w r c"
    using assms(4) by (simp add: handle_def doReleaseByClaimID_def)
  show ?thesis using release_id_gone [OF inv assms(1,3,4), of w] release_closes_books unfolding h by blast
qed

lemma example_found: "findSlotByClaimID ''claim#1'' (New example_lib example_opts) = Some 0"
  by code_simp

theorem release_claim_revokes_witness:
  "findSlotByClaimID ''claim#1''
     (handle example_lib example_world (EvReleaseClaim ''claim#1'') (New example_lib example_opts)) = None"
  using release_claim_revokes [OF example_lib_mint_ok example_life example_counters example_found]
  by blast

theorem revoked_id_stays_revoked_witness:
  "findSlotByClaimID ''claim#1'' (Submit (EvMatchInfo ''claim#1'')
     (serve example_lib example_world (EvReleaseClaim ''claim#1'') (New example_lib example_opts))) = None"
proof -
  let ?c = "New example_lib example_opts"
  let ?d = "serve example_lib example_world (EvReleaseClaim ''claim#1'') ?c"
  have go: "run example_lib ?c ?d" by (rule serve_run) (simp_all add: example_counters)
  have "opt_Minter example_opts = Some (NewMinter ''<h:9618>'' 1)" by (simp add: example_opts_def)
  then have "events ?c = []" by (rule New_counters(3) [OF example_lib_mint_ok example_opts_ok])
  then have "?d = handle example_lib example_world (EvReleaseClaim ''claim#1'') ?c"
    by (simp add: serve_idle)
  then have gone: "findSlotByClaimID ''claim#1'' ?d = None"
    using release_id_gone [OF New_inv [OF example_lib_mint_ok example_opts_ok] example_lib_mint_ok example_counters example_found]
    by simp
  have "startd_step (\<lambda>_. True) example_lib ?d (Submit (EvMatchInfo ''claim#1'') ?d)" by (rule submit) simp_all
  then have "run example_lib ?d (Submit (EvMatchInfo ''claim#1'') ?d)" by blast
  from revoked_id_stays_revoked [OF example_lib_mint_ok example_life example_found go gone this]
  show ?thesis .
qed

end
