(* ===== verification/Replies.thy ===== *)
theory Replies
  imports Restart
begin

text \<open>
  A command handler that needs an answer submits an event with a reply channel and waits. What it relies on is shown
  here: the loop sends exactly one reply for each such event, of the kind the handler reads, in the order of the queue, and none for
  anything else it does. It holds in every state, whatever the slots look like.
\<close>

datatype request_kind = ClaimRequest | ActivateRequest | DeactivateRequest | LocateRequest | AdoptRequest

definition request_kind :: "Event \<Rightarrow> request_kind option" where
  "request_kind ev =
     (case ev of
        EvRequestClaim e \<Rightarrow> Some ClaimRequest
      | EvActivateClaim e \<Rightarrow> Some ActivateRequest
      | EvDeactivate e \<Rightarrow> Some DeactivateRequest
      | EvLocateStarter e \<Rightarrow> Some LocateRequest
      | EvAdopt \<Rightarrow> Some AdoptRequest
      | _ \<Rightarrow> None)"

definition reply_kind :: "effect \<Rightarrow> request_kind option" where
  "reply_kind e =
     (case e of
        ReplyClaim d \<Rightarrow> Some ClaimRequest
      | ReplyActivate d \<Rightarrow> Some ActivateRequest
      | ReplyDeactivate d \<Rightarrow> Some DeactivateRequest
      | ReplyLocate r \<Rightarrow> Some LocateRequest
      | AdoptDone \<Rightarrow> Some AdoptRequest
      | _ \<Rightarrow> None)"

definition answered :: "'c Core \<Rightarrow> request_kind list" where
  "answered c = List.map_filter reply_kind (out c)"

section \<open>What sends no reply\<close>

lemma map_filter_append: "List.map_filter f (xs @ ys) = List.map_filter f xs @ List.map_filter f ys"
  by (simp add: List.map_filter_def)

lemma answered_emit [simp]: "answered (emit e c) = answered c @ (case reply_kind e of None \<Rightarrow> [] | Some k \<Rightarrow> [k])"
  by (simp add: answered_def emit_def map_filter_append List.map_filter_def split: option.split)

lemma answered_upd [simp]:
  "answered (c\<lparr>matchCancels := x1\<rparr>) = answered c" "answered (c\<lparr>aliveCancels := x1\<rparr>) = answered c"
  "answered (c\<lparr>deferredDeactivate := x1\<rparr>) = answered c" "answered (c\<lparr>activations := x2\<rparr>) = answered c"
  "answered (c\<lparr>minter := x3\<rparr>) = answered c" "answered (c\<lparr>sandboxSeq := x4\<rparr>) = answered c"
  "answered (c\<lparr>activationGen := x4\<rparr>) = answered c" "answered (c\<lparr>dslotSeq := x4\<rparr>) = answered c"
  "answered (c\<lparr>fresh := x5\<rparr>) = answered c" "answered (c\<lparr>events := x6\<rparr>) = answered c"
  "answered (c\<lparr>persister_of := x7\<rparr>) = answered c" "answered (c\<lparr>store := x8\<rparr>) = answered c"
  "answered (c\<lparr>heap := x9\<rparr>) = answered c" "answered (c\<lparr>byName := x10\<rparr>) = answered c" "answered (c\<lparr>dslots := x11\<rparr>) = answered c"
  by (simp_all add: answered_def)

lemma answered_quiet [simp]:
  "answered (on_slot r f c) = answered c" "answered (persistSlot L r c) = answered c"
  "answered (startMatchTimer r cid c) = answered c" "answered (cancelMatchTimer n c) = answered c"
  "answered (startAliveLoop r c) = answered c" "answered (cancelAliveLoop n c) = answered c"
  "answered (releaseDeferredDeactivate n c) = answered c" "answered (end_activation n a c) = answered c"
  "answered (killActivation n c) = answered c" "answered (store_delete L n c) = answered c"
  "answered (InvalidateSlot L w s c) = answered c" "answered (addDSlot d c) = answered c"
  "answered (removeDSlot n c) = answered c" "answered (refreshPSlotChildren r c) = answered c"
  "answered (unclaimSlot L w r c) = answered c" "answered (redial_starter L rc c) = answered c"
  by (simp_all add: on_slot_def persistSlot_def startMatchTimer_def cancelMatchTimer_def startAliveLoop_def cancelAliveLoop_def
      releaseDeferredDeactivate_def end_activation_def killActivation_def store_delete_def InvalidateSlot_def addDSlot_def
      removeDSlot_def refreshPSlotChildren_def unclaimSlot_def redial_starter_def reply_kind_def Let_def
      split: option.split prod.split sum.split)

lemma answered_fold: "(\<And>r c. answered (f r c) = answered c) \<Longrightarrow> answered (fold f rs c) = answered c"
  by (induction rs arbitrary: c) auto

lemma answered_reAdvertise [simp]: "answered (reAdvertise L w c) = answered c"
proof -
  have "answered (advertise_slot L w r c) = answered c" for r and c :: "'a Core"
    by (simp add: advertise_slot_def reply_kind_def split: prod.split)
  then show ?thesis by (simp add: reAdvertise_def Advertise_def answered_fold)
qed

lemma answered_public [simp]:
  "answered (snd (claimed_reply L w req r c)) = answered c" "answered (snd (leftover_reply L w req r c)) = answered c"
  "answered (snd (take_public L w r c)) = answered c"
  by (simp_all add: claimed_reply_on_slot leftover_reply_on_slot take_public_on_slot)

lemma answered_releaseSlot [simp]: "answered (releaseSlot L w r c) = answered c"
  by (simp add: releaseSlot_def destroyDSlot_def Let_def split: option.split)

lemma answered_launch: "launch_starter w r a c = Inr (a', d) \<Longrightarrow> answered d = answered c"
  by (auto simp: launch_starter_def Let_def reply_kind_def split: if_splits sum.splits prod.splits)

lemma answered_doAdopt [simp]: "answered (doAdopt L w c) = answered c"
proof -
  have a: "answered (adopt_claim L rc r c) = answered c" for rc r and c :: "'a Core" by (simp add: adopt_claim_def)
  have o: "answered (snd (snd (adopt_on_slot L rc s))) = answered (snd (snd s))" for rc and s :: "'a adoption"
    by (auto simp: adopt_on_slot_def a split: prod.split option.split sum.split)
  have "answered (snd (reconstructDSlot rc c)) = answered c" for rc and c :: "'a Core"
    by (simp add: reconstructDSlot_def Let_def split: option.split)
  then have r: "reconstructDSlot rc c = (x, d) \<Longrightarrow> answered d = answered c" for rc x d and c :: "'a Core" by (metis snd_conv)
  have "answered (snd (snd (adopt_record L rc s))) = answered (snd (snd s))" for rc and s :: "'a adoption"
    by (auto simp: adopt_record_def o split: prod.split option.split dest!: r)
  then have f: "answered (snd (snd (fold (adopt_record L) rs s))) = answered (snd (snd s))" for rs and s :: "'a adoption"
    by (induction rs arbitrary: s) simp_all
  obtain k tch d where loop: "fold (adopt_record L) (stored_records L c) (0, [], c) = (k, tch, d)" by (metis prod_cases3)
  have "answered d = answered c" using f [of "stored_records L c" "(0, [], c)"] loop by simp
  moreover have "answered (fold (refresh_parent tch) ns d) = answered d" for ns
    by (rule answered_fold) (simp add: refresh_parent_def split: option.split)
  ultimately show ?thesis
    using loop by (simp add: doAdopt_def stored_records_def refresh_parent_def [abs_def] Let_def)
qed

section \<open>One event\<close>

lemma answered_rejects [simp]:
  "answered (reject_claim c) = answered c @ [ClaimRequest]" "answered (reject_activate c) = answered c @ [ActivateRequest]"
  by (simp_all add: reject_claim_def reject_activate_def reply_kind_def)

lemma answered_requests:
  "answered (doRequestClaim L w rc c) = answered c @ [ClaimRequest]"
  "answered (doActivateClaim L w ac c) = answered c @ [ActivateRequest]"
  "answered (doDeactivate de c) = answered c @ [DeactivateRequest]"
proof -
  show "answered (doRequestClaim L w rc c) = answered c @ [ClaimRequest]"
    by (simp add: doRequestClaim_def doRequestClaimPSlot_def reply_kind_def Let_def case_prod_beta split: option.split sum.split)
  show "answered (doActivateClaim L w ac c) = answered c @ [ActivateRequest]"
    by (auto simp: doActivateClaim_def reply_kind_def Let_def case_prod_beta take_public_on_slot answered_launch split: option.split sum.split)
  show "answered (doDeactivate de c) = answered c @ [DeactivateRequest]"
    by (simp add: doDeactivate_def reply_kind_def Let_def split: option.split)
qed

lemma answered_others:
  "answered (doMatchInfo L w cid c) = answered c" "answered (doMatchTimeout L w mt c) = answered c"
  "answered (doReleaseByClaimID L w cid c) = answered c" "answered (doReleaseSlot L w rs c) = answered c"
  "answered (doAliveOK w n c) = answered c" "answered (doStarterUpdate su c) = answered c"
  "answered (doStarterFinal sf c) = answered c" "answered (doStarterExited L w n c) = answered c"
  "answered (doStarterHello L sh c) = answered c" "answered (doAdoptFailed L w n c) = answered c"
  "answered (doVacate va c) = answered c" "answered (doVacateEscalate ve c) = answered c"
  by (simp_all add: doMatchInfo_def doMatchTimeout_def doReleaseByClaimID_def doReleaseSlot_def doAliveOK_def doStarterUpdate_def
      doStarterFinal_def doStarterExited_def doStarterHello_def doAdoptFailed_def doVacate_def doVacateEscalate_def reply_kind_def
      Let_def split: option.split)

lemma answered_handle:
  "answered (handle L w ev c) = answered c @ (case request_kind ev of None \<Rightarrow> [] | Some k \<Rightarrow> [k])"
  by (cases ev) (simp_all add: handle_def request_kind_def answered_requests answered_others reply_kind_def)

lemma events_handle_all: "events (handle L w ev c) = events c"
proof (cases "ev = EvAdopt")
  case True
  then show ?thesis by (simp add: handle_def)
qed (simp add: events_handle)

section \<open>The queue\<close>

text \<open>
  C5. Every request is answered exactly once and in order. Whatever state the startd is in and whatever happens to its
  slots, when it has handled the next events of its queue, the replies it has sent are those it had sent before, followed by one
  reply, of the right kind, for each of these events that is a request. Ticks and the writer send none, and a submitted event
  waits for its turn behind all the others.
\<close>

theorem requests_answered_in_order:
  "(let d = fold (\<lambda>w. loop_step L w NextEvent) ws c
    in events d = drop (length ws) (events c) \<and>
       answered d = answered c @ List.map_filter request_kind (take (length ws) (events c))) \<and>
   answered (loop_step L w Tick c) = answered c \<and> answered (persister_run L w c) = answered c \<and>
   answered (Submit ev c) = answered c \<and>
   events (Submit ev c) = events c @ (if length (events c) < queue_capacity then [ev] else [])"
proof -
  have loop: "events (fold (\<lambda>w. loop_step L w NextEvent) ws c) = drop (length ws) (events c) \<and>
      answered (fold (\<lambda>w. loop_step L w NextEvent) ws c) = answered c @ List.map_filter request_kind (take (length ws) (events c))"
  proof (induction ws arbitrary: c)
    case (Cons w ws)
    have "events (loop_step L w NextEvent c) = tl (events c)"
      by (simp add: loop_step_def events_handle_all split: list.split)
    moreover have "answered (loop_step L w NextEvent c) = answered c @ List.map_filter request_kind (take 1 (events c))"
      by (simp add: loop_step_def answered_handle List.map_filter_def split: list.split option.split)
    ultimately show ?case using Cons [of "loop_step L w NextEvent c"]
      by (cases "events c") (simp_all add: List.map_filter_def)
  qed (simp add: List.map_filter_def)
  have "answered (commit L r x) = answered x" for r and x :: "'a Core" by (simp add: commit_def split: option.split sum.split)
  then have "answered (persister_run L w c) = answered c" by (simp add: persister_run_def split: option.split list.split)
  then show ?thesis using loop by (simp add: loop_step_def Submit_def Let_def)
qed

end
