(* ===== verification/Config.thy ===== *)
theory Config
  imports Startup Paths
begin

text \<open>
  The main program of the startd (\<^verbatim>\<open>cmd/startd/main.go\<close>): how the configuration becomes the addresses,
  directories, intervals and slots the startd is built from. The configuration is the function that
  answers \<^verbatim>\<open>cfg.Get\<close>; the answers of the daemon library and of the operating system are the record
  \<open>daemon_env\<close>.
\<close>

record daemon_env =
  AdvertisedSinful :: "string option"
  ListenAddr :: string
  Hostname :: "string option"
  ReadFile :: "string \<Rightarrow> string option"
  MakeDir :: "string \<Rightarrow> string + unit"
  WriteFile :: "string \<Rightarrow> string \<Rightarrow> bool"
  UnixNow :: int
  ClockNow :: time

section \<open>Knobs\<close>

definition configSeconds :: "config \<Rightarrow> string \<Rightarrow> duration \<Rightarrow> duration" where
  "configSeconds cfg key def =
     (case cfg key of
        Some v \<Rightarrow> (case Atoi (TrimSpace v) of
                     Some secs \<Rightarrow> if secs > 0 then wrap64 (secs * second) else def
                   | None \<Rightarrow> def)
      | None \<Rightarrow> def)"

definition configString :: "config \<Rightarrow> string \<Rightarrow> string \<Rightarrow> string" where
  "configString cfg key def =
     (case cfg key of Some v \<Rightarrow> if TrimSpace v \<noteq> [] then TrimSpace v else def | None \<Rightarrow> def)"

definition configInt :: "config \<Rightarrow> string \<Rightarrow> int \<Rightarrow> int" where
  "configInt cfg key def =
     (case cfg key of
        Some v \<Rightarrow> (case Atoi (TrimSpace v) of Some n \<Rightarrow> if n > 0 then n else def | None \<Rightarrow> def)
      | None \<Rightarrow> def)"

definition fullHostname :: "daemon_env \<Rightarrow> config \<Rightarrow> string" where
  "fullHostname d cfg =
     (case cfg ''FULL_HOSTNAME'' of
        Some v \<Rightarrow> if TrimSpace v \<noteq> [] then TrimSpace v
                  else (case Hostname d of Some h \<Rightarrow> h | None \<Rightarrow> ''localhost'')
      | None \<Rightarrow> (case Hostname d of Some h \<Rightarrow> h | None \<Rightarrow> ''localhost''))"

definition claimsDir :: "config \<Rightarrow> string" where
  "claimsDir cfg =
     (let v = configString cfg ''EP_CLAIMS_DIR'' []; spool = configString cfg ''SPOOL'' []
      in if v \<noteq> [] then v else if spool \<noteq> [] then Join [spool, ''ep'', ''claims''] else [])"

definition starterSocketDir :: "config \<Rightarrow> string" where
  "starterSocketDir cfg =
     (let v = configString cfg ''EP_STARTER_SOCKET_DIR'' []; spool = configString cfg ''SPOOL'' []
      in if v \<noteq> [] then v else if spool \<noteq> [] then Join [spool, ''ep'', ''starters''] else [])"

section \<open>Addresses\<close>

definition startdAddr :: "daemon_env \<Rightarrow> string" where
  "startdAddr d = (case AdvertisedSinful d of Some s \<Rightarrow> s | None \<Rightarrow> ListenAddr d)"

definition wrapSinful :: "string \<Rightarrow> string" where
  "wrapSinful addr =
     (let a = TrimSpace addr
      in if a = [] then [] else if HasPrefix a ''<'' then a else ''<'' @ a @ ''>'')"

text \<open>The path of the address file and what is written to it; nothing when there is no file.\<close>

definition writeAddressFile :: "daemon_env \<Rightarrow> config \<Rightarrow> (string \<times> string) option" where
  "writeAddressFile d cfg =
     (let put = (\<lambda>path. let text = ''<'' @ startdAddr d @ ''>'' @ [CHR 0x0A]
                        in if WriteFile d path text then Some (path, text) else None);
          fallback = (case cfg ''LOG'' of
                        Some logDir \<Rightarrow> if logDir = [] then None else put (Join [logDir, ''.startd_address''])
                      | None \<Rightarrow> None)
      in case cfg ''STARTD_ADDRESS_FILE'' of
           Some path \<Rightarrow> if TrimSpace path = [] then fallback else put path
         | None \<Rightarrow> fallback)"

section \<open>Collectors\<close>

definition host_sep :: "char \<Rightarrow> bool" where
  "host_sep r \<longleftrightarrow> r \<in> {CHR '','', CHR '' '', CHR 0x09, CHR 0x0A}"

definition splitHostList :: "string \<Rightarrow> string list" where
  "splitHostList raw = filter (\<lambda>h. h \<noteq> []) (FieldsFunc raw host_sep)"

definition hasUsablePort :: "string \<Rightarrow> bool" where
  "hasUsablePort entry =
     (let s = TrimPrefix (TrimSuffix (TrimSpace entry) ''>'') ''<'';
          s' = (case IndexByte s CHR ''?'' of Some i \<Rightarrow> take i s | None \<Rightarrow> s)
      in case SplitHostPort s' of Some (_, port) \<Rightarrow> port \<noteq> [] \<and> port \<noteq> ''0'' | None \<Rightarrow> False)"

definition address_line :: "string \<Rightarrow> bool" where
  "address_line line \<longleftrightarrow> line \<noteq> [] \<and> \<not> HasPrefix line ''#''"

definition readCollectorAddressFile :: "daemon_env \<Rightarrow> config \<Rightarrow> string" where
  "readCollectorAddressFile d cfg =
     (let get = (\<lambda>path. case ReadFile d path of
                    None \<Rightarrow> []
                  | Some data \<Rightarrow> (case List.find address_line (map TrimSpace (split_on CHR 0x0A data)) of
                                    Some line \<Rightarrow> line | None \<Rightarrow> []));
          fallback = (case cfg ''LOG'' of
                        Some logDir \<Rightarrow> if logDir = [] then [] else get (Join [logDir, ''.collector_address''])
                      | None \<Rightarrow> [])
      in case cfg ''COLLECTOR_ADDRESS_FILE'' of
           Some path \<Rightarrow> if path = [] then fallback else get path
         | None \<Rightarrow> fallback)"

definition resolve_entry :: "daemon_env \<Rightarrow> config \<Rightarrow> string \<Rightarrow> string list" where
  "resolve_entry d cfg e =
     (if hasUsablePort e then [e]
      else let addr = readCollectorAddressFile d cfg in if addr \<noteq> [] then [addr] else [])"

definition resolveCollectors :: "daemon_env \<Rightarrow> config \<Rightarrow> string list" where
  "resolveCollectors d cfg =
     (let raw = (case cfg ''COLLECTOR_HOST'' of Some v \<Rightarrow> v | None \<Rightarrow> []);
          out = concat (map (resolve_entry d cfg) (splitHostList raw));
          addr = readCollectorAddressFile d cfg
      in if out = [] \<and> addr \<noteq> [] then [addr] else out)"

section \<open>Assembling the startd\<close>

definition claim_store :: "('c, 'x) persist_api_scheme \<Rightarrow> daemon_env \<Rightarrow> config \<Rightarrow> 'c Store option" where
  "claim_store L d cfg =
     (if claimsDir cfg = [] then None
      else case Open L (MakeDir d) (claimsDir cfg) of Inl err \<Rightarrow> None | Inr s \<Rightarrow> Some s)"

definition main_options :: "('c, 'x) persist_api_scheme \<Rightarrow> daemon_env \<Rightarrow> host \<Rightarrow> config \<Rightarrow> 'c Options" where
  "main_options L d h cfg =
     (let snf = wrapSinful (startdAddr d); hostname = fullHostname d cfg; tot = DetectResources h cfg
      in \<lparr>opt_Slots = BuildSlots h cfg hostname snf tot (ClockNow d), opt_Advertiser = True,
          opt_UpdateInterval = configSeconds cfg ''UPDATE_INTERVAL'' (300 * second),
          opt_Minter = Some (NewMinter snf (UnixNow d)),
          opt_AlivesMissed = configInt cfg ''MAX_CLAIM_ALIVES_MISSED'' DefaultAlivesMissed,
          opt_MatchTimeout = configSeconds cfg ''MATCH_TIMEOUT'' (120 * second),
          opt_ExecuteDir = ExecuteDir h cfg,
          opt_StarterUpdateInterval = configSeconds cfg ''STARTER_UPDATE_INTERVAL'' (300 * second),
          opt_UIDDomain = configString cfg ''UID_DOMAIN'' hostname,
          opt_FileSystemDomain = configString cfg ''FILESYSTEM_DOMAIN'' hostname,
          opt_StarterMode = configString cfg ''STARTER_MODE'' ''goroutine'',
          opt_StarterPath = configString cfg ''STARTER'' [],
          opt_StarterSocketDir = starterSocketDir cfg,
          opt_KillingTimeout = configSeconds cfg ''KILLING_TIMEOUT'' (30 * second),
          opt_MaxVacateTime = 0, opt_Store = claim_store L d cfg\<rparr>)"

section \<open>Properties\<close>

lemma Atoi_in64: "Atoi s = Some n \<Longrightarrow> in64 n"
  by (auto simp: Atoi_def Let_def split: if_splits option.splits)

lemma detected_cpus:
  assumes "in64 (NumCPU h)"
  shows "in64 (Cpus (DetectResources h cfg))" "1 \<le> Cpus (DetectResources h cfg)"
  using assms by (auto simp: DetectResources_def detectCpus_def Let_def in64_def dest: Atoi_in64 split: option.split)

text \<open>
  C33. Whatever the configuration and the machine, the main program builds the startd from sound options:
  at least one slot, every slot fresh, slot names pairwise distinct, and a claim id minter whose counter
  has room for every slot; every slot carries the address in the form the minted claim ids carry it.
\<close>

theorem main_options_sound:
  assumes "in64 (NumCPU h)"
  shows "opts_ok (main_options L d h cfg) \<and> opt_Slots (main_options L d h cfg) \<noteq> [] \<and>
    (\<exists>m. opt_Minter (main_options L d h cfg) = Some m \<and> (\<forall>s \<in> set (opt_Slots (main_options L d h cfg)). Sinful s = sinful m))"
proof -
  let ?tot = "DetectResources h cfg"
  let ?ss = "opt_Slots (main_options L d h cfg)"
  note c = detected_cpus [OF assms, of cfg]
  note n = num_slots_bounds [OF c(2), of cfg]
  have len: "int (length ?ss) \<le> Cpus ?tot" "?ss \<noteq> []"
    using n c by (auto simp: main_options_def Let_def BuildSlots_def BuildStaticSlots_def)
  then have "in64 (int (length ?ss))" using c(1) by (simp add: in64_def)
  moreover have "\<forall>s \<in> set ?ss. Sinful s = wrapSinful (startdAddr d)"
    by (auto simp: main_options_def Let_def BuildSlots_def BuildStaticSlots_def BuildPartitionableSlot_def)
  moreover have "\<forall>s \<in> set ?ss. fresh_slot s" "distinct (map Name ?ss)"
    using BuildSlots_fresh by (simp_all add: main_options_def Let_def)
  moreover have m: "opt_Minter (main_options L d h cfg) = Some (NewMinter (wrapSinful (startdAddr d)) (UnixNow d))"
    by (simp add: main_options_def Let_def)
  ultimately show ?thesis using len unfolding opts_ok_def m by (simp add: NewMinter_def in64_def)
qed

definition example_daemon :: daemon_env where
  "example_daemon =
     \<lparr>AdvertisedSinful = None, ListenAddr = ''10.0.0.7:9618'', Hostname = Some ''h'', ReadFile = (\<lambda>p. None),
      MakeDir = (\<lambda>p. Inr ()), WriteFile = (\<lambda>p t. True), UnixNow = 1700000000, ClockNow = 1700000000 * second\<rparr>"

theorem main_options_sound_witness:
  "in64 (NumCPU example_host) \<and> opts_ok (main_options example_lib example_daemon example_host (\<lambda>k. None))"
proof -
  have h: "in64 (NumCPU example_host)" by (simp add: example_host_def in64_def)
  then show ?thesis using main_options_sound [OF h, of example_lib example_daemon "\<lambda>k. None"] by blast
qed

text \<open>
  A knob in seconds is honoured exactly up to 9223372036 seconds: a positive number is turned into
  that many seconds if and only if it is at most that; a larger one wraps around in the 64-bit count of
  nanoseconds.
\<close>

theorem config_seconds_exact:
  assumes "cfg key = Some v" "Atoi (TrimSpace v) = Some secs" "0 < secs"
  shows "configSeconds cfg key def = secs * second \<longleftrightarrow> secs \<le> 9223372036"
proof -
  have pow: "(2::int) ^ 63 = 9223372036854775808" by simp
  have "configSeconds cfg key def = wrap64 (secs * second)" using assms by (simp add: configSeconds_def)
  moreover have "wrap64 (secs * second) = secs * second \<longleftrightarrow> in64 (secs * second)"
    by (metis wrap64_id wrap64_in64)
  moreover have "in64 (secs * second) \<longleftrightarrow> secs \<le> 9223372036" 
  proof (cases "secs \<le> 9223372036")
    case True then show ?thesis using assms(3) unfolding in64_def second_def pow by linarith
  next
    case False
    then have "9223372037 \<le> secs" by simp
    then show ?thesis unfolding in64_def second_def pow by linarith
  qed
  ultimately show ?thesis by simp
qed

theorem config_seconds_exact_witness:
  "configSeconds (\<lambda>k. Some '' 300 '') ''UPDATE_INTERVAL'' 0 = 300 * second"
proof -
  have "Atoi (TrimSpace '' 300 '') = Some 300" by code_simp
  from config_seconds_exact [OF _ this, of "\<lambda>k. Some '' 300 ''" "''UPDATE_INTERVAL''" 0] show ?thesis by simp
qed

text \<open>
  Every collector the startd reports to is usable: it is an entry of \<^verbatim>\<open>COLLECTOR_HOST\<close> with a port, or
  the address of the collector's address file, which is then neither empty nor a comment; entries with a
  port keep their order, and without any entry the address file alone is used.
\<close>

theorem collectors_usable:
  "(\<forall>e \<in> set (resolveCollectors d cfg). hasUsablePort e \<or> e = readCollectorAddressFile d cfg \<and> address_line e) \<and>
   (readCollectorAddressFile d cfg = [] \<longrightarrow>
      resolveCollectors d cfg = filter hasUsablePort (splitHostList (case cfg ''COLLECTOR_HOST'' of Some v \<Rightarrow> v | None \<Rightarrow> []))) \<and>
   (readCollectorAddressFile d cfg \<noteq> [] \<longrightarrow> resolveCollectors d cfg \<noteq> [])"
proof -
  let ?a = "readCollectorAddressFile d cfg"
  have line: "?a = [] \<or> address_line ?a"
    by (auto simp: readCollectorAddressFile_def Let_def find_Some_iff split: option.splits)
  have flt: "concat (map (resolve_entry d cfg) es) = filter hasUsablePort es" if "?a = []" for es
    using that by (induction es) (auto simp: resolve_entry_def)
  show ?thesis using line flt by (auto simp: resolveCollectors_def resolve_entry_def Let_def split: if_splits)
qed

theorem collectors_usable_witness:
  "resolveCollectors example_daemon (\<lambda>k. if k = ''COLLECTOR_HOST'' then Some ''c1:9618, c2'' else None) = [''c1:9618'']"
proof -
  let ?cfg = "\<lambda>k. if k = ''COLLECTOR_HOST'' then Some ''c1:9618, c2'' else None"
  have "readCollectorAddressFile example_daemon ?cfg = []" by (simp add: readCollectorAddressFile_def Let_def)
  moreover have "filter hasUsablePort (splitHostList ''c1:9618, c2'') = [''c1:9618'']" by code_simp
  ultimately show ?thesis using collectors_usable [of example_daemon ?cfg] by simp
qed

end
