(* ===== verification/Adwire.thy ===== *)
theory Adwire
  imports ClassAd
begin

text \<open>
  The reader of ClassAds in HTCondor's wire form with private attributes (\<^verbatim>\<open>internal/adwire\<close>). The
  message codec is a library: its readers are a parameter, the record \<open>message_api\<close>; what the reader
  relies on is \<open>delivers\<close>, that the values of a message come out in the order in which they were put.
\<close>

record 'm message_api =
  GetInt :: "'m \<Rightarrow> (int \<times> 'm) option"
  GetString :: "'m \<Rightarrow> (string \<times> 'm) option"

datatype wire_item = WInt int | WStr string

fun delivers :: "('m, 'x) message_api_scheme \<Rightarrow> 'm \<Rightarrow> wire_item list \<Rightarrow> 'm \<Rightarrow> bool" where
  "delivers W m [] m' \<longleftrightarrow> m' = m"
| "delivers W m (WInt i # xs) m' \<longleftrightarrow>
     (\<exists>n. GetInt W m = Some (i, n) \<and> delivers W n xs m')"
| "delivers W m (WStr s # xs) m' \<longleftrightarrow>
     (\<exists>n. GetString W m = Some (s, n) \<and> delivers W n xs m')"

section \<open>The reader\<close>

definition SecretMarker :: string where
  "SecretMarker = ''ZKM''"

definition insertLongForm :: "'x classad_api_scheme \<Rightarrow> string \<Rightarrow> ad \<Rightarrow> string + ad" where
  "insertLongForm L line ad =
     (case IndexByte line CHR ''='' of
        None \<Rightarrow> Inl (''no '' @ [CHR 0x27] @ ''='' @ [CHR 0x27] @ '' in '' @ line)
      | Some eq \<Rightarrow>
          (let name = TrimSpace (take eq line); val = TrimSpace (drop (Suc eq) line)
           in if name = [] then Inl (''empty attribute name in '' @ line)
              else if ParseExpr L val then Inr (ad_set name (AExpr val) ad)
              else Inl ''parse error''))"

definition firstToken :: "string \<Rightarrow> string" where
  "firstToken line =
     (case IndexByte line CHR ''='' of
        Some eq \<Rightarrow> TrimSpace (take eq line)
      | None \<Rightarrow> if length line > 16 then take 16 line else line)"

text \<open>
  The loop over the announced number of expressions. The second component of the result is the list of
  names the callback \<^verbatim>\<open>skip\<close> is called with, in order.
\<close>

fun get_exprs ::
  "('m, 'y) message_api_scheme \<Rightarrow> 'x classad_api_scheme \<Rightarrow> nat \<Rightarrow> ad \<Rightarrow> string list \<Rightarrow> 'm \<Rightarrow>
     string + ad \<times> string list \<times> 'm" where
  "get_exprs W L 0 ad skipped m = Inr (ad, skipped, m)"
| "get_exprs W L (Suc n) ad skipped m =
     (case GetString W m of
        None \<Rightarrow> Inl ''reading expression''
      | Some (line, m1) \<Rightarrow>
          (case (if line = SecretMarker then GetString W m1 else Some (line, m1)) of
             None \<Rightarrow> Inl ''reading secret expression''
           | Some (line', m2) \<Rightarrow>
               if TrimSpace line' = [] then get_exprs W L n ad skipped m2
               else case insertLongForm L line' ad of
                      Inl perr \<Rightarrow> get_exprs W L n ad (skipped @ [firstToken line']) m2
                    | Inr ad' \<Rightarrow> get_exprs W L n ad' skipped m2))"

text \<open>A read whose error is ignored: the message stays where it was when there is nothing to read.\<close>

definition skip_string :: "('m, 'y) message_api_scheme \<Rightarrow> 'm \<Rightarrow> 'm" where
  "skip_string W m = (case GetString W m of None \<Rightarrow> m | Some (s, m') \<Rightarrow> m')"

definition GetClassAd ::
  "('m, 'y) message_api_scheme \<Rightarrow> 'x classad_api_scheme \<Rightarrow> 'm \<Rightarrow> string + ad \<times> string list \<times> 'm" where
  "GetClassAd W L m =
     (case GetInt W m of
        None \<Rightarrow> Inl ''reading expression count''
      | Some (numExprs, m1) \<Rightarrow>
          if numExprs < 0 \<or> numExprs > 1000000 then Inl (''invalid expression count '' @ Itoa numExprs)
          else case get_exprs W L (nat numExprs) new_ad [] m1 of
                 Inl err \<Rightarrow> Inl err
               | Inr (ad, skipped, m2) \<Rightarrow> Inr (ad, skipped, skip_string W (skip_string W m2)))"

section \<open>The writer's format and the round trip\<close>

text \<open>
  The wire form, as the sender's side is documented: a count, one long-form line for each attribute, a
  private one after the marker, and the two trailing type strings.
\<close>

type_synonym wire_attr = "bool \<times> string \<times> string"

definition wire_line :: "wire_attr \<Rightarrow> wire_item list" where
  "wire_line a = (case a of (secret, name, val) \<Rightarrow>
     (if secret then [WStr SecretMarker] else []) @ [WStr (name @ '' = '' @ val)])"

definition wire_form :: "wire_attr list \<Rightarrow> string \<Rightarrow> string \<Rightarrow> wire_item list" where
  "wire_form attrs mytype target =
     WInt (int (length attrs)) # concat (map wire_line attrs) @ [WStr mytype, WStr target]"

definition trimmed :: "string \<Rightarrow> bool" where
  "trimmed s \<longleftrightarrow> s \<noteq> [] \<and> \<not> is_space (hd s) \<and> \<not> is_space (last s)"

definition attr_ok :: "'x classad_api_scheme \<Rightarrow> wire_attr \<Rightarrow> bool" where
  "attr_ok L a = (case a of (secret, name, val) \<Rightarrow>
     trimmed name \<and> CHR ''='' \<notin> set name \<and> trimmed val \<and> ParseExpr L val)"

definition attr_ins :: "wire_attr \<Rightarrow> string \<times> adval" where
  "attr_ins a = (case a of (secret, name, val) \<Rightarrow> (name, AExpr val))"

lemma space_facts [simp]: "is_space CHR '' ''" "\<not> is_space CHR ''=''"
  by (simp_all add: is_space_def)

lemma trimmed_drop:
  assumes "trimmed s"
  shows "dropWhile is_space s = s" "dropWhile is_space (rev s) = rev s" "dropWhile is_space (s @ x) = s @ x"
proof -
  have "s \<noteq> []" "\<not> is_space (hd s)" "\<not> is_space (hd (rev s))" using assms by (simp_all add: trimmed_def hd_rev)
  then show "dropWhile is_space s = s" "dropWhile is_space (rev s) = rev s" "dropWhile is_space (s @ x) = s @ x"
    by (simp_all add: dropWhile_id)
qed

lemma TrimSpace_snoc_blank: "trimmed s \<Longrightarrow> TrimSpace (s @ '' '') = s"
  by (simp add: TrimSpace_def trimmed_drop)

lemma TrimSpace_cons_blank: "trimmed s \<Longrightarrow> TrimSpace ('' '' @ s) = s"
  by (simp add: TrimSpace_def trimmed_drop)

lemma TrimSpace_nonempty:
  assumes "ch \<in> set s" "\<not> is_space ch"
  shows "TrimSpace s \<noteq> []"
proof -
  have "dropWhile is_space s \<noteq> []" using assms by (auto simp: dropWhile_eq_Nil_conv)
  then have "\<exists>x \<in> set (rev (dropWhile is_space s)). \<not> is_space x"
    using hd_dropWhile [of is_space s] by (metis hd_in_set set_rev)
  then show ?thesis by (auto simp: TrimSpace_def dropWhile_eq_Nil_conv)
qed

lemma insert_wire_line:
  assumes "attr_ok L (secret, name, val)"
  shows "insertLongForm L (name @ '' = '' @ val) ad = Inr (ad @ [(name, AExpr val)])"
proof -
  have "IndexByte ((name @ '' '') @ CHR ''='' # '' '' @ val) CHR ''='' = Some (length (name @ '' ''))"
    using assms by (intro IndexByte_append) (simp add: attr_ok_def)
  then have i: "IndexByte (name @ '' = '' @ val) CHR ''='' = Some (Suc (length name))" by simp
  have t: "take (Suc (length name)) (name @ '' = '' @ val) = name @ '' ''"
    "drop (Suc (Suc (length name))) (name @ '' = '' @ val) = '' '' @ val" by simp_all
  show ?thesis
    using assms unfolding insertLongForm_def i option.simps t
    by (auto simp: attr_ok_def TrimSpace_snoc_blank TrimSpace_cons_blank [simplified] Let_def ad_set_def trimmed_def)
qed

lemma wire_line_not_marker: "name @ '' = '' @ val \<noteq> SecretMarker"
proof
  assume "name @ '' = '' @ val = SecretMarker"
  then have "CHR ''='' \<in> set SecretMarker" by (metis Un_iff list.set_intros set_append)
  then show False by (simp add: SecretMarker_def)
qed

lemma delivers_append:
  "delivers W m (xs @ ys) m' \<longleftrightarrow> (\<exists>n. delivers W m xs n \<and> delivers W n ys m')"
  by (induction W m xs m' rule: delivers.induct) (auto split: option.split)

lemma get_exprs_wire:
  assumes "\<forall>a \<in> set attrs. attr_ok L a" "delivers W m (concat (map wire_line attrs)) m'"
  shows "get_exprs W L (length attrs) ad skipped m = Inr (ad @ map attr_ins attrs, skipped, m')"
  using assms
proof (induction attrs arbitrary: m ad)
  case (Cons a attrs)
  obtain secret name val where a: "a = (secret, name, val)" by (cases a)
  from Cons.prems(2) obtain n where n: "delivers W m (wire_line a) n"
    "delivers W n (concat (map wire_line attrs)) m'" by (auto simp: delivers_append)
  have ok: "attr_ok L (secret, name, val)" using Cons.prems(1) a by simp
  let ?line = "name @ '' = '' @ val"
  have ne: "TrimSpace ?line \<noteq> []" by (rule TrimSpace_nonempty [of "CHR ''=''"]) simp_all
  have "get_exprs W L (Suc (length attrs)) ad skipped m =
      get_exprs W L (length attrs) (ad @ [(name, AExpr val)]) skipped n"
    using n(1) ne insert_wire_line [OF ok, of ad] wire_line_not_marker [of name val]
    by (cases secret) (auto simp: a wire_line_def split: option.splits simp del: append_assoc)
  then show ?case using Cons.IH [OF _ n(2)] Cons.prems(1) by (simp add: a attr_ins_def)
qed simp

text \<open>
  C39. A ClassAd is read back from its wire form as it was sent: whatever the mixture of public and
  private attributes, the reader returns them all, in order and with their values, and
  leaves the message right after the two trailing type strings. The ad has at most 1000000 attributes, their names and values have no surrounding
  space and no name contains an equals sign, and the expression parser accepts every value; an attribute whose value it does not accept is dropped.
\<close>

theorem wire_roundtrip:
  assumes "\<forall>a \<in> set attrs. attr_ok L a" "length attrs \<le> 1000000"
    "delivers W m (wire_form attrs mytype target) m'"
  shows "GetClassAd W L m = Inr (map attr_ins attrs, [], m')"
proof -
  from assms(3) obtain m1 m2 m3 m4 where
    r: "GetInt W m = Some (int (length attrs), m1)" "delivers W m1 (concat (map wire_line attrs)) m2"
      "GetString W m2 = Some (mytype, m3)" "GetString W m3 = Some (target, m4)" "m' = m4"
    by (auto simp: wire_form_def delivers_append split: option.splits)
  then show ?thesis using get_exprs_wire [OF assms(1) r(2), of new_ad "[]"] assms(2)
    by (simp add: GetClassAd_def skip_string_def new_ad_def)
qed

text \<open>A message codec on lists of values.\<close>

definition list_message :: "wire_item list message_api" where
  "list_message =
     \<lparr>GetInt = (\<lambda>m. case m of WInt i # xs \<Rightarrow> Some (i, xs) | _ \<Rightarrow> None),
      GetString = (\<lambda>m. case m of WStr s # xs \<Rightarrow> Some (s, xs) | _ \<Rightarrow> None)\<rparr>"

lemma list_message_delivers: "delivers list_message (xs @ ys) xs ys"
proof (induction xs)
  case (Cons x xs)
  then show ?case by (cases x) (simp_all add: list_message_def)
qed (simp add: list_message_def)

theorem wire_roundtrip_witness:
  "GetClassAd list_message lit_api
     (wire_form [(False, ''Cmd'', ''1''), (True, ''ClaimId'', ''2'')] ''Job'' ''Machine'') =
   Inr ([(''Cmd'', AExpr ''1''), (''ClaimId'', AExpr ''2'')], [], [])"
  using wire_roundtrip [OF _ _ list_message_delivers [of _ "[]"],
      of "[(False, ''Cmd'', ''1''), (True, ''ClaimId'', ''2'')]" lit_api "''Job''" "''Machine''"]
  by (simp add: attr_ok_def trimmed_def attr_ins_def is_space_def lit_api_def)

text \<open>
  What the callback for an unreadable attribute is told never reaches into the value: the name it
  gets is free of equal signs, and for a line with one it is the trimmed text before the first.
\<close>

theorem skipped_name_hides_value:
  "CHR ''='' \<notin> set (firstToken line) \<and>
   (CHR ''='' \<in> set line \<longrightarrow> firstToken line = TrimSpace (takeWhile (\<lambda>ch. ch \<noteq> CHR ''='') line))"
proof (cases "IndexByte line CHR ''=''")
  case None
  then have "CHR ''='' \<notin> set line" by (simp add: IndexByte_None)
  then show ?thesis using None set_take_subset [of 16 line] by (auto simp: firstToken_def)
next
  case (Some i)
  from IndexByte_Some [OF this] have i: "CHR ''='' \<notin> set (take i line)" "line = take i line @ CHR ''='' # drop (Suc i) line"
    by simp_all
  have "takeWhile (\<lambda>ch. ch \<noteq> CHR ''='') (take i line @ CHR ''='' # drop (Suc i) line) = take i line"
    using i(1) by (subst takeWhile_append2) auto
  then have "takeWhile (\<lambda>ch. ch \<noteq> CHR ''='') line = take i line" using i(2) by argo
  moreover have "set (TrimSpace s) \<subseteq> set s" for s
    by (auto simp: TrimSpace_def dest!: set_dropWhileD)
  ultimately show ?thesis using i(1) Some by (auto simp: firstToken_def)
qed

end
