(* ===== verification/Args.thy ===== *)
theory Args
  imports ClassAd
begin

text \<open>
  The job's argument vector and environment (\<^verbatim>\<open>internal/starter/args.go\<close>): the tokenizer of
  HTCondor's V2 raw syntax and the fall-back to the V1 attributes. The tokenizer is shown to be the
  inverse of the storage format its comment names, and to be a plain split at blanks where nothing is
  quoted.
\<close>

definition quote_char :: char where
  "quote_char = CHR 0x27"

definition raw_blank :: "char \<Rightarrow> bool" where
  "raw_blank ch \<longleftrightarrow> ch \<in> {CHR '' '', CHR 0x09, CHR 0x0A, CHR 0x0D}"

text \<open>The loop of \<^verbatim>\<open>splitV2Raw\<close>: \<open>inQuote\<close>, \<open>tokenStarted\<close>, the token so far, and the rest of the input.\<close>

function split_raw :: "bool \<Rightarrow> bool \<Rightarrow> string \<Rightarrow> string \<Rightarrow> string list" where
  "split_raw inQuote started cur [] = (if started \<or> cur \<noteq> [] then [cur] else [])"
| "split_raw inQuote started cur (ch # s) =
     (if inQuote \<and> ch = quote_char \<and> s \<noteq> [] \<and> hd s = quote_char
      then split_raw inQuote started (cur @ [quote_char]) (tl s)
      else if ch = quote_char then split_raw (\<not> inQuote) True cur s
      else if \<not> inQuote \<and> raw_blank ch then
        (if started \<or> cur \<noteq> [] then cur # split_raw inQuote False [] s
         else split_raw inQuote started cur s)
      else split_raw inQuote True (cur @ [ch]) s)"
  by pat_completeness auto
termination
  by (relation "measure (\<lambda>(q, b, cur, s). length s)") (auto simp: less_Suc_eq_le)

definition splitV2Raw :: "string \<Rightarrow> string list" where
  "splitV2Raw s = split_raw False False [] s"

text \<open>\<^verbatim>\<open>strings.ReplaceAll\<close> of an escaped double quote by a double quote.\<close>

function unescape_quotes :: "string \<Rightarrow> string" where
  "unescape_quotes [] = []"
| "unescape_quotes (ch # s) =
     (if ch = CHR 0x5C \<and> s \<noteq> [] \<and> hd s = CHR 0x22 then CHR 0x22 # unescape_quotes (tl s)
      else ch # unescape_quotes s)"
  by pat_completeness auto
termination
  by (relation "measure length") (auto simp: less_Suc_eq_le)

text \<open>A string attribute with something in it besides blanks.\<close>

definition filled_attr :: "'x classad_api_scheme \<Rightarrow> ad \<Rightarrow> string \<Rightarrow> string option" where
  "filled_attr L ad n =
     (case EvaluateAttrString L ad n of
        None \<Rightarrow> None
      | Some v \<Rightarrow> if TrimSpace v \<noteq> [] then Some v else None)"

definition jobArgs :: "'x classad_api_scheme \<Rightarrow> ad \<Rightarrow> string list" where
  "jobArgs L jobAd =
     (case filled_attr L jobAd ''Arguments'' of
        Some v \<Rightarrow> splitV2Raw v
      | None \<Rightarrow>
          (case filled_attr L jobAd ''Args'' of
             Some v \<Rightarrow> Fields (unescape_quotes v)
           | None \<Rightarrow> []))"

definition jobEnv :: "'x classad_api_scheme \<Rightarrow> ad \<Rightarrow> string list" where
  "jobEnv L jobAd =
     (case filled_attr L jobAd ''Environment'' of
        Some v \<Rightarrow> splitV2Raw v
      | None \<Rightarrow>
          (case filled_attr L jobAd ''Env'' of
             Some v \<Rightarrow>
               filter (\<lambda>tok. tok \<noteq> [])
                 (map TrimSpace (FieldsFunc v (\<lambda>ch. ch = CHR '';'' \<or> ch = CHR ''|'')))
           | None \<Rightarrow> []))"

section \<open>The storage format\<close>

text \<open>
  The storage format of a list of tokens: each token between single quotes, with the quotes inside
  it doubled, and the tokens separated by a blank.
\<close>

fun double_quotes :: "string \<Rightarrow> string" where
  "double_quotes [] = []"
| "double_quotes (ch # s) =
     (if ch = quote_char then [quote_char, quote_char] else [ch]) @ double_quotes s"

definition raw_token :: "string \<Rightarrow> string" where
  "raw_token t = quote_char # double_quotes t @ [quote_char]"

fun raw_tokens :: "string list \<Rightarrow> string" where
  "raw_tokens [] = []"
| "raw_tokens (t # ts) = raw_token t @ (if ts = [] then [] else CHR '' '' # raw_tokens ts)"

lemma raw_blank_facts [simp]: "raw_blank CHR '' ''" "\<not> raw_blank quote_char" "CHR '' '' \<noteq> quote_char"
  by (simp_all add: raw_blank_def quote_char_def)

text \<open>Inside a quoted section the doubled text of a token is read back, up to the closing quote.\<close>

lemma split_raw_quoted:
  assumes "s = [] \<or> hd s \<noteq> quote_char"
  shows "split_raw True True cur (double_quotes t @ quote_char # s) = split_raw False True (cur @ t) s"
proof (induction t arbitrary: cur)
  case Nil
  then show ?case using assms by auto
next
  case (Cons ch t)
  then show ?case by (cases "ch = quote_char") auto
qed

lemma split_raw_tokens: "splitV2Raw (raw_tokens ts) = ts"
proof (induction ts)
  case Nil
  then show ?case by (simp add: splitV2Raw_def)
next
  case (Cons t ts)
  have "splitV2Raw (raw_tokens (t # ts)) =
      split_raw False True t (if ts = [] then [] else CHR '' '' # raw_tokens ts)"
    using split_raw_quoted [of "if ts = [] then [] else CHR '' '' # raw_tokens ts" "[]" t]
    by (simp add: splitV2Raw_def raw_token_def)
  also have "\<dots> = t # ts" using Cons by (simp add: splitV2Raw_def)
  finally show ?case .
qed

text \<open>
  C38. The tokenizer of the V2 raw syntax inverts the storage format: any list of arguments, with
  blanks, quotes or nothing in them, is read back from its quoted form as it was.
\<close>

theorem raw_syntax_roundtrip: "splitV2Raw (raw_tokens ts) = ts"
  by (rule split_raw_tokens)

lemma split_raw_plain:
  "quote_char \<notin> set s \<Longrightarrow> split_raw False (cur \<noteq> []) cur s = fields_from raw_blank cur s"
proof (induction s arbitrary: cur)
  case (Cons ch s)
  then have s: "ch \<noteq> quote_char" "split_raw False True (cur @ [ch]) s = fields_from raw_blank (cur @ [ch]) s"
    "split_raw False False [] s = fields_from raw_blank [] s"
    using Cons.IH [of "cur @ [ch]"] Cons.IH [of "[]"] by auto
  then show ?case by simp
qed simp

text \<open>
  Where no quote occurs the tokenizer is the plain split at blanks, tabs and line ends: the tokens
  are the maximal runs of other characters.
\<close>

theorem raw_syntax_plain:
  assumes "quote_char \<notin> set s"
  shows "splitV2Raw s = FieldsFunc s raw_blank"
  using split_raw_plain [OF assms, of "[]"] by (simp add: splitV2Raw_def FieldsFunc_def)

theorem raw_syntax_plain_witness:
  "splitV2Raw ''-n  5'' = [''-n'', ''5'']"
  using raw_syntax_plain [of "''-n  5''"] by (simp add: quote_char_def FieldsFunc_def raw_blank_def)

end
