(* ===== verification/Exec.thy ===== *)
theory Exec
  imports Args Transport "HOL-Library.Word" "HOL-Library.Sublist"
begin

text \<open>
  Execution of the job (\<^verbatim>\<open>internal/starter/exec.go\<close>): the command line, environment and standard
  files of the job process, the decoding of its wait status, and the ads that report it. The operating
  system is a parameter, the record \<open>job_os\<close>; what the code did to it is part of the result.
\<close>

definition nullFile :: string where
  "nullFile = ''/dev/null''"

record job_os =
  os_mkdir :: "string \<Rightarrow> string option"
  os_open :: "bool \<Rightarrow> string \<Rightarrow> string option"
  os_start :: "string \<Rightarrow> string list \<Rightarrow> string list \<Rightarrow> string + int"

text \<open>The fields of the command that is started; \<^verbatim>\<open>Setpgid\<close> is always set.\<close>

record job_cmd =
  cmd_Path :: string
  cmd_Args :: "string list"
  cmd_Dir :: string
  cmd_Env :: "string list"
  cmd_Stdin :: string
  cmd_Stdout :: string
  cmd_Stderr :: string

record jobProcess =
  jp_cmd :: job_cmd
  jp_pid :: int
  jp_pgid :: int
  jp_startTime :: time
  jp_stdio :: "string list"

definition job_path :: "'x classad_api_scheme \<Rightarrow> ad \<Rightarrow> string \<Rightarrow> string" where
  "job_path L jobAd cmdPath =
     (let iwd = str_attr L jobAd ''Iwd''
      in if \<not> IsAbs cmdPath \<and> iwd \<noteq> [] then Join [iwd, cmdPath] else cmdPath)"

text \<open>The overlay is visited in the order \<open>order\<close> of its keys.\<close>

definition job_environment ::
  "'x classad_api_scheme \<Rightarrow> ad \<Rightarrow> ActivateMsg \<Rightarrow> string \<Rightarrow> (string \<times> string) list \<Rightarrow> string list" where
  "job_environment L jobAd act slotName order =
     jobEnv L jobAd @ map (\<lambda>(k, v). k @ ''='' @ v) order @
     [''_CONDOR_SCRATCH_DIR='' @ am_SandboxDir act, ''_CONDOR_SLOT_NAME='' @ slotName,
      ''_CONDOR_JOB_IWD='' @ str_attr L jobAd ''Iwd'', ''TMPDIR='' @ am_SandboxDir act,
      ''TEMP='' @ am_SandboxDir act, ''TMP='' @ am_SandboxDir act]"

definition stdio_path :: "'x classad_api_scheme \<Rightarrow> ad \<Rightarrow> string \<Rightarrow> string \<Rightarrow> string" where
  "stdio_path L jobAd sandbox attr =
     (let path = str_attr L jobAd attr
      in if path = [] \<or> path = nullFile then nullFile
         else if \<not> IsAbs path then Join [sandbox, path] else path)"

datatype job_error =
    NoSandbox
  | CreatingSandbox string
  | NoCmd
  | OpeningStdio string string string
  | ExecError string string

text \<open>What the code does to files: the paths it opens and the ones it closes, in order.\<close>

datatype file_event = Opened string | Closed string

definition openStdio ::
  "job_os \<Rightarrow> 'x classad_api_scheme \<Rightarrow> ad \<Rightarrow> string \<Rightarrow> string \<Rightarrow> bool \<Rightarrow> string list \<Rightarrow>
     job_error + string \<times> string list" where
  "openStdio S L jobAd sandbox attr wr files =
     (let path = stdio_path L jobAd sandbox attr
      in case os_open S wr path of
           Some err \<Rightarrow> Inl (OpeningStdio attr path err)
         | None \<Rightarrow> Inr (path, files @ [path]))"

definition closed_all :: "string list \<Rightarrow> file_event list" where
  "closed_all files = map Closed files"

definition opened_all :: "string list \<Rightarrow> file_event list" where
  "opened_all files = map Opened files"

text \<open>
  The three standard files, opened in order: a failure closes the ones opened before it. The second
  component is the trace of file operations.
\<close>

definition open_stdio ::
  "job_os \<Rightarrow> 'x classad_api_scheme \<Rightarrow> ad \<Rightarrow> string \<Rightarrow>
     (job_error + string \<times> string \<times> string) \<times> string list \<times> file_event list" where
  "open_stdio S L jobAd sandbox =
     (case openStdio S L jobAd sandbox ''In'' False [] of
        Inl e \<Rightarrow> (Inl e, [], closed_all [])
      | Inr (i, f1) \<Rightarrow>
          (case openStdio S L jobAd sandbox ''Out'' True f1 of
             Inl e \<Rightarrow> (Inl e, [], opened_all f1 @ closed_all f1)
           | Inr (out, f2) \<Rightarrow>
               (case openStdio S L jobAd sandbox ''Err'' True f2 of
                  Inl e \<Rightarrow> (Inl e, [], opened_all f2 @ closed_all f2)
                | Inr (err, f3) \<Rightarrow> (Inr (i, out, err), f3, opened_all f3))))"

definition startJob ::
  "job_os \<Rightarrow> 'x classad_api_scheme \<Rightarrow> ad \<Rightarrow> ActivateMsg \<Rightarrow> string \<Rightarrow> (string \<times> string) list \<Rightarrow> time \<Rightarrow>
     (job_error + jobProcess) \<times> file_event list" where
  "startJob S L jobAd act slotName order now =
     (let sandbox = am_SandboxDir act
      in if sandbox = [] then (Inl NoSandbox, [])
         else case os_mkdir S sandbox of
           Some err \<Rightarrow> (Inl (CreatingSandbox err), [])
         | None \<Rightarrow>
             (let cmd = str_attr L jobAd ''Cmd''
              in if cmd = [] then (Inl NoCmd, [])
                 else let path = job_path L jobAd cmd; argv = path # jobArgs L jobAd;
                          env = job_environment L jobAd act slotName order
                      in case open_stdio S L jobAd sandbox of
                           (Inl e, _, tr) \<Rightarrow> (Inl e, tr)
                         | (Inr (i, out, err), files, tr) \<Rightarrow>
                             (case os_start S path argv env of
                                Inl e \<Rightarrow> (Inl (ExecError path e), tr @ closed_all files)
                              | Inr pid \<Rightarrow>
                                  (Inr \<lparr>jp_cmd = \<lparr>cmd_Path = path, cmd_Args = argv, cmd_Dir = sandbox,
                                          cmd_Env = env, cmd_Stdin = i, cmd_Stdout = out, cmd_Stderr = err\<rparr>,
                                        jp_pid = pid, jp_pgid = pid, jp_startTime = now, jp_stdio = files\<rparr>, tr))))"

text \<open>Signals to the process group: sent when there is one.\<close>

datatype group_signal = SIGKILL | SIGTERM | SIGSTOP | SIGCONT

definition signal_group :: "group_signal \<Rightarrow> jobProcess \<Rightarrow> (int \<times> group_signal) list" where
  "signal_group sig j = (if jp_pgid j > 0 then [(- jp_pgid j, sig)] else [])"

definition killGroup :: "jobProcess \<Rightarrow> (int \<times> group_signal) list" where
  "killGroup = signal_group SIGKILL"

definition termGroup :: "jobProcess \<Rightarrow> (int \<times> group_signal) list" where
  "termGroup = signal_group SIGTERM"

definition suspendGroup :: "jobProcess \<Rightarrow> (int \<times> group_signal) list" where
  "suspendGroup = signal_group SIGSTOP"

definition continueGroup :: "jobProcess \<Rightarrow> (int \<times> group_signal) list" where
  "continueGroup = signal_group SIGCONT"

definition closeStdio :: "jobProcess \<Rightarrow> jobProcess \<times> file_event list" where
  "closeStdio j = (j\<lparr>jp_stdio := []\<rparr>, closed_all (jp_stdio j))"

section \<open>The wait status\<close>

unbundle bit_operations_syntax

text \<open>\<^verbatim>\<open>syscall.WaitStatus\<close> on Linux, an unsigned word of 32 bits.\<close>

type_synonym wait_status = "32 word"

definition ws_Exited :: "wait_status \<Rightarrow> bool" where
  "ws_Exited w \<longleftrightarrow> w AND 0x7F = 0"

definition ws_Signaled :: "wait_status \<Rightarrow> bool" where
  "ws_Signaled w \<longleftrightarrow> w AND 0x7F \<noteq> 0x7F \<and> w AND 0x7F \<noteq> 0"

definition ws_ExitStatus :: "wait_status \<Rightarrow> int" where
  "ws_ExitStatus w = (if ws_Exited w then uint (drop_bit 8 w AND 0xFF) else - 1)"

definition ws_Signal :: "wait_status \<Rightarrow> int" where
  "ws_Signal w = (if ws_Signaled w then uint (w AND 0x7F) else - 1)"

definition ws_CoreDump :: "wait_status \<Rightarrow> bool" where
  "ws_CoreDump w \<longleftrightarrow> ws_Signaled w \<and> w AND 0x80 \<noteq> 0"

record waitInfo =
  rawStatus :: int
  exited :: bool
  exitCode :: int
  signaled :: bool
  wi_signal :: int
  coreDump :: bool
  userCPU :: float64
  sysCPU :: float64

text \<open>
  The process state after the wait: the status word and the processor times, user and system, as the
  floating point seconds the conversion from microseconds gives; \<open>None\<close> is a process that was not reaped.
\<close>

definition no_wait :: waitInfo where
  "no_wait = \<lparr>rawStatus = 0, exited = False, exitCode = 0, signaled = False, wi_signal = 0, coreDump = False,
     userCPU = Fin 0 0, sysCPU = Fin 0 0\<rparr>"

definition inspectWait :: "(wait_status \<times> (float64 \<times> float64) option) option \<Rightarrow> waitInfo" where
  "inspectWait ps =
     (case ps of
        None \<Rightarrow> no_wait
      | Some (ws, ru) \<Rightarrow>
          \<lparr>rawStatus = uint ws, exited = ws_Exited ws, exitCode = ws_ExitStatus ws,
           signaled = ws_Signaled ws, wi_signal = (if ws_Signaled ws then ws_Signal ws else 0),
           coreDump = ws_CoreDump ws,
           userCPU = (case ru of None \<Rightarrow> Fin 0 0 | Some (u, s) \<Rightarrow> u),
           sysCPU = (case ru of None \<Rightarrow> Fin 0 0 | Some (u, s) \<Rightarrow> s)\<rparr>)"

section \<open>The ads that report a job\<close>

text \<open>\<open>secs\<close> is the conversion of a duration to floating point seconds.\<close>

definition job_times :: "(duration \<Rightarrow> float64) \<Rightarrow> int \<Rightarrow> time \<Rightarrow> time \<Rightarrow> ad \<Rightarrow> ad" where
  "job_times secs pid start end_time ad0 =
     (let ad1 = (if pid > 0 then ad_set ''JobPid'' (AInt pid) ad0 else ad0)
      in if start \<noteq> zero_time
         then ad_set ''JobDuration'' (AReal (secs (end_time - start)))
                (ad_set ''JobStartDate'' (AInt (unix start)) ad1)
         else ad1)"

definition buildFinalAd :: "(duration \<Rightarrow> float64) \<Rightarrow> waitInfo \<Rightarrow> int \<Rightarrow> time \<Rightarrow> time \<Rightarrow> ad" where
  "buildFinalAd secs info pid start end_time =
     (let ad0 = ad_set ''ExitBySignal'' (ABool (signaled info)) new_ad;
          ad1 = (if signaled info then ad_set ''ExitSignal'' (AInt (wi_signal info)) ad0
                 else ad_set ''ExitCode'' (AInt (exitCode info)) ad0)
      in ad_set ''RemoteSysCpu'' (AReal (sysCPU info))
           (ad_set ''RemoteUserCpu'' (AReal (userCPU info)) (job_times secs pid start end_time ad1)))"

definition buildUpdateAd :: "(duration \<Rightarrow> float64) \<Rightarrow> int \<Rightarrow> time \<Rightarrow> time \<Rightarrow> ad" where
  "buildUpdateAd secs pid start now =
     job_times secs pid start now (ad_set ''JobState'' (AStr ''Running'') new_ad)"

section \<open>The started job\<close>

text \<open>The files that are open after a trace of operations.\<close>

fun left_open :: "file_event list \<Rightarrow> string list \<Rightarrow> string list" where
  "left_open [] fs = fs"
| "left_open (Opened f # tr) fs = left_open tr (fs @ [f])"
| "left_open (Closed f # tr) fs = left_open tr (remove1 f fs)"

lemma left_open_append [simp]: "left_open (tr @ tr') fs = left_open tr' (left_open tr fs)"
  by (induction tr fs rule: left_open.induct) auto

lemma left_open_opened_all [simp]: "left_open (opened_all files) fs = fs @ files"
  unfolding opened_all_def by (induction files arbitrary: fs) auto

lemma left_open_closed_all [simp]: "left_open (closed_all files) (files @ fs) = fs"
  unfolding closed_all_def by (induction files) auto

lemma left_open_closed [simp]: "left_open (closed_all files) files = []"
  using left_open_closed_all [of files "[]"] by simp

lemma open_stdio_files: "open_stdio S L jobAd sandbox = (r, files, tr) \<Longrightarrow>
  left_open tr [] = files \<and> (isl r \<longrightarrow> files = [])"
  by (auto simp: open_stdio_def split: sum.splits)

text \<open>
  Starting a job never leaks a standard file: after a failure, whichever of the steps failed, every file
  that was opened has been closed again, and after a success exactly the files held by the job
  process are open.
\<close>

theorem start_leaks_no_file:
  "left_open (snd (startJob S L jobAd act slotName order now)) [] =
     (case fst (startJob S L jobAd act slotName order now) of Inl e \<Rightarrow> [] | Inr j \<Rightarrow> jp_stdio j)"
proof (cases "open_stdio S L jobAd (am_SandboxDir act)")
  case (fields r files tr)
  then show ?thesis using open_stdio_files [OF fields]
    by (cases r) (auto simp: startJob_def Let_def split: option.split sum.split)
qed

text \<open>The value of a variable: the standard library passes on the last entry of a duplicate key.\<close>

definition env_value :: "string list \<Rightarrow> string \<Rightarrow> string option" where
  "env_value env k = map_option (drop (length k + 1)) (List.find (prefix (k @ ''='')) (rev env))"

definition starter_keys :: "string list" where
  "starter_keys = [''_CONDOR_SCRATCH_DIR'', ''_CONDOR_SLOT_NAME'', ''_CONDOR_JOB_IWD'', ''TMPDIR'', ''TEMP'', ''TMP'']"

lemma prefix_key [simp]:
  assumes "CHR ''='' \<notin> set k" "CHR ''='' \<notin> set k'"
  shows "prefix (k @ ''='') (k' @ CHR ''='' # v) \<longleftrightarrow> k = k'"
proof
  assume "prefix (k @ ''='') (k' @ CHR ''='' # v)"
  then obtain w where w: "k' @ ''='' @ v = k @ ''='' @ w" by (auto simp: prefix_def)
  have "takeWhile (\<lambda>c. c \<noteq> CHR ''='') (k' @ ''='' @ v) = k'" "takeWhile (\<lambda>c. c \<noteq> CHR ''='') (k @ ''='' @ w) = k"
    using assms by (auto simp: takeWhile_tail takeWhile_append)
  then show "k = k'" using w by metis
qed (simp add: prefix_def)

lemma find_append:
  "List.find P (xs @ ys) = (case List.find P xs of None \<Rightarrow> List.find P ys | Some x \<Rightarrow> Some x)"
  by (induction xs) auto

lemma find_overlay:
  assumes "distinct (map fst order)" "(k, v) \<in> set order" "CHR ''='' \<notin> set k" "\<forall>(k', v') \<in> set order. CHR ''='' \<notin> set k'"
  shows "List.find (prefix (k @ ''='')) (rev (map (\<lambda>(k, v). k @ ''='' @ v) order) @ rest) = Some (k @ ''='' @ v)"
  using assms
proof (induction order arbitrary: rest)
  case (Cons x order)
  obtain k' v' where x: "x = (k', v')" by (cases x)
  show ?case
  proof (cases "(k, v) \<in> set order")
    case True
    then show ?thesis using Cons by (simp add: x)
  next
    case False
    then have e: "k' = k" "v' = v" using Cons.prems x by auto
    have "List.find (prefix (k @ ''='')) (rev (map (\<lambda>(k, v). k @ ''='' @ v) order)) = None"
      using Cons.prems by (force simp: find_None_iff x e)
    then show ?thesis using Cons.prems e by (simp add: x find_append)
  qed
qed simp

definition own_entries :: "'x classad_api_scheme \<Rightarrow> ad \<Rightarrow> ActivateMsg \<Rightarrow> string \<Rightarrow> (string \<times> string) list" where
  "own_entries L jobAd act slotName = zip starter_keys
     [am_SandboxDir act, slotName, str_attr L jobAd ''Iwd'', am_SandboxDir act, am_SandboxDir act, am_SandboxDir act]"

lemma job_environment_entries: "job_environment L jobAd act slotName order =
    jobEnv L jobAd @ map (\<lambda>(k, v). k @ ''='' @ v) (order @ own_entries L jobAd act slotName)"
  by (simp add: job_environment_def own_entries_def starter_keys_def)

lemma own_entries_keys: "map fst (own_entries L jobAd act slotName) = starter_keys"
  by (simp add: own_entries_def starter_keys_def)

lemma starter_keys_plain: "k \<in> set starter_keys \<Longrightarrow> CHR ''='' \<notin> set k"
  by (auto simp: starter_keys_def)

lemma own_entries_plain: "\<forall>(k, v) \<in> set (own_entries L jobAd act slotName). CHR ''='' \<notin> set k"
  by (auto simp: own_entries_def starter_keys_def)

lemma find_others:
  assumes "k \<notin> fst ` set es" "CHR ''='' \<notin> set k" "\<forall>(k', v') \<in> set es. CHR ''='' \<notin> set k'"
  shows "List.find (prefix (k @ ''='')) (rev (map (\<lambda>(k, v). k @ ''='' @ v) es)) = None"
  using assms by (force simp: find_None_iff)

lemma own_entry_wins:
  assumes "(k, v) \<in> set (own_entries L jobAd act slotName)"
  shows "env_value (job_environment L jobAd act slotName order) k = Some v"
proof -
  have "distinct (map fst (own_entries L jobAd act slotName))" unfolding own_entries_keys by (simp add: starter_keys_def)
  moreover have "CHR ''='' \<notin> set k" using own_entries_plain assms by fast
  ultimately show ?thesis
    using find_overlay [OF _ assms _ own_entries_plain] by (simp add: env_value_def job_environment_entries)
qed

lemma overlay_entry_wins:
  assumes "distinct (map fst order)" "\<forall>(k, v) \<in> set order. CHR ''='' \<notin> set k" "(k, v) \<in> set order"
    "k \<notin> set starter_keys"
  shows "env_value (job_environment L jobAd act slotName order) k = Some v"
proof -
  have k: "CHR ''='' \<notin> set k" using assms by auto
  have "k \<notin> fst ` set (own_entries L jobAd act slotName)"
    using assms(4) own_entries_keys by (metis list.set_map)
  from find_others [OF this k own_entries_plain] find_overlay [OF assms(1,3) k assms(2)]
  show ?thesis by (simp add: env_value_def job_environment_entries find_append)
qed

lemma startJob_started:
  assumes "startJob S L jobAd act slotName order now = (Inr j, tr)"
  shows "cmd_Dir (jp_cmd j) = am_SandboxDir act" "am_SandboxDir act \<noteq> []"
    "cmd_Args (jp_cmd j) = cmd_Path (jp_cmd j) # jobArgs L jobAd" "jp_pgid j = jp_pid j"
    "cmd_Env (jp_cmd j) = job_environment L jobAd act slotName order"
    "cmd_Stdout (jp_cmd j) = stdio_path L jobAd (am_SandboxDir act) ''Out''"
    "cmd_Stderr (jp_cmd j) = stdio_path L jobAd (am_SandboxDir act) ''Err''"
  using assms
  by (auto simp: startJob_def Let_def open_stdio_def openStdio_def split: if_splits option.splits sum.splits)

text \<open>
  The job runs in its sandbox: its working directory is the sandbox of the activation, it leads its own process
  group (which the signals address), its first argument is the program it executes, and whatever the job ad and the
  overlay set, the scratch and temporary directories it sees are the sandbox; an overlay entry that is
  not one of the starter's own wins over the job's environment.
\<close>

theorem job_runs_in_sandbox:
  assumes "startJob S L jobAd act slotName order now = (Inr j, tr)" and "jp_pid j > 0"
    and "distinct (map fst order)" "\<forall>(k, v) \<in> set order. CHR ''='' \<notin> set k"
  shows "cmd_Dir (jp_cmd j) = am_SandboxDir act \<and> am_SandboxDir act \<noteq> [] \<and>
    cmd_Args (jp_cmd j) = cmd_Path (jp_cmd j) # jobArgs L jobAd \<and>
    killGroup j = [(- jp_pid j, SIGKILL)] \<and>
    (\<forall>k \<in> {''_CONDOR_SCRATCH_DIR'', ''TMPDIR'', ''TEMP'', ''TMP''}.
       env_value (cmd_Env (jp_cmd j)) k = Some (am_SandboxDir act)) \<and>
    (\<forall>(k, v) \<in> set order. k \<notin> set starter_keys \<longrightarrow> env_value (cmd_Env (jp_cmd j)) k = Some v)"
proof (intro conjI)
  show "\<forall>k \<in> {''_CONDOR_SCRATCH_DIR'', ''TMPDIR'', ''TEMP'', ''TMP''}.
       env_value (cmd_Env (jp_cmd j)) k = Some (am_SandboxDir act)"
    unfolding startJob_started(5) [OF assms(1)]
    by (intro ballI own_entry_wins) (auto simp: own_entries_def starter_keys_def)
qed (use startJob_started [OF assms(1)] overlay_entry_wins [OF assms(3,4)] assms(2) in
      \<open>auto simp: killGroup_def signal_group_def\<close>)

definition sample_os :: job_os where
  "sample_os = \<lparr>os_mkdir = (\<lambda>d. None), os_open = (\<lambda>w p. None), os_start = (\<lambda>p argv env. Inr 4711)\<rparr>"

definition sample_act :: ActivateMsg where
  "sample_act = \<lparr>am_JobAd = None, am_SlotAd = None, am_SandboxDir = ''/execute/dir_1'', am_EnvOverlay = []\<rparr>"

definition sample_job :: ad where
  "sample_job = [(''Cmd'', AStr ''/bin/sh''), (''Environment'', AStr ''TMPDIR=/tmp'')]"

lemma sample_start: "\<exists>j tr. startJob sample_os lit_api sample_job sample_act ''slot1'' [(''A'', ''1'')] 5 = (Inr j, tr) \<and> jp_pid j > 0"
proof -
  have "str_attr lit_api sample_job ''Cmd'' = ''/bin/sh''" by code_simp
  then show ?thesis
    by (simp add: startJob_def sample_os_def sample_act_def Let_def open_stdio_def openStdio_def)
qed

theorem job_runs_in_sandbox_witness:
  "\<exists>j. fst (startJob sample_os lit_api sample_job sample_act ''slot1'' [(''A'', ''1'')] 5) = Inr j \<and>
     env_value (cmd_Env (jp_cmd j)) ''TMPDIR'' = Some ''/execute/dir_1''"
proof -
  obtain j tr where j: "startJob sample_os lit_api sample_job sample_act ''slot1'' [(''A'', ''1'')] 5 = (Inr j, tr)"
    "jp_pid j > 0" using sample_start by blast
  from job_runs_in_sandbox [OF j] j(1) show ?thesis by (simp add: sample_act_def)
qed

section \<open>The reported exit\<close>

text \<open>The status words of the two ways a process ends.\<close>

definition exit_word :: "int \<Rightarrow> wait_status" where
  "exit_word e = push_bit 8 (word_of_int e)"

definition signal_word :: "int \<Rightarrow> bool \<Rightarrow> wait_status" where
  "signal_word sig core = word_of_int sig OR (if core then 0x80 else 0)"

lemma mask7: "(0x7F :: wait_status) = mask 7" "(0xFF :: wait_status) = mask 8"
  by (simp_all add: mask_eq_exp_minus_1)

lemma exit_word_decoded:
  assumes "0 \<le> e" "e < 256"
  shows "ws_Exited (exit_word e)" "\<not> ws_Signaled (exit_word e)" "ws_ExitStatus (exit_word e) = e"
proof -
  have l: "exit_word e AND 0x7F = 0"
    by (simp add: exit_word_def mask7 take_bit_push_bit flip: take_bit_eq_mask)
  have e: "take_bit 32 (push_bit 8 e) = push_bit 8 e"
    using assms by (intro take_bit_int_eq_self) (auto simp: push_bit_eq_mult)
  have "uint (drop_bit 8 (exit_word e) AND 0xFF) = take_bit 8 (drop_bit 8 (take_bit 32 (push_bit 8 e)))"
    unfolding mask7 take_bit_eq_mask [symmetric] exit_word_def
    by (simp add: unsigned_take_bit_eq unsigned_drop_bit_eq push_bit_of_int uint_word_of_int_eq)
  also have "\<dots> = e" using assms by (simp add: e take_bit_int_eq_self drop_bit_eq_div push_bit_eq_mult)
  finally show "ws_ExitStatus (exit_word e) = e"
    using l by (simp add: ws_ExitStatus_def ws_Exited_def)
qed (simp_all add: ws_Exited_def ws_Signaled_def exit_word_def mask7 take_bit_push_bit flip: take_bit_eq_mask)

lemma bit_core: "bit (0x80 :: int) n \<longleftrightarrow> n = 7"
proof -
  have "(0x80 :: int) = push_bit 7 1" by simp
  then show ?thesis by (auto simp only: bit_push_bit_iff bit_1_iff) simp
qed

lemma signal_word_decoded:
  assumes "0 < sig" "sig < 127"
  shows "ws_Signaled (signal_word sig core)" "\<not> ws_Exited (signal_word sig core)"
    "ws_Signal (signal_word sig core) = sig" "ws_CoreDump (signal_word sig core) \<longleftrightarrow> core"
proof -
  have s: "take_bit 7 sig = sig" using assms by (simp add: take_bit_int_eq_self)
  have l: "signal_word sig core AND 0x7F = word_of_int sig"
    unfolding mask7 take_bit_eq_mask [symmetric] signal_word_def
    by (simp add: take_bit_or take_bit_of_int s)
  have u: "uint (word_of_int sig :: wait_status) = sig"
    using assms by (simp add: uint_word_of_int_eq take_bit_int_eq_self)
  have n: "(word_of_int sig :: wait_status) \<noteq> 0" "(word_of_int sig :: wait_status) \<noteq> 0x7F"
    using assms u by auto
  show sg: "ws_Signaled (signal_word sig core)" "\<not> ws_Exited (signal_word sig core)"
    using n by (simp_all add: ws_Signaled_def ws_Exited_def l)
  then show "ws_Signal (signal_word sig core) = sig" by (simp add: ws_Signal_def l u)
  have "\<not> bit sig 7" using s by (metis bit_take_bit_iff less_irrefl)
  then have "signal_word sig core AND 0x80 = (if core then 0x80 else 0)"
    unfolding signal_word_def by (auto intro!: bit_eqI simp: bit_simps bit_core)
  then show "ws_CoreDump (signal_word sig core) \<longleftrightarrow> core" using sg by (simp add: ws_CoreDump_def)
qed

lemmas final_ad_simps = buildFinalAd_def job_times_def inspectWait_def Let_def

lemma final_ad_reports:
  "last_ins (buildFinalAd secs info pid start fin) ''ExitBySignal'' = Some (ABool (signaled info))"
  "last_ins (buildFinalAd secs info pid start fin) ''ExitCode'' = (if signaled info then None else Some (AInt (exitCode info)))"
  "last_ins (buildFinalAd secs info pid start fin) ''ExitSignal'' = (if signaled info then Some (AInt (wi_signal info)) else None)"
  by (simp_all add: buildFinalAd_def job_times_def Let_def fold_eval)

text \<open>
  C40. The final ad tells how the job ended: for the status word of a process that exited with code
  \<open>e\<close> it has that exit code and no signal, and for one killed by the signal \<open>sig\<close>, with or without a core
  dump, it has that signal and no exit code.
\<close>

theorem exit_reported:
  assumes "classad_ok L" "0 \<le> e" "e < 256" "0 < sig" "sig < 127"
  shows "(let ad = buildFinalAd secs (inspectWait (Some (exit_word e, ru))) pid start fin
          in EvaluateAttrBool L ad ''ExitBySignal'' = Some False \<and> EvaluateAttrInt L ad ''ExitCode'' = Some e \<and>
             EvaluateAttrInt L ad ''ExitSignal'' = None) \<and>
         (let ad = buildFinalAd secs (inspectWait (Some (signal_word sig core, ru))) pid start fin
          in EvaluateAttrBool L ad ''ExitBySignal'' = Some True \<and> EvaluateAttrInt L ad ''ExitCode'' = None \<and>
             EvaluateAttrInt L ad ''ExitSignal'' = Some sig)"
  using exit_word_decoded [OF assms(2,3)] signal_word_decoded [OF assms(4,5)] assms(1)
  by (simp add: Let_def inspectWait_def go_simps final_ad_reports)

theorem exit_reported_witness:
  "lit_int (buildFinalAd (\<lambda>d. Fin d 0) (inspectWait (Some (exit_word 3, None))) 4711 1 9) ''ExitCode'' = Some 3"
  using exit_reported [of lit_api 3 9 "\<lambda>d. Fin d 0" None 4711 1 9 True] classad_ok_literal_reader [of lit_api]
  by (simp add: lit_api_def Let_def)

text \<open>
  A job that was never reaped (the wait returned no process state) is reported as a normal exit with
  code 0, which a successful job reports too.
\<close>

theorem unreaped_reported_as_success:
  "buildFinalAd secs (inspectWait None) pid start fin =
     buildFinalAd secs (inspectWait (Some (exit_word 0, Some (Fin 0 0, Fin 0 0)))) pid start fin"
  using exit_word_decoded [of 0] by (simp add: final_ad_simps no_wait_def)

end
