(* ===== verification/FileTransfer.thy ===== *)
theory FileTransfer
  imports Exec "HOL-Library.List_Lexorder"
begin

text \<open>
  The starter as the client of HTCondor's file transfer (\<^verbatim>\<open>internal/starter/transfer.go\<close>): the set-up
  of the session, the connection that carries the transfer key, the sink that lands input files in the
  sandbox, and the plan of output files. The file system and the transfer library are parameters.
\<close>

definition stdoutRemapName :: string where "stdoutRemapName = ''_condor_stdout''"
definition stderrRemapName :: string where "stderrRemapName = ''_condor_stderr''"

definition shouldTransfer :: "'x classad_api_scheme \<Rightarrow> ad \<Rightarrow> bool" where
  "shouldTransfer L jobAd =
     (case EvaluateAttrString L jobAd ''ShouldTransferFiles'' of
        None \<Rightarrow> False
      | Some v \<Rightarrow> v \<noteq> [] \<and> \<not> EqualFold v ''NO'')"

record fileStamp =
  fst_size :: int
  fst_mtime :: time

record transferState =
  ts_sessionID :: string
  ts_socket :: string
  ts_key :: string
  ts_sandbox :: string
  ts_snapshot :: "(string, fileStamp) gomap"

record SecSessionInfo =
  FiletransID :: string
  FiletransInfo :: string
  FiletransKey :: string
  ReconnectID :: string
  ReconnectInfo :: string
  ReconnectKey :: string

text \<open>
  What the starter uses of the security and transfer libraries: the import of a session (its error), a
  connection that resumes a session for a command (whether the negotiated connection is encrypted, \<open>None\<close>
  for no negotiation), the writing and flushing of the key, and the two bulk transfers.
\<close>

record transfer_net =
  nt_import :: "string \<Rightarrow> string \<Rightarrow> string \<Rightarrow> string \<Rightarrow> string option"
  nt_connect :: "string \<Rightarrow> string \<Rightarrow> int \<Rightarrow> string + bool option"
  nt_put :: "string option"
  nt_flush :: "string option"
  nt_receive :: "string option"
  nt_send :: "string option"

definition setupTransfer ::
  "transfer_net \<Rightarrow> 'x classad_api_scheme \<Rightarrow> ad \<Rightarrow> string \<Rightarrow> SecSessionInfo option \<Rightarrow> string + transferState option" where
  "setupTransfer N L jobAd sandbox sec =
     (let socket = str_attr L jobAd ''TransferSocket''; key = str_attr L jobAd ''TransferKey''
      in if socket = [] \<or> key = [] then Inr None
         else case sec of
           None \<Rightarrow> Inl ''starter: job ad requests file transfer but the shadow provided no filetrans session''
         | Some s \<Rightarrow>
             if FiletransID s = [] \<or> FiletransKey s = []
             then Inl ''starter: job ad requests file transfer but the shadow provided no filetrans session''
             else case nt_import N (FiletransID s) (FiletransInfo s) (FiletransKey s) socket of
               Some err \<Rightarrow> Inl (''starter: importing filetrans session: '' @ err)
             | None \<Rightarrow> Inr (Some \<lparr>ts_sessionID = FiletransID s, ts_socket = socket, ts_key = key,
                                 ts_sandbox = sandbox, ts_snapshot = []\<rparr>))"

text \<open>
  The connection: the second component lists the strings put on it, in clear or encrypted as the flag
  says.
\<close>

definition dial ::
  "transfer_net \<Rightarrow> transferState \<Rightarrow> int \<Rightarrow> (string + unit) \<times> (bool \<times> string) list" where
  "dial N ts cmd =
     (case nt_connect N (ts_socket ts) (ts_sessionID ts) cmd of
        Inl err \<Rightarrow> (Inl (''starter: connect/resume filetrans session: '' @ err), [])
      | Inr neg \<Rightarrow>
          if neg \<noteq> Some True
          then (Inl ''starter: filetrans connection is not encrypted; refusing to send TransferKey'', [])
          else case nt_put N of
            Some err \<Rightarrow> (Inl (''starter: sending TransferKey: '' @ err), [(True, ts_key ts)])
          | None \<Rightarrow>
              (case nt_flush N of
                 Some err \<Rightarrow> (Inl (''starter: flushing TransferKey: '' @ err), [(True, ts_key ts)])
               | None \<Rightarrow> (Inr (), [(True, ts_key ts)])))"

section \<open>The sandbox\<close>

record file_info =
  fi_regular :: bool
  fi_perm :: int
  fi_size :: int

record dir_entry =
  de_name :: string
  de_regular :: bool
  de_info :: "fileStamp option"

record file_system =
  fs_Stat :: "string \<Rightarrow> file_info option"
  fs_ReadDir :: "string \<Rightarrow> dir_entry list option"

definition snapshot_entry :: "(string, fileStamp) gomap \<Rightarrow> dir_entry \<Rightarrow> (string, fileStamp) gomap" where
  "snapshot_entry m e =
     (if \<not> de_regular e then m
      else case de_info e of None \<Rightarrow> m | Some st \<Rightarrow> AList.update (de_name e) st m)"

definition snapshotSandbox :: "file_system \<Rightarrow> string \<Rightarrow> (string, fileStamp) gomap" where
  "snapshotSandbox F d =
     (case fs_ReadDir F d of None \<Rightarrow> [] | Some es \<Rightarrow> foldl snapshot_entry [] es)"

definition FILETRANS_UPLOAD :: int where "FILETRANS_UPLOAD = 61000"
definition FILETRANS_DOWNLOAD :: int where "FILETRANS_DOWNLOAD = 61001"

definition downloadInput :: "transfer_net \<Rightarrow> file_system \<Rightarrow> transferState \<Rightarrow> string + transferState" where
  "downloadInput N F ts =
     (case fst (dial N ts FILETRANS_UPLOAD) of
        Inl err \<Rightarrow> Inl err
      | Inr _ \<Rightarrow>
          (case nt_receive N of
             Some err \<Rightarrow> Inl (''starter: input transfer: '' @ err)
           | None \<Rightarrow> Inr (ts\<lparr>ts_snapshot := snapshotSandbox F (ts_sandbox ts)\<rparr>)))"

section \<open>The sink of input files\<close>

definition dest :: "string \<Rightarrow> string \<Rightarrow> string + string" where
  "dest d name =
     (let clean = Clean name
      in if IsAbs clean \<or> clean = ''..'' \<or> HasPrefix clean ''../''
         then Inl (''starter: refusing input path outside sandbox: '' @ name)
         else Inr (Join [d, clean]))"

definition sink_Mkdir :: "string \<Rightarrow> string \<Rightarrow> string + string" where
  "sink_Mkdir d name = dest d name"

text \<open>\<^verbatim>\<open>filepath.Dir\<close>: everything up to the last slash, cleaned.\<close>

definition Dir :: "string \<Rightarrow> string" where
  "Dir p = Clean (rev (dropWhile (\<lambda>ch. ch \<noteq> CHR ''/'') (rev p)))"

text \<open>
  A file of the input sandbox: the directory that is created, the path that is opened for writing, and
  the permissions, of which the lower nine bits count.
\<close>

definition sink_File :: "string \<Rightarrow> string \<Rightarrow> int \<Rightarrow> string + string \<times> string \<times> int" where
  "sink_File d name mode =
     (case dest d name of
        Inl e \<Rightarrow> Inl e
      | Inr dst \<Rightarrow> Inr (Dir dst, dst, (let perm = mode mod 512 in if perm = 0 then 420 else perm)))"

section \<open>The plan of output files\<close>

definition list_sep :: "char \<Rightarrow> bool" where
  "list_sep ch \<longleftrightarrow> ch \<in> {CHR '','', CHR '' '', CHR 0x09, CHR 0x0A}"

definition splitFileList :: "string \<Rightarrow> string list" where
  "splitFileList s = filter (\<lambda>f. f \<noteq> []) (map TrimSpace (FieldsFunc s list_sep))"

record FileSpec =
  WireName :: string
  fs_Mode :: int
  fs_Size :: int
  fs_source :: string

text \<open>The plan so far, and the wire names already seen.\<close>

record plan_state =
  plan_Files :: "FileSpec list"
  seen :: "string list"

definition plan_add ::
  "file_system \<Rightarrow> string \<Rightarrow> string \<Rightarrow> string \<Rightarrow> bool \<Rightarrow> plan_state \<Rightarrow> string + plan_state" where
  "plan_add F sandbox wire rel required p =
     (if wire = [] \<or> wire \<in> set (seen p) then Inr p
      else let source = Join [sandbox, rel]
           in case fs_Stat F source of
                None \<Rightarrow> if required then Inl (''starter: output file: '' @ rel) else Inr p
              | Some info \<Rightarrow>
                  if \<not> fi_regular info
                  then (if required then Inl (''starter: output file is not a regular file: '' @ rel) else Inr p)
                  else Inr (p\<lparr>plan_Files := plan_Files p @
                                [\<lparr>WireName = wire, fs_Mode = fi_perm info, fs_Size = fi_size info,
                                  fs_source = source\<rparr>],
                              seen := wire # seen p\<rparr>))"

fun plan_add_all ::
  "file_system \<Rightarrow> string \<Rightarrow> bool \<Rightarrow> string list \<Rightarrow> plan_state \<Rightarrow> string + plan_state" where
  "plan_add_all F sandbox required [] p = Inr p"
| "plan_add_all F sandbox required (f # fs) p =
     (case plan_add F sandbox f f required p of
        Inl e \<Rightarrow> Inl e
      | Inr p' \<Rightarrow> plan_add_all F sandbox required fs p')"

text \<open>
  The job's standard output and error, sent under their remapped names when they are relative. \<open>order\<close>
  lists the two attributes in the order in which the map is visited. The second result maps the
  cleaned names to the wire names.
\<close>

fun plan_stdio ::
  "file_system \<Rightarrow> 'x classad_api_scheme \<Rightarrow> string \<Rightarrow> ad \<Rightarrow> (string \<times> string) list \<Rightarrow>
     plan_state \<Rightarrow> (string, string) gomap \<Rightarrow> string + plan_state \<times> (string, string) gomap" where
  "plan_stdio F L sandbox jobAd [] p rel = Inr (p, rel)"
| "plan_stdio F L sandbox jobAd ((attr, wire) # rest) p rel =
     (let path = str_attr L jobAd attr
      in if path \<noteq> [] \<and> path \<noteq> nullFile \<and> \<not> IsAbs path
         then case plan_add F sandbox wire path False p of
                Inl e \<Rightarrow> Inl e
              | Inr p' \<Rightarrow> plan_stdio F L sandbox jobAd rest p' (AList.update (Clean path) wire rel)
         else plan_stdio F L sandbox jobAd rest p rel)"

text \<open>Is a top-level file new or changed since the snapshot, and not one of the standard files?\<close>

definition output_candidate ::
  "(string, fileStamp) gomap \<Rightarrow> (string, string) gomap \<Rightarrow> (string, fileStamp) gomap \<Rightarrow> string \<Rightarrow> bool" where
  "output_candidate snapshot stdioRel current name \<longleftrightarrow>
     map_of stdioRel name = None \<and> name \<noteq> stdoutRemapName \<and> name \<noteq> stderrRemapName \<and>
     (case (map_of snapshot name, map_of current name) of
        (Some old, Some st) \<Rightarrow> \<not> (fst_size old = fst_size st \<and> fst_mtime old = fst_mtime st)
      | _ \<Rightarrow> True)"

definition output_list :: "'x classad_api_scheme \<Rightarrow> ad \<Rightarrow> string option" where
  "output_list L jobAd =
     (case EvaluateAttrString L jobAd ''TransferOutput'' of
        Some l \<Rightarrow> Some l
      | None \<Rightarrow> EvaluateAttrString L jobAd ''TransferOutputFiles'')"

definition empty_plan :: plan_state where
  "empty_plan = \<lparr>plan_Files = [], seen = []\<rparr>"

definition buildOutputPlan ::
  "file_system \<Rightarrow> 'x classad_api_scheme \<Rightarrow> transferState \<Rightarrow> ad \<Rightarrow> (string \<times> string) list \<Rightarrow>
     string + FileSpec list" where
  "buildOutputPlan F L ts jobAd order =
     (case plan_stdio F L (ts_sandbox ts) jobAd order empty_plan [] of
        Inl e \<Rightarrow> Inl e
      | Inr (p, stdioRel) \<Rightarrow>
          (case output_list L jobAd of
             Some l \<Rightarrow>
               (case plan_add_all F (ts_sandbox ts) True (splitFileList l) p of
                  Inl e \<Rightarrow> Inl e
                | Inr p' \<Rightarrow> Inr (plan_Files p'))
           | None \<Rightarrow>
               (let current = snapshotSandbox F (ts_sandbox ts);
                    names = sort (map fst current)
                in case plan_add_all F (ts_sandbox ts) False
                          (filter (output_candidate (ts_snapshot ts) stdioRel current) names) p of
                     Inl e \<Rightarrow> Inl e
                   | Inr p' \<Rightarrow> Inr (plan_Files p'))))"

definition stdio_orders :: "(string \<times> string) list set" where
  "stdio_orders =
     {[(''Out'', stdoutRemapName), (''Err'', stderrRemapName)],
      [(''Err'', stderrRemapName), (''Out'', stdoutRemapName)]}"

definition uploadOutput ::
  "transfer_net \<Rightarrow> file_system \<Rightarrow> 'x classad_api_scheme \<Rightarrow> transferState \<Rightarrow> ad \<Rightarrow>
     (string \<times> string) list \<Rightarrow> string + FileSpec list" where
  "uploadOutput N F L ts jobAd order =
     (case buildOutputPlan F L ts jobAd order of
        Inl e \<Rightarrow> Inl e
      | Inr plan \<Rightarrow>
          (case fst (dial N ts FILETRANS_DOWNLOAD) of
             Inl e \<Rightarrow> Inl e
           | Inr _ \<Rightarrow>
               (case nt_send N of
                  Some err \<Rightarrow> Inl (''starter: output transfer: '' @ err)
                | None \<Rightarrow> Inr plan)))"

section \<open>Input files stay in the sandbox\<close>

text \<open>A sandbox: an absolute, clean path.\<close>

definition rooted_path :: "string list \<Rightarrow> string" where
  "rooted_path ds = ''/'' @ join_with ''/'' ds"

lemma HasPrefix_app [simp]: "HasPrefix (p @ s) p"
  by (simp add: HasPrefix_def)

lemma split_proper: "ps \<noteq> [] \<Longrightarrow> \<forall>p \<in> set ps. proper p \<Longrightarrow> split_on CHR ''/'' (join_with ''/'' ps) = ps"
  by (rule split_join) (auto simp: proper_def)

lemma Clean_extend:
  assumes "\<forall>d \<in> set ds. proper d" "ds \<noteq> []" "\<forall>q \<in> set qs. proper q" "qs \<noteq> []"
  shows "Join [rooted_path ds, join_with ''/'' qs] = rooted_path (ds @ qs)"
proof -
  have "split_on CHR ''/'' (CHR ''/'' # join_with ''/'' ds @ CHR ''/'' # join_with ''/'' qs) = [] # ds @ qs"
    using split_on_append [of "CHR ''/''" "join_with ''/'' ds" "join_with ''/'' qs"]
      split_proper [OF assms(2,1)] split_proper [OF assms(4,3)] by simp
  moreover have "clean_parts True ([] # ds @ qs) = ds @ qs"
    using clean_parts_proper [of "ds @ qs" True] assms by (auto simp: clean_parts_def clean_step_def)
  ultimately show ?thesis by (simp add: rooted_path_def Clean_def HasPrefix_def)
qed

lemma Join_dot:
  assumes "\<forall>d \<in> set ds. proper d" "ds \<noteq> []"
  shows "Join [rooted_path ds, ''.''] = rooted_path ds"
proof -
  have "split_on CHR ''/'' (CHR ''/'' # join_with ''/'' ds @ ''/.'') = [] # ds @ [''.'']"
    using split_on_append [of "CHR ''/''" "join_with ''/'' ds" "''.''"] split_proper [OF assms(2,1)] by simp
  moreover have "clean_parts True ([] # ds @ [''.'']) = ds"
    using assms foldl_clean_proper [of ds True "[]"]
    by (simp add: clean_parts_def clean_step_def)
  ultimately show ?thesis by (simp add: rooted_path_def Clean_def HasPrefix_def)
qed

lemma join_dotdot: "join_with ''/'' (''..'' # ps) = ''..'' \<or> HasPrefix (join_with ''/'' (''..'' # ps)) ''../''"
  by (cases ps) (simp_all add: HasPrefix_def)

text \<open>What a name that passes the guard looks like once it is cleaned.\<close>

lemma dest_clean:
  assumes "dest d name = Inr p"
  obtains qs where "\<forall>q \<in> set qs. proper q" "p = Join [d, if qs = [] then ''.'' else join_with ''/'' qs]"
proof -
  let ?parts = "clean_parts False (split_on CHR ''/'' name)"
  have rel: "\<not> HasPrefix name ''/''" using assms
    by (auto simp: dest_def Let_def IsAbs_def Clean_def HasPrefix_def split: if_splits)
  have "\<forall>q \<in> set (split_on CHR ''/'' name). CHR ''/'' \<notin> set q" using split_on_pieces by blast
  from clean_parts_clean [OF this, of False] obtain k qs where parts: "?parts = replicate k ''..'' @ qs"
    and qs: "\<forall>q \<in> set qs. proper q" by (auto simp: clean_list_def)
  have clean: "Clean name = (if ?parts = [] then ''.'' else join_with ''/'' ?parts)"
    using rel by (simp add: Clean_def)
  have "k = 0"
  proof (rule ccontr)
    assume "k \<noteq> 0"
    then obtain j where "k = Suc j" by (cases k) auto
    then have "Clean name = ''..'' \<or> HasPrefix (Clean name) ''../''"
      using join_dotdot [of "replicate j ''..'' @ qs"] by (simp add: clean parts)
    then show False using assms by (auto simp: dest_def Let_def split: if_splits)
  qed
  then show ?thesis using that [OF qs] assms by (auto simp: dest_def Let_def clean parts split: if_splits)
qed

text \<open>
  C11. No input file lands outside the sandbox: whatever name the sender gives, when the sink accepts it
  the path it opens is the sandbox path followed by proper components (no empty one, no dot, no double
  dot), so it lies in the sandbox directory or is that directory.
\<close>

theorem input_stays_in_sandbox:
  assumes "\<forall>d \<in> set ds. proper d" "ds \<noteq> []" "dest (rooted_path ds) name = Inr p"
  shows "\<exists>qs. (\<forall>q \<in> set qs. proper q) \<and> p = rooted_path (ds @ qs)"
proof -
  from dest_clean [OF assms(3)] obtain qs where qs: "\<forall>q \<in> set qs. proper q"
    "p = Join [rooted_path ds, if qs = [] then ''.'' else join_with ''/'' qs]" .
  then have "p = rooted_path (ds @ qs)"
    using Join_dot [OF assms(1,2)] Clean_extend [OF assms(1,2) qs(1)] by (cases "qs = []") auto
  then show ?thesis using qs(1) by blast
qed

theorem input_stays_in_sandbox_witness:
  "\<exists>qs. (\<forall>q \<in> set qs. proper q) \<and> rooted_path [''execute'', ''dir_1'', ''b''] = rooted_path ([''execute'', ''dir_1''] @ qs)"
proof (rule input_stays_in_sandbox [where name = "''a/../b''"])
  show "dest (rooted_path [''execute'', ''dir_1'']) ''a/../b'' = Inr (rooted_path [''execute'', ''dir_1'', ''b''])"
    by code_simp
qed (simp_all add: proper_def)

text \<open>
  The guard refuses nothing it need not: a relative name made of proper components is accepted and
  lands at exactly that place below the sandbox.
\<close>

theorem proper_input_accepted:
  assumes "\<forall>d \<in> set ds. proper d" "ds \<noteq> []" "\<forall>q \<in> set qs. proper q" "qs \<noteq> []"
  shows "dest (rooted_path ds) (join_with ''/'' qs) = Inr (rooted_path (ds @ qs))"
proof -
  obtain q rest where q: "qs = q # rest" "proper q" using assms(3,4) by (cases qs) auto
  have hd: "hd (join_with ''/'' qs) = hd q" "join_with ''/'' qs \<noteq> []"
    using q by (cases rest; auto simp: proper_def)+
  then have "\<not> HasPrefix (join_with ''/'' qs) ''/''"
    using q(2) by (cases q) (auto simp: HasPrefix_single proper_def)
  then have clean: "Clean (join_with ''/'' qs) = join_with ''/'' qs" "\<not> IsAbs (join_with ''/'' qs)"
    using assms(3,4) by (simp_all add: Clean_def split_proper clean_parts_proper IsAbs_def)
  have sp: "split_on CHR ''/'' (join_with ''/'' qs) = qs" using split_proper assms by blast
  have "join_with ''/'' qs \<noteq> ''..''"
  proof
    assume "join_with ''/'' qs = ''..''"
    from arg_cong [OF this, of "split_on CHR ''/''"] have "qs = [''..'']" unfolding sp by simp
    then show False using assms(3) by (simp add: proper_def)
  qed
  moreover have "\<not> HasPrefix (join_with ''/'' qs) ''../''"
  proof
    assume "HasPrefix (join_with ''/'' qs) ''../''"
    then have "take 3 (join_with ''/'' qs) = ''../''" by (simp add: HasPrefix_def numeral_3_eq_3)
    then have "join_with ''/'' qs = ''..'' @ CHR ''/'' # drop 3 (join_with ''/'' qs)"
      using append_take_drop_id [of 3 "join_with ''/'' qs"] by simp
    from arg_cong [OF this, of "split_on CHR ''/''"]
    have "qs = ''..'' # split_on CHR ''/'' (drop 3 (join_with ''/'' qs))" unfolding sp by simp
    then have "''..'' \<in> set qs" by (metis list.set_intros(1))
    then show False using assms(3) by (auto simp: proper_def)
  qed
  ultimately show ?thesis using clean Clean_extend [OF assms] by (simp add: dest_def Let_def)
qed

theorem proper_input_accepted_witness:
  "dest (rooted_path [''execute'']) (join_with ''/'' [''in'', ''a.dat'']) = Inr (rooted_path [''execute'', ''in'', ''a.dat''])"
  using proper_input_accepted [of "[''execute'']" "[''in'', ''a.dat'']"] by (simp add: proper_def)

section \<open>The key travels encrypted\<close>

text \<open>
  The transfer key is put on a connection only after the negotiation reported encryption: every
  string the starter sends while it sets up a transfer connection is sent encrypted, and when the
  connection is not encrypted nothing is sent and the set-up fails.
\<close>

theorem transfer_key_encrypted:
  "(\<forall>x \<in> set (snd (dial N ts cmd)). fst x) \<and>
   (nt_connect N (ts_socket ts) (ts_sessionID ts) cmd \<in> {Inr None, Inr (Some False)} \<longrightarrow>
      snd (dial N ts cmd) = [] \<and> (\<exists>e. fst (dial N ts cmd) = Inl e))"
  by (auto simp: dial_def split: sum.split option.split)

definition example_net :: transfer_net where
  "example_net =
     \<lparr>nt_import = (\<lambda>i info k s. None), nt_connect = (\<lambda>s i c. Inr (Some False)), nt_put = None, nt_flush = None,
      nt_receive = None, nt_send = None\<rparr>"

definition example_transfer :: transferState where
  "example_transfer =
     \<lparr>ts_sessionID = ''filetrans.1'', ts_socket = ''<s:1>'', ts_key = ''k'', ts_sandbox = ''/execute/dir_1'',
      ts_snapshot = [(''in.dat'', \<lparr>fst_size = 5, fst_mtime = 1\<rparr>)]\<rparr>"

theorem transfer_key_encrypted_witness:
  "snd (dial example_net example_transfer FILETRANS_UPLOAD) = []"
  using transfer_key_encrypted [of example_net example_transfer FILETRANS_UPLOAD] by (simp add: example_net_def)

section \<open>The plan of output files\<close>

text \<open>A plan under construction: every file was found as a regular file below the sandbox.\<close>

definition spec_ok :: "file_system \<Rightarrow> string \<Rightarrow> FileSpec \<Rightarrow> bool" where
  "spec_ok F sandbox f \<longleftrightarrow>
     (\<exists>rel info. fs_source f = Join [sandbox, rel] \<and> fs_Stat F (fs_source f) = Some info \<and> fi_regular info \<and>
        fs_Mode f = fi_perm info \<and> fs_Size f = fi_size info)"

definition plan_ok :: "file_system \<Rightarrow> string \<Rightarrow> plan_state \<Rightarrow> bool" where
  "plan_ok F sandbox p \<longleftrightarrow>
     map WireName (plan_Files p) = rev (seen p) \<and> distinct (seen p) \<and> (\<forall>f \<in> set (plan_Files p). spec_ok F sandbox f)"

lemma plan_add_ok:
  assumes "plan_add F sandbox wire rel required p = Inr q" "plan_ok F sandbox p"
  shows "plan_ok F sandbox q"
  using assms
  by (fastforce simp: plan_add_def plan_ok_def spec_ok_def Let_def split: if_splits option.splits)

text \<open>What one addition does to the set of wire names.\<close>

definition sendable :: "file_system \<Rightarrow> string \<Rightarrow> string \<Rightarrow> bool" where
  "sendable F sandbox rel =
     (case fs_Stat F (Join [sandbox, rel]) of None \<Rightarrow> False | Some info \<Rightarrow> fi_regular info)"

lemma plan_add_seen:
  assumes "plan_add F sandbox wire rel required p = Inr q" "wire \<noteq> []"
  shows "set (seen q) = (if sendable F sandbox rel then insert wire (set (seen p)) else set (seen p))"
  using assms by (auto simp: plan_add_def sendable_def Let_def split: if_splits option.splits)

lemma plan_add_required:
  "plan_add F sandbox wire rel True p = Inr q \<Longrightarrow> wire \<noteq> [] \<Longrightarrow> wire \<in> set (seen q)"
  by (auto simp: plan_add_def Let_def split: if_splits option.splits)

lemma plan_add_optional: "\<exists>q. plan_add F sandbox wire rel False p = Inr q"
  by (auto simp: plan_add_def Let_def split: option.split)

lemma plan_add_all_ok:
  "plan_add_all F sandbox required fs p = Inr q \<Longrightarrow> plan_ok F sandbox p \<Longrightarrow> plan_ok F sandbox q"
  by (induction fs arbitrary: p) (auto split: sum.splits dest: plan_add_ok)

lemma plan_add_all_seen:
  assumes "plan_add_all F sandbox required fs p = Inr q" "[] \<notin> set fs"
  shows "set (seen q) = set (seen p) \<union> {f \<in> set fs. sendable F sandbox f}"
  using assms
proof (induction fs arbitrary: p)
  case (Cons f fs)
  then obtain p' where p': "plan_add F sandbox f f required p = Inr p'" "plan_add_all F sandbox required fs p' = Inr q"
    by (auto split: sum.splits)
  have "f \<noteq> []" using Cons.prems by auto
  from Cons.IH [OF p'(2)] plan_add_seen [OF p'(1) this] Cons.prems show ?case by auto
qed simp

lemma plan_add_mono: "plan_add F sandbox wire rel required p = Inr q \<Longrightarrow> set (seen p) \<subseteq> set (seen q)"
  by (auto simp: plan_add_def Let_def split: if_splits option.splits)

lemma plan_add_all_required:
  assumes "plan_add_all F sandbox True fs p = Inr q" "[] \<notin> set fs"
  shows "set fs \<subseteq> set (seen q)"
  using assms
proof (induction fs arbitrary: p)
  case (Cons f fs)
  then obtain p' where p': "plan_add F sandbox f f True p = Inr p'" "plan_add_all F sandbox True fs p' = Inr q"
    by (auto split: sum.splits)
  have "f \<in> set (seen p')" using plan_add_required [OF p'(1)] Cons.prems by auto
  moreover have "set (seen p') \<subseteq> set (seen q)" using plan_add_all_seen [OF p'(2)] Cons.prems by auto
  ultimately show ?case using Cons.IH [OF p'(2)] Cons.prems by auto
qed simp

lemma plan_add_all_optional: "\<exists>q. plan_add_all F sandbox False fs p = Inr q"
proof (induction fs arbitrary: p)
  case (Cons f fs)
  obtain p' where "plan_add F sandbox f f False p = Inr p'" using plan_add_optional by blast
  then show ?case using Cons by simp
qed simp

lemma plan_stdio_total: "\<exists>q rel'. plan_stdio F L sandbox jobAd order p rel = Inr (q, rel')"
proof (induction order arbitrary: p rel)
  case (Cons x order)
  obtain attr wire where x: "x = (attr, wire)" by (cases x)
  obtain p' where "plan_add F sandbox wire (str_attr L jobAd attr) False p = Inr p'" using plan_add_optional by blast
  then show ?case using Cons by (auto simp: x Let_def)
qed simp

lemma plan_stdio_ok:
  "plan_stdio F L sandbox jobAd order p rel = Inr (q, rel') \<Longrightarrow> plan_ok F sandbox p \<Longrightarrow> plan_ok F sandbox q"
  by (induction F L sandbox jobAd order p rel rule: plan_stdio.induct)
    (auto simp: Let_def split: if_splits sum.splits dest: plan_add_ok)

lemma plan_add_bound:
  "plan_add F sandbox wire rel required p = Inr q \<Longrightarrow> set (seen q) \<subseteq> insert wire (set (seen p))"
  by (auto simp: plan_add_def Let_def split: if_splits option.splits)

lemma plan_stdio_seen:
  assumes "plan_stdio F L sandbox jobAd order p rel = Inr (q, rel')"
  shows "set (seen q) \<subseteq> set (seen p) \<union> snd ` set order"
  using assms
proof (induction order arbitrary: p rel)
  case (Cons x order)
  obtain attr wire where x: "x = (attr, wire)" by (cases x)
  obtain p' rel'' where p': "set (seen p') \<subseteq> insert wire (set (seen p))"
    "plan_stdio F L sandbox jobAd order p' rel'' = Inr (q, rel')"
  proof (cases "str_attr L jobAd attr \<noteq> [] \<and> str_attr L jobAd attr \<noteq> nullFile \<and> \<not> IsAbs (str_attr L jobAd attr)")
    case True
    obtain p' where "plan_add F sandbox wire (str_attr L jobAd attr) False p = Inr p'" using plan_add_optional by blast
    then show ?thesis using that [of p'] plan_add_bound True Cons.prems by (simp add: x Let_def)
  next
    case False
    then have "plan_stdio F L sandbox jobAd order p rel = Inr (q, rel')" using Cons.prems by (auto simp: x Let_def split: if_splits)
    then show ?thesis by (rule that [OF subset_insertI])
  qed
  from Cons.IH [OF p'(2)] p'(1) show ?case by (auto simp: x)
qed simp

lemma plan_add_error:
  "plan_add F sandbox wire rel required p = Inl e \<Longrightarrow> \<not> sendable F sandbox rel"
  by (auto simp: plan_add_def sendable_def Let_def split: if_splits option.splits)

lemma plan_add_all_error:
  "plan_add_all F sandbox required fs p = Inl e \<Longrightarrow> \<exists>f \<in> set fs. \<not> sendable F sandbox f"
proof (induction fs arbitrary: p)
  case (Cons f fs)
  then show ?case by (cases "plan_add F sandbox f f required p") (auto dest: plan_add_error)
qed simp

lemma splitFileList_nonempty: "[] \<notin> set (splitFileList l)"
  by (simp add: splitFileList_def)

text \<open>
  Every plan of output files is well formed: no two files travel under the same wire name, and each
  was found as a regular file at its source, with the mode and size it is announced with.
\<close>

theorem output_plan_well_formed:
  assumes "buildOutputPlan F L ts jobAd order = Inr files"
  shows "distinct (map WireName files) \<and>
    (\<forall>f \<in> set files. \<exists>rel info. fs_source f = Join [ts_sandbox ts, rel] \<and>
       fs_Stat F (fs_source f) = Some info \<and> fi_regular info \<and> fs_Mode f = fi_perm info \<and> fs_Size f = fi_size info)"
proof -
  obtain p rel where p: "plan_stdio F L (ts_sandbox ts) jobAd order empty_plan [] = Inr (p, rel)"
    using plan_stdio_total by blast
  have "plan_ok F (ts_sandbox ts) empty_plan" by (simp add: plan_ok_def empty_plan_def)
  with plan_stdio_ok [OF p] have ok: "plan_ok F (ts_sandbox ts) p" by blast
  from assms p obtain required fs q where "plan_add_all F (ts_sandbox ts) required fs p = Inr q" "files = plan_Files q"
    by (auto simp: buildOutputPlan_def Let_def split: option.splits sum.splits)
  then have "plan_ok F (ts_sandbox ts) q" "files = plan_Files q" using plan_add_all_ok ok by blast+
  then show ?thesis by (auto simp: plan_ok_def spec_ok_def)
qed

text \<open>
  C32. With an explicit list of output files the plan holds all of them and nothing else besides the
  job's standard output and error; the plan fails only on a listed file that is not a regular file.
\<close>

theorem explicit_output_exact:
  assumes "order \<in> stdio_orders" "output_list L jobAd = Some l"
  shows "(case buildOutputPlan F L ts jobAd order of
      Inr files \<Rightarrow> set (splitFileList l) \<subseteq> WireName ` set files \<and>
        WireName ` set files \<subseteq> set (splitFileList l) \<union> {stdoutRemapName, stderrRemapName}
    | Inl e \<Rightarrow> \<exists>f \<in> set (splitFileList l). \<not> sendable F (ts_sandbox ts) f)"
proof -
  let ?d = "ts_sandbox ts" and ?fs = "splitFileList l"
  obtain p rel where p: "plan_stdio F L ?d jobAd order empty_plan [] = Inr (p, rel)"
    using plan_stdio_total by blast
  have "plan_ok F ?d empty_plan" by (simp add: plan_ok_def empty_plan_def)
  with plan_stdio_ok [OF p] have ok: "plan_ok F ?d p" by blast
  have std: "set (seen p) \<subseteq> {stdoutRemapName, stderrRemapName}"
    using plan_stdio_seen [OF p] assms(1) by (auto simp: empty_plan_def stdio_orders_def)
  show ?thesis
  proof (cases "plan_add_all F ?d True ?fs p")
    case (Inr q)
    then have b: "buildOutputPlan F L ts jobAd order = Inr (plan_Files q)" using assms p by (simp add: buildOutputPlan_def)
    have "plan_ok F ?d q" using plan_add_all_ok [OF Inr ok] .
    then have w: "WireName ` set (plan_Files q) = set (seen q)"
      unfolding plan_ok_def by (metis set_map set_rev)
    show ?thesis
      using plan_add_all_required [OF Inr splitFileList_nonempty] plan_add_all_seen [OF Inr splitFileList_nonempty] std
      by (auto simp: b w)
  next
    case (Inl e)
    have "\<exists>f \<in> set ?fs. \<not> sendable F ?d f" by (rule plan_add_all_error [OF Inl])
    then show ?thesis using Inl assms(2) p by (simp add: buildOutputPlan_def)
  qed
qed

definition example_fs :: file_system where
  "example_fs =
     \<lparr>fs_Stat = (\<lambda>p. if p \<in> {''/execute/dir_1/out.txt'', ''/execute/dir_1/r.dat'', ''/execute/dir_1/in.dat''}
                    then Some \<lparr>fi_regular = True, fi_perm = 420, fi_size = 7\<rparr> else None),
      fs_ReadDir = (\<lambda>d. Some [\<lparr>de_name = ''r.dat'', de_regular = True, de_info = Some \<lparr>fst_size = 7, fst_mtime = 9\<rparr>\<rparr>,
        \<lparr>de_name = ''in.dat'', de_regular = True, de_info = Some \<lparr>fst_size = 5, fst_mtime = 1\<rparr>\<rparr>])\<rparr>"

definition example_job :: ad where
  "example_job = [(''Out'', AStr ''out.txt''), (''TransferOutput'', AStr ''r.dat,in.dat'')]"

definition example_order :: "(string \<times> string) list" where
  "example_order = [(''Out'', stdoutRemapName), (''Err'', stderrRemapName)]"

lemma example_plan:
  "buildOutputPlan example_fs lit_api example_transfer example_job example_order =
     Inr [\<lparr>WireName = ''_condor_stdout'', fs_Mode = 420, fs_Size = 7, fs_source = ''/execute/dir_1/out.txt''\<rparr>,
          \<lparr>WireName = ''r.dat'', fs_Mode = 420, fs_Size = 7, fs_source = ''/execute/dir_1/r.dat''\<rparr>,
          \<lparr>WireName = ''in.dat'', fs_Mode = 420, fs_Size = 7, fs_source = ''/execute/dir_1/in.dat''\<rparr>]"
  by code_simp

theorem output_plan_well_formed_witness: "distinct [''_condor_stdout'', ''r.dat'', ''in.dat'']"
  using output_plan_well_formed [OF example_plan] by simp

theorem explicit_output_exact_witness:
  "case buildOutputPlan example_fs lit_api example_transfer example_job example_order of
     Inr files \<Rightarrow> set (splitFileList ''r.dat,in.dat'') \<subseteq> WireName ` set files
   | Inl e \<Rightarrow> False"
proof -
  have "output_list lit_api example_job = Some ''r.dat,in.dat''" by code_simp
  moreover have "example_order \<in> stdio_orders" by (simp add: example_order_def stdio_orders_def)
  ultimately show ?thesis
    using explicit_output_exact [of example_order lit_api example_job "''r.dat,in.dat''" example_fs example_transfer]
    by (simp add: example_plan)
qed

section \<open>The default selection\<close>

text \<open>The names, relative to the sandbox, of the job's captured standard output and error.\<close>

definition captured :: "'x classad_api_scheme \<Rightarrow> ad \<Rightarrow> string \<Rightarrow> bool" where
  "captured L jobAd attr \<longleftrightarrow>
     (let p = str_attr L jobAd attr in p \<noteq> [] \<and> p \<noteq> nullFile \<and> \<not> IsAbs p)"

definition stdio_names :: "'x classad_api_scheme \<Rightarrow> ad \<Rightarrow> string set" where
  "stdio_names L jobAd = (\<lambda>attr. Clean (str_attr L jobAd attr)) ` {attr \<in> {''Out'', ''Err''}. captured L jobAd attr}"

lemma plan_stdio_names:
  assumes "plan_stdio F L sandbox jobAd order p rel = Inr (q, rel')"
  shows "dom (map_of rel') = dom (map_of rel) \<union>
    (\<lambda>attr. Clean (str_attr L jobAd attr)) ` {attr \<in> fst ` set order. captured L jobAd attr}"
  using assms
  by (induction F L sandbox jobAd order p rel rule: plan_stdio.induct)
    (auto simp: Let_def captured_def update_conv' split: if_splits sum.splits)

lemma stamp_eq: "(s :: fileStamp) = t \<longleftrightarrow> fst_size s = fst_size t \<and> fst_mtime s = fst_mtime t"
  by (cases s; cases t) simp

lemma output_candidate_iff:
  "output_candidate snapshot rel current name \<longleftrightarrow>
     name \<notin> dom (map_of rel) \<and> name \<notin> {stdoutRemapName, stderrRemapName} \<and>
     (map_of snapshot name = None \<or> map_of current name = None \<or> map_of snapshot name \<noteq> map_of current name)"
  by (auto simp: output_candidate_def stamp_eq split: option.splits)

text \<open>
  C31. Without an explicit list the plan never fails, and besides the captured standard output and error
  it holds exactly the top-level regular files of the sandbox that are new or have changed since the
  input was downloaded, are not one of those two files, and are still there.
\<close>

theorem default_output_exact:
  assumes "order \<in> stdio_orders" "output_list L jobAd = None"
    "map_of (snapshotSandbox F (ts_sandbox ts)) [] = None"
  shows "\<exists>files. buildOutputPlan F L ts jobAd order = Inr files \<and>
    (\<forall>name. name \<notin> {stdoutRemapName, stderrRemapName} \<longrightarrow>
      (name \<in> WireName ` set files \<longleftrightarrow>
        (\<exists>st. map_of (snapshotSandbox F (ts_sandbox ts)) name = Some st \<and> map_of (ts_snapshot ts) name \<noteq> Some st) \<and>
        name \<notin> stdio_names L jobAd \<and> sendable F (ts_sandbox ts) name))"
proof -
  let ?d = "ts_sandbox ts" and ?cur = "snapshotSandbox F (ts_sandbox ts)"
  obtain p rel where p: "plan_stdio F L ?d jobAd order empty_plan [] = Inr (p, rel)"
    using plan_stdio_total by blast
  let ?fs = "filter (output_candidate (ts_snapshot ts) rel ?cur) (sort (map fst ?cur))"
  obtain q where q: "plan_add_all F ?d False ?fs p = Inr q" using plan_add_all_optional by blast
  have b: "buildOutputPlan F L ts jobAd order = Inr (plan_Files q)"
    using p q assms(2) by (simp add: buildOutputPlan_def Let_def)
  have "plan_ok F ?d empty_plan" by (simp add: plan_ok_def empty_plan_def)
  then have "plan_ok F ?d q" using plan_stdio_ok [OF p] plan_add_all_ok [OF q] by blast
  then have w: "WireName ` set (plan_Files q) = set (seen q)" unfolding plan_ok_def by (metis set_map set_rev)
  have std: "set (seen p) \<subseteq> {stdoutRemapName, stderrRemapName}"
    using plan_stdio_seen [OF p] assms(1) by (auto simp: empty_plan_def stdio_orders_def)
  have cur: "name \<in> fst ` set ?cur \<longleftrightarrow> (\<exists>st. map_of ?cur name = Some st)" for name
    by (metis map_of_eq_None_iff not_None_eq)
  have "[] \<notin> set ?fs" using assms(3) by (auto simp: map_of_eq_None_iff)
  from plan_add_all_seen [OF q this]
  have seen: "set (seen q) = set (seen p) \<union> {f \<in> set ?fs. sendable F ?d f}" .
  have rel: "dom (map_of rel) = stdio_names L jobAd"
    using plan_stdio_names [OF p] assms(1) by (auto simp: stdio_names_def stdio_orders_def)
  show ?thesis
    using std by (intro exI [of _ "plan_Files q"]) (auto simp: b w seen output_candidate_iff rel cur)
qed

definition default_job :: ad where
  "default_job = [(''Out'', AStr ''out.txt'')]"

lemma default_snapshot: "snapshotSandbox example_fs d =
    [(''r.dat'', \<lparr>fst_size = 7, fst_mtime = 9\<rparr>), (''in.dat'', \<lparr>fst_size = 5, fst_mtime = 1\<rparr>)]"
  by (simp add: snapshotSandbox_def example_fs_def snapshot_entry_def)

theorem default_output_exact_witness:
  "\<exists>files. buildOutputPlan example_fs lit_api example_transfer default_job example_order = Inr files \<and>
     ''r.dat'' \<in> WireName ` set files \<and> ''in.dat'' \<notin> WireName ` set files"
proof -
  have o: "example_order \<in> stdio_orders" by (simp add: example_order_def stdio_orders_def)
  have l: "output_list lit_api default_job = None" by code_simp
  have "map_of (snapshotSandbox example_fs (ts_sandbox example_transfer)) [] = None" by (simp add: default_snapshot)
  from default_output_exact [OF o l this] obtain files where
    f: "buildOutputPlan example_fs lit_api example_transfer default_job example_order = Inr files" and
    names: "\<And>name. name \<notin> {stdoutRemapName, stderrRemapName} \<Longrightarrow> (name \<in> WireName ` set files \<longleftrightarrow>
        (\<exists>st. map_of (snapshotSandbox example_fs (ts_sandbox example_transfer)) name = Some st \<and>
          map_of (ts_snapshot example_transfer) name \<noteq> Some st) \<and>
        name \<notin> stdio_names lit_api default_job \<and> sendable example_fs (ts_sandbox example_transfer) name)"
    by blast
  have "''r.dat'' \<notin> stdio_names lit_api default_job" by code_simp
  moreover have "sendable example_fs (ts_sandbox example_transfer) ''r.dat''" by code_simp
  ultimately have "''r.dat'' \<in> WireName ` set files"
    by (subst names) (simp_all add: default_snapshot example_transfer_def stdoutRemapName_def stderrRemapName_def)
  moreover have "''in.dat'' \<notin> WireName ` set files"
    by (subst names) (simp_all add: default_snapshot example_transfer_def stdoutRemapName_def stderrRemapName_def)
  ultimately show ?thesis using f by blast
qed

text \<open>
  The guard of the input sink has no counterpart on the way out: a listed output name that climbs out
  of the sandbox is sent, from the file it names outside of the sandbox.
\<close>

theorem listed_output_escapes:
  "buildOutputPlan (example_fs\<lparr>fs_Stat := (\<lambda>p. if p = ''/execute/passwd'' then
        Some \<lparr>fi_regular = True, fi_perm = 420, fi_size = 7\<rparr> else None)\<rparr>) lit_api example_transfer
      [(''TransferOutput'', AStr ''../passwd'')] example_order =
     Inr [\<lparr>WireName = ''../passwd'', fs_Mode = 420, fs_Size = 7, fs_source = ''/execute/passwd''\<rparr>]"
  by code_simp

end
