(* ===== verification/Reconnect.thy ===== *)
theory Reconnect
  imports Adwire FileTransfer Machine
begin

text \<open>
  The reconnection of a shadow to a running job: the requests and replies of the ClassAd command
  (\<^verbatim>\<open>internal/reconnect\<close>), the starter's own command server (\<^verbatim>\<open>internal/starter/command_server.go\<close>), and
  the handshake between its handler and the run (\<^verbatim>\<open>acceptReconnect\<close> in \<^verbatim>\<open>internal/starter/starter.go\<close>).
\<close>

section \<open>Requests and replies\<close>

definition CmdLocateStarter :: string where "CmdLocateStarter = ''CA_LOCATE_STARTER''"
definition CmdReconnectJob :: string where "CmdReconnectJob = ''CA_RECONNECT_JOB''"
definition ResultSuccess :: string where "ResultSuccess = ''Success''"
definition ResultFailure :: string where "ResultFailure = ''Failure''"
definition ResultNotAuthorized :: string where "ResultNotAuthorized = ''NotAuthorized''"
definition AttrResult :: string where "AttrResult = ''Result''"
definition AttrErrorString :: string where "AttrErrorString = ''ErrorString''"
definition AttrStarterIPAddr :: string where "AttrStarterIPAddr = ''StarterIpAddr''"

lemmas ca_consts = CmdLocateStarter_def CmdReconnectJob_def ResultSuccess_def ResultFailure_def
  ResultNotAuthorized_def AttrResult_def AttrErrorString_def AttrStarterIPAddr_def

definition SuccessReply :: ad where
  "SuccessReply = ad_set AttrResult (AStr ResultSuccess) new_ad"

definition FailureReply :: "string \<Rightarrow> ad" where
  "FailureReply errStr =
     (let ad = ad_set AttrResult (AStr ResultFailure) new_ad
      in if errStr \<noteq> [] then ad_set AttrErrorString (AStr errStr) ad else ad)"

definition NotAuthorizedReply :: "string \<Rightarrow> ad" where
  "NotAuthorizedReply errStr = ad_set AttrResult (AStr ResultNotAuthorized) (FailureReply errStr)"

definition RequestCommand :: "'x classad_api_scheme \<Rightarrow> ad \<Rightarrow> string" where
  "RequestCommand L ad = str_attr L ad ''Command''"

text \<open>The request is read from the message of the connection, or a fresh one when there is none.\<close>

definition ReadRequest ::
  "('m, 'y) message_api_scheme \<Rightarrow> 'x classad_api_scheme \<Rightarrow> 'm option \<Rightarrow> 'm \<Rightarrow> string + ad" where
  "ReadRequest W L msg fresh =
     (case GetClassAd W L (case msg of None \<Rightarrow> fresh | Some m \<Rightarrow> m) of
        Inl err \<Rightarrow> Inl (''reconnect: reading CA request: '' @ err)
      | Inr (ad, _) \<Rightarrow> Inr ad)"

lemma reply_results:
  "last_ins SuccessReply AttrResult = Some (AStr ResultSuccess)"
  "last_ins (FailureReply e) AttrResult = Some (AStr ResultFailure)"
  "last_ins (NotAuthorizedReply e) AttrResult = Some (AStr ResultNotAuthorized)"
  "last_ins (FailureReply e) AttrStarterIPAddr = None" "last_ins (NotAuthorizedReply e) AttrStarterIPAddr = None"
  by (simp_all add: SuccessReply_def FailureReply_def NotAuthorizedReply_def ca_consts Let_def fold_eval)

section \<open>The command server\<close>

record reconnectHandoff =
  ho_stream :: nat
  transferKey :: string
  transferSocket :: string
  shadowAddr :: string

text \<open>
  The server: its address, the sessions in its cache, the id of the registered reconnect session,
  and the channel to the run, of capacity one.
\<close>

record commandServer =
  cs_sinful :: string
  cs_cache :: "string list"
  reconnectSID :: string
  reconnectCh :: "reconnectHandoff list"
  cs_closed :: bool

definition sinfulOf :: "string \<Rightarrow> string" where
  "sinfulOf addr =
     (case SplitHostPort addr of
        None \<Rightarrow> ''<'' @ addr @ ''>''
      | Some (host, port) \<Rightarrow>
          ''<'' @ (if host = [] \<or> host = ''0.0.0.0'' \<or> host = ''::'' then ''127.0.0.1'' else host) @ '':'' @ port @ ''>'')"

text \<open>\<open>listen\<close> binds an address and answers with the address of the listener.\<close>

definition newCommandServer :: "(string \<Rightarrow> string + string) \<Rightarrow> string \<Rightarrow> string + commandServer" where
  "newCommandServer listen bindAddr =
     (let b = (if bindAddr = [] then ''127.0.0.1:0'' else bindAddr)
      in case listen b of
           Inl err \<Rightarrow> Inl (''starter: binding command port '' @ b @ '': '' @ err)
         | Inr addr \<Rightarrow> Inr \<lparr>cs_sinful = sinfulOf addr, cs_cache = [], reconnectSID = [], reconnectCh = [], cs_closed = False\<rparr>)"

text \<open>\<open>import_session\<close> is the key derivation of the security library: its error, if any.\<close>

definition RegisterReconnectSession ::
  "(SecSessionInfo \<Rightarrow> string option) \<Rightarrow> SecSessionInfo option \<Rightarrow> commandServer \<Rightarrow> string + commandServer" where
  "RegisterReconnectSession import_session sec cs =
     (case sec of
        None \<Rightarrow> Inl ''starter: no reconnect session material to register''
      | Some s \<Rightarrow>
          if ReconnectID s = [] \<or> ReconnectKey s = [] then Inl ''starter: no reconnect session material to register''
          else case import_session s of
            Some err \<Rightarrow> Inl (''starter: importing reconnect session: '' @ err)
          | None \<Rightarrow> Inr (cs\<lparr>cs_cache := ReconnectID s # cs_cache cs, reconnectSID := ReconnectID s\<rparr>))"

text \<open>The negotiation of a connection is its session id, if there was one.\<close>

definition isReconnectSession :: "commandServer \<Rightarrow> string option \<Rightarrow> bool" where
  "isReconnectSession cs neg =
     (if reconnectSID cs = [] then False
      else case neg of None \<Rightarrow> False | Some sid \<Rightarrow> sid = reconnectSID cs)"

text \<open>
  The first part of the handler, up to the offer: it answers the request at once, gives up with an
  error, or offers the connection to the run. The flag tells whether the \<^verbatim>\<open>select\<close> finds the context done.
\<close>

datatype ca_outcome =
    CAError string
  | CAReply ad
  | CAOffered reconnectHandoff commandServer

definition handleCACmd ::
  "('m, 'y) message_api_scheme \<Rightarrow> 'x classad_api_scheme \<Rightarrow> 'm option \<Rightarrow> 'm \<Rightarrow> string option \<Rightarrow> nat \<Rightarrow> bool \<Rightarrow>
     commandServer \<Rightarrow> ca_outcome" where
  "handleCACmd W L msg fresh neg st ctx_done cs =
     (case ReadRequest W L msg fresh of
        Inl err \<Rightarrow> CAError err
      | Inr req \<Rightarrow>
          (let cmd = RequestCommand L req
           in if cmd \<noteq> CmdReconnectJob then CAReply (FailureReply (''unsupported CA sub-command: '' @ cmd))
              else if \<not> isReconnectSession cs neg
              then CAReply (NotAuthorizedReply ''request did not arrive on this job's reconnect session'')
              else let ho = \<lparr>ho_stream = st, transferKey = str_attr L req ''TransferKey'',
                             transferSocket = str_attr L req ''TransferSocket'',
                             shadowAddr = str_attr L req ''ShadowIpAddr''\<rparr>
                   in if ctx_done then CAError ''context done''
                      else if length (reconnectCh cs) < 1
                      then CAOffered ho (cs\<lparr>reconnectCh := reconnectCh cs @ [ho]\<rparr>)
                      else CAReply (FailureReply ''no running job to reconnect'')))"

definition starterCondorVersion :: string where
  "starterCondorVersion = ''$CondorVersion: 25.0.0 2025-01-01 BuildID: golang-ep $''"

definition reconnect_reply :: "commandServer \<Rightarrow> ad" where
  "reconnect_reply cs =
     ad_set ''CondorVersion'' (AStr starterCondorVersion)
       (ad_set AttrStarterIPAddr (AStr (cs_sinful cs)) SuccessReply)"

section \<open>The handshake over an offered connection\<close>

definition errHandoffAbandoned :: string where
  "errHandoffAbandoned = ''starter: CA_RECONNECT_JOB handler ended before replying''"

definition reconnectReplyTimeout :: duration where
  "reconnectReplyTimeout = 30 * second"

text \<open>
  \<^verbatim>\<open>acceptReconnect\<close> after its acknowledgement: what the \<^verbatim>\<open>select\<close> finds, and the error it returns; with an
  error it closes the stream.
\<close>

datatype reply_wait = Replied "string option" | WaitCancelled string | ReplyTimeout

definition acceptReconnect :: "reply_wait \<Rightarrow> string option" where
  "acceptReconnect w =
     (case w of
        Replied err \<Rightarrow> err
      | WaitCancelled err \<Rightarrow> Some err
      | ReplyTimeout \<Rightarrow> Some ''no CA_RECONNECT_JOB reply after 30s'')"

text \<open>
  The rest of the handler runs beside the run. \<open>Writing\<close> is the handler between the acknowledgement and
  the end of its reply; \<open>Finished\<close> has put its one value into \<^verbatim>\<open>replied\<close>.
\<close>

datatype handler_pc = WaitAck | Writing | Finished

datatype run_pc = NotTaken | Awaiting | Swapped | Abandoned

record handshake =
  hs_handler :: handler_pc
  hs_ack :: "string option list"
  hs_replied :: "string option list"
  hs_written :: "ad list"
  hs_run :: run_pc
  hs_open :: bool

definition offered :: handshake where
  "offered = \<lparr>hs_handler = WaitAck, hs_ack = [], hs_replied = [], hs_written = [], hs_run = NotTaken, hs_open = True\<rparr>"

definition handler_acked :: "string option \<Rightarrow> bool \<Rightarrow> handshake \<Rightarrow> handshake" where
  "handler_acked ack ok h =
     (case ack of
        None \<Rightarrow> h\<lparr>hs_handler := Writing, hs_ack := []\<rparr>
      | Some err \<Rightarrow> h\<lparr>hs_handler := Finished, hs_ack := [], hs_replied := hs_replied h @ [Some errHandoffAbandoned],
                      hs_written := hs_written h @ (if ok then [FailureReply err] else [])\<rparr>)"

definition handler_cancelled :: "handshake \<Rightarrow> handshake" where
  "handler_cancelled h = h\<lparr>hs_handler := Finished, hs_replied := hs_replied h @ [Some errHandoffAbandoned]\<rparr>"

definition handler_wrote :: "commandServer \<Rightarrow> string option \<Rightarrow> handshake \<Rightarrow> handshake" where
  "handler_wrote cs err h =
     (case err of
        Some e \<Rightarrow> h\<lparr>hs_handler := Finished, hs_replied := hs_replied h @ [Some e]\<rparr>
      | None \<Rightarrow> h\<lparr>hs_handler := Finished, hs_replied := hs_replied h @ [None],
                  hs_written := hs_written h @ [reconnect_reply cs]\<rparr>)"

definition run_resolved :: "reply_wait \<Rightarrow> handshake \<Rightarrow> handshake" where
  "run_resolved w h =
     (case acceptReconnect w of
        None \<Rightarrow> h\<lparr>hs_run := Swapped\<rparr>
      | Some err \<Rightarrow> h\<lparr>hs_run := Abandoned, hs_open := False\<rparr>)"

inductive hs_step :: "commandServer \<Rightarrow> handshake \<Rightarrow> handshake \<Rightarrow> bool" for cs where
  accept: "hs_run h = NotTaken \<Longrightarrow> hs_step cs h (h\<lparr>hs_run := Awaiting, hs_ack := hs_ack h @ [None]\<rparr>)"
| acked: "hs_handler h = WaitAck \<Longrightarrow> hs_ack h = ack # rest \<Longrightarrow> hs_step cs h (handler_acked ack ok h)"
| cancelled: "hs_handler h = WaitAck \<Longrightarrow> hs_step cs h (handler_cancelled h)"
| wrote: "hs_handler h = Writing \<Longrightarrow> hs_step cs h (handler_wrote cs err h)"
| replied: "hs_run h = Awaiting \<Longrightarrow> hs_replied h = r # rest \<Longrightarrow>
    hs_step cs h ((run_resolved (Replied r) h)\<lparr>hs_replied := rest\<rparr>)"
| gave_up: "hs_run h = Awaiting \<Longrightarrow> w = WaitCancelled e \<or> w = ReplyTimeout \<Longrightarrow> hs_step cs h (run_resolved w h)"

inductive_cases hs_stepE: "hs_step cs h h'"

definition hs_inv :: "commandServer \<Rightarrow> handshake \<Rightarrow> bool" where
  "hs_inv cs h \<longleftrightarrow>
     (hs_handler h \<noteq> Finished \<longrightarrow> hs_replied h = [] \<and> hs_written h = []) \<and>
     (hs_handler h = WaitAck \<longrightarrow> hs_run h \<noteq> Swapped) \<and>
     (hs_handler h = WaitAck \<and> hs_run h = NotTaken \<longrightarrow> hs_ack h = []) \<and>
     (hs_handler h = WaitAck \<and> hs_run h \<noteq> NotTaken \<longrightarrow> hs_ack h = [None]) \<and>
     (hs_handler h = Writing \<longrightarrow> hs_run h \<in> {Awaiting, Abandoned}) \<and>
     (hs_handler h = Finished \<and> hs_run h \<in> {NotTaken, Awaiting} \<longrightarrow> length (hs_replied h) = 1) \<and>
     (None \<in> set (hs_replied h) \<longrightarrow> hs_written h = [reconnect_reply cs] \<and> hs_handler h = Finished) \<and>
     (hs_run h = Swapped \<longrightarrow> hs_handler h = Finished \<and> hs_written h = [reconnect_reply cs]) \<and>
     (hs_open h \<longleftrightarrow> hs_run h \<noteq> Abandoned)"

lemmas hs_defs = handler_acked_def handler_cancelled_def handler_wrote_def run_resolved_def acceptReconnect_def

lemma hs_step_inv: "hs_step cs h h' \<Longrightarrow> hs_inv cs h \<Longrightarrow> hs_inv cs h'"
  by (cases "hs_run h"; erule hs_stepE) (auto simp: hs_inv_def hs_defs length_Suc_conv errHandoffAbandoned_def split: option.splits)

interpretation handshake: machine "hs_step cs" "hs_inv cs" for cs
  by unfold_locales (rule hs_step_inv)

lemma offered_inv: "hs_inv cs offered"
  by (simp add: hs_inv_def offered_def)

text \<open>
  C14. The swapped socket carries no syscall before the reply: in every interleaving of the handler with
  the run, the run takes the new connection over only when the handler has finished and the complete
  success reply, and nothing else, is on it; and the run never waits in vain: while it awaits the
  reply, the handler can still make a step, or its report is there to be read.
\<close>

theorem swap_only_after_reply:
  assumes "(hs_step cs)\<^sup>*\<^sup>* offered h"
  shows "(hs_run h = Swapped \<longrightarrow> hs_handler h = Finished \<and> hs_written h = [reconnect_reply cs] \<and> hs_open h) \<and>
    (hs_run h = Awaiting \<longrightarrow>
       hs_handler h = WaitAck \<and> hs_ack h = [None] \<or> hs_handler h = Writing \<or> length (hs_replied h) = 1)"
proof -
  have "hs_inv cs h" by (rule handshake.reachable_inv [OF assms offered_inv])
  then show ?thesis by (cases "hs_handler h") (auto simp: hs_inv_def)
qed

definition example_server :: commandServer where
  "example_server = \<lparr>cs_sinful = ''<127.0.0.1:9>'', cs_cache = [''s#1''], reconnectSID = ''s#1'', reconnectCh = [], cs_closed = False\<rparr>"

theorem swap_only_after_reply_witness:
  "\<exists>h. (hs_step example_server)\<^sup>*\<^sup>* offered h \<and> hs_run h = Swapped \<and> hs_written h = [reconnect_reply example_server]"
proof -
  let ?h1 = "offered\<lparr>hs_run := Awaiting, hs_ack := [None]\<rparr>"
  let ?h2 = "handler_acked None True ?h1" let ?h3 = "handler_wrote example_server None ?h2"
  let ?h4 = "(run_resolved (Replied None) ?h3)\<lparr>hs_replied := []\<rparr>"
  have "hs_step example_server offered ?h1" using hs_step.accept [of offered] by (simp add: offered_def)
  moreover have "hs_step example_server ?h1 ?h2" by (rule hs_step.acked) (simp_all add: offered_def)
  moreover have "hs_step example_server ?h2 ?h3" by (rule hs_step.wrote) (simp add: hs_defs)
  moreover have "hs_step example_server ?h3 ?h4" by (rule hs_step.replied) (simp_all add: hs_defs offered_def)
  ultimately have r: "(hs_step example_server)\<^sup>*\<^sup>* offered ?h4"
    by (meson rtranclp.rtrancl_into_rtrancl rtranclp.rtrancl_refl)
  have "hs_run ?h4 = Swapped" by (simp add: hs_defs)
  then show ?thesis using swap_only_after_reply [OF r] r by blast
qed

section \<open>Who may reconnect\<close>

text \<open>
  C15. A connection reaches the run only as the holder of the job's reconnect session: the handler offers
  a connection exactly when its request is \<^verbatim>\<open>CA_RECONNECT_JOB\<close>, it resumed the session that was registered,
  the context is live and the channel is free; before a session is registered it offers nothing, and a
  registration is refused without an id and a key.
\<close>

theorem reconnect_authorized:
  assumes "ReadRequest W L msg fresh = Inr req"
  shows "((\<exists>ho cs'. handleCACmd W L msg fresh neg st ctx_done cs = CAOffered ho cs') \<longleftrightarrow>
      RequestCommand L req = CmdReconnectJob \<and> reconnectSID cs \<noteq> [] \<and> neg = Some (reconnectSID cs) \<and>
      \<not> ctx_done \<and> reconnectCh cs = []) \<and>
    (\<forall>ho cs'. handleCACmd W L msg fresh neg st ctx_done cs = CAOffered ho cs' \<longrightarrow>
      ho_stream ho = st \<and> reconnectCh cs' = [ho] \<and> reconnectSID cs' = reconnectSID cs) \<and>
    (\<forall>imp sec cs'. RegisterReconnectSession imp sec cs = Inr cs' \<longrightarrow>
      (\<exists>s. sec = Some s \<and> ReconnectID s \<noteq> [] \<and> ReconnectKey s \<noteq> [] \<and> imp s = None \<and> reconnectSID cs' = ReconnectID s))"
  using assms
  by (auto simp: handleCACmd_def isReconnectSession_def RegisterReconnectSession_def Let_def less_Suc_eq
      split: option.splits if_splits)

definition unquote_api :: classad_api where
  "unquote_api = lit_api\<lparr>EvaluateAttrString := (\<lambda>ad n. case last_ins ad n of
       Some (AExpr e) \<Rightarrow> Some (butlast (tl e)) | Some (AStr s) \<Rightarrow> Some s | _ \<Rightarrow> None)\<rparr>"

definition reconnect_request :: "wire_item list" where
  "reconnect_request = wire_form [(False, ''Command'', [CHR 0x22] @ ''CA_RECONNECT_JOB'' @ [CHR 0x22])] ''Command'' ''Reply''"

theorem reconnect_authorized_witness:
  "\<exists>ho cs'. handleCACmd list_message unquote_api None reconnect_request (Some ''s#1'') 5 False example_server = CAOffered ho cs'"
proof -
  let ?req = "[(''Command'', AExpr ([CHR 0x22] @ ''CA_RECONNECT_JOB'' @ [CHR 0x22]))]"
  have r: "ReadRequest list_message unquote_api None reconnect_request = Inr ?req" by code_simp
  have "RequestCommand unquote_api ?req = CmdReconnectJob" by code_simp
  then show ?thesis using reconnect_authorized [OF r, of "Some ''s#1''" 5 False example_server]
    by (simp add: example_server_def)
qed

text \<open>
  The refusal for a job that is not running is unreachable for the first caller: as the channel is
  buffered, an authorized request is accepted into it whether or not the run is listening, before the
  job is started as after it ended, and the handler then waits for an acknowledgement.
\<close>

theorem reconnect_offered_without_listener:
  assumes "ReadRequest W L msg fresh = Inr req" "RequestCommand L req = CmdReconnectJob"
    "isReconnectSession cs neg" "reconnectCh cs = []"
  shows "\<exists>ho. handleCACmd W L msg fresh neg st False cs = CAOffered ho (cs\<lparr>reconnectCh := [ho]\<rparr>)"
  using assms by (simp add: handleCACmd_def Let_def)

theorem reconnect_offered_without_listener_witness:
  "\<exists>ho. handleCACmd list_message unquote_api None reconnect_request (Some ''s#1'') 5 False example_server =
     CAOffered ho (example_server\<lparr>reconnectCh := [ho]\<rparr>)"
  by (rule reconnect_offered_without_listener
      [where req = "[(''Command'', AExpr ([CHR 0x22] @ ''CA_RECONNECT_JOB'' @ [CHR 0x22]))]"]) code_simp+

section \<open>The advertised address\<close>

lemma LastIndexByte_append: "b \<notin> set q \<Longrightarrow> LastIndexByte (p @ b # q) b = Some (length p)"
  using IndexByte_append [of b "rev q" "rev p"] by (simp add: LastIndexByte_def)

lemma SplitHostPort_plain:
  assumes "set host \<inter> {CHR '':'', CHR ''['', CHR '']''} = {}" "set port \<inter> {CHR '':'', CHR ''['', CHR '']''} = {}"
  shows "SplitHostPort (host @ '':'' @ port) = Some (host, port)"
proof -
  have "LastIndexByte (host @ '':'' @ port) CHR '':'' = Some (length host)"
    using assms(2) LastIndexByte_append [of "CHR '':''" port host] by simp
  moreover have "\<not> HasPrefix (host @ '':'' @ port) ''[''" using assms(1) by (cases host) (auto simp: HasPrefix_def)
  ultimately show ?thesis using assms by (auto simp: SplitHostPort_def)
qed

text \<open>
  The address the starter advertises can be dialed: for a listener on a host name or an IPv4
  address it is that host and port between angle brackets, with the loopback address instead of an
  unspecified one, and what is between the brackets splits into exactly that host and port again.
\<close>

theorem sinful_splits_back:
  assumes "set host \<inter> {CHR '':'', CHR ''['', CHR '']''} = {}" "set port \<inter> {CHR '':'', CHR ''['', CHR '']''} = {}"
  shows "\<exists>addr. sinfulOf (host @ '':'' @ port) = ''<'' @ addr @ ''>'' \<and>
    SplitHostPort addr = Some (if host = [] \<or> host = ''0.0.0.0'' then ''127.0.0.1'' else host, port)"
proof -
  let ?h = "if host = [] \<or> host = ''0.0.0.0'' then ''127.0.0.1'' else host"
  have "host \<noteq> ''::''" using assms(1) by auto
  then have "sinfulOf (host @ '':'' @ port) = ''<'' @ (?h @ '':'' @ port) @ ''>''"
    using SplitHostPort_plain [OF assms] by (simp add: sinfulOf_def)
  moreover have "SplitHostPort (?h @ '':'' @ port) = Some (?h, port)"
    using assms by (intro SplitHostPort_plain) auto
  ultimately show ?thesis by blast
qed

theorem sinful_splits_back_witness: "\<exists>addr. sinfulOf ''0.0.0.0:9618'' = ''<'' @ addr @ ''>'' \<and>
    SplitHostPort addr = Some (''127.0.0.1'', ''9618'')"
  using sinful_splits_back [of "''0.0.0.0''" "''9618''"] by simp

text \<open>
  An IPv6 listener is advertised without the square brackets around its address, so that host and
  port can no longer be told apart: what is between the angle brackets does not split.
\<close>

theorem ipv6_sinful_does_not_split:
  "sinfulOf ''[fe80::1]:9618'' = ''<fe80::1:9618>'' \<and> SplitHostPort ''fe80::1:9618'' = None"
  by code_simp

end
