(* ===== verification/Handlers.thy ===== *)
theory Handlers
  imports Loop Reconnect
begin

text \<open>
  The command handlers of the startd (\<^verbatim>\<open>internal/startd/claim.go\<close>, \<^verbatim>\<open>activate.go\<close>, \<^verbatim>\<open>startd.go\<close>): what they
  read from a connection, the event they submit to the loop, and what they write for the loop's
  decision. They run in goroutines of the command server; the loop's part is in the theories of the
  loop. The codec is a parameter; the values written are a list, in order.
\<close>

record 'm command_api = "'m message_api" +
  GetAd :: "'m \<Rightarrow> (ad \<times> 'm) option"

datatype out_item = PutInt int | PutString string | PutAd ad

section \<open>REQUEST_CLAIM\<close>

definition replyNotOK :: int where "replyNotOK = 0"
definition replyOK :: int where "replyOK = 1"
definition replyLeftovers :: int where "replyLeftovers = 3"
definition replyLeftovers2 :: int where "replyLeftovers2 = 5"
definition replySlotAd :: int where "replySlotAd = 7"

lemmas reply_defs = replyNotOK_def replyOK_def replyLeftovers_def replyLeftovers2_def replySlotAd_def

text \<open>The secrets of the block of extra claims, until there are no more.\<close>

fun drain_secrets :: "('m, 'y) command_api_scheme \<Rightarrow> nat \<Rightarrow> 'm \<Rightarrow> 'm" where
  "drain_secrets W 0 m = m"
| "drain_secrets W (Suc n) m = (case GetString W m of None \<Rightarrow> m | Some (s, m') \<Rightarrow> drain_secrets W n m')"

definition drain_extra_claims :: "('m, 'y) command_api_scheme \<Rightarrow> 'm \<Rightarrow> 'm" where
  "drain_extra_claims W m =
     (case GetInt W m of None \<Rightarrow> m | Some (n, m') \<Rightarrow> if n > 0 then drain_secrets W (nat n) m' else m')"

text \<open>The event of a request, and what is left of the message.\<close>

definition read_request_claim :: "('m, 'y) command_api_scheme \<Rightarrow> string \<Rightarrow> 'm \<Rightarrow> (Event \<times> 'm) option" where
  "read_request_claim W remote m0 =
     (case GetString W m0 of
        None \<Rightarrow> None
      | Some (cid, m1) \<Rightarrow>
          (case GetAd W m1 of
             None \<Rightarrow> None
           | Some (reqAd, m2) \<Rightarrow>
               (case GetString W m2 of
                  None \<Rightarrow> None
                | Some (addr, m3) \<Rightarrow>
                    (case GetInt W m3 of
                       None \<Rightarrow> None
                     | Some (alive, m4) \<Rightarrow>
                         Some (EvRequestClaim \<lparr>rc_claimID = cid, rc_reqAd = reqAd, rc_scheddAddr = addr,
                                 rc_aliveInterval = alive, rc_clientMachine = hostOf remote\<rparr>,
                               drain_extra_claims W m4)))))"

definition claimed_items :: "claimedSlotReply \<Rightarrow> out_item list" where
  "claimed_items cs = [PutInt replySlotAd, PutString (cs_claimID cs), PutAd (cs_ad cs)]"

definition request_claim_reply :: "claimDecision \<Rightarrow> out_item list" where
  "request_claim_reply dec =
     (if \<not> cd_accept dec then [PutInt replyNotOK]
      else concat (map claimed_items (cd_claimedSlots dec)) @
        (case cd_leftovers dec of
           Some lo \<Rightarrow> [PutInt (if lo_secure lo then replyLeftovers2 else replyLeftovers), PutString (lo_claimID lo), PutAd (lo_ad lo)]
         | None \<Rightarrow> [PutInt replyOK]))"

text \<open>A reader of the reply, as the protocol documents it: slot ads until a terminal code.\<close>

fun read_reply :: "out_item list \<Rightarrow> (claimedSlotReply list \<times> leftoverReply option) option option" where
  "read_reply (PutInt n # PutString s # PutAd ad # rest) =
     (if n = replySlotAd
      then map_option (map_option (\<lambda>(cs, lo). (\<lparr>cs_claimID = s, cs_ad = ad\<rparr> # cs, lo))) (read_reply rest)
      else if n = replyLeftovers \<and> rest = [] then Some (Some ([], Some \<lparr>lo_secure = False, lo_claimID = s, lo_ad = ad\<rparr>))
      else if n = replyLeftovers2 \<and> rest = [] then Some (Some ([], Some \<lparr>lo_secure = True, lo_claimID = s, lo_ad = ad\<rparr>))
      else None)"
| "read_reply [PutInt n] = (if n = replyOK then Some (Some ([], None)) else if n = replyNotOK then Some None else None)"
| "read_reply _ = None"

text \<open>
  The reply to a claim request says exactly what the loop decided: a reader of the documented
  protocol recovers, from the items written, that the request was rejected, or else the claimed slots
  with their claim ids and ads in order and the leftovers of a partitionable slot with their security.
\<close>

theorem claim_reply_roundtrip:
  "read_reply (request_claim_reply dec) =
     Some (if cd_accept dec then Some (cd_claimedSlots dec, cd_leftovers dec) else None)"
proof (cases "cd_accept dec")
  case True
  have "read_reply (concat (map claimed_items cs) @ (case lo of
           Some l \<Rightarrow> [PutInt (if lo_secure l then replyLeftovers2 else replyLeftovers), PutString (lo_claimID l), PutAd (lo_ad l)]
         | None \<Rightarrow> [PutInt replyOK])) = Some (Some (cs, lo))" for cs lo
    by (induction cs) (auto simp: claimed_items_def reply_defs split: option.split)
  then show ?thesis using True by (simp add: request_claim_reply_def)
qed (simp add: request_claim_reply_def reply_defs)

section \<open>RELEASE_CLAIM and MATCH_INFO\<close>

definition read_release_claim :: "('m, 'y) command_api_scheme \<Rightarrow> 'm \<Rightarrow> Event option" where
  "read_release_claim W m = map_option (\<lambda>(cid, m'). EvReleaseClaim cid) (GetString W m)"

definition read_match_info :: "('m, 'y) command_api_scheme \<Rightarrow> 'm \<Rightarrow> Event option" where
  "read_match_info W m = map_option (\<lambda>(cid, m'). EvMatchInfo cid) (GetString W m)"

section \<open>ACTIVATE_CLAIM\<close>

definition read_activate_claim ::
  "('m, 'y) command_api_scheme \<Rightarrow> 'x classad_api_scheme \<Rightarrow> 'm \<Rightarrow> Event option" where
  "read_activate_claim W L m0 =
     (case GetString W m0 of
        None \<Rightarrow> None
      | Some (cid, m1) \<Rightarrow>
          (case GetInt W m1 of
             None \<Rightarrow> None
           | Some (v, m2) \<Rightarrow>
               (case GetClassAd W L m2 of
                  Inl err \<Rightarrow> None
                | Inr (ja, _) \<Rightarrow> Some (EvActivateClaim \<lparr>ac_claimID = cid, ac_jobAd = ja\<rparr>))))"

text \<open>
  What the handlers do after the loop's decision. \<open>HandedOver\<close> is the connection passed to the
  transport and kept open; \<open>Waited\<close> is the wait for the reaping of a starter.
\<close>

datatype handler_action =
    Wrote "out_item list"
  | Submitted Event
  | Waited nat
  | HandedOver transport

text \<open>\<open>written\<close> tells whether the reply went out, \<open>passed\<close> whether the transport took the connection.\<close>

definition handleActivateClaim :: "activateDecision \<Rightarrow> bool \<Rightarrow> bool \<Rightarrow> handler_action list" where
  "handleActivateClaim dec written passed =
     (if \<not> written then (if ad_code dec = activateOK then [Submitted (EvStarterExited (ad_slotName dec))] else [])
      else Wrote [PutInt (ad_code dec)] #
        (if ad_code dec \<noteq> activateOK then []
         else case ad_transport dec of
           None \<Rightarrow> []
         | Some t \<Rightarrow> if passed then [HandedOver t] else [Submitted (EvStarterExited (ad_slotName dec))]))"

text \<open>
  An accepted activation never hangs: when the loop accepts, the handler either writes the OK reply
  first and then hands the connection over to the starter, or it submits the event that tears the
  activation down, and never both; a rejected activation submits nothing and hands nothing over.
\<close>

theorem activation_handed_over_or_torn_down:
  assumes "ad_transport dec = Some t"
  shows "if ad_code dec = activateOK
    then (handleActivateClaim dec written passed = [Wrote [PutInt activateOK], HandedOver t]) \<noteq>
         (filter (\<lambda>a. \<exists>ev. a = Submitted ev) (handleActivateClaim dec written passed) = [Submitted (EvStarterExited (ad_slotName dec))] \<and>
          (\<forall>t'. HandedOver t' \<notin> set (handleActivateClaim dec written passed)))
    else set (handleActivateClaim dec written passed) \<subseteq> {Wrote [PutInt (ad_code dec)]}"
  using assms by (auto simp: handleActivateClaim_def)

theorem activation_handed_over_or_torn_down_witness:
  "(handleActivateClaim \<lparr>ad_code = activateOK, ad_transport = Some InprocPair, ad_slotName = ''slot1@h''\<rparr> True True =
     [Wrote [PutInt activateOK], HandedOver InprocPair])"
  using activation_handed_over_or_torn_down [of "\<lparr>ad_code = activateOK, ad_transport = Some InprocPair, ad_slotName = ''slot1@h''\<rparr>"
      InprocPair True True]
  by (simp add: handleActivateClaim_def)

section \<open>DEACTIVATE_CLAIM\<close>

definition deactivate_response :: "deactivateDecision \<Rightarrow> ad" where
  "deactivate_response dec = ad_set ''Start'' (ABool (\<not> dd_closing dec)) new_ad"

definition read_deactivate :: "('m, 'y) command_api_scheme \<Rightarrow> int \<Rightarrow> 'm \<Rightarrow> Event option" where
  "read_deactivate W cmd m = map_option (\<lambda>(cid, m'). EvDeactivate \<lparr>de_claimID = cid, de_command = cmd\<rparr>) (GetString W m)"

text \<open>
  \<open>reaped\<close> tells whether the wait for the reap ends before the connection's context, \<open>written\<close> whether
  the response goes out.
\<close>

definition handleDeactivateClaim :: "int \<Rightarrow> deactivateDecision \<Rightarrow> bool \<Rightarrow> bool \<Rightarrow> handler_action list" where
  "handleDeactivateClaim cmd dec reaped written =
     (if dd_deferred dec \<and> \<not> reaped then []
      else (case (if dd_deferred dec then dd_wait dec else None) of None \<Rightarrow> [] | Some ch \<Rightarrow> [Waited ch]) @
        (if \<not> written then []
         else Wrote [PutAd (deactivate_response dec)] #
           (if dd_known dec \<and> \<not> dd_deferred dec \<and>
               cmd \<in> {CmdDeactivateClaim, CmdDeactivateClaimForcibly, CmdDeactivateFinalXfer}
            then [Submitted (EvVacate \<lparr>va_slotName = dd_slotName dec, va_hard = (cmd = CmdDeactivateClaimForcibly)\<rparr>)]
            else [])))"

text \<open>
  C34. The shadow is answered before its job is killed: a deactivation submits a vacate only behind the
  response it has written, only for a known claim and never for the command that says the job is done;
  the vacate is hard exactly for the forcible command. A deferred response is written only after the
  wait for the starter's end.
\<close>

theorem deactivate_reply_before_vacate:
  "(\<forall>ev. Submitted ev \<in> set (handleDeactivateClaim cmd dec reaped written) \<longrightarrow>
      handleDeactivateClaim cmd dec reaped written = [Wrote [PutAd (deactivate_response dec)], Submitted ev] \<and>
      dd_known dec \<and> cmd \<noteq> CmdDeactivateClaimJobDone \<and>
      ev = EvVacate \<lparr>va_slotName = dd_slotName dec, va_hard = (cmd = CmdDeactivateClaimForcibly)\<rparr>) \<and>
   (dd_deferred dec \<and> dd_wait dec = Some ch \<and> Wrote items \<in> set (handleDeactivateClaim cmd dec reaped written) \<longrightarrow>
      handleDeactivateClaim cmd dec reaped written = [Waited ch, Wrote items])"
  by (auto simp: handleDeactivateClaim_def command_defs split: if_splits option.splits)

theorem deactivate_reply_before_vacate_witness:
  "let dec = \<lparr>dd_known = True, dd_closing = False, dd_slotName = ''slot1@h'', dd_deferred = False, dd_wait = None\<rparr>
   in handleDeactivateClaim CmdDeactivateClaimForcibly dec True True =
     [Wrote [PutAd (deactivate_response dec)], Submitted (EvVacate \<lparr>va_slotName = ''slot1@h'', va_hard = True\<rparr>)]"
  using deactivate_reply_before_vacate [of CmdDeactivateClaimForcibly
      "\<lparr>dd_known = True, dd_closing = False, dd_slotName = ''slot1@h'', dd_deferred = False, dd_wait = None\<rparr>" True True]
  by (simp add: handleDeactivateClaim_def Let_def)

section \<open>Queries\<close>

text \<open>
  The query library: the text of an expression, whether a constraint parses, and whether a parsed one
  matches an ad.
\<close>

record query_api =
  ExprString :: "adval \<Rightarrow> string"
  QueryParses :: "string \<Rightarrow> bool"
  QueryMatches :: "string \<Rightarrow> ad \<Rightarrow> bool"

definition projection_list :: "'x classad_api_scheme \<Rightarrow> ad \<Rightarrow> string \<Rightarrow> string list option" where
  "projection_list L queryAd attr =
     (case EvaluateAttrString L queryAd attr of
        Some s \<Rightarrow> if TrimSpace s \<noteq> [] then Some (filter (\<lambda>p. p \<noteq> []) (FieldsFunc s list_sep)) else None
      | None \<Rightarrow> None)"

definition parseQuery :: "query_api \<Rightarrow> 'x classad_api_scheme \<Rightarrow> ad \<Rightarrow> string option \<times> string list" where
  "parseQuery Q L queryAd =
     (let query = (case AdLookup L queryAd ''Requirements'' of
                     None \<Rightarrow> None
                   | Some expr \<Rightarrow>
                       (let s = TrimSpace (ExprString Q expr)
                        in if s \<noteq> [] \<and> \<not> EqualFold s ''true'' \<and> QueryParses Q s then Some s else None));
          projection = (case projection_list L queryAd ''Projection'' of
                          Some ps \<Rightarrow> ps
                        | None \<Rightarrow> (case projection_list L queryAd ''ProjectionAttributes'' of Some ps \<Rightarrow> ps | None \<Rightarrow> []))
      in (query, projection))"

definition project :: "'x classad_api_scheme \<Rightarrow> ad \<Rightarrow> string list \<Rightarrow> ad" where
  "project L ad attrs =
     fold (\<lambda>a out. case AdLookup L ad a of Some e \<Rightarrow> ad_set a e out | None \<Rightarrow> out) attrs new_ad"

text \<open>One slot of a query: its sequence number is counted up by the ad that is built.\<close>

definition query_slot ::
  "query_api \<Rightarrow> ('c, 'x) persist_api_scheme \<Rightarrow> world \<Rightarrow> string option \<Rightarrow> string list \<Rightarrow> slotref \<Rightarrow>
     out_item list \<times> 'c Core \<Rightarrow> out_item list \<times> 'c Core" where
  "query_slot Q L w query projection r = (\<lambda>(items, c).
     case PublicAd L (whost w) (adNow w) (slot_at c r) of
       (s', pub) \<Rightarrow>
         (if (case query of None \<Rightarrow> True | Some q \<Rightarrow> QueryMatches Q q pub)
          then items @ [PutInt 1, PutAd (if projection \<noteq> [] then project L pub projection else pub)] else items,
          on_slot r (\<lambda>_. s') c))"

definition handleQueryStartdAds ::
  "query_api \<Rightarrow> ('c, 'x) persist_api_scheme \<Rightarrow> world \<Rightarrow> ad \<Rightarrow> 'c Core \<Rightarrow> out_item list \<times> 'c Core" where
  "handleQueryStartdAds Q L w queryAd c =
     (case parseQuery Q L queryAd of
        (query, projection) \<Rightarrow>
          (case fold (query_slot Q L w query projection) (LiveSlots c) ([], c) of
             (items, c') \<Rightarrow> (items @ [PutInt 0], c')))"

definition handleGiveState :: "'c Core \<Rightarrow> out_item list" where
  "handleGiveState c =
     [PutString (case slots c of [] \<Rightarrow> ''Unclaimed'' | r # _ \<Rightarrow> slot_state (slot_at c r))]"

text \<open>Two states of the startd that differ only in the secrets of their slots.\<close>

definition core_public_eq :: "'c Core \<Rightarrow> 'c Core \<Rightarrow> bool" where
  "core_public_eq c d \<longleftrightarrow> slots c = slots d \<and> dslots c = dslots d \<and> list_all2 public_eq (heap c) (heap d) \<and>
     (\<forall>r \<in> set (LiveSlots c). r < length (heap c))"

lemma PublicAd_public_eq:
  assumes "public_eq s t"
  shows "snd (PublicAd L h clock s) = snd (PublicAd L h clock t)"
    "public_eq (fst (PublicAd L h clock s)) (fst (PublicAd L h clock t))"
proof -
  let ?up = "\<lambda>u. u\<lparr>slot_seq := wrap64 (slot_seq u + 1)\<rparr>"
  have eq: "public_eq (?up s) (?up t)" using assms by (cases s; cases t) (auto simp: public_eq_def)
  then show "snd (PublicAd L h clock s) = snd (PublicAd L h clock t)"
    "public_eq (fst (PublicAd L h clock s)) (fst (PublicAd L h clock t))"
    by (simp_all add: PublicAd_def Let_def buildAd_public_eq)
qed

lemma query_slot_public_eq:
  assumes "list_all2 public_eq (heap c) (heap d)" "r < length (heap c)"
    "query_slot Q L w query projection r (items, c) = (i1, c1)" "query_slot Q L w query projection r (items, d) = (i2, d1)"
  shows "i1 = i2 \<and> list_all2 public_eq (heap c1) (heap d1) \<and> length (heap c1) = length (heap c)"
proof -
  have "public_eq (heap c ! r) (heap d ! r)" using assms(1,2) by (rule list_all2_nthD)
  note p = PublicAd_public_eq [OF this, of L "whost w" "adNow w"]
  show ?thesis
    using assms p by (auto simp: query_slot_def slot_at_def on_slot_def list_all2_update_cong split: prod.splits if_splits)
qed

lemma query_slots_public_eq:
  assumes "list_all2 public_eq (heap c) (heap d)" "\<forall>r \<in> set rs. r < length (heap c)"
  shows "fst (fold (query_slot Q L w query projection) rs (items, c)) = fst (fold (query_slot Q L w query projection) rs (items, d))"
  using assms
proof (induction rs arbitrary: items c d)
  case (Cons r rs)
  obtain i1 c1 i2 d1 where s: "query_slot Q L w query projection r (items, c) = (i1, c1)"
    "query_slot Q L w query projection r (items, d) = (i2, d1)" by (metis surj_pair)
  from query_slot_public_eq [OF Cons.prems(1) _ s] Cons show ?case by (simp add: s)
qed simp

text \<open>
  C17. No query discloses a claim id: two states of the startd that differ only in the claim ids, leases
  and sessions of their slots answer every query, whatever its constraint and its projection, with the
  same items.
\<close>

theorem query_discloses_no_claim_id:
  assumes "core_public_eq c d"
  shows "fst (handleQueryStartdAds Q L w queryAd c) = fst (handleQueryStartdAds Q L w queryAd d)"
proof -
  have l: "LiveSlots c = LiveSlots d" using assms by (simp add: core_public_eq_def LiveSlots_def)
  obtain q ps where q: "parseQuery Q L queryAd = (q, ps)" by force
  have "fst (fold (query_slot Q L w q ps) (LiveSlots c) ([], c)) = fst (fold (query_slot Q L w q ps) (LiveSlots d) ([], d))"
    unfolding l using assms l by (intro query_slots_public_eq) (simp_all add: core_public_eq_def)
  then show ?thesis by (simp add: handleQueryStartdAds_def q case_prod_unfold)
qed

text \<open>A state of the startd with one slot.\<close>

definition example_opts1 :: "(string, ad) gomap Options" where
  "example_opts1 =
     \<lparr>opt_Slots = [], opt_Advertiser = True, opt_UpdateInterval = 0, opt_Minter = None,
      opt_AlivesMissed = 0, opt_MatchTimeout = 0, opt_ExecuteDir = ''/execute'',
      opt_StarterUpdateInterval = 0, opt_UIDDomain = [], opt_FileSystemDomain = [],
      opt_StarterMode = ''goroutine'', opt_StarterPath = [], opt_StarterSocketDir = [],
      opt_KillingTimeout = 0, opt_MaxVacateTime = 0, opt_Store = None\<rparr>"

definition one_slot :: "Slot \<Rightarrow> (string, ad) gomap Core" where
  "one_slot s = (New example_lib example_opts1)\<lparr>heap := [s], slots := [0], dslots := [], byName := [(Name s, 0)]\<rparr>"

definition claimed_with :: "string \<Rightarrow> Slot" where
  "claimed_with cid = example_slot\<lparr>slot_claim := Some
     \<lparr>claimID = cid, publicClaimID = ''c#...'', sessionID = ''s#1'', claim_state = ClaimedIdle, scheddAddr = ''<s:1>'', scheddName = ''s'',
      user = ''u'', clientMachine = ''m'', aliveInterval = 300, leaseDeadline = 0, claim_entered = 0, updateAd = None,
      finalAd = None, finalStatus = 0, finalReason = 0\<rparr>\<rparr>"

definition example_host_world :: world where
  "example_host_world =
     \<lparr>now = 0, adNow = 0, whost = example_host, collectors = [], Getpid = 77, MkdirAll = (\<lambda>d. Inr ()),
      StartCmd = (\<lambda>p a. Inr 4711), sha256 = (\<lambda>s. s), exit_file = (\<lambda>f. None), visit = (\<lambda>ks. ks)\<rparr>"

definition match_all :: query_api where
  "match_all = \<lparr>ExprString = (\<lambda>e. []), QueryParses = (\<lambda>s. True), QueryMatches = (\<lambda>q ad. True)\<rparr>"

theorem query_discloses_no_claim_id_witness:
  "core_public_eq (one_slot (claimed_with ''c#1'')) (one_slot (claimed_with ''c#2'')) \<and>
   fst (handleQueryStartdAds match_all example_lib example_host_world new_ad (one_slot (claimed_with ''c#1''))) =
   fst (handleQueryStartdAds match_all example_lib example_host_world new_ad (one_slot (claimed_with ''c#2'')))"
proof -
  have "core_public_eq (one_slot (claimed_with ''c#1'')) (one_slot (claimed_with ''c#2''))"
    by (simp add: core_public_eq_def one_slot_def LiveSlots_def public_eq_def claimed_with_def)
  then show ?thesis using query_discloses_no_claim_id by blast
qed

section \<open>Locating a starter\<close>

text \<open>The loop's answer, or nothing when it does not come within the time limit.\<close>

definition locateStarter :: "LocateResult option \<Rightarrow> LocateResult" where
  "locateStarter reply = (case reply of Some r \<Rightarrow> r | None \<Rightarrow> \<lparr>Found = False, StarterAddr = []\<rparr>)"

definition StartdHandler ::
  "('m, 'y) message_api_scheme \<Rightarrow> 'x classad_api_scheme \<Rightarrow> (string \<Rightarrow> string \<Rightarrow> LocateResult) \<Rightarrow>
     'm option \<Rightarrow> 'm \<Rightarrow> string + ad" where
  "StartdHandler W L locate msg fr =
     (case ReadRequest W L msg fr of
        Inl err \<Rightarrow> Inl err
      | Inr req \<Rightarrow>
          (let cmd = RequestCommand L req
           in if cmd \<noteq> CmdLocateStarter then Inr (FailureReply (''unsupported CA sub-command: '' @ cmd))
              else let res = locate (str_attr L req ''ClaimId'') (str_attr L req ''GlobalJobId'')
                   in if \<not> Found res \<or> StarterAddr res = [] then Inr (FailureReply ''no starter for this claim'')
                      else Inr (ad_set AttrStarterIPAddr (AStr (StarterAddr res)) SuccessReply)))"

lemma locate_live_sound:
  "locate_live cid gjid c ns = Some res \<Longrightarrow>
     \<exists>n a r. map_of (activations c) n = Some a \<and> map_of (byName c) n = Some r \<and>
       slot_claim (slot_at c r) \<noteq> None \<and> slot_claim_id (slot_at c r) = cid \<and> (gjid = [] \<or> globalJID a = gjid) \<and>
       res = \<lparr>Found = True, StarterAddr = starterAddr a\<rparr>"
  by (induction cid gjid c ns rule: locate_live.induct) (auto simp: locate_match_def split: option.splits if_splits)

lemma locate_stored_sound:
  "locate_stored L cid gjid c = Some res \<Longrightarrow>
     \<exists>st rec. store c = Some st \<and> rec \<in> set (store_List L st) \<and> rec_ClaimID rec = cid \<and>
       (gjid = [] \<or> rec_GlobalJobID rec = gjid) \<and> res = \<lparr>Found = True, StarterAddr = rec_StarterIpAddr rec\<rparr>"
  by (auto simp: locate_stored_def locate_match_def split: option.splits dest!: find_in_set)

text \<open>
  C18. The startd tells where a starter is only to the holder of the secret: a successful reply to
  \<^verbatim>\<open>CA_LOCATE_STARTER\<close> means that the request carried, in full, the nonempty claim id of a live claim or
  of a stored record (and its job id, when it gave one), and the address in the reply is that of this
  claim's starter.
\<close>

theorem locate_needs_claim_id:
  assumes "StartdHandler W L (\<lambda>cid gjid. locateStarter (Some (doLocateStarter L w cid gjid c))) msg fr = Inr reply"
    and "last_ins reply AttrResult = Some (AStr ResultSuccess)"
  shows "\<exists>req addr. ReadRequest W L msg fr = Inr req \<and> str_attr L req ''ClaimId'' \<noteq> [] \<and>
    last_ins reply AttrStarterIPAddr = Some (AStr addr) \<and> addr \<noteq> [] \<and>
    ((\<exists>n a r. map_of (activations c) n = Some a \<and> map_of (byName c) n = Some r \<and>
        slot_claim (slot_at c r) \<noteq> None \<and> slot_claim_id (slot_at c r) = str_attr L req ''ClaimId'' \<and>
        (str_attr L req ''GlobalJobId'' = [] \<or> globalJID a = str_attr L req ''GlobalJobId'') \<and> addr = starterAddr a) \<or>
     (\<exists>st rec. store c = Some st \<and> rec \<in> set (store_List L st) \<and> rec_ClaimID rec = str_attr L req ''ClaimId'' \<and>
        (str_attr L req ''GlobalJobId'' = [] \<or> rec_GlobalJobID rec = str_attr L req ''GlobalJobId'') \<and> addr = rec_StarterIpAddr rec))"
proof -
  obtain req where req: "ReadRequest W L msg fr = Inr req" using assms(1) by (auto simp: StartdHandler_def split: sum.splits)
  let ?cid = "str_attr L req ''ClaimId''" and ?g = "str_attr L req ''GlobalJobId''"
  let ?res = "doLocateStarter L w ?cid ?g c"
  have "ResultFailure \<noteq> ResultSuccess" by (simp add: ca_consts)
  then have ok: "RequestCommand L req = CmdLocateStarter" "Found ?res" "StarterAddr ?res \<noteq> []"
    "reply = ad_set AttrStarterIPAddr (AStr (StarterAddr ?res)) SuccessReply"
    using assms by (auto simp: StartdHandler_def req Let_def locateStarter_def reply_results split: if_splits)
  then have cid: "?cid \<noteq> []" by (auto simp: doLocateStarter_def)
  have res: "locate_live ?cid ?g c (visit w (map fst (activations c))) = Some ?res \<or> locate_stored L ?cid ?g c = Some ?res"
    using ok(2) cid by (auto simp: doLocateStarter_def split: option.splits)
  have "last_ins reply AttrStarterIPAddr = Some (AStr (StarterAddr ?res))" unfolding ok(4) by (simp add: EqualFold_def)
  then show ?thesis using req cid ok(3) res locate_live_sound [of ?cid ?g c] locate_stored_sound [of L ?cid ?g c]
    by (intro exI [of _ req] exI [of _ "StarterAddr ?res"]) fastforce
qed

definition unquote_lib :: "(string, ad) gomap persist_api" where
  "unquote_lib = example_lib\<lparr>EvaluateAttrString := EvaluateAttrString unquote_api\<rparr>"

definition locate_request :: "wire_item list" where
  "locate_request = wire_form [(False, ''Command'', [CHR 0x22] @ ''CA_LOCATE_STARTER'' @ [CHR 0x22]),
     (False, ''ClaimId'', [CHR 0x22] @ ''c#1'' @ [CHR 0x22])] ''Command'' ''Reply''"

definition example_activation :: activation where
  "example_activation =
     \<lparr>act_cancel = 0, act_transport = InprocPair, vacateCh = [], sandbox = ''/x'', jobAd = None, globalJID = ''s#1.0'',
      starterAddr = ''<h:7>'', starterCmd = False, starterPid = 0, socketPath = [], adopted = False, gen = 1, vacating = False\<rparr>"

theorem locate_needs_claim_id_witness:
  "\<exists>c req reply. ReadRequest list_message unquote_lib None locate_request = Inr req \<and> str_attr unquote_lib req ''ClaimId'' \<noteq> [] \<and>
   StartdHandler list_message unquote_lib
     (\<lambda>cid gjid. locateStarter (Some (doLocateStarter unquote_lib example_host_world cid gjid c))) None locate_request = Inr reply \<and>
   last_ins reply AttrStarterIPAddr = Some (AStr ''<h:7>'')"
proof -
  let ?c = "(one_slot (claimed_with ''c#1''))\<lparr>activations := [(Name example_slot, example_activation)]\<rparr>"
  let ?reply = "ad_set AttrStarterIPAddr (AStr ''<h:7>'') SuccessReply"
  have found: "doLocateStarter unquote_lib example_host_world ''c#1'' [] ?c = \<lparr>Found = True, StarterAddr = ''<h:7>''\<rparr>"
    by (simp add: doLocateStarter_def locate_match_def one_slot_def claimed_with_def example_host_world_def
        example_activation_def slot_at_def slot_claim_id_def)
  let ?req = "[(''Command'', AExpr ([CHR 0x22] @ ''CA_LOCATE_STARTER'' @ [CHR 0x22])), (''ClaimId'', AExpr ([CHR 0x22] @ ''c#1'' @ [CHR 0x22]))]"
  have req: "ReadRequest list_message unquote_lib None locate_request = Inr ?req" by code_simp
  have cmd: "RequestCommand unquote_lib ?req = CmdLocateStarter" by code_simp
  have attrs: "str_attr unquote_lib ?req ''ClaimId'' = ''c#1''" "str_attr unquote_lib ?req ''GlobalJobId'' = []" by code_simp+
  have h: "StartdHandler list_message unquote_lib
     (\<lambda>cid gjid. locateStarter (Some (doLocateStarter unquote_lib example_host_world cid gjid ?c))) None locate_request = Inr ?reply"
    unfolding StartdHandler_def req sum.case cmd attrs found locateStarter_def option.case Let_def by simp
  have "last_ins ?reply AttrResult = Some (AStr ResultSuccess)" by code_simp
  moreover have "last_ins ?reply AttrStarterIPAddr = Some (AStr ''<h:7>'')" by code_simp
  ultimately show ?thesis using locate_needs_claim_id [OF h] h by blast
qed

end
