(* ===== verification/Commands.thy ===== *)
theory Commands
  imports Handlers
begin

text \<open>
  The command table of the startd and its security (\<^verbatim>\<open>RegisterCommands\<close>, \<^verbatim>\<open>RegisterClaimCommands\<close>,
  \<^verbatim>\<open>cmd/startd/authz.go\<close>): which handler serves which command at which authorization level, and with which
  security policy a command is negotiated. The command server and the daemon library are parameters:
  \<open>perms\<close> answers \<^verbatim>\<open>srv.CommandPerms\<close> and \<open>policy\<close> answers \<^verbatim>\<open>d.ServerSecurityConfig\<close> for a level.
\<close>

section \<open>The command table\<close>

record cedar_commands =
  QUERY_STARTD_ADS :: int
  GIVE_STATE :: int

definition CACmd :: int where "CACmd = 1200"

datatype command_handler =
    HandleQueryStartdAds
  | HandleGiveState
  | HandleCA
  | HandleMatchInfo
  | HandleRequestClaim
  | HandleReleaseClaim
  | HandleActivateClaim
  | HandleDeactivateClaim

text \<open>The calls of \<^verbatim>\<open>srv.Handle\<close>, in order.\<close>

type_synonym registration = "int \<times> command_handler \<times> string"

definition RegisterClaimCommands :: "registration list" where
  "RegisterClaimCommands =
     [(CmdMatchInfo, HandleMatchInfo, ''NEGOTIATOR''), (CmdRequestClaim, HandleRequestClaim, ''DAEMON''),
      (CmdReleaseClaim, HandleReleaseClaim, ''DAEMON''), (CmdActivateClaim, HandleActivateClaim, ''DAEMON'')] @
     map (\<lambda>cmd. (cmd, HandleDeactivateClaim, ''DAEMON''))
       [CmdDeactivateClaim, CmdDeactivateClaimForcibly, CmdDeactivateClaimJobDone, CmdDeactivateFinalXfer]"

definition RegisterCommands :: "cedar_commands \<Rightarrow> 'c Core \<Rightarrow> registration list" where
  "RegisterCommands K c =
     [(QUERY_STARTD_ADS K, HandleQueryStartdAds, ''READ''), (GIVE_STATE K, HandleGiveState, ''READ''),
      (CACmd, HandleCA, ''WRITE'')] @
     (if minter c \<noteq> None then RegisterClaimCommands else [])"

definition commandNames :: "cedar_commands \<Rightarrow> (int, string) gomap" where
  "commandNames K =
     [(CmdRequestClaim, ''REQUEST_CLAIM''), (CmdReleaseClaim, ''RELEASE_CLAIM''), (CmdActivateClaim, ''ACTIVATE_CLAIM''),
      (CmdDeactivateClaim, ''DEACTIVATE_CLAIM''), (CmdDeactivateClaimForcibly, ''DEACTIVATE_CLAIM_FORCIBLY''),
      (CmdDeactivateClaimJobDone, ''DEACTIVATE_CLAIM_JOB_DONE''), (CmdDeactivateFinalXfer, ''DEACTIVATE_CLAIM_FINAL_XFER''),
      (CmdMatchInfo, ''MATCH_INFO''), (GIVE_STATE K, ''GIVE_STATE''), (CACmd, ''CA_CMD'')]"

section \<open>Security policies\<close>

text \<open>The part of a security configuration that depends on the level; the rest is that of the base.\<close>

record 'k SecurityConfig =
  Authentication :: string
  Encryption :: string
  Integrity :: string
  AuthMethods :: "string list"
  CryptoMethods :: "string list"
  SessionCache :: 'k

definition securityLevels :: "string list" where
  "securityLevels = [''ALLOW'', ''READ'', ''WRITE'', ''NEGOTIATOR'', ''ADMINISTRATOR'', ''CONFIG'', ''DAEMON'']"

definition advertiseLevels :: "string list" where
  "advertiseLevels = [''ADVERTISE_STARTD'', ''ADVERTISE_SCHEDD'', ''ADVERTISE_MASTER'']"

definition level_config :: "('k, 'x) SecurityConfig_scheme \<Rightarrow> ('k, 'x) SecurityConfig_scheme \<Rightarrow> ('k, 'x) SecurityConfig_scheme" where
  "level_config base s = base\<lparr>Authentication := Authentication s, Encryption := Encryption s, Integrity := Integrity s,
     AuthMethods := AuthMethods s, CryptoMethods := CryptoMethods s\<rparr>"

fun level_policies ::
  "(string \<Rightarrow> string + ('k, 'x) SecurityConfig_scheme) \<Rightarrow> ('k, 'x) SecurityConfig_scheme \<Rightarrow> string list \<Rightarrow>
     (string, ('k, 'x) SecurityConfig_scheme) gomap \<Rightarrow> string + (string, ('k, 'x) SecurityConfig_scheme) gomap" where
  "level_policies policy base [] m = Inr m"
| "level_policies policy base (lvl # lvls) m =
     (case policy lvl of
        Inl err \<Rightarrow> Inl err
      | Inr s \<Rightarrow> level_policies policy base lvls (AList.update lvl (level_config base s) m))"

text \<open>A missing level is Go's nil, so the entries of the advertising levels are those of \<^verbatim>\<open>DAEMON\<close>.\<close>

definition installAuthz ::
  "(string \<Rightarrow> string + ('k, 'x) SecurityConfig_scheme) \<Rightarrow> ('k, 'x) SecurityConfig_scheme \<Rightarrow>
     string + (string, ('k, 'x) SecurityConfig_scheme) gomap" where
  "installAuthz policy base =
     (case level_policies policy base securityLevels [] of
        Inl err \<Rightarrow> Inl err
      | Inr m \<Rightarrow> Inr (fold (\<lambda>lvl m. case map_of m ''DAEMON'' of Some s \<Rightarrow> AList.update lvl s m | None \<Rightarrow> m) advertiseLevels m))"

definition SecurityConfigForCommand ::
  "(string, ('k, 'x) SecurityConfig_scheme) gomap \<Rightarrow> (int \<Rightarrow> string list) \<Rightarrow> int \<Rightarrow> ('k, 'x) SecurityConfig_scheme option" where
  "SecurityConfigForCommand byLevel perms command =
     (case perms command of [] \<Rightarrow> None | p # _ \<Rightarrow> map_of byLevel p)"

text \<open>
  The command server: the base policy with the shared session cache, the authorization policy over the command names, and the
  policies by level. \<open>ServerSecurityConfig\<close> and \<open>NewAuthz\<close> are the daemon library; its default commands are registered by it.
\<close>

definition newCommandServer_startd ::
  "cedar_commands \<Rightarrow> (int \<Rightarrow> string \<Rightarrow> string + ('k, 'x) SecurityConfig_scheme) \<Rightarrow> ((int, string) gomap \<Rightarrow> string + 'z) \<Rightarrow> 'k \<Rightarrow>
     string + ('k, 'x) SecurityConfig_scheme \<times> 'z \<times> (string, ('k, 'x) SecurityConfig_scheme) gomap" where
  "newCommandServer_startd K ServerSecurityConfig NewAuthz cache =
     (case ServerSecurityConfig (QUERY_STARTD_ADS K) ''DAEMON'' of
        Inl err \<Rightarrow> Inl err
      | Inr s \<Rightarrow>
          (let sec = s\<lparr>SessionCache := cache\<rparr>
           in case NewAuthz (commandNames K) of
                Inl err \<Rightarrow> Inl err
              | Inr az \<Rightarrow>
                  (case installAuthz (ServerSecurityConfig (QUERY_STARTD_ADS K)) sec of
                     Inl err \<Rightarrow> Inl err
                   | Inr byLevel \<Rightarrow> Inr (sec, az, byLevel))))"

section \<open>Properties\<close>

lemma level_policies_lookup:
  "level_policies policy base lvls m = Inr m' \<Longrightarrow>
     map_of m' l = (if l \<in> set lvls then (case policy l of Inr s \<Rightarrow> Some (level_config base s) | Inl err \<Rightarrow> None) else map_of m l)"
  by (induction policy base lvls m rule: level_policies.induct) (auto simp: update_conv' split: sum.splits if_splits)

lemma level_policies_total:
  "level_policies policy base lvls m = Inr m' \<Longrightarrow> l \<in> set lvls \<Longrightarrow> \<exists>s. policy l = Inr s"
  by (induction policy base lvls m rule: level_policies.induct) (auto split: sum.splits)

lemma installed_lookup:
  assumes "installAuthz policy base = Inr byLevel" "l \<in> set securityLevels"
  shows "\<exists>s. policy l = Inr s \<and> map_of byLevel l = Some (level_config base s)"
proof -
  obtain m where m: "level_policies policy base securityLevels [] = Inr m"
    using assms(1) by (auto simp: installAuthz_def split: sum.splits)
  have "l \<notin> set advertiseLevels" using assms(2) by (auto simp: securityLevels_def advertiseLevels_def)
  then have keep: "map_of (fold (\<lambda>lvl m. case map_of m ''DAEMON'' of Some s \<Rightarrow> AList.update lvl s m | None \<Rightarrow> m) advertiseLevels n) l =
      map_of n l" for n :: "(string, ('a, 'b) SecurityConfig_scheme) gomap"
    by (simp add: advertiseLevels_def update_conv' split: option.split)
  obtain s where s: "policy l = Inr s" using level_policies_total [OF m assms(2)] by blast
  have "byLevel = fold (\<lambda>lvl m. case map_of m ''DAEMON'' of Some s \<Rightarrow> AList.update lvl s m | None \<Rightarrow> m) advertiseLevels m"
    using assms(1) m by (simp add: installAuthz_def)
  then show ?thesis using keep [of m] level_policies_lookup [OF m, of l] assms(2) s by simp
qed

lemma registered_levels: "(cmd, h, lvl) \<in> set (RegisterCommands K c) \<Longrightarrow> lvl \<in> set securityLevels"
  by (auto simp: RegisterCommands_def RegisterClaimCommands_def securityLevels_def split: if_splits)

text \<open>
  C35. Every command the startd serves is negotiated with the policy of its own level: once the command server is
  built, a registered command finds a policy (never the nil that would fall back on the
  server's default), which has the authentication, encryption, integrity and methods configured for
  the level it is registered at, and the session cache the claim ids are minted into.
\<close>

theorem commands_negotiated_at_own_level:
  assumes "newCommandServer_startd K policy authz cache = Inr (sec, az, byLevel)" "(cmd, h, lvl) \<in> set (RegisterCommands K c)" "perms cmd = [lvl]"
  shows "\<exists>s cfg. policy (QUERY_STARTD_ADS K) lvl = Inr s \<and> SecurityConfigForCommand byLevel perms cmd = Some cfg \<and>
    Authentication cfg = Authentication s \<and> Encryption cfg = Encryption s \<and> Integrity cfg = Integrity s \<and>
    AuthMethods cfg = AuthMethods s \<and> CryptoMethods cfg = CryptoMethods s \<and> SessionCache cfg = cache"
proof -
  have inst: "installAuthz (policy (QUERY_STARTD_ADS K)) sec = Inr byLevel" "SessionCache sec = cache"
    using assms(1) by (auto simp: newCommandServer_startd_def Let_def split: sum.splits)
  obtain s where "policy (QUERY_STARTD_ADS K) lvl = Inr s" "map_of byLevel lvl = Some (level_config sec s)"
    using installed_lookup [OF inst(1) registered_levels [OF assms(2)]] by blast
  then show ?thesis using assms(3) inst(2)
    by (intro exI [of _ "s"] exI [of _ "level_config sec s"] conjI) (simp_all add: SecurityConfigForCommand_def level_config_def)
qed

definition example_cedar :: cedar_commands where
  "example_cedar = \<lparr>QUERY_STARTD_ADS = 5, GIVE_STATE = 448\<rparr>"

definition example_policy :: "int \<Rightarrow> string \<Rightarrow> string + nat SecurityConfig" where
  "example_policy cmd l = Inr \<lparr>Authentication = (if l = ''READ'' then ''OPTIONAL'' else ''REQUIRED''), Encryption = ''REQUIRED'',
     Integrity = ''REQUIRED'', AuthMethods = [''FS'', ''TOKEN''], CryptoMethods = [''AES''], SessionCache = 0\<rparr>"

lemma example_server: "\<exists>sec byLevel. newCommandServer_startd example_cedar example_policy (\<lambda>names. Inr ()) 7 = Inr (sec, (), byLevel)"
proof -
  have "\<not> isl (newCommandServer_startd example_cedar example_policy (\<lambda>names. Inr ()) 7)" by code_simp
  then show ?thesis by (cases "newCommandServer_startd example_cedar example_policy (\<lambda>names. Inr ()) 7") auto
qed

theorem commands_negotiated_at_own_level_witness:
  "\<exists>sec byLevel cfg. newCommandServer_startd example_cedar example_policy (\<lambda>names. Inr ()) 7 = Inr (sec, (), byLevel) \<and>
     SecurityConfigForCommand byLevel (\<lambda>cmd. [''READ'']) (QUERY_STARTD_ADS example_cedar) = Some cfg \<and> SessionCache cfg = 7"
proof -
  obtain sec byLevel where b: "newCommandServer_startd example_cedar example_policy (\<lambda>names. Inr ()) 7 = Inr (sec, (), byLevel)"
    using example_server by blast
  have "(QUERY_STARTD_ADS example_cedar, HandleQueryStartdAds, ''READ'') \<in> set (RegisterCommands example_cedar (one_slot example_slot))"
    by (simp add: RegisterCommands_def)
  from commands_negotiated_at_own_level [OF b this, of "\<lambda>cmd. [''READ'']"] b show ?thesis by auto
qed

text \<open>
  The claim surface: the startd serves it only when it can mint claim ids; every command of it is
  above the read level and among the commands a claim's session authorizes, each command has exactly
  one handler, and the session's list holds nothing else but the keepalive the startd itself sends.
  \<^verbatim>\<open>CA_CMD\<close>, by which a reconnecting shadow asks for its starter, is not in the list.
\<close>

theorem claim_surface_authorized:
  "fst ` set (RegisterCommands K c) =
     {QUERY_STARTD_ADS K, GIVE_STATE K, CACmd} \<union> (if minter c \<noteq> None then set SurfaceCommands - {CmdAlive} else {}) \<and>
   distinct (map fst RegisterClaimCommands) \<and> (snd \<circ> snd) ` set RegisterClaimCommands = {''NEGOTIATOR'', ''DAEMON''} \<and>
   CmdAlive \<in> set SurfaceCommands \<and> CACmd \<notin> set SurfaceCommands"
proof -
  have "CmdAlive \<notin> fst ` set RegisterClaimCommands" "distinct (map fst RegisterClaimCommands)" "CACmd \<notin> set SurfaceCommands"
    by (simp_all add: RegisterClaimCommands_def SurfaceCommands_def claimSurfaceCommands_def CACmd_def command_defs)
  moreover have "set SurfaceCommands = insert CmdAlive (fst ` set RegisterClaimCommands)"
    by (auto simp: RegisterClaimCommands_def SurfaceCommands_def claimSurfaceCommands_def)
  moreover have "(snd \<circ> snd) ` set RegisterClaimCommands = {''NEGOTIATOR'', ''DAEMON''}"
    by (simp add: RegisterClaimCommands_def)
  ultimately show ?thesis by (auto simp: RegisterCommands_def image_Un)
qed

text \<open>Every command but the query has a name for the denial logs.\<close>

lemma command_named:
  "(cmd, h, lvl) \<in> set (RegisterCommands K c) \<Longrightarrow> h \<noteq> HandleQueryStartdAds \<Longrightarrow> cmd \<in> dom (map_of (commandNames K))"
  by (auto simp: RegisterCommands_def RegisterClaimCommands_def commandNames_def split: if_splits)

end
