(* ===== verification/Daemon.thy ===== *)
theory Daemon
  imports Config Commands Lives
begin

text \<open>
  The main program of the startd as a whole (\<^verbatim>\<open>run\<close> in \<^verbatim>\<open>cmd/startd/main.go\<close>): what it opens and starts, in
  which order, where it gives up, what its deferred calls undo, and what becomes of the core and of its store. The answers of the daemon
  library are the record \<open>main_env\<close>.
\<close>

text \<open>
  \<^verbatim>\<open>Start\<close> launches the loop, which advertises before it takes its first input (the later iterations are
  \<open>loop_step\<close>, the writer it launches beside it is the persister of the model). \<^verbatim>\<open>Adopt\<close> submits the adoption
  and waits for the loop to have handled it, thirty seconds at most: \<open>ready\<close> tells whether the loop was done by then. Otherwise the event is
  handled later, while the startd serves.
\<close>

definition Start :: "('c, 'x) persist_api_scheme \<Rightarrow> world \<Rightarrow> 'c Core \<Rightarrow> 'c Core" where
  "Start L w c = reAdvertise L w c"

datatype adopt_wait = NothingToAdopt | ReAdopted | AdoptTimedOut

definition core_Adopt :: "('c, 'x) persist_api_scheme \<Rightarrow> world \<Rightarrow> bool \<Rightarrow> 'c Core \<Rightarrow> 'c Core \<times> adopt_wait" where
  "core_Adopt L w ready c =
     (case store c of
        None \<Rightarrow> (c, NothingToAdopt)
      | Some st \<Rightarrow>
          (let c' = Submit EvAdopt c
           in if ready then (loop_step L w NextEvent c', ReAdopted) else (c', AdoptTimedOut)))"

text \<open>The steps of a run; closing the store says what it held, if there was one.\<close>

datatype 'c main_step =
    OpenListener | CloseListener
  | WroteAddress string | RemoveAddress string
  | OpenStore string | CloseStore "'c Store option"
  | Register "registration list"
  | NewContext | CancelContext
  | StartCore | StopCore
  | AdoptClaims adopt_wait
  | ServeCommands

text \<open>
  \<open>Serving\<close> is what the loop, the writer and the connections make of the core until \<^verbatim>\<open>Serve\<close> returns, which it does with \<open>ServeResult\<close>;
  \<open>at_start\<close> and \<open>at_stop\<close> are the world when the core is started and stopped.
\<close>

record ('c, 'k, 'z) main_env =
  LoadConfig :: "string + config"
  NewDaemon :: "string option"
  Listen :: "string option"
  SecurityPolicy :: "int \<Rightarrow> string \<Rightarrow> string + 'k SecurityConfig"
  AuthzPolicy :: "(int, string) gomap \<Rightarrow> string + 'z"
  NewSessionCache :: 'k
  at_start :: world
  AdoptReady :: bool
  Serving :: "'c Core \<Rightarrow> 'c Core"
  at_stop :: world
  ServeResult :: "string option"

text \<open>A call and the deferred call that undoes it around the rest of the function.\<close>

definition with_defer :: "'c main_step \<Rightarrow> 'c main_step \<Rightarrow> 'c main_step list \<times> string option \<Rightarrow> 'c main_step list \<times> string option" where
  "with_defer opened undo r = (opened # fst r @ [undo], snd r)"

text \<open>The core that serves, and how the wait for its adoption ended.\<close>

definition ready_core ::
  "('c, 'x) persist_api_scheme \<Rightarrow> daemon_env \<Rightarrow> host \<Rightarrow> ('c, 'k, 'z) main_env \<Rightarrow> config \<Rightarrow> 'c Core \<times> adopt_wait" where
  "ready_core L d h e cfg = core_Adopt L (at_start e) (AdoptReady e) (Start L (at_start e) (New L (main_options L d h cfg)))"

definition run_core ::
  "('c, 'x) persist_api_scheme \<Rightarrow> daemon_env \<Rightarrow> host \<Rightarrow> cedar_commands \<Rightarrow> ('c, 'k, 'z) main_env \<Rightarrow> config \<Rightarrow>
     'c main_step list \<times> string option" where
  "run_core L d h K e cfg =
     (let opts = main_options L d h cfg;
          (c, waited) = ready_core L d h e cfg;
          stopped = Stop L (at_stop e) (Serving e c);
          served = with_defer NewContext CancelContext (with_defer StartCore StopCore ([AdoptClaims waited, ServeCommands], ServeResult e));
          rest = (Register (RegisterCommands K (New L opts)) # fst served, snd served)
      in case opt_Store opts of None \<Rightarrow> rest | Some st \<Rightarrow> with_defer (OpenStore (claimsDir cfg)) (CloseStore (store stopped)) rest)"

definition run_served ::
  "('c, 'x) persist_api_scheme \<Rightarrow> daemon_env \<Rightarrow> host \<Rightarrow> cedar_commands \<Rightarrow> ('c, 'k, 'z) main_env \<Rightarrow> config \<Rightarrow>
     'c main_step list \<times> string option" where
  "run_served L d h K e cfg =
     (case writeAddressFile d cfg of
        None \<Rightarrow> run_core L d h K e cfg
      | Some (path, text) \<Rightarrow> with_defer (WroteAddress path) (RemoveAddress path) (run_core L d h K e cfg))"

definition startd_run ::
  "('c, 'x) persist_api_scheme \<Rightarrow> daemon_env \<Rightarrow> host \<Rightarrow> cedar_commands \<Rightarrow> ('c, 'k, 'z) main_env \<Rightarrow> 'c main_step list \<times> string option" where
  "startd_run L d h K e =
     (case LoadConfig e of
        Inl err \<Rightarrow> ([], Some (''loading config: '' @ err))
      | Inr cfg \<Rightarrow>
          (case NewDaemon e of
             Some err \<Rightarrow> ([], Some err)
           | None \<Rightarrow>
               (case Listen e of
                  Some err \<Rightarrow> ([], Some err)
                | None \<Rightarrow>
                    with_defer OpenListener CloseListener
                      (case newCommandServer_startd K (SecurityPolicy e) (AuthzPolicy e) (NewSessionCache e) of
                         Inl err \<Rightarrow> ([], Some (''building command server: '' @ err))
                       | Inr srv \<Rightarrow> run_served L d h K e cfg))))"

section \<open>Nothing stays open\<close>

fun opens :: "'c main_step \<Rightarrow> bool" where
  "opens OpenListener \<longleftrightarrow> True"
| "opens (WroteAddress p) \<longleftrightarrow> True"
| "opens (OpenStore p) \<longleftrightarrow> True"
| "opens NewContext \<longleftrightarrow> True"
| "opens StartCore \<longleftrightarrow> True"
| "opens _ \<longleftrightarrow> False"

fun undoes :: "'c main_step \<Rightarrow> bool" where
  "undoes CloseListener \<longleftrightarrow> True"
| "undoes (RemoveAddress p) \<longleftrightarrow> True"
| "undoes (CloseStore st) \<longleftrightarrow> True"
| "undoes CancelContext \<longleftrightarrow> True"
| "undoes StopCore \<longleftrightarrow> True"
| "undoes _ \<longleftrightarrow> False"

fun undone_by :: "'c main_step \<Rightarrow> 'c main_step \<Rightarrow> bool" where
  "undone_by OpenListener CloseListener \<longleftrightarrow> True"
| "undone_by (WroteAddress p) (RemoveAddress q) \<longleftrightarrow> p = q"
| "undone_by (OpenStore p) (CloseStore st) \<longleftrightarrow> True"
| "undone_by NewContext CancelContext \<longleftrightarrow> True"
| "undone_by StartCore StopCore \<longleftrightarrow> True"
| "undone_by _ _ \<longleftrightarrow> False"

text \<open>The second argument holds what is open, the latest first.\<close>

fun well_nested :: "'c main_step list \<Rightarrow> 'c main_step list \<Rightarrow> bool" where
  "well_nested [] stk \<longleftrightarrow> stk = []"
| "well_nested (s # ss) stk \<longleftrightarrow>
     (if opens s then well_nested ss (s # stk)
      else if undoes s then (case stk of [] \<Rightarrow> False | t # ts \<Rightarrow> undone_by t s \<and> well_nested ss ts)
      else well_nested ss stk)"

lemma nested_append: "well_nested xs stk \<Longrightarrow> well_nested (xs @ ys) (stk @ stk') = well_nested ys stk'"
proof (induction xs stk rule: well_nested.induct)
  case (2 s ss stk)
  then show ?case by (auto split: if_splits list.splits)
qed simp

lemma nested_defer:
  assumes "well_nested (fst r) []" "opens opened" "undone_by opened undo"
  shows "well_nested (fst (with_defer opened undo r)) []"
proof -
  have "\<not> opens undo" "undoes undo" using assms(3) by (cases opened; cases undo; simp)+
  then show ?thesis using assms nested_append [OF assms(1), of "[undo]" "[opened]"] by (simp add: with_defer_def)
qed

lemma run_core_nested: "well_nested (fst (run_core L d h K e cfg)) []"
  by (auto simp: run_core_def with_defer_def Let_def split: option.split prod.split)

lemma options_store: "opt_Store (main_options L d h cfg) = claim_store L d cfg"
  by (simp add: main_options_def Let_def)

lemma run_core_steps:
  "ServeCommands \<in> set (fst (run_core L d h K e cfg))" "snd (run_core L d h K e cfg) = ServeResult e"
  "Register (RegisterCommands K (New L (main_options L d h cfg))) \<in> set (fst (run_core L d h K e cfg))"
  "claim_store L d cfg \<noteq> None \<Longrightarrow> \<exists>xs. fst (run_core L d h K e cfg) = xs @
     [AdoptClaims (snd (ready_core L d h e cfg)), ServeCommands, StopCore, CancelContext,
      CloseStore (store (Stop L (at_stop e) (Serving e (fst (ready_core L d h e cfg)))))]"
proof -
  show "ServeCommands \<in> set (fst (run_core L d h K e cfg))" "snd (run_core L d h K e cfg) = ServeResult e"
    "Register (RegisterCommands K (New L (main_options L d h cfg))) \<in> set (fst (run_core L d h K e cfg))"
    by (auto simp: run_core_def with_defer_def Let_def split: option.split prod.split)
  show "claim_store L d cfg \<noteq> None \<Longrightarrow> \<exists>xs. fst (run_core L d h K e cfg) = xs @
     [AdoptClaims (snd (ready_core L d h e cfg)), ServeCommands, StopCore, CancelContext,
      CloseStore (store (Stop L (at_stop e) (Serving e (fst (ready_core L d h e cfg)))))]"
    by (auto simp: run_core_def with_defer_def Let_def options_store split: prod.split)
qed

section \<open>The store of the run\<close>

text \<open>The core that is ready to serve: it has adopted, or the adoption is the first event in its queue.\<close>

lemma ready_core_adopts:
  assumes "claim_store L d cfg \<noteq> None"
  shows "if AdoptReady e
    then ready_core L d h e cfg = (handle L (at_start e) EvAdopt (Start L (at_start e) (New L (main_options L d h cfg))), ReAdopted)
    else snd (ready_core L d h e cfg) = AdoptTimedOut \<and> events (fst (ready_core L d h e cfg)) = [EvAdopt]"
proof -
  let ?c = "New L (main_options L d h cfg)" let ?s = "Start L (at_start e) ?c"
  have "events ?c = []" "store ?c = claim_store L d cfg"
    by (simp_all add: New_def prime_def options_store split: option.split prod.split)
  moreover have "events ?s = events ?c" "store ?s = store ?c" by (simp_all add: Start_def reAdvertise_writer)
  ultimately have s: "events ?s = []" "\<exists>st. store ?s = Some st" using assms by auto
  then have queue: "Submit EvAdopt ?s = ?s\<lparr>events := [EvAdopt]\<rparr>" by (simp add: Submit_def queue_capacity_def)
  have "?s\<lparr>events := []\<rparr> = ?s" using s(1) by simp
  then have "loop_step L (at_start e) NextEvent (Submit EvAdopt ?s) = handle L (at_start e) EvAdopt ?s" unfolding queue by (simp add: loop_step_def)
  with s(2) show ?thesis by (auto simp: ready_core_def core_Adopt_def queue)
qed

text \<open>What stopping a core leaves in its store: the last record that the loop handed to the writer for each name.\<close>

lemma stop_writes_all:
  assumes "store_lib_ok L" "visits_all w" "writer_ok L c"
  shows "\<exists>st. store (Stop L w c) = Some st \<and> (\<forall>n. Get L st n = latest L c n)"
proof -
  obtain p where "persister_of c = Some p" using writer_running [OF assms(3)] by blast
  note stop = writes_stop [OF this assms(1,2)]
  then have w: "writer_ok L (Stop L w c)" "\<And>n. latest L (Stop L w c) n = latest L c n" using assms(3) by (auto simp: writes_def)
  obtain q st where "persister_of (Stop L w c) = Some q" "store (Stop L w c) = Some st" using writer_running [OF w(1)] by blast
  then have "store (Stop L w c) = Some st" "latest L (Stop L w c) n = Get L st n" for n
    using stop(2) [of n] by (simp_all add: latest_def settled_def)
  with w(2) show ?thesis by auto
qed

section \<open>Properties\<close>

lemma run_served_nested: "well_nested (fst (run_served L d h K e cfg)) []"
  using run_core_nested by (auto simp: run_served_def split: option.split intro!: nested_defer)

lemma run_served_core:
  "\<exists>xs ys. fst (run_served L d h K e cfg) = xs @ fst (run_core L d h K e cfg) @ ys"
  "snd (run_served L d h K e cfg) = ServeResult e"
proof -
  show "\<exists>xs ys. fst (run_served L d h K e cfg) = xs @ fst (run_core L d h K e cfg) @ ys"
  proof (cases "writeAddressFile d cfg")
    case None
    then have "fst (run_served L d h K e cfg) = [] @ fst (run_core L d h K e cfg) @ []" by (simp add: run_served_def)
    then show ?thesis by blast
  next
    case (Some a)
    then have "fst (run_served L d h K e cfg) = [WroteAddress (fst a)] @ fst (run_core L d h K e cfg) @ [RemoveAddress (fst a)]"
      by (simp add: run_served_def with_defer_def split: prod.split)
    then show ?thesis by blast
  qed
  show "snd (run_served L d h K e cfg) = ServeResult e"
    by (auto simp: run_served_def with_defer_def run_core_steps split: option.split)
qed

definition server_of where
  "server_of K e = newCommandServer_startd K (SecurityPolicy e) (AuthzPolicy e) (NewSessionCache e)"

text \<open>The ways out of \<^verbatim>\<open>run\<close>: before the listener is open, without a command server, and served.\<close>

lemma run_outcomes:
  obtains (early) err where "startd_run L d h K e = ([], Some err)" "isl (LoadConfig e) \<or> NewDaemon e \<noteq> None \<or> Listen e \<noteq> None"
  | (no_server) err where "startd_run L d h K e = ([OpenListener, CloseListener], Some err)" "isl (server_of K e)"
  | (served) cfg where "startd_run L d h K e = with_defer OpenListener CloseListener (run_served L d h K e cfg)"
      "LoadConfig e = Inr cfg" "NewDaemon e = None" "Listen e = None" "\<not> isl (server_of K e)"
proof -
  consider "\<exists>err. LoadConfig e = Inl err" | "\<exists>cfg err. LoadConfig e = Inr cfg \<and> NewDaemon e = Some err"
    | "\<exists>cfg err. LoadConfig e = Inr cfg \<and> NewDaemon e = None \<and> Listen e = Some err"
    | cfg where "LoadConfig e = Inr cfg" "NewDaemon e = None" "Listen e = None"
    by (cases "LoadConfig e"; cases "NewDaemon e"; cases "Listen e") auto
  then show thesis
  proof cases
    case 4
    show thesis
    proof (cases "server_of K e")
      case (Inl err)
      then have "startd_run L d h K e = ([OpenListener, CloseListener], Some (''building command server: '' @ err))"
        using 4 by (simp add: startd_run_def with_defer_def server_of_def)
      then show thesis using no_server Inl by simp
    next
      case (Inr srv)
      then have "startd_run L d h K e = with_defer OpenListener CloseListener (run_served L d h K e cfg)"
        using 4 by (simp add: startd_run_def server_of_def)
      then show thesis using served 4 Inr by simp
    qed
  qed (auto intro!: early simp: startd_run_def)
qed

text \<open>
  C19. The startd's run is orderly. Whatever fails on the way, everything the run opened, wrote or started is
  undone in the reverse order, and nothing else is. It serves commands exactly when the configuration, the
  daemon, the listener and the command server were all obtained, and any run that does not serve
  returns an error. A run that serves has registered the commands of the core it built and returns what serving
  returned. With a claim store it submits the adoption of the recorded claims before it serves and waits for it: either the core that serves
  has adopted, or, after thirty seconds, it serves with the adoption as the first event of its queue. It
  closes the store only after the core was stopped, and the store it closes then holds for every slot the last record that the event loop
  handed to the writer, provided that no write to the store fails and that the writer was in order (a record per name, named and well formed).
\<close>

theorem main_run_orderly:
  assumes "startd_run L d h K e = (steps, err)"
  shows "well_nested steps [] \<and>
    (ServeCommands \<in> set steps \<longleftrightarrow> (\<exists>cfg srv. LoadConfig e = Inr cfg \<and> NewDaemon e = None \<and> Listen e = None \<and>
       newCommandServer_startd K (SecurityPolicy e) (AuthzPolicy e) (NewSessionCache e) = Inr srv)) \<and>
    (ServeCommands \<notin> set steps \<longrightarrow> err \<noteq> None) \<and>
    (\<forall>cfg. LoadConfig e = Inr cfg \<and> ServeCommands \<in> set steps \<longrightarrow>
       err = ServeResult e \<and> Register (RegisterCommands K (New L (main_options L d h cfg))) \<in> set steps \<and>
       (claim_store L d cfg \<noteq> None \<longrightarrow>
          (\<exists>xs ys c waited st. steps = xs @ [AdoptClaims waited, ServeCommands, StopCore, CancelContext, CloseStore st] @ ys \<and>
             (if AdoptReady e
              then waited = ReAdopted \<and> c = handle L (at_start e) EvAdopt (Start L (at_start e) (New L (main_options L d h cfg)))
              else waited = AdoptTimedOut \<and> events c = [EvAdopt]) \<and>
             (store_lib_ok L \<and> visits_all (at_stop e) \<and> writer_ok L (Serving e c) \<longrightarrow>
                (\<exists>s. st = Some s \<and> (\<forall>n. Get L s n = latest L (Serving e c) n))))))"
proof (cases L d h K e rule: run_outcomes)
  case (early m)
  then show ?thesis using assms by auto
next
  case (no_server m)
  then show ?thesis using assms by (auto simp: server_of_def isl_def)
next
  case (served cfg)
  let ?r = "run_served L d h K e cfg"
  obtain us vs where u: "fst ?r = us @ fst (run_core L d h K e cfg) @ vs" using run_served_core(1) by blast
  have st: "steps = OpenListener # fst ?r @ [CloseListener]" "err = ServeResult e"
    using assms served(1) run_served_core(2) [of L d h K e cfg] by (simp_all add: with_defer_def)
  have "well_nested steps []"
    using nested_defer [OF run_served_nested [of L d h K e cfg], of OpenListener CloseListener] st by (simp add: with_defer_def)
  moreover have "\<exists>srv. newCommandServer_startd K (SecurityPolicy e) (AuthzPolicy e) (NewSessionCache e) = Inr srv"
    using served(5) by (cases "server_of K e") (auto simp: server_of_def)
  moreover have "ServeCommands \<in> set steps" "Register (RegisterCommands K (New L (main_options L d h cfg))) \<in> set steps"
    using run_core_steps [where L = L and d = d and h = h and K = K and e = e and cfg = cfg] u st by auto
  moreover have "\<exists>xs ys c waited s. steps = xs @ [AdoptClaims waited, ServeCommands, StopCore, CancelContext, CloseStore s] @ ys \<and>
      (if AdoptReady e
       then waited = ReAdopted \<and> c = handle L (at_start e) EvAdopt (Start L (at_start e) (New L (main_options L d h cfg)))
       else waited = AdoptTimedOut \<and> events c = [EvAdopt]) \<and>
      (store_lib_ok L \<and> visits_all (at_stop e) \<and> writer_ok L (Serving e c) \<longrightarrow> (\<exists>st. s = Some st \<and> (\<forall>n. Get L st n = latest L (Serving e c) n)))"
    if cs: "claim_store L d cfg \<noteq> None"
  proof -
    let ?c = "fst (ready_core L d h e cfg)" and ?waited = "snd (ready_core L d h e cfg)"
    let ?s = "store (Stop L (at_stop e) (Serving e ?c))"
    obtain ws where "fst (run_core L d h K e cfg) = ws @ [AdoptClaims ?waited, ServeCommands, StopCore, CancelContext, CloseStore ?s]"
      using run_core_steps(4) [OF cs] by blast
    then have eq: "steps = (OpenListener # us @ ws) @ [AdoptClaims ?waited, ServeCommands, StopCore, CancelContext, CloseStore ?s] @ (vs @ [CloseListener])"
      using u st by simp
    have "if AdoptReady e
      then ?waited = ReAdopted \<and> ?c = handle L (at_start e) EvAdopt (Start L (at_start e) (New L (main_options L d h cfg)))
      else ?waited = AdoptTimedOut \<and> events ?c = [EvAdopt]"
      using ready_core_adopts [OF cs, of e h] by (simp split: if_splits)
    with eq stop_writes_all [of L "at_stop e" "Serving e ?c"] show ?thesis
      by (intro exI [of _ "OpenListener # us @ ws"] exI [of _ "vs @ [CloseListener]"] exI [of _ ?c] exI [of _ ?waited] exI [of _ ?s]) blast
  qed
  ultimately show ?thesis using served st by auto
qed

text \<open>With an empty store there is nothing to adopt, and the writer is idle.\<close>

lemma adopt_empty_writer:
  assumes "opt_Store opts = Some st" "store_List L st = []"
  shows "store (handle L w EvAdopt (Start L w (New L opts))) = Some st \<and>
    persister_of (handle L w EvAdopt (Start L w (New L opts))) = Some newPersister"
proof -
  let ?s = "Start L w (New L opts)"
  have "store (New L opts) = Some st" "persister_of (New L opts) = Some newPersister"
    using assms(1) by (simp_all add: New_def prime_def split: option.split prod.split)
  then have s: "store ?s = Some st" "persister_of ?s = Some newPersister" by (simp_all add: Start_def reAdvertise_writer)
  have "fold (\<lambda>n c. c) ns c = c" for ns :: "string list" and c :: "'a Core" by (induction ns) simp_all
  then have "doAdopt L w ?s = ?s" using s(1) assms(2) by (simp add: doAdopt_def)
  then show ?thesis using s by (simp add: handle_def emit_def)
qed

text \<open>A run with an empty store that adopts in time and serves without changing anything.\<close>

definition example_main :: "((string, ad) gomap, nat, unit) main_env" where
  "example_main =
     \<lparr>LoadConfig = Inr (\<lambda>k. if k = ''EP_CLAIMS_DIR'' then Some ''/claims'' else None), NewDaemon = None, Listen = None,
      SecurityPolicy = example_policy, AuthzPolicy = (\<lambda>names. Inr ()), NewSessionCache = 7, at_start = example_world, AdoptReady = True,
      Serving = (\<lambda>c. c), at_stop = example_world, ServeResult = None\<rparr>"

theorem main_run_orderly_witness:
  "\<exists>steps xs ys st. startd_run example_lib example_daemon example_host example_cedar example_main = (steps, None) \<and> well_nested steps [] \<and>
     steps = xs @ [AdoptClaims ReAdopted, ServeCommands, StopCore, CancelContext, CloseStore (Some st)] @ ys \<and> Get example_lib st ''slot1'' = None"
proof -
  let ?cfg = "\<lambda>k. if k = ''EP_CLAIMS_DIR'' then Some ''/claims'' else None"
  let ?c = "handle example_lib example_world EvAdopt (Start example_lib example_world (New example_lib (main_options example_lib example_daemon example_host ?cfg)))"
  obtain steps err where r: "startd_run example_lib example_daemon example_host example_cedar example_main = (steps, err)" by fastforce
  have ex: "LoadConfig example_main = Inr ?cfg" "NewDaemon example_main = None" "Listen example_main = None"
    "newCommandServer_startd example_cedar (SecurityPolicy example_main) (AuthzPolicy example_main) (NewSessionCache example_main) =
       newCommandServer_startd example_cedar example_policy (\<lambda>names. Inr ()) 7" "ServeResult example_main = None"
    by (simp_all add: example_main_def)
  have cs: "claim_store example_lib example_daemon ?cfg = Some \<lparr>coll = [], dir = ''/claims''\<rparr>" by code_simp
  have "store_List example_lib \<lparr>coll = [], dir = ''/claims''\<rparr> = []" by (simp add: store_List_def example_lib_def)
  with cs have c: "store ?c = Some \<lparr>coll = [], dir = ''/claims''\<rparr>" "persister_of ?c = Some newPersister"
    using adopt_empty_writer [of "main_options example_lib example_daemon example_host ?cfg" "\<lparr>coll = [], dir = ''/claims''\<rparr>" example_lib example_world]
    unfolding options_store by blast+
  have none: "Get example_lib \<lparr>coll = [], dir = ''/claims''\<rparr> n = None" for n by (simp add: Get_def example_lib_def)
  then have w: "writer_ok example_lib ?c" "latest example_lib ?c ''slot1'' = None"
    using c by (simp_all add: writer_ok_def latest_def on_its_way_def newPersister_def)
  have ok: "store_lib_ok example_lib" unfolding store_lib_ok_def by (simp add: example_lib_classad_ok example_lib_collection_ok) (simp add: example_lib_def)
  note all = main_run_orderly [OF r]
  have serves: "ServeCommands \<in> set steps" using conjunct1 [OF conjunct2 [OF all]] ex example_server by simp
  note serving = all [THEN conjunct2, THEN conjunct2, THEN conjunct2, THEN spec, of ?cfg, THEN mp, OF conjI, OF ex(1) serves]
  have "claim_store example_lib example_daemon ?cfg \<noteq> None" using cs by simp
  from serving [THEN conjunct2, THEN conjunct2, THEN mp, OF this] obtain xs ys c waited st where
    s: "steps = xs @ [AdoptClaims waited, ServeCommands, StopCore, CancelContext, CloseStore st] @ ys"
      "if AdoptReady example_main
       then waited = ReAdopted \<and> c = handle example_lib (at_start example_main) EvAdopt
         (Start example_lib (at_start example_main) (New example_lib (main_options example_lib example_daemon example_host ?cfg)))
       else waited = AdoptTimedOut \<and> events c = [EvAdopt]"
      "store_lib_ok example_lib \<and> visits_all (at_stop example_main) \<and> writer_ok example_lib (Serving example_main c) \<longrightarrow>
        (\<exists>s. st = Some s \<and> (\<forall>n. Get example_lib s n = latest example_lib (Serving example_main c) n))"
    by (elim exE conjE)
  have "AdoptReady example_main" "at_start example_main = example_world" "at_stop example_main = example_world" "Serving example_main x = x" for x
    by (simp_all add: example_main_def)
  note env = this
  have out: "waited = ReAdopted" "c = ?c" using s(2) env(1) unfolding env(2) by (simp_all only: if_True simp_thms)
  obtain s' where "st = Some s'" "Get example_lib s' ''slot1'' = None"
    using s(3) ok example_visits w unfolding env(3,4) out by auto
  moreover have "err = None" using conjunct1 [OF serving] ex(5) by simp
  ultimately show ?thesis using r s(1) out(1) conjunct1 [OF all] by blast
qed

end
