(* ===== verification/Starter.thy ===== *)
theory Starter
  imports Reconnect "HOL-Library.Multiset"
begin

text \<open>
  The run of a starter (\<^verbatim>\<open>internal/starter/starter.go\<close>): the handshake with the shadow, the transfer of the
  input, the execution and supervision of the job, the transfer of the output and the final report. Everything
  outside the process answers through the record \<open>run_env\<close>; the result of a run is its error and the
  sequence of its actions, so that the order of what it does can be stated. A run whose job has not
  ended yet has no result, and neither has one that waits for something that never comes: the calls to the shadow, the transfers and the messages to
  the startd have no deadline of their own, but for the final report.
\<close>

section \<open>Actions\<close>

datatype rpc =
    GetJobInfo
  | RegisterStarterInfo ad
  | GetSecSessionInfo
  | BeginExecution
  | RegisterJobInfo ad
  | JobTermination ad
  | JobExit int int ad

text \<open>A call on a syscall connection names the connection it is made on.\<close>

datatype run_action =
    Ctrl int ad
  | Rpc nat rpc
  | Downloading
  | Uploading
  | StartedJob int
  | Signal "int \<times> group_signal"
  | ClosedStdio "string list"
  | FinalCallback int int ad
  | ClosedStream nat
  | ClosedServer
  | ClosedTransport

text \<open>The exit reasons of HTCondor that the syscall library names.\<close>

record job_codes =
  JobExited :: int
  JobCoredumped :: int
  JobKilled :: int
  JobNotStarted :: int
  JobExecFailed :: int
  JobShouldHold :: int

record RunOptions =
  o_SlotName :: string
  o_ClaimID :: string
  o_UpdateInterval :: duration
  o_UIDDomain :: string
  o_FileSystemDomain :: string
  o_OnFinal :: bool
  o_EnableCommandServer :: bool
  o_CommandBindAddr :: string

definition DefaultUpdateInterval :: duration where
  "DefaultUpdateInterval = 300 * second"

definition update_interval :: "RunOptions \<Rightarrow> duration" where
  "update_interval opts = (if o_UpdateInterval opts \<le> 0 then DefaultUpdateInterval else o_UpdateInterval opts)"

datatype first_msg = ControlClosed | FirstCancelled string | FirstMsg int ad

text \<open>The reply to \<^verbatim>\<open>get_sec_session_info\<close>: a shadow without transfer declines.\<close>

datatype sec_reply = SecInfo SecSessionInfo | SecDeclined | SecBroken string

text \<open>What the monitor's \<^verbatim>\<open>select\<close> can find.\<close>

datatype mon_event =
    RunCancelled
  | CtrlGone
  | CtrlMsg int ad
  | Reconnected reconnectHandoff reply_wait
  | Tick time
  | JobReaped

text \<open>Where a run can wait without a deadline: for its activation, for the syscall connection, and in the \<open>n\<close>-th of its actions.\<close>

datatype wait_point = ForActivate | ForSyscall | ForAction nat run_action

text \<open>The answers of everything outside; \<open>re_blocked\<close> tells which waits never end; one that the cancellation of the run ends is not among them.\<close>

record 'm run_env =
  re_codes :: job_codes
  re_pid :: int
  re_first :: first_msg
  re_syscall :: "string + nat"
  re_listen :: "string \<Rightarrow> string + string"
  re_codec :: "'m message_api"
  re_put :: "string option"
  re_flush :: "string option"
  re_reply :: 'm
  re_starter_info :: "string option"
  re_sec :: sec_reply
  re_import :: "SecSessionInfo \<Rightarrow> string option"
  re_net :: transfer_net
  re_fs :: file_system
  re_fs_end :: file_system
  re_begin :: "string option"
  re_os :: job_os
  re_overlay :: "(string \<times> string) list"
  re_stdio :: "(string \<times> string) list"
  re_error_text :: "job_error \<Rightarrow> string"
  re_start :: time
  re_events :: "mon_event list"
  re_wait :: "(wait_status \<times> (float64 \<times> float64) option) option"
  re_end :: time
  re_secs :: "duration \<Rightarrow> float64"
  re_blocked :: "wait_point \<Rightarrow> bool"

section \<open>The job ad\<close>

definition getJobInfoWithSecrets ::
  "('m, 'y) message_api_scheme \<Rightarrow> 'x classad_api_scheme \<Rightarrow> string option \<Rightarrow> string option \<Rightarrow> 'm \<Rightarrow> string + ad" where
  "getJobInfoWithSecrets W L put flush reply =
     (case put of
        Some err \<Rightarrow> Inl (''writing op: '' @ err)
      | None \<Rightarrow>
          (case flush of
             Some err \<Rightarrow> Inl (''flushing request: '' @ err)
           | None \<Rightarrow>
               (case GetInt W reply of
                  None \<Rightarrow> Inl ''reading rval''
                | Some (rval, m1) \<Rightarrow>
                    if rval < 0
                    then let terrno = (case GetInt W m1 of None \<Rightarrow> 0 | Some (n, _) \<Rightarrow> n)
                         in Inl (''shadow declined get_job_info: rval='' @ Itoa rval @ '' errno='' @ Itoa terrno)
                    else case GetClassAd W L m1 of
                           Inl err \<Rightarrow> Inl (''reading ad: '' @ err)
                         | Inr (ad, _) \<Rightarrow> Inr ad)))"

section \<open>Pieces of the run\<close>

definition finalize ::
  "'x classad_api_scheme \<Rightarrow> RunOptions \<Rightarrow> nat \<Rightarrow> int \<Rightarrow> int \<Rightarrow> ad \<Rightarrow> bool \<Rightarrow> run_action list" where
  "finalize L opts st status reason finalAd sendJobExit =
     (if sendJobExit then [Rpc st (JobExit status reason finalAd)] else []) @
     [Ctrl MsgFinal (MarshalFinal L (Some finalAd) status reason), Ctrl MsgExited new_ad] @
     (if o_OnFinal opts then [FinalCallback status reason finalAd] else [])"

text \<open>The deferred calls: of the whole run, and those of the syscall connection and the command server.\<close>

definition wind_down :: "nat \<Rightarrow> commandServer option \<Rightarrow> run_action list" where
  "wind_down st srv =
     (case srv of None \<Rightarrow> [] | Some cs \<Rightarrow> [ClosedServer]) @ [ClosedStream st, ClosedTransport]"

definition await_activate :: "'x classad_api_scheme \<Rightarrow> first_msg \<Rightarrow> string + ActivateMsg" where
  "await_activate L m =
     (case m of
        ControlClosed \<Rightarrow> Inl ''starter: control channel closed before Activate''
      | FirstCancelled err \<Rightarrow> Inl err
      | FirstMsg t ad \<Rightarrow>
          if t \<noteq> MsgActivate then Inl (''starter: first control message is '' @ MsgName t @ '', want Activate'')
          else ParseActivate L ad)"

definition command_server :: "'m run_env \<Rightarrow> RunOptions \<Rightarrow> commandServer option" where
  "command_server e opts =
     (if o_EnableCommandServer opts
      then case newCommandServer (re_listen e) (o_CommandBindAddr opts) of Inl err \<Rightarrow> None | Inr cs \<Rightarrow> Some cs
      else None)"

definition starter_addr :: "commandServer option \<Rightarrow> string" where
  "starter_addr srv = (case srv of None \<Rightarrow> [] | Some cs \<Rightarrow> cs_sinful cs)"

definition starter_ad :: "RunOptions \<Rightarrow> ActivateMsg \<Rightarrow> string \<Rightarrow> ad" where
  "starter_ad opts act addr =
     (let ad0 = ad_set ''HasReconnect'' (ABool (addr \<noteq> []))
                  (ad_set ''CondorScratchDir'' (AStr (am_SandboxDir act)) (ad_set ''Name'' (AStr (o_SlotName opts)) new_ad));
          ad1 = (if addr \<noteq> [] then ad_set ''StarterIpAddr'' (AStr addr) ad0 else ad0);
          ad2 = ad_set ''CondorVersion'' (AStr starterCondorVersion) ad1;
          ad3 = (if o_UIDDomain opts \<noteq> [] then ad_set ''UidDomain'' (AStr (o_UIDDomain opts)) ad2 else ad2)
      in if o_FileSystemDomain opts \<noteq> [] then ad_set ''FileSystemDomain'' (AStr (o_FileSystemDomain opts)) ad3 else ad3)"

definition hello :: "'m run_env \<Rightarrow> RunOptions \<Rightarrow> string \<Rightarrow> int \<Rightarrow> string \<Rightarrow> ad" where
  "hello e opts addr jobPid phase =
     MarshalHello \<lparr>h_StarterPid = re_pid e, h_StarterAddr = addr, h_ClaimID = o_ClaimID opts, h_JobPid = jobPid,
                   h_Phase = phase\<rparr>"

text \<open>The registration of the reconnect session; a failure only disables the reconnection.\<close>

definition register_session :: "'m run_env \<Rightarrow> SecSessionInfo option \<Rightarrow> commandServer option \<Rightarrow> commandServer option" where
  "register_session e sec srv =
     (case srv of
        None \<Rightarrow> None
      | Some cs \<Rightarrow>
          if sec = None then srv
          else case RegisterReconnectSession (re_import e) sec cs of Inl err \<Rightarrow> srv | Inr cs' \<Rightarrow> Some cs')"

text \<open>The input transfer: the transfer state, and whether a transfer was attempted.\<close>

definition transfer_input ::
  "'x classad_api_scheme \<Rightarrow> 'm run_env \<Rightarrow> ad \<Rightarrow> string \<Rightarrow> SecSessionInfo option \<Rightarrow>
     (string + transferState option) \<times> run_action list" where
  "transfer_input L e jobAd sandbox sec =
     (if \<not> shouldTransfer L jobAd then (Inr None, [])
      else case setupTransfer (re_net e) L jobAd sandbox sec of
        Inl err \<Rightarrow> (Inl err, [])
      | Inr None \<Rightarrow> (Inr None, [])
      | Inr (Some ts) \<Rightarrow>
          (case downloadInput (re_net e) (re_fs e) ts of
             Inl err \<Rightarrow> (Inl err, [Downloading])
           | Inr ts' \<Rightarrow> (Inr (Some ts'), [Downloading])))"

text \<open>The executable that came with the input replaces the command of the job ad.\<close>

definition sandbox_cmd :: "'x classad_api_scheme \<Rightarrow> 'm run_env \<Rightarrow> ad \<Rightarrow> string \<Rightarrow> transferState option \<Rightarrow> ad" where
  "sandbox_cmd L e jobAd sandbox transfer =
     (let transferExe = (case EvaluateAttrBool L jobAd ''TransferExecutable'' of Some v \<Rightarrow> v | None \<Rightarrow> True);
          cmd = str_attr L jobAd ''Cmd'';
          sandboxCmd = Join [sandbox, Base cmd]
      in if transfer \<noteq> None \<and> transferExe \<and> cmd \<noteq> [] \<and> fs_Stat (re_fs e) sandboxCmd \<noteq> None
         then ad_set ''Cmd'' (AStr sandboxCmd) jobAd else jobAd)"

section \<open>The monitor\<close>

record monitor =
  mo_vacated :: bool
  mo_stream :: nat
  mo_transfer :: "transferState option"

definition repoint :: "reconnectHandoff \<Rightarrow> transferState \<Rightarrow> transferState" where
  "repoint ho ts =
     (let ts1 = (if transferKey ho \<noteq> [] then ts\<lparr>ts_key := transferKey ho\<rparr> else ts)
      in if transferSocket ho \<noteq> [] then ts1\<lparr>ts_socket := transferSocket ho\<rparr> else ts1)"

text \<open>One round of the loop; the flag tells whether the wait is over.\<close>

definition mon_step ::
  "'m run_env \<Rightarrow> RunOptions \<Rightarrow> string \<Rightarrow> jobProcess \<Rightarrow> mon_event \<Rightarrow> monitor \<Rightarrow> bool \<times> monitor \<times> run_action list" where
  "mon_step e opts addr jp ev mo =
     (case ev of
        RunCancelled \<Rightarrow> (True, mo\<lparr>mo_vacated := True\<rparr>, map Signal (killGroup jp))
      | CtrlGone \<Rightarrow> (True, mo\<lparr>mo_vacated := True\<rparr>, map Signal (killGroup jp))
      | CtrlMsg t ad \<Rightarrow>
          if t = MsgVacateHard then (False, mo\<lparr>mo_vacated := True\<rparr>, map Signal (killGroup jp))
          else if t = MsgVacateSoft then (False, mo\<lparr>mo_vacated := True\<rparr>, map Signal (termGroup jp))
          else if t = MsgSuspend then (False, mo, map Signal (suspendGroup jp))
          else if t = MsgContinue then (False, mo, map Signal (continueGroup jp))
          else if t = MsgReattach then (False, mo, [Ctrl MsgHello (hello e opts addr (jp_pid jp) ''executing'')])
          else (False, mo, [])
      | Reconnected ho w \<Rightarrow>
          (case acceptReconnect w of
             Some err \<Rightarrow> (False, mo, [ClosedStream (ho_stream ho)])
           | None \<Rightarrow>
               (False, mo\<lparr>mo_stream := ho_stream ho, mo_transfer := map_option (repoint ho) (mo_transfer mo)\<rparr>,
                [ClosedStream (mo_stream mo)]))
      | Tick now \<Rightarrow>
          (let upd = buildUpdateAd (re_secs e) (jp_pid jp) (jp_startTime jp) now
           in (False, mo, [Ctrl MsgUpdate upd, Rpc (mo_stream mo) (RegisterJobInfo upd)]))
      | JobReaped \<Rightarrow> (True, mo, []))"

fun mon_loop ::
  "'m run_env \<Rightarrow> RunOptions \<Rightarrow> string \<Rightarrow> jobProcess \<Rightarrow> mon_event list \<Rightarrow> monitor \<Rightarrow> (monitor \<times> run_action list) option" where
  "mon_loop e opts addr jp [] mo = None"
| "mon_loop e opts addr jp (ev # evs) mo =
     (case mon_step e opts addr jp ev mo of
        (True, mo', acts) \<Rightarrow> Some (mo', acts)
      | (False, mo', acts) \<Rightarrow> map_option (\<lambda>(mo'', acts'). (mo'', acts @ acts')) (mon_loop e opts addr jp evs mo'))"

section \<open>The run\<close>

definition exit_reason :: "job_codes \<Rightarrow> bool \<Rightarrow> waitInfo \<Rightarrow> int" where
  "exit_reason codes vacated info =
     (if vacated then JobKilled codes else if coreDump info then JobCoredumped codes else JobExited codes)"

text \<open>The end of a job that was started: the output transfer, unless it was vacated, and the final report.\<close>

definition finish_job ::
  "'x classad_api_scheme \<Rightarrow> 'm run_env \<Rightarrow> RunOptions \<Rightarrow> ad \<Rightarrow> jobProcess \<Rightarrow> monitor \<Rightarrow> run_action list" where
  "finish_job L e opts jobAd jp mo =
     (let info = inspectWait (re_wait e);
          reason = exit_reason (re_codes e) (mo_vacated mo) info;
          finalAd = buildFinalAd (re_secs e) info (jp_pid jp) (jp_startTime jp) (re_end e)
      in [ClosedStdio (jp_stdio jp)] @ map Signal (killGroup jp) @
         (case (if mo_vacated mo then None else mo_transfer mo) of
            None \<Rightarrow> finalize L opts (mo_stream mo) (rawStatus info) reason finalAd True
          | Some ts \<Rightarrow>
              (case uploadOutput (re_net e) (re_fs_end e) L ts jobAd (re_stdio e) of
                 Inr plan \<Rightarrow> Uploading # Rpc (mo_stream mo) (JobTermination finalAd) #
                   finalize L opts (mo_stream mo) (rawStatus info) reason finalAd True
               | Inl err \<Rightarrow>
                   (let failedAd = ad_set ''TransferErrorString'' (AStr err) (ad_set ''TransferOutputFailed'' (ABool True) finalAd)
                    in Uploading # Rpc (mo_stream mo) (JobTermination failedAd) #
                       finalize L opts (mo_stream mo) (rawStatus info) (JobShouldHold (re_codes e)) failedAd True))))"

definition failed_ad :: "string \<Rightarrow> string \<Rightarrow> string \<Rightarrow> ad" where
  "failed_ad flag text err =
     ad_set text (AStr err) (ad_set flag (ABool True) (ad_set ''ExitBySignal'' (ABool False) new_ad))"

text \<open>From \<^verbatim>\<open>begin_execution\<close> on.\<close>

definition execute ::
  "'x classad_api_scheme \<Rightarrow> 'm run_env \<Rightarrow> RunOptions \<Rightarrow> nat \<Rightarrow> commandServer option \<Rightarrow> ActivateMsg \<Rightarrow> ad \<Rightarrow>
     transferState option \<Rightarrow> (string option \<times> run_action list) option" where
  "execute L e opts st srv act jobAd transfer =
     (case re_begin e of
        Some err \<Rightarrow>
          Some (Some (''starter: begin_execution: '' @ err),
                [Rpc st BeginExecution] @ finalize L opts st 0 (JobNotStarted (re_codes e)) new_ad True @ wind_down st srv)
      | None \<Rightarrow>
          (case fst (startJob (re_os e) L jobAd act (o_SlotName opts) (re_overlay e) (re_start e)) of
             Inl err \<Rightarrow>
               Some (None, [Rpc st BeginExecution] @
                 finalize L opts st 0 (JobExecFailed (re_codes e))
                   (failed_ad ''ExecFailed'' ''ExecErrorString'' (re_error_text e err)) True @ wind_down st srv)
           | Inr jp \<Rightarrow>
               map_option (\<lambda>(mo, acts).
                   (None, [Rpc st BeginExecution, StartedJob (jp_pid jp),
                           Ctrl MsgHello (hello e opts (starter_addr srv) (jp_pid jp) ''executing'')] @
                      acts @ finish_job L e opts jobAd jp mo @ map Signal (killGroup jp) @ wind_down (mo_stream mo) srv))
                 (mon_loop e opts (starter_addr srv) jp (re_events e)
                   \<lparr>mo_vacated = False, mo_stream = st, mo_transfer = transfer\<rparr>)))"

text \<open>After the session information: the reconnect session and the input transfer.\<close>

definition after_session ::
  "'x classad_api_scheme \<Rightarrow> 'm run_env \<Rightarrow> RunOptions \<Rightarrow> nat \<Rightarrow> commandServer option \<Rightarrow> ActivateMsg \<Rightarrow> ad \<Rightarrow>
     SecSessionInfo option \<Rightarrow> (string option \<times> run_action list) option" where
  "after_session L e opts st srv act jobAd sec =
     (case transfer_input L e jobAd (am_SandboxDir act) sec of
        (Inl err, acts) \<Rightarrow>
          Some (None, acts @ finalize L opts st 0 (JobNotStarted (re_codes e))
                        (failed_ad ''TransferInputFailed'' ''TransferErrorString'' err) True @ wind_down st srv)
      | (Inr transfer, acts) \<Rightarrow>
          map_option (\<lambda>(r, acts'). (r, acts @ acts'))
            (execute L e opts st (register_session e sec srv) act
               (if shouldTransfer L jobAd then sandbox_cmd L e jobAd (am_SandboxDir act) transfer else jobAd) transfer))"

text \<open>The registration of the starter and the session information.\<close>

definition handshake_shadow ::
  "'x classad_api_scheme \<Rightarrow> 'm run_env \<Rightarrow> RunOptions \<Rightarrow> nat \<Rightarrow> commandServer option \<Rightarrow> ActivateMsg \<Rightarrow> ad \<Rightarrow>
     (string option \<times> run_action list) option" where
  "handshake_shadow L e opts st srv act jobAd =
     (let reg = Rpc st (RegisterStarterInfo (starter_ad opts act (starter_addr srv)));
          fail = finalize L opts st 0 (JobNotStarted (re_codes e)) new_ad True @ wind_down st srv
      in case re_starter_info e of
           Some err \<Rightarrow> Some (Some (''starter: register_starter_info: '' @ err), [reg] @ fail)
         | None \<Rightarrow>
             (let go_on = (\<lambda>sec. map_option (\<lambda>(r, acts). (r, [reg, Rpc st GetSecSessionInfo] @ acts))
                             (after_session L e opts st srv act jobAd sec))
              in case re_sec e of
                   SecBroken err \<Rightarrow>
                     Some (Some (''starter: get_sec_session_info: '' @ err), [reg, Rpc st GetSecSessionInfo] @ fail)
                 | SecDeclined \<Rightarrow> go_on None
                 | SecInfo s \<Rightarrow> go_on (Some s)))"

text \<open>The run when every wait ends.\<close>

definition run_answered :: "'x classad_api_scheme \<Rightarrow> 'm run_env \<Rightarrow> RunOptions \<Rightarrow> (string option \<times> run_action list) option" where
  "run_answered L e opts =
     (case await_activate L (re_first e) of
        Inl err \<Rightarrow> Some (Some err, [ClosedTransport])
      | Inr act \<Rightarrow>
          (case re_syscall e of
             Inl err \<Rightarrow> Some (Some (''starter: receiving syscall conn: '' @ err), [ClosedTransport])
           | Inr st \<Rightarrow>
               (let srv = command_server e opts
                in case getJobInfoWithSecrets (re_codec e) L (re_put e) (re_flush e) (re_reply e) of
                     Inl err \<Rightarrow>
                       Some (Some (''starter: get_job_info: '' @ err),
                             [Rpc st GetJobInfo] @ finalize L opts st 0 (JobNotStarted (re_codes e)) new_ad False @ wind_down st srv)
                   | Inr jobAd \<Rightarrow>
                       map_option (\<lambda>(r, acts).
                           (r, [Rpc st GetJobInfo, Ctrl MsgHello (hello e opts (starter_addr srv) 0 ''activated'')] @ acts))
                         (handshake_shadow L e opts st srv act jobAd))))"

text \<open>
  The actions that wait for the other side: \<^verbatim>\<open>job_exit\<close> and the last two messages are sent with a deadline of ten seconds, everything else on
  the context of the run.
\<close>

fun may_block :: "run_action \<Rightarrow> bool" where
  "may_block (Rpc st (JobExit status reason ad)) \<longleftrightarrow> False"
| "may_block (Rpc st c) \<longleftrightarrow> True"
| "may_block (Ctrl t ad) \<longleftrightarrow> t \<noteq> MsgFinal \<and> t \<noteq> MsgExited"
| "may_block Downloading \<longleftrightarrow> True"
| "may_block Uploading \<longleftrightarrow> True"
| "may_block _ \<longleftrightarrow> False"

definition blocked :: "'m run_env \<Rightarrow> run_action list \<Rightarrow> bool" where
  "blocked e acts = list_ex (\<lambda>(i, a). may_block a \<and> re_blocked e (ForAction i a)) (List.enumerate 0 acts)"

definition Run :: "'x classad_api_scheme \<Rightarrow> 'm run_env \<Rightarrow> RunOptions \<Rightarrow> (string option \<times> run_action list) option" where
  "Run L e opts =
     (if re_blocked e ForActivate \<or> (\<not> isl (await_activate L (re_first e)) \<and> re_blocked e ForSyscall) then None
      else case run_answered L e opts of
        None \<Rightarrow> None
      | Some (r, acts) \<Rightarrow> if blocked e acts then None else Some (r, acts))"

definition never_blocked :: "'m run_env \<Rightarrow> bool" where
  "never_blocked e \<longleftrightarrow> (\<forall>p. \<not> re_blocked e p)"

lemma Run_answered: "Run L e opts = Some (r, acts) \<Longrightarrow> run_answered L e opts = Some (r, acts)"
  by (auto simp: Run_def split: if_splits option.splits)

lemma Run_unblocked: "never_blocked e \<Longrightarrow> Run L e opts = run_answered L e opts"
  by (auto simp: Run_def never_blocked_def blocked_def list_ex_iff split: option.split)

section \<open>The two shapes of a run\<close>

text \<open>The actions before the job is started, on the connection \<open>st\<close>.\<close>

fun early :: "nat \<Rightarrow> run_action \<Rightarrow> bool" where
  "early st (Rpc s c) \<longleftrightarrow> s = st \<and>
     (c = GetJobInfo \<or> (\<exists>ad. c = RegisterStarterInfo ad) \<or> c = GetSecSessionInfo \<or> c = BeginExecution)"
| "early st (Ctrl t ad) \<longleftrightarrow> t = MsgHello"
| "early st Downloading \<longleftrightarrow> True"
| "early st _ \<longleftrightarrow> False"

text \<open>A run whose job was not started: early actions, the report, the deferred calls.\<close>

definition unstarted :: "'x classad_api_scheme \<Rightarrow> 'm run_env \<Rightarrow> RunOptions \<Rightarrow> nat \<Rightarrow> run_action list \<Rightarrow> bool" where
  "unstarted L e opts st acts \<longleftrightarrow>
     (\<exists>pre reason ad je srv. acts = pre @ finalize L opts st 0 reason ad je @ wind_down st srv \<and>
        list_all (early st) pre \<and> reason \<in> {JobNotStarted (re_codes e), JobExecFailed (re_codes e)})"

text \<open>A run whose job was started and has ended.\<close>

definition started_as ::
  "'x classad_api_scheme \<Rightarrow> 'm run_env \<Rightarrow> RunOptions \<Rightarrow> nat \<Rightarrow> run_action list \<Rightarrow> run_action list \<Rightarrow> ad \<Rightarrow> jobProcess \<Rightarrow>
     commandServer option \<Rightarrow> transferState option \<Rightarrow> monitor \<Rightarrow> run_action list \<Rightarrow> bool" where
  "started_as L e opts st acts pre jobAd jp srv transfer mo macts \<longleftrightarrow>
     acts = pre @ [StartedJob (jp_pid jp), Ctrl MsgHello (hello e opts (starter_addr srv) (jp_pid jp) ''executing'')] @
       macts @ finish_job L e opts jobAd jp mo @ map Signal (killGroup jp) @ wind_down (mo_stream mo) srv \<and>
     list_all (early st) pre \<and> jp_pgid jp = jp_pid jp \<and>
     mon_loop e opts (starter_addr srv) jp (re_events e) \<lparr>mo_vacated = False, mo_stream = st, mo_transfer = transfer\<rparr> = Some (mo, macts)"

definition started :: "'x classad_api_scheme \<Rightarrow> 'm run_env \<Rightarrow> RunOptions \<Rightarrow> nat \<Rightarrow> run_action list \<Rightarrow> bool" where
  "started L e opts st acts \<longleftrightarrow>
     (\<exists>pre jobAd jp srv transfer mo macts. started_as L e opts st acts pre jobAd jp srv transfer mo macts)"

definition run_shape :: "'x classad_api_scheme \<Rightarrow> 'm run_env \<Rightarrow> RunOptions \<Rightarrow> nat \<Rightarrow> run_action list \<Rightarrow> bool" where
  "run_shape L e opts st acts \<longleftrightarrow> unstarted L e opts st acts \<or> started L e opts st acts"

lemma unstartedI:
  "list_all (early st) pre \<Longrightarrow> reason \<in> {JobNotStarted (re_codes e), JobExecFailed (re_codes e)} \<Longrightarrow>
     run_shape L e opts st (pre @ finalize L opts st 0 reason ad je @ wind_down st srv)"
  unfolding run_shape_def unstarted_def by blast

lemma startedI: "started_as L e opts st acts pre jobAd jp srv transfer mo macts \<Longrightarrow> run_shape L e opts st acts"
  unfolding run_shape_def started_def by blast

lemma shape_prefix:
  assumes "list_all (early st) pre" "run_shape L e opts st acts"
  shows "run_shape L e opts st (pre @ acts)"
  using assms(2) unfolding run_shape_def
proof
  assume "unstarted L e opts st acts"
  then show "unstarted L e opts st (pre @ acts) \<or> started L e opts st (pre @ acts)" using assms(1) unfolding unstarted_def by (metis append.assoc list_all_append)
next
  assume "started L e opts st acts"
  then obtain pre' jobAd jp srv transfer mo macts where "started_as L e opts st acts pre' jobAd jp srv transfer mo macts"
    unfolding started_def by blast
  then have "started_as L e opts st (pre @ acts) (pre @ pre') jobAd jp srv transfer mo macts"
    using assms(1) by (simp add: started_as_def)
  then show "unstarted L e opts st (pre @ acts) \<or> started L e opts st (pre @ acts)" unfolding started_def by blast
qed

lemma execute_shape:
  assumes "execute L e opts st srv act jobAd transfer = Some (r, acts)"
  shows "run_shape L e opts st acts"
proof (cases "re_begin e")
  case (Some err)
  then show ?thesis
    using assms unstartedI [of st "[Rpc st BeginExecution]" "JobNotStarted (re_codes e)" e L opts new_ad True srv]
    by (simp add: execute_def)
next
  case None
  obtain res tr where sj: "startJob (re_os e) L jobAd act (o_SlotName opts) (re_overlay e) (re_start e) = (res, tr)"
    by (cases "startJob (re_os e) L jobAd act (o_SlotName opts) (re_overlay e) (re_start e)")
  show ?thesis
  proof (cases res)
    case (Inl err)
    then show ?thesis
      using assms None sj unstartedI [of st "[Rpc st BeginExecution]" "JobExecFailed (re_codes e)" e L opts
          "failed_ad ''ExecFailed'' ''ExecErrorString'' (re_error_text e err)" True srv]
      by (simp add: execute_def)
  next
    case (Inr jp)
    then have "jp_pgid jp = jp_pid jp" using sj startJob_started(4) by metis
    with assms None sj Inr have "\<exists>mo macts. started_as L e opts st acts [Rpc st BeginExecution] jobAd jp srv transfer mo macts"
      by (auto simp: execute_def started_as_def)
    then show ?thesis using startedI by blast
  qed
qed

lemma transfer_input_early: "transfer_input L e jobAd sandbox sec = (r, acts) \<Longrightarrow> list_all (early st) acts"
  by (auto simp: transfer_input_def split: if_splits sum.splits option.splits)

lemma after_session_shape:
  assumes "after_session L e opts st srv act jobAd sec = Some (r, acts)"
  shows "run_shape L e opts st acts"
proof -
  obtain res ta where t: "transfer_input L e jobAd (am_SandboxDir act) sec = (res, ta)"
    by (cases "transfer_input L e jobAd (am_SandboxDir act) sec")
  have "list_all (early st) ta" using transfer_input_early [OF t] .
  then show ?thesis
    using assms t by (cases res) (auto simp: after_session_def intro: unstartedI shape_prefix execute_shape)
qed

lemma handshake_cases:
  assumes "handshake_shadow L e opts st srv act jobAd = Some (r, acts)"
  obtains (failed) pre where "acts = pre @ finalize L opts st 0 (JobNotStarted (re_codes e)) new_ad True @ wind_down st srv"
      "pre \<in> {[Rpc st (RegisterStarterInfo (starter_ad opts act (starter_addr srv)))],
             [Rpc st (RegisterStarterInfo (starter_ad opts act (starter_addr srv))), Rpc st GetSecSessionInfo]}"
    | (going_on) sec acts' where "after_session L e opts st srv act jobAd sec = Some (r, acts')"
      "acts = [Rpc st (RegisterStarterInfo (starter_ad opts act (starter_addr srv))), Rpc st GetSecSessionInfo] @ acts'"
proof (cases "re_starter_info e")
  case None
  then show ?thesis using assms that by (cases "re_sec e") (auto simp: handshake_shadow_def Let_def)
qed (use assms that(1) in \<open>auto simp: handshake_shadow_def Let_def\<close>)

lemma handshake_shape:
  assumes "handshake_shadow L e opts st srv act jobAd = Some (r, acts)"
  shows "run_shape L e opts st acts"
  using assms
proof (cases rule: handshake_cases)
  case (failed pre)
  then show ?thesis by (auto intro!: unstartedI)
next
  case (going_on sec acts')
  show ?thesis unfolding going_on(2) by (rule shape_prefix [OF _ after_session_shape [OF going_on(1)]]) simp
qed

lemma run_shapes:
  assumes "Run L e opts = Some (r, acts)" "await_activate L (re_first e) = Inr act" "re_syscall e = Inr st"
  shows "run_shape L e opts st acts"
proof (cases "getJobInfoWithSecrets (re_codec e) L (re_put e) (re_flush e) (re_reply e)")
  case (Inl err)
  then show ?thesis
    using assms Run_answered [OF assms(1)] unstartedI [of st "[Rpc st GetJobInfo]" "JobNotStarted (re_codes e)" e L opts new_ad False "command_server e opts"]
    by (simp add: run_answered_def Let_def)
next
  case (Inr jobAd)
  then obtain acts' where a: "acts = [Rpc st GetJobInfo, Ctrl MsgHello (hello e opts (starter_addr (command_server e opts)) 0 ''activated'')] @ acts'"
    and h: "handshake_shadow L e opts st (command_server e opts) act jobAd = Some (r, acts')"
    using assms Run_answered [OF assms(1)] by (auto simp: run_answered_def Let_def)
  show ?thesis unfolding a by (rule shape_prefix [OF _ handshake_shape [OF h]]) simp
qed

lemma run_cases:
  assumes "Run L e opts = Some (r, acts)" "await_activate L (re_first e) = Inr act" "re_syscall e = Inr st"
  obtains (unstarted) pre reason ad je srv where "acts = pre @ finalize L opts st 0 reason ad je @ wind_down st srv"
      "list_all (early st) pre" "reason \<in> {JobNotStarted (re_codes e), JobExecFailed (re_codes e)}"
    | (started) pre jobAd jp srv transfer mo macts where
      "acts = pre @ [StartedJob (jp_pid jp), Ctrl MsgHello (hello e opts (starter_addr srv) (jp_pid jp) ''executing'')] @
         macts @ finish_job L e opts jobAd jp mo @ map Signal (killGroup jp) @ wind_down (mo_stream mo) srv"
      "list_all (early st) pre" "jp_pgid jp = jp_pid jp"
      "mon_loop e opts (starter_addr srv) jp (re_events e) \<lparr>mo_vacated = False, mo_stream = st, mo_transfer = transfer\<rparr> = Some (mo, macts)"
  using run_shapes [OF assms] unfolding run_shape_def unstarted_def started_def started_as_def by blast

section \<open>Everybody is told once\<close>

text \<open>The actions of the final report.\<close>

fun reporting :: "run_action \<Rightarrow> bool" where
  "reporting (Ctrl t ad) \<longleftrightarrow> t = MsgFinal \<or> t = MsgExited"
| "reporting (Rpc st (JobExit status reason ad)) \<longleftrightarrow> True"
| "reporting (FinalCallback status reason ad) \<longleftrightarrow> True"
| "reporting _ \<longleftrightarrow> False"

lemma msg_quiet [simp]:
  "MsgHello \<noteq> MsgFinal" "MsgHello \<noteq> MsgExited" "MsgUpdate \<noteq> MsgFinal" "MsgUpdate \<noteq> MsgExited"
  by (simp_all add: msg_defs)

lemma early_quiet: "early st a \<Longrightarrow> \<not> reporting a"
  by (cases a) auto

lemma early_all_quiet: "list_all (early st) pre \<Longrightarrow> filter reporting pre = []"
  by (auto simp: list_all_iff filter_empty_conv early_quiet)

lemma quiet_parts [simp]:
  "filter reporting (map Signal sigs) = []" "filter reporting (wind_down st srv) = []"
  by (auto simp: wind_down_def filter_empty_conv split: option.split)

text \<open>What every action of a round satisfies, every action of the loop does.\<close>

lemma mon_loop_all:
  assumes "\<And>ev mo fin mo' acts. mon_step e opts addr jp ev mo = (fin, mo', acts) \<Longrightarrow> \<forall>a \<in> set acts. Q a"
    and "mon_loop e opts addr jp evs mo = Some (mo', acts)"
  shows "\<forall>a \<in> set acts. Q a"
  using assms(2)
proof (induction evs arbitrary: mo acts)
  case (Cons ev evs)
  obtain fin mo1 acts1 where s: "mon_step e opts addr jp ev mo = (fin, mo1, acts1)" by (cases "mon_step e opts addr jp ev mo")
  with Cons assms(1) [OF s] show ?case by (cases fin) auto
qed simp

lemma mon_step_actions:
  assumes "mon_step e opts addr jp ev mo = (fin, mo', acts)"
  shows "\<forall>a \<in> set acts. \<not> reporting a \<and> a \<noteq> Uploading \<and> (\<forall>pid. a \<noteq> StartedJob pid)"
  using assms by (auto simp: mon_step_def Let_def split: mon_event.splits option.splits if_splits)

lemma mon_loop_actions:
  assumes "mon_loop e opts addr jp evs mo = Some (mo', acts)"
  shows "\<forall>a \<in> set acts. \<not> reporting a \<and> a \<noteq> Uploading \<and> (\<forall>pid. a \<noteq> StartedJob pid)"
  by (rule mon_loop_all [OF _ assms]) (rule mon_step_actions)

lemma mon_loop_quiet: "mon_loop e opts addr jp evs mo = Some (mo', acts) \<Longrightarrow> filter reporting acts = []"
  using mon_loop_actions by (fastforce simp: filter_empty_conv)

definition report :: "'x classad_api_scheme \<Rightarrow> RunOptions \<Rightarrow> int \<Rightarrow> int \<Rightarrow> ad \<Rightarrow> run_action list" where
  "report L opts status reason ad =
     [Ctrl MsgFinal (MarshalFinal L (Some ad) status reason), Ctrl MsgExited new_ad] @
     (if o_OnFinal opts then [FinalCallback status reason ad] else [])"

lemma finalize_reports: "filter reporting (finalize L opts st status reason ad je) =
    (if je then [Rpc st (JobExit status reason ad)] else []) @ report L opts status reason ad"
  by (simp add: finalize_def report_def)

lemma finish_job_reports: "\<exists>reason ad. filter reporting (finish_job L e opts jobAd jp mo) =
    Rpc (mo_stream mo) (JobExit (rawStatus (inspectWait (re_wait e))) reason ad) #
      report L opts (rawStatus (inspectWait (re_wait e))) reason ad"
  unfolding finish_job_def Let_def by (auto simp: finalize_reports split: option.split sum.split)

lemma run_report:
  assumes "Run L e opts = Some (r, acts)" "await_activate L (re_first e) = Inr act" "re_syscall e = Inr st"
  shows "\<exists>s status reason ad. filter reporting acts \<in>
    {report L opts status reason ad, Rpc s (JobExit status reason ad) # report L opts status reason ad}"
  using assms
proof (cases rule: run_cases)
  case (unstarted pre reason ad je srv)
  then show ?thesis by (cases je) (auto simp: early_all_quiet finalize_reports)
next
  case (started pre jobAd jp srv transfer mo macts)
  then have "filter reporting acts = filter reporting (finish_job L e opts jobAd jp mo)"
    using early_all_quiet mon_loop_quiet by simp
  then show ?thesis using finish_job_reports [of L e opts jobAd jp mo] by auto
qed

text \<open>
  C8. Whatever goes wrong, the startd and the shadow are told exactly once: every run that got its
  activation and its syscall connection contains one final report, with the same status, reason and ad for
  everybody: at most one \<^verbatim>\<open>job_exit\<close> to the shadow, then one \<open>Final\<close> and one \<open>Exited\<close> message to the
  startd, then the callback if there is one; and nothing of it before or after.
\<close>

theorem run_reports_once:
  assumes "Run L e opts = Some (r, acts)" "await_activate L (re_first e) = Inr act" "re_syscall e = Inr st"
  shows "\<exists>s status reason ad. filter reporting acts \<in>
    {report L opts status reason ad, Rpc s (JobExit status reason ad) # report L opts status reason ad}"
  using assms by (rule run_report)

section \<open>The job does not outlive the run\<close>

fun signalling :: "run_action \<Rightarrow> bool" where
  "signalling (Signal s) \<longleftrightarrow> True"
| "signalling (StartedJob pid) \<longleftrightarrow> True"
| "signalling _ \<longleftrightarrow> False"

lemma early_unsignalled: "list_all (early st) pre \<Longrightarrow> filter signalling pre = []"
proof -
  have "early st a \<Longrightarrow> \<not> signalling a" for a by (cases a) auto
  then show "list_all (early st) pre \<Longrightarrow> ?thesis" by (auto simp: list_all_iff filter_empty_conv)
qed

lemma unsignalled_parts [simp]:
  "filter signalling (wind_down st srv) = []" "filter signalling (finalize L opts st status reason ad je) = []"
  by (auto simp: wind_down_def finalize_def split: option.split)

lemma job_killed:
  assumes "Run L e opts = Some (r, acts)" "await_activate L (re_first e) = Inr act" "re_syscall e = Inr st"
    and "StartedJob pid \<in> set acts" "pid > 0"
  shows "\<exists>mid. filter signalling acts = StartedJob pid # mid @ [Signal (- pid, SIGKILL)] \<and> (\<forall>q. StartedJob q \<notin> set mid)"
  using assms(1-3)
proof (cases rule: run_cases)
  case (unstarted pre reason ad je srv)
  then have "filter signalling acts = []" by (simp add: early_unsignalled)
  then show ?thesis using assms(4) by (auto simp: filter_empty_conv)
next
  case (started pre jobAd jp srv transfer mo macts)
  let ?fin = "finish_job L e opts jobAd jp mo"
  have sh: "filter signalling acts = StartedJob (jp_pid jp) # filter signalling (macts @ ?fin) @ filter signalling (map Signal (killGroup jp))"
    using started(1) early_unsignalled [OF started(2)] by simp
  have "StartedJob q \<notin> set macts" for q using mon_loop_actions [OF started(4)] by blast
  moreover have "StartedJob q \<notin> set ?fin" for q
    by (auto simp: finish_job_def finalize_def Let_def split: option.split sum.split)
  ultimately have none: "StartedJob q \<notin> set (filter signalling (macts @ ?fin))" for q by simp
  have "StartedJob pid \<in> set (filter signalling acts)" using assms(4) by simp
  then have p: "jp_pid jp = pid" unfolding sh using none by auto
  then have "filter signalling (map Signal (killGroup jp)) = [Signal (- pid, SIGKILL)]"
    using started assms(5) by (simp add: killGroup_def signal_group_def)
  then show ?thesis using sh none p by (intro exI [of _ "filter signalling (macts @ ?fin)"]) simp
qed

text \<open>
  C10. No job outlives its run: a run starts at most one job, and when it has started one, the last
  signal it sends, after everything else it did to the job, kills the job's whole process group.
\<close>

theorem job_killed_at_end:
  assumes "Run L e opts = Some (r, acts)" "await_activate L (re_first e) = Inr act" "re_syscall e = Inr st"
    and "StartedJob pid \<in> set acts" "pid > 0"
  shows "\<exists>mid. filter signalling acts = StartedJob pid # mid @ [Signal (- pid, SIGKILL)] \<and> (\<forall>q. StartedJob q \<notin> set mid)"
  using assms by (rule job_killed)

section \<open>When a run ends, and how\<close>

fun ends :: "mon_event \<Rightarrow> bool" where
  "ends RunCancelled \<longleftrightarrow> True"
| "ends CtrlGone \<longleftrightarrow> True"
| "ends JobReaped \<longleftrightarrow> True"
| "ends _ \<longleftrightarrow> False"

fun vacate_event :: "mon_event \<Rightarrow> bool" where
  "vacate_event RunCancelled \<longleftrightarrow> True"
| "vacate_event CtrlGone \<longleftrightarrow> True"
| "vacate_event (CtrlMsg t ad) \<longleftrightarrow> t = MsgVacateHard \<or> t = MsgVacateSoft"
| "vacate_event _ \<longleftrightarrow> False"

text \<open>The events a run processes: up to the first that ends the wait.\<close>

fun upto_end :: "mon_event list \<Rightarrow> mon_event list" where
  "upto_end [] = []"
| "upto_end (ev # evs) = (if ends ev then [ev] else ev # upto_end evs)"

lemma mon_step_ends: "fst (mon_step e opts addr jp ev mo) \<longleftrightarrow> ends ev"
  by (cases ev) (auto simp: mon_step_def Let_def split: option.split)

lemma mon_loop_Cons:
  "mon_loop e opts addr jp (ev # evs) mo =
     (let (fin, mo', acts) = mon_step e opts addr jp ev mo
      in if ends ev then Some (mo', acts)
         else map_option (\<lambda>(mo'', acts'). (mo'', acts @ acts')) (mon_loop e opts addr jp evs mo'))"
  using mon_step_ends [of e opts addr jp ev mo] by (auto split: prod.split bool.split)

lemma mon_loop_ends: "(\<exists>r. mon_loop e opts addr jp evs mo = Some r) \<longleftrightarrow> (\<exists>ev \<in> set evs. ends ev)"
  by (induction evs arbitrary: mo) (auto simp: mon_loop_Cons simp del: mon_loop.simps(2) split: prod.splits)

text \<open>A run with other events goes the same way until the job is supervised.\<close>

lemma events_frame [simp]:
  "transfer_input L (e\<lparr>re_events := evs\<rparr>) = transfer_input L e" "sandbox_cmd L (e\<lparr>re_events := evs\<rparr>) = sandbox_cmd L e"
  "register_session (e\<lparr>re_events := evs\<rparr>) = register_session e" "command_server (e\<lparr>re_events := evs\<rparr>) = command_server e"
  by (simp_all add: fun_eq_iff transfer_input_def sandbox_cmd_def register_session_def command_server_def split: sum.split option.split)

lemma execute_waits:
  assumes "execute L e opts st srv act jobAd transfer = None"
  shows "(\<forall>ev \<in> set (re_events e). \<not> ends ev) \<and>
    ((\<exists>ev \<in> set evs. ends ev) \<longrightarrow>
      (\<exists>pid acts. execute L (e\<lparr>re_events := evs\<rparr>) opts st srv act jobAd transfer = Some (None, acts) \<and> StartedJob pid \<in> set acts))"
proof -
  let ?mo = "\<lparr>mo_vacated = False, mo_stream = st, mo_transfer = transfer\<rparr>"
  have b: "re_begin e = None" using assms by (cases "re_begin e") (simp_all add: execute_def)
  obtain jp where jp: "fst (startJob (re_os e) L jobAd act (o_SlotName opts) (re_overlay e) (re_start e)) = Inr jp"
    using assms b by (cases "fst (startJob (re_os e) L jobAd act (o_SlotName opts) (re_overlay e) (re_start e))") (simp_all add: execute_def)
  have m: "mon_loop e opts (starter_addr srv) jp (re_events e) ?mo = None" using assms b jp by (simp add: execute_def)
  have "\<exists>pid acts. execute L (e\<lparr>re_events := evs\<rparr>) opts st srv act jobAd transfer = Some (None, acts) \<and> StartedJob pid \<in> set acts"
    if ending: "\<exists>ev \<in> set evs. ends ev"
  proof -
    obtain x where "mon_loop (e\<lparr>re_events := evs\<rparr>) opts (starter_addr srv) jp evs ?mo = Some x"
      using iffD2 [OF mon_loop_ends ending] by blast
    then obtain mo macts where "mon_loop (e\<lparr>re_events := evs\<rparr>) opts (starter_addr srv) jp evs ?mo = Some (mo, macts)"
      by (cases x) simp
    then show ?thesis using b jp by (intro exI [of _ "jp_pid jp"]) (simp add: execute_def)
  qed
  moreover have "\<not> (\<exists>r. mon_loop e opts (starter_addr srv) jp (re_events e) ?mo = Some r)" using m by simp
  then have "\<forall>ev \<in> set (re_events e). \<not> ends ev" unfolding mon_loop_ends by blast
  ultimately show ?thesis by blast
qed

lemma run_waits:
  assumes "run_answered L e opts = None"
  shows "(\<forall>ev \<in> set (re_events e). \<not> ends ev) \<and>
    ((\<exists>ev \<in> set evs. ends ev) \<longrightarrow>
      (\<exists>pid acts. run_answered L (e\<lparr>re_events := evs\<rparr>) opts = Some (None, acts) \<and> StartedJob pid \<in> set acts))"
proof -
  obtain act where act: "await_activate L (re_first e) = Inr act"
    using assms by (cases "await_activate L (re_first e)") (simp_all add: run_answered_def)
  obtain st where st: "re_syscall e = Inr st" using assms act by (cases "re_syscall e") (simp_all add: run_answered_def)
  obtain jobAd where job: "getJobInfoWithSecrets (re_codec e) L (re_put e) (re_flush e) (re_reply e) = Inr jobAd"
    using assms act st by (cases "getJobInfoWithSecrets (re_codec e) L (re_put e) (re_flush e) (re_reply e)") (simp_all add: run_answered_def Let_def)
  have hs: "handshake_shadow L e opts st (command_server e opts) act jobAd = None" using assms act st job by (simp add: run_answered_def Let_def)
  then have reg: "re_starter_info e = None" by (cases "re_starter_info e") (simp_all add: handshake_shadow_def Let_def)
  obtain sec where sec: "re_sec e = (case sec of None \<Rightarrow> SecDeclined | Some s \<Rightarrow> SecInfo s)"
  proof (cases "re_sec e")
    case SecDeclined
    then show thesis by (intro that [of None]) simp
  next
    case (SecInfo s)
    then show thesis by (intro that [of "Some s"]) simp
  qed (use hs reg in \<open>simp add: handshake_shadow_def Let_def\<close>)
  have go: "handshake_shadow L e' opts st (command_server e opts) act jobAd =
      map_option (\<lambda>(r, acts). (r, [Rpc st (RegisterStarterInfo (starter_ad opts act (starter_addr (command_server e opts)))), Rpc st GetSecSessionInfo] @ acts))
        (after_session L e' opts st (command_server e opts) act jobAd sec)"
    if "re_starter_info e' = re_starter_info e" "re_sec e' = re_sec e" for e'
    using that reg sec by (cases sec) (simp_all add: handshake_shadow_def Let_def)
  have as: "after_session L e opts st (command_server e opts) act jobAd sec = None" using hs go [of e] by simp
  obtain transfer acts where t: "transfer_input L e jobAd (am_SandboxDir act) sec = (Inr transfer, acts)"
  proof (cases "transfer_input L e jobAd (am_SandboxDir act) sec")
    case (Pair x acts)
    then show thesis using as that by (cases x) (simp_all add: after_session_def)
  qed
  let ?job = "if shouldTransfer L jobAd then sandbox_cmd L e jobAd (am_SandboxDir act) transfer else jobAd"
  have ex: "execute L e opts st (register_session e sec (command_server e opts)) act ?job transfer = None"
    using as t by (simp add: after_session_def)
  let ?e = "e\<lparr>re_events := evs\<rparr>"
  have "run_answered L ?e opts = Some (None, [Rpc st GetJobInfo, Ctrl MsgHello (hello ?e opts (starter_addr (command_server e opts)) 0 ''activated''),
      Rpc st (RegisterStarterInfo (starter_ad opts act (starter_addr (command_server e opts)))), Rpc st GetSecSessionInfo] @ acts @ xs)"
    if "execute L ?e opts st (register_session e sec (command_server e opts)) act ?job transfer = Some (None, xs)" for xs
    using that act st job go [of ?e] t by (cases "shouldTransfer L jobAd") (simp_all add: run_answered_def after_session_def Let_def)
  then show ?thesis using execute_waits [OF ex, of evs] by fastforce
qed

text \<open>
  C16. A run ends when its job does. Provided that no call to the shadow, no transfer and no message to the startd blocks for ever, and the
  activation and the syscall connection arrive or fail: as soon as the job is reaped, the run is cancelled, or the control
  channel is gone, the run returns; and a run that has not returned has seen none of these and has a job: cancelled now, it would return, having
  started a job and killed its process group.
\<close>

theorem run_returns:
  assumes "never_blocked e"
  shows "((\<exists>ev \<in> set (re_events e). ends ev) \<longrightarrow> (\<exists>r acts. Run L e opts = Some (r, acts))) \<and>
    (Run L e opts = None \<longrightarrow> (\<forall>ev \<in> set (re_events e). \<not> ends ev) \<and>
      (\<exists>pid acts. Run L (e\<lparr>re_events := re_events e @ [RunCancelled]\<rparr>) opts = Some (None, acts) \<and> StartedJob pid \<in> set acts \<and>
         (pid > 0 \<longrightarrow> Signal (- pid, SIGKILL) \<in> set acts)))"
proof -
  let ?e = "e\<lparr>re_events := re_events e @ [RunCancelled]\<rparr>"
  have nb: "never_blocked ?e" using assms by (simp add: never_blocked_def)
  have waits: "(\<forall>ev \<in> set (re_events e). \<not> ends ev) \<and> (\<exists>pid acts. Run L ?e opts = Some (None, acts) \<and> StartedJob pid \<in> set acts)"
    if "Run L e opts = None"
    using run_waits [of L e opts "re_events e @ [RunCancelled]"] that Run_unblocked [OF assms, of L opts] Run_unblocked [OF nb, of L opts] by auto
  have "pid > 0 \<longrightarrow> Signal (- pid, SIGKILL) \<in> set acts" if r: "Run L ?e opts = Some (None, acts)" "StartedJob pid \<in> set acts" for pid acts
  proof -
    have "\<exists>act st. await_activate L (re_first ?e) = Inr act \<and> re_syscall ?e = Inr st"
      using Run_answered [OF r(1)] r(2) by (auto simp: run_answered_def split: sum.splits)
    then obtain act st where "await_activate L (re_first ?e) = Inr act" "re_syscall ?e = Inr st" by blast
    note kill = job_killed [OF r(1) this r(2)]
    show ?thesis
    proof
      assume "pid > 0"
      then obtain mid where "filter signalling acts = StartedJob pid # mid @ [Signal (- pid, SIGKILL)]" using kill by blast
      then have "Signal (- pid, SIGKILL) \<in> set (filter signalling acts)" by simp
      then show "Signal (- pid, SIGKILL) \<in> set acts" by simp
    qed
  qed
  then show ?thesis using waits by (metis not_Some_eq surj_pair)
qed

lemma mon_step_vacated:
  "mon_step e opts addr jp ev mo = (fin, mo', acts) \<Longrightarrow> mo_vacated mo' \<longleftrightarrow> mo_vacated mo \<or> vacate_event ev"
  by (cases ev) (auto simp: mon_step_def Let_def msg_defs split: option.splits if_splits)

lemma mon_loop_vacated:
  "mon_loop e opts addr jp evs mo = Some (mo', acts) \<Longrightarrow>
     mo_vacated mo' \<longleftrightarrow> mo_vacated mo \<or> (\<exists>ev \<in> set (upto_end evs). vacate_event ev)"
proof (induction evs arbitrary: mo acts)
  case (Cons ev evs)
  obtain fin mo1 acts1 where s: "mon_step e opts addr jp ev mo = (fin, mo1, acts1)" by (cases "mon_step e opts addr jp ev mo")
  with Cons mon_step_vacated [OF s] show ?case
    by (auto simp: mon_loop_Cons simp del: mon_loop.simps(2) split: if_splits)
qed simp

text \<open>The one \<^verbatim>\<open>job_exit\<close> of a job that was started, and whether its output was sent.\<close>

definition exit_told :: "'x classad_api_scheme \<Rightarrow> 'm run_env \<Rightarrow> bool \<Rightarrow> int \<Rightarrow> ad \<Rightarrow> run_action list \<Rightarrow> bool" where
  "exit_told L e vacated reason ad acts \<longleftrightarrow>
     (if vacated then reason = JobKilled (re_codes e) \<and> Uploading \<notin> set acts \<and> last_ins ad ''TransferOutputFailed'' = None
      else (\<exists>err ts ja. Uploading \<in> set acts \<and> uploadOutput (re_net e) (re_fs_end e) L ts ja (re_stdio e) = Inl err \<and>
              reason = JobShouldHold (re_codes e) \<and> last_ins ad ''TransferOutputFailed'' = Some (ABool True) \<and>
              last_ins ad ''TransferErrorString'' = Some (AStr err)) \<or>
           reason = (if coreDump (inspectWait (re_wait e)) then JobCoredumped (re_codes e) else JobExited (re_codes e)) \<and>
           last_ins ad ''TransferOutputFailed'' = None \<and>
           (Uploading \<in> set acts \<longrightarrow> (\<exists>ts ja plan. uploadOutput (re_net e) (re_fs_end e) L ts ja (re_stdio e) = Inr plan)))"

lemma exit_told_cong:
  "(Uploading \<in> set acts \<longleftrightarrow> Uploading \<in> set acts') \<Longrightarrow> exit_told L e v reason ad acts = exit_told L e v reason ad acts'"
  by (simp add: exit_told_def)

lemma final_ad_plain: "last_ins (buildFinalAd secs info pid start fin) ''TransferOutputFailed'' = None"
  by (simp add: buildFinalAd_def job_times_def Let_def fold_eval)

lemma finish_job_exit:
  "\<exists>reason ad. Rpc (mo_stream mo) (JobExit (rawStatus (inspectWait (re_wait e))) reason ad) \<in> set (finish_job L e opts jobAd jp mo) \<and>
     exit_told L e (mo_vacated mo) reason ad (finish_job L e opts jobAd jp mo)"
proof -
  let ?info = "inspectWait (re_wait e)" and ?fin = "finish_job L e opts jobAd jp mo"
  let ?ad = "buildFinalAd (re_secs e) ?info (jp_pid jp) (jp_startTime jp) (re_end e)"
  let ?pre = "[ClosedStdio (jp_stdio jp)] @ map Signal (killGroup jp)"
  let ?report = "\<lambda>reason ad. finalize L opts (mo_stream mo) (rawStatus ?info) reason ad True"
  have told: "Rpc (mo_stream mo) (JobExit (rawStatus ?info) reason ad) \<in> set (?report reason ad)" "Uploading \<notin> set (?report reason ad)" for reason ad
    by (simp_all add: finalize_def)
  show ?thesis
  proof (cases "if mo_vacated mo then None else mo_transfer mo")
    case None
    let ?reason = "exit_reason (re_codes e) (mo_vacated mo) ?info"
    have eq: "?fin = ?pre @ ?report ?reason ?ad" using None by (simp add: finish_job_def Let_def)
    then have "exit_told L e (mo_vacated mo) ?reason ?ad ?fin"
      using told(2) [of ?reason ?ad] by (auto simp: exit_told_def exit_reason_def final_ad_plain)
    moreover have "Rpc (mo_stream mo) (JobExit (rawStatus ?info) ?reason ?ad) \<in> set ?fin" using eq told(1) [of ?reason ?ad] by simp
    ultimately show ?thesis by blast
  next
    case (Some ts)
    then have nv: "\<not> mo_vacated mo" "mo_transfer mo = Some ts" by (simp_all split: if_splits)
    show ?thesis
    proof (cases "uploadOutput (re_net e) (re_fs_end e) L ts jobAd (re_stdio e)")
      case (Inl err)
      let ?bad = "ad_set ''TransferErrorString'' (AStr err) (ad_set ''TransferOutputFailed'' (ABool True) ?ad)"
      let ?reason = "JobShouldHold (re_codes e)"
      have eq: "?fin = ?pre @ [Uploading, Rpc (mo_stream mo) (JobTermination ?bad)] @ ?report ?reason ?bad" using nv Inl by (simp add: finish_job_def Let_def)
      have "last_ins ?bad ''TransferOutputFailed'' = Some (ABool True)" "last_ins ?bad ''TransferErrorString'' = Some (AStr err)"
        by (simp_all add: fold_eval)
      then have "exit_told L e (mo_vacated mo) ?reason ?bad ?fin" using nv Inl unfolding exit_told_def by (simp add: eq) blast
      moreover have "Rpc (mo_stream mo) (JobExit (rawStatus ?info) ?reason ?bad) \<in> set ?fin" using eq told(1) [of ?reason ?bad] by simp
      ultimately show ?thesis by blast
    next
      case (Inr plan)
      let ?reason = "exit_reason (re_codes e) (mo_vacated mo) ?info"
      have eq: "?fin = ?pre @ [Uploading, Rpc (mo_stream mo) (JobTermination ?ad)] @ ?report ?reason ?ad" using nv Inr by (simp add: finish_job_def Let_def)
      have "exit_told L e (mo_vacated mo) ?reason ?ad ?fin" using nv Inr unfolding exit_told_def exit_reason_def final_ad_plain by simp blast
      moreover have "Rpc (mo_stream mo) (JobExit (rawStatus ?info) ?reason ?ad) \<in> set ?fin" using eq told(1) [of ?reason ?ad] by simp
      ultimately show ?thesis by blast
    qed
  qed
qed

lemma early_no_upload: "list_all (early st) pre \<Longrightarrow> Uploading \<notin> set pre"
  by (auto simp: list_all_iff)

text \<open>
  C22. The shadow is told how the job ended, with its raw wait status. When, before the job ended, the run was
  cancelled, lost its startd, or was told to vacate gently or hard, no output is transferred and the
  reason is that the job was killed. Otherwise, when the transfer of the output failed, the reason is that the job should be held and the ad carries
  the error of the transfer; and when it did not fail, the reason is that the job dumped core if the wait status says so, and that it exited if not.
\<close>

theorem vacated_job_killed:
  assumes "Run L e opts = Some (r, acts)" "await_activate L (re_first e) = Inr act" "re_syscall e = Inr st"
    and "StartedJob pid \<in> set acts"
  shows "\<exists>s reason ad. Rpc s (JobExit (rawStatus (inspectWait (re_wait e))) reason ad) \<in> set acts \<and>
    (if \<exists>ev \<in> set (upto_end (re_events e)). vacate_event ev
     then reason = JobKilled (re_codes e) \<and> Uploading \<notin> set acts \<and> last_ins ad ''TransferOutputFailed'' = None
     else (\<exists>err ts ja. Uploading \<in> set acts \<and> uploadOutput (re_net e) (re_fs_end e) L ts ja (re_stdio e) = Inl err \<and>
             reason = JobShouldHold (re_codes e) \<and> last_ins ad ''TransferOutputFailed'' = Some (ABool True) \<and>
             last_ins ad ''TransferErrorString'' = Some (AStr err)) \<or>
          reason = (if coreDump (inspectWait (re_wait e)) then JobCoredumped (re_codes e) else JobExited (re_codes e)) \<and>
          last_ins ad ''TransferOutputFailed'' = None \<and>
          (Uploading \<in> set acts \<longrightarrow> (\<exists>ts ja plan. uploadOutput (re_net e) (re_fs_end e) L ts ja (re_stdio e) = Inr plan)))"
  using assms(1-3)
proof (cases rule: run_cases)
  case (unstarted pre reason ad je srv)
  then have "filter signalling acts = []" by (simp add: early_unsignalled)
  then show ?thesis using assms(4) by (auto simp: filter_empty_conv)
next
  case (started pre jobAd jp srv transfer mo macts)
  obtain reason ad where r: "Rpc (mo_stream mo) (JobExit (rawStatus (inspectWait (re_wait e))) reason ad) \<in> set (finish_job L e opts jobAd jp mo)"
    "exit_told L e (mo_vacated mo) reason ad (finish_job L e opts jobAd jp mo)"
    using finish_job_exit by blast
  have v: "mo_vacated mo \<longleftrightarrow> (\<exists>ev \<in> set (upto_end (re_events e)). vacate_event ev)"
    using mon_loop_vacated [OF started(4)] by simp
  have "Uploading \<in> set acts \<longleftrightarrow> Uploading \<in> set (finish_job L e opts jobAd jp mo)"
    using started(1) early_no_upload [OF started(2)] mon_loop_actions [OF started(4)]
    by (auto simp: wind_down_def split: option.splits)
  from exit_told_cong [OF this] have "exit_told L e (\<exists>ev \<in> set (upto_end (re_events e)). vacate_event ev) reason ad acts"
    using r(2) unfolding v by blast
  moreover have "Rpc (mo_stream mo) (JobExit (rawStatus (inspectWait (re_wait e))) reason ad) \<in> set acts" using r(1) started(1) by simp
  ultimately show ?thesis unfolding exit_told_def by blast
qed

section \<open>The syscall connections\<close>

text \<open>The connections that are handed over by a list of events, and the ones a trace closes.\<close>

fun handed_over :: "mon_event list \<Rightarrow> nat list" where
  "handed_over [] = []"
| "handed_over (Reconnected ho w # evs) = ho_stream ho # handed_over evs"
| "handed_over (_ # evs) = handed_over evs"

fun closes :: "run_action list \<Rightarrow> nat list" where
  "closes [] = []"
| "closes (ClosedStream s # acts) = s # closes acts"
| "closes (_ # acts) = closes acts"

text \<open>No call is made on a connection that has been closed, starting from a set of closed ones.\<close>

fun calls_ok :: "nat set \<Rightarrow> run_action list \<Rightarrow> bool" where
  "calls_ok cl [] \<longleftrightarrow> True"
| "calls_ok cl (ClosedStream s # acts) \<longleftrightarrow> calls_ok (insert s cl) acts"
| "calls_ok cl (Rpc s c # acts) \<longleftrightarrow> s \<notin> cl \<and> calls_ok cl acts"
| "calls_ok cl (_ # acts) \<longleftrightarrow> calls_ok cl acts"

lemma closes_append [simp]: "closes (xs @ ys) = closes xs @ closes ys"
  by (induction xs rule: closes.induct) auto

lemma calls_ok_append [simp]: "calls_ok cl (xs @ ys) \<longleftrightarrow> calls_ok cl xs \<and> calls_ok (cl \<union> set (closes xs)) ys"
  by (induction cl xs rule: calls_ok.induct) auto

lemma closes_parts [simp]:
  "closes (finalize L opts st status reason ad je) = []" "closes (wind_down st srv) = [st]" "closes (map Signal sigs) = []"
  "closes (finish_job L e opts jobAd jp mo) = []"
proof -
  show f: "closes (finalize L opts st status reason ad je) = []" for st status reason ad je by (simp add: finalize_def)
  show m: "closes (map Signal sigs) = []" for sigs by (induction sigs) auto
  show "closes (wind_down st srv) = [st]" by (simp add: wind_down_def split: option.split)
  show "closes (finish_job L e opts jobAd jp mo) = []"
    by (auto simp: finish_job_def Let_def f m split: option.split sum.split)
qed

lemma calls_parts:
  "st \<notin> cl \<Longrightarrow> calls_ok cl (finalize L opts st status reason ad je)" "calls_ok cl (wind_down st srv)" "calls_ok cl (map Signal sigs)"
  "mo_stream mo \<notin> cl \<Longrightarrow> calls_ok cl (finish_job L e opts jobAd jp mo)"
proof -
  show f: "st \<notin> cl \<Longrightarrow> calls_ok cl (finalize L opts st status reason ad je)" for st cl status reason ad je by (simp add: finalize_def)
  show m: "calls_ok cl (map Signal sigs)" for cl sigs by (induction sigs) auto
  show "calls_ok cl (wind_down st srv)" by (simp add: wind_down_def split: option.split)
  show "mo_stream mo \<notin> cl \<Longrightarrow> calls_ok cl (finish_job L e opts jobAd jp mo)"
    by (auto simp: finish_job_def Let_def f m split: option.split sum.split)
qed

lemma early_calls: "list_all (early st) pre \<Longrightarrow> st \<notin> cl \<Longrightarrow> calls_ok cl pre \<and> closes pre = []"
proof (induction pre)
  case (Cons a pre)
  then show ?case by (cases a) auto
qed simp

lemma mon_step_streams:
  assumes "mon_step e opts addr jp ev mo = (fin, mo', acts)" "mo_stream mo \<notin> cl"
  shows "calls_ok cl acts"
    "mset (mo_stream mo' # closes acts) = mset (mo_stream mo # handed_over [ev])"
  using assms by (cases ev; auto simp: mon_step_def Let_def calls_parts split: option.splits if_splits)+

lemma mon_loop_streams:
  assumes "mon_loop e opts addr jp evs mo = Some (mo', acts)"
    "distinct (mo_stream mo # handed_over (upto_end evs))" "cl \<inter> set (mo_stream mo # handed_over (upto_end evs)) = {}"
  shows "calls_ok cl acts \<and> mset (mo_stream mo' # closes acts) = mset (mo_stream mo # handed_over (upto_end evs))"
  using assms
proof (induction evs arbitrary: mo acts cl)
  case (Cons ev evs)
  obtain fin mo1 acts1 where s: "mon_step e opts addr jp ev mo = (fin, mo1, acts1)" by (cases "mon_step e opts addr jp ev mo")
  note m = mon_step_streams [OF s, of cl]
  show ?case
  proof (cases "ends ev")
    case True
    then show ?thesis using Cons.prems s m by (simp add: mon_loop_Cons del: mon_loop.simps(2))
  next
    case False
    then obtain acts2 where l: "mon_loop e opts addr jp evs mo1 = Some (mo', acts2)" "acts = acts1 @ acts2"
      using Cons.prems(1) s by (auto simp: mon_loop_Cons simp del: mon_loop.simps(2))
    have h: "handed_over (upto_end (ev # evs)) = handed_over [ev] @ handed_over (upto_end evs)"
      using False by (cases ev) simp_all
    have perm: "mset (mo_stream mo1 # closes acts1) = mset (mo_stream mo # handed_over [ev])"
      using m(2) Cons.prems(3) by auto
    then have all: "mset (mo_stream mo1 # handed_over (upto_end evs)) + mset (closes acts1) =
        mset (mo_stream mo # handed_over (upto_end (ev # evs)))" unfolding h by simp
    then have d: "distinct ((mo_stream mo1 # handed_over (upto_end evs)) @ closes acts1)"
      "set ((mo_stream mo1 # handed_over (upto_end evs)) @ closes acts1) = set (mo_stream mo # handed_over (upto_end (ev # evs)))"
      using Cons.prems(2) by (metis mset_append mset_eq_imp_distinct_iff, metis mset_append mset_eq_setD)
    have dis: "cl \<inter> set ((mo_stream mo1 # handed_over (upto_end evs)) @ closes acts1) = {}"
      using Cons.prems(3) d(2) by (simp only: )
    have r: "calls_ok (cl \<union> set (closes acts1)) acts2 \<and>
        mset (mo_stream mo' # closes acts2) = mset (mo_stream mo1 # handed_over (upto_end evs))"
      using d(1) dis by (intro Cons.IH [OF l(1)]) auto
    have "mset (mo_stream mo' # closes acts) = mset (mo_stream mo' # closes acts2) + mset (closes acts1)"
      by (simp add: l(2))
    also have "\<dots> = mset (mo_stream mo # handed_over (upto_end (ev # evs)))" using r all by (simp only:)
    finally show ?thesis using m(1) r Cons.prems(3) by (simp add: l(2))
  qed
qed simp

text \<open>
  C23. Every connection is used while it is open and closed in the end: when the connection of the
  activation and those of the reconnecting shadows are different ones, no call of a run is made on a
  connection that it has closed, and when it returns it has closed the connection of the activation
  and every one that was handed over to it, each exactly once, accepted or not.
\<close>

theorem run_connections:
  assumes "Run L e opts = Some (r, acts)" "await_activate L (re_first e) = Inr act" "re_syscall e = Inr st"
    and "distinct (st # handed_over (upto_end (re_events e)))"
  shows "calls_ok {} acts \<and>
    mset (closes acts) = mset (st # (if \<exists>pid. StartedJob pid \<in> set acts then handed_over (upto_end (re_events e)) else []))"
  using assms(1-3)
proof (cases rule: run_cases)
  case (unstarted pre reason ad je srv)
  then have "filter signalling acts = []" by (simp add: early_unsignalled)
  then have "\<nexists>pid. StartedJob pid \<in> set acts" by (auto simp: filter_empty_conv)
  then show ?thesis using unstarted early_calls [OF unstarted(2), of "{}"] by (simp add: calls_parts)
next
  case (started pre jobAd jp srv transfer mo macts)
  have m: "calls_ok {} macts \<and> mset (mo_stream mo # closes macts) = mset (st # handed_over (upto_end (re_events e)))"
    using mon_loop_streams [OF started(4), of "{}"] assms(4) by simp
  then have "distinct (mo_stream mo # closes macts)" using assms(4) by (metis mset_eq_imp_distinct_iff)
  moreover have "StartedJob (jp_pid jp) \<in> set acts" using started(1) by simp
  ultimately show ?thesis using m early_calls [OF started(2), of "{}"] by (auto simp: started(1) calls_parts)
qed

section \<open>The order of the protocol\<close>

text \<open>The place of an action in the protocol with the shadow; the other actions have none.\<close>

fun rank :: "run_action \<Rightarrow> nat option" where
  "rank (Rpc s GetJobInfo) = Some 0"
| "rank (Rpc s (RegisterStarterInfo ad)) = Some 1"
| "rank (Rpc s GetSecSessionInfo) = Some 2"
| "rank Downloading = Some 3"
| "rank (Rpc s BeginExecution) = Some 4"
| "rank (StartedJob pid) = Some 5"
| "rank (Rpc s (RegisterJobInfo ad)) = Some 6"
| "rank (ClosedStdio fs) = Some 7"
| "rank Uploading = Some 8"
| "rank (Rpc s (JobTermination ad)) = Some 9"
| "rank (Rpc s (JobExit status reason ad)) = Some 10"
| "rank (Ctrl t ad) = (if t = MsgFinal then Some 11 else if t = MsgExited then Some 12 else None)"
| "rank (FinalCallback status reason ad) = Some 13"
| "rank ClosedServer = Some 14"
| "rank ClosedTransport = Some 15"
| "rank _ = None"

definition ranks :: "run_action list \<Rightarrow> nat list" where
  "ranks acts = List.map_filter rank acts"

lemma ranks_simps [simp]:
  "ranks [] = []" "ranks (a # acts) = (case rank a of None \<Rightarrow> ranks acts | Some n \<Rightarrow> n # ranks acts)"
  "ranks (xs @ ys) = ranks xs @ ranks ys" "ranks (map Signal sigs) = []"
  by (simp_all add: ranks_def map_filter_simps map_filter_def split: option.split)

text \<open>A sequence in order, within bounds.\<close>

definition in_order :: "nat \<Rightarrow> nat \<Rightarrow> run_action list \<Rightarrow> bool" where
  "in_order lo hi acts \<longleftrightarrow> sorted (ranks acts) \<and> (\<forall>n \<in> set (ranks acts). lo \<le> n \<and> n \<le> hi)"

lemma in_order_append:
  "in_order a b xs \<Longrightarrow> in_order c d ys \<Longrightarrow> b \<le> c \<Longrightarrow> a \<le> c \<Longrightarrow> b \<le> d \<Longrightarrow> in_order a d (xs @ ys)"
  by (fastforce simp: in_order_def sorted_append)

lemma in_order_parts:
  "in_order 10 13 (finalize L opts st status reason ad je)" "in_order 14 15 (wind_down st srv)"
  by (simp_all add: in_order_def finalize_def wind_down_def msg_defs split: option.split)

lemma in_order_finish: "in_order 7 13 (finish_job L e opts jobAd jp mo)"
  using in_order_parts(1)
  by (auto simp: finish_job_def in_order_def Let_def split: option.split sum.split) (force+)?

lemma in_order_const: "\<forall>a \<in> set acts. rank a \<in> {None, Some n} \<Longrightarrow> in_order n n acts"
  by (induction acts) (auto simp: in_order_def)

lemma mon_step_rank:
  "mon_step e opts addr jp ev mo = (fin, mo', acts) \<Longrightarrow> \<forall>a \<in> set acts. rank a \<in> {None, Some 6}"
  by (auto simp: mon_step_def Let_def split: mon_event.splits option.splits if_splits)

lemma in_order_mon_loop: "mon_loop e opts addr jp evs mo = Some (mo', acts) \<Longrightarrow> in_order 6 6 acts"
  by (rule in_order_const, rule mon_loop_all [OF mon_step_rank])

lemma in_order_Cons: "rank a = Some n \<Longrightarrow> in_order m k acts \<Longrightarrow> n \<le> m \<Longrightarrow> n \<le> k \<Longrightarrow> in_order n k (a # acts)"
  by (auto simp: in_order_def)

lemma in_order_weaken: "in_order lo hi acts \<Longrightarrow> lo' \<le> lo \<Longrightarrow> hi \<le> hi' \<Longrightarrow> in_order lo' hi' acts"
  by (force simp: in_order_def)

lemma in_order_report: "n \<le> 10 \<Longrightarrow> in_order n 15 (finalize L opts st status reason ad je @ wind_down st' srv)"
  by (rule in_order_weaken [OF in_order_append [OF in_order_parts]]) simp_all

lemma in_order_ended:
  assumes "mon_loop e opts addr jp evs mo = Some (mo', macts)"
  shows "in_order 5 15 (StartedJob pid # Ctrl MsgHello h # macts @ finish_job L e opts jobAd jp mo' @ map Signal sigs @ wind_down st srv)"
proof -
  have "in_order 6 15 (macts @ finish_job L e opts jobAd jp mo' @ wind_down st srv)"
    by (rule in_order_append [OF in_order_mon_loop [OF assms] in_order_append [OF in_order_finish in_order_parts(2)]]) simp_all
  then have "in_order 6 15 (Ctrl MsgHello h # macts @ finish_job L e opts jobAd jp mo' @ map Signal sigs @ wind_down st srv)"
    by (simp add: in_order_def)
  then show ?thesis by (rule in_order_Cons [rotated]) simp_all
qed

lemma execute_in_order: "execute L e opts st srv act jobAd transfer = Some (r, acts) \<Longrightarrow> in_order 4 15 acts"
  by (auto simp: execute_def intro!: in_order_Cons [of _ 4 5] intro: in_order_ended in_order_report split: option.splits sum.splits)

lemma transfer_input_in_order: "transfer_input L e jobAd sandbox sec = (r, acts) \<Longrightarrow> in_order 3 3 acts"
  by (auto simp: transfer_input_def in_order_def split: if_splits sum.splits option.splits)

lemma after_session_in_order:
  assumes "after_session L e opts st srv act jobAd sec = Some (r, acts)"
  shows "in_order 3 15 acts"
proof -
  obtain res ta where t: "transfer_input L e jobAd (am_SandboxDir act) sec = (res, ta)"
    by (cases "transfer_input L e jobAd (am_SandboxDir act) sec")
  then show ?thesis
    using assms in_order_append [OF transfer_input_in_order [OF t] execute_in_order]
      in_order_append [OF transfer_input_in_order [OF t] in_order_report [of 10]]
    by (cases res) (auto simp: after_session_def)
qed

lemma handshake_in_order:
  assumes "handshake_shadow L e opts st srv act jobAd = Some (r, acts)"
  shows "in_order 1 15 acts"
  using assms
proof (cases rule: handshake_cases)
  case (failed pre)
  have "in_order 1 2 pre" using failed(2) by (auto simp: in_order_def)
  then show ?thesis unfolding failed(1) by (rule in_order_append [OF _ in_order_report [of 10]]) simp_all
next
  case (going_on sec acts')
  have "in_order 1 2 [Rpc st (RegisterStarterInfo (starter_ad opts act (starter_addr srv))), Rpc st GetSecSessionInfo]"
    by (simp add: in_order_def)
  then show ?thesis unfolding going_on(2)
    by (rule in_order_append [OF _ after_session_in_order [OF going_on(1)]]) simp_all
qed

text \<open>
  A run keeps to the order of the protocol: the job ad is fetched first, then come the registration
  of the starter, the session information, the transfer of the input, \<^verbatim>\<open>begin_execution\<close>, the start of
  the job, its periodic updates, the transfer of the output, \<^verbatim>\<open>job_termination\<close>, \<^verbatim>\<open>job_exit\<close>, the
  messages \<open>Final\<close> and \<open>Exited\<close>, the callback, and the closing of the command server and the transport;
  whatever is left out on an error path, nothing is out of turn.
\<close>

theorem run_keeps_order:
  assumes "Run L e opts = Some (r, acts)"
  shows "sorted (ranks acts)"
proof -
  consider (none) "acts = [ClosedTransport]"
    | (declined) st where "acts = Rpc st GetJobInfo # finalize L opts st 0 (JobNotStarted (re_codes e)) new_ad False @ wind_down st (command_server e opts)"
    | (told) st act jobAd h acts' where "acts = Rpc st GetJobInfo # Ctrl MsgHello h # acts'"
      "handshake_shadow L e opts st (command_server e opts) act jobAd = Some (r, acts')"
    using Run_answered [OF assms] by (auto simp: run_answered_def Let_def split: sum.splits)
  then show ?thesis
  proof cases
    case (declined st)
    then show ?thesis using in_order_report [of 0 L opts st 0 "JobNotStarted (re_codes e)" new_ad False st "command_server e opts"]
      by (auto simp: in_order_def)
  next
    case (told st act jobAd h acts')
    then show ?thesis using handshake_in_order [OF told(2)] by (auto simp: in_order_def)
  qed simp
qed

section \<open>A run\<close>

definition example_handoff :: reconnectHandoff where
  "example_handoff = \<lparr>ho_stream = 8, transferKey = ''k2'', transferSocket = ''<s:2>'', shadowAddr = ''<s:3>''\<rparr>"

definition example_job_reply :: "wire_item list" where
  "example_job_reply = WInt 0 # wire_form [(False, ''Cmd'', [CHR 0x22] @ ''/bin/sh'' @ [CHR 0x22])] ''Job'' ''Machine''"

definition example_env :: "wire_item list run_env" where
  "example_env =
     \<lparr>re_codes = \<lparr>JobExited = 100, JobCoredumped = 101, JobKilled = 102, JobNotStarted = 108, JobExecFailed = 110, JobShouldHold = 112\<rparr>,
      re_pid = 99, re_first = FirstMsg MsgActivate [(''SandboxDir'', AStr ''/execute/dir_1'')], re_syscall = Inr 7,
      re_listen = (\<lambda>a. Inr ''127.0.0.1:9''), re_codec = list_message, re_put = None, re_flush = None,
      re_reply = example_job_reply, re_starter_info = None, re_sec = SecDeclined, re_import = (\<lambda>s. None),
      re_net = example_net, re_fs = example_fs, re_fs_end = example_fs, re_begin = None, re_os = sample_os,
      re_overlay = [], re_stdio = example_order, re_error_text = (\<lambda>err. ''failed''), re_start = 5,
      re_events = [CtrlMsg MsgVacateSoft new_ad, Reconnected example_handoff (Replied None), JobReaped],
      re_wait = None, re_end = 9, re_secs = (\<lambda>d. Fin d 0), re_blocked = (\<lambda>p. False)\<rparr>"

definition example_options :: RunOptions where
  "example_options = \<lparr>o_SlotName = ''slot1'', o_ClaimID = ''c'', o_UpdateInterval = 0, o_UIDDomain = [], o_FileSystemDomain = [],
     o_OnFinal = True, o_EnableCommandServer = False, o_CommandBindAddr = []\<rparr>"

lemma example_act: "await_activate unquote_api (re_first example_env) = Inr sample_act"
  by code_simp

lemma example_conn: "re_syscall example_env = Inr 7"
  by (simp add: example_env_def)

lemma example_started: "\<exists>acts. Run unquote_api example_env example_options = Some (None, acts) \<and> StartedJob 4711 \<in> set acts"
proof -
  let ?job = "[(''Cmd'', AExpr ([CHR 0x22] @ ''/bin/sh'' @ [CHR 0x22]))]"
  have job: "getJobInfoWithSecrets list_message unquote_api None None example_job_reply = Inr ?job" by code_simp
  have cmd: "str_attr unquote_api ?job ''Cmd'' = ''/bin/sh''" by code_simp
  have tr: "\<not> shouldTransfer unquote_api ?job" by code_simp
  obtain jp where jp: "fst (startJob sample_os unquote_api ?job sample_act ''slot1'' [] 5) = Inr jp" "jp_pid jp = 4711"
    using cmd by (simp add: startJob_def sample_os_def sample_act_def Let_def open_stdio_def openStdio_def)
  have "\<exists>ev \<in> set (re_events example_env). ends ev" by (simp add: example_env_def)
  then obtain mo acts where m: "mon_loop example_env example_options [] jp (re_events example_env)
      \<lparr>mo_vacated = False, mo_stream = 7, mo_transfer = None\<rparr> = Some (mo, acts)"
    using mon_loop_ends [of example_env example_options "[]" jp] by (metis surj_pair)
  have "never_blocked example_env" by (simp add: never_blocked_def example_env_def)
  note Run_unblocked [OF this, of unquote_api example_options]
  moreover have "run_answered unquote_api example_env example_options =
     map_option (\<lambda>(r, acts). (r, [Rpc 7 GetJobInfo, Ctrl MsgHello (hello example_env example_options [] 0 ''activated'')] @ acts))
       (handshake_shadow unquote_api example_env example_options 7 None sample_act ?job)"
    using example_act job by (simp add: run_answered_def command_server_def starter_addr_def example_env_def example_options_def)
  moreover have "\<exists>acts. handshake_shadow unquote_api example_env example_options 7 None sample_act ?job = Some (None, acts) \<and> StartedJob 4711 \<in> set acts"
    using jp m tr
    by (simp add: handshake_shadow_def after_session_def transfer_input_def execute_def register_session_def starter_addr_def
        example_env_def example_options_def)
  ultimately show ?thesis by auto
qed

theorem run_returns_witness: "\<exists>r acts. Run unquote_api example_env example_options = Some (r, acts)"
proof -
  have "never_blocked example_env" by (simp add: never_blocked_def example_env_def)
  moreover have "\<exists>ev \<in> set (re_events example_env). ends ev" by (simp add: example_env_def)
  ultimately show ?thesis using run_returns [of example_env unquote_api example_options] by blast
qed

theorem run_reports_once_witness:
  "\<exists>acts s status reason ad. Run unquote_api example_env example_options = Some (None, acts) \<and>
     filter reporting acts \<in> {report unquote_api example_options status reason ad,
       Rpc s (JobExit status reason ad) # report unquote_api example_options status reason ad}"
proof -
  obtain acts where a: "Run unquote_api example_env example_options = Some (None, acts)" using example_started by blast
  show ?thesis using run_reports_once [OF a example_act example_conn] a by blast
qed

theorem job_killed_at_end_witness:
  "\<exists>acts mid. Run unquote_api example_env example_options = Some (None, acts) \<and>
     filter signalling acts = StartedJob 4711 # mid @ [Signal (- 4711, SIGKILL)]"
proof -
  obtain acts where a: "Run unquote_api example_env example_options = Some (None, acts)" "StartedJob 4711 \<in> set acts"
    using example_started by blast
  show ?thesis using job_killed_at_end [OF a(1) example_act example_conn a(2)] a(1) by auto
qed

theorem vacated_job_killed_witness:
  "\<exists>acts s status ad. Run unquote_api example_env example_options = Some (None, acts) \<and>
     Rpc s (JobExit status 102 ad) \<in> set acts \<and> Uploading \<notin> set acts"
proof -
  obtain acts where a: "Run unquote_api example_env example_options = Some (None, acts)" "StartedJob 4711 \<in> set acts"
    using example_started by blast
  have "\<exists>ev \<in> set (upto_end (re_events example_env)). vacate_event ev" by (simp add: example_env_def)
  moreover have "JobKilled (re_codes example_env) = 102" by (simp add: example_env_def)
  ultimately show ?thesis using vacated_job_killed [OF a(1) example_act example_conn a(2)] a(1) by auto
qed

theorem run_connections_witness:
  "\<exists>acts. Run unquote_api example_env example_options = Some (None, acts) \<and> calls_ok {} acts \<and> mset (closes acts) = {#7, 8#}"
proof -
  obtain acts where a: "Run unquote_api example_env example_options = Some (None, acts)" "StartedJob 4711 \<in> set acts"
    using example_started by blast
  have h: "handed_over (upto_end (re_events example_env)) = [8]" by (simp add: example_env_def example_handoff_def)
  then have "distinct (7 # handed_over (upto_end (re_events example_env)))" by simp
  from run_connections [OF a(1) example_act example_conn this] a h show ?thesis by auto
qed

theorem run_keeps_order_witness:
  "\<exists>acts. Run unquote_api example_env example_options = Some (None, acts) \<and> sorted (ranks acts)"
  using example_started run_keeps_order by blast

end
