(* ===== verification/Base64.thy ===== *)
theory Base64
  imports Prelude
begin

text \<open>
  What the process transport uses of \<^verbatim>\<open>encoding/base64\<close>: the standard encoding with padding, which
  carries the crypto state of a connection inside a ClassAd string. Bytes are characters. Like the
  library, the decoder skips line breaks, wants the padding, and does not look at the unused bits of
  the last quantum.
\<close>

definition b64_alphabet :: string where
  "b64_alphabet = ''ABCDEFGHIJKLMNOPQRSTUVWXYZabcdefghijklmnopqrstuvwxyz0123456789+/''"

definition b64_char :: "nat \<Rightarrow> char" where
  "b64_char n = b64_alphabet ! n"

fun index_from :: "nat \<Rightarrow> char \<Rightarrow> string \<Rightarrow> nat option" where
  "index_from n ch [] = None"
| "index_from n ch (x # xs) = (if x = ch then Some n else index_from (Suc n) ch xs)"

definition b64_value :: "char \<Rightarrow> nat option" where
  "b64_value ch = index_from 0 ch b64_alphabet"

abbreviation byte :: "char \<Rightarrow> nat" where
  "byte ch \<equiv> of_char ch"

fun EncodeToString :: "string \<Rightarrow> string" where
  "EncodeToString [] = []"
| "EncodeToString [a] = [b64_char (byte a div 4), b64_char (byte a mod 4 * 16), CHR ''='', CHR ''='']"
| "EncodeToString [a, b] =
     [b64_char (byte a div 4), b64_char (byte a mod 4 * 16 + byte b div 16), b64_char (byte b mod 16 * 4), CHR ''='']"
| "EncodeToString (a # b # c # rest) =
     b64_char (byte a div 4) # b64_char (byte a mod 4 * 16 + byte b div 16) #
     b64_char (byte b mod 16 * 4 + byte c div 64) # b64_char (byte c mod 64) # EncodeToString rest"

text \<open>The one, two or three bytes of a quantum.\<close>

definition quantum :: "nat \<Rightarrow> nat \<Rightarrow> nat \<Rightarrow> nat \<Rightarrow> string" where
  "quantum v w x y =
     [char_of (v * 4 + w div 16), char_of (w mod 16 * 16 + x div 4), char_of (x mod 4 * 64 + y)]"

fun decode_quanta :: "string \<Rightarrow> string option" where
  "decode_quanta [] = Some []"
| "decode_quanta (a # b # c # d # rest) =
     (case (b64_value a, b64_value b) of
        (Some v, Some w) \<Rightarrow>
          (if c = CHR ''='' then (if d = CHR ''='' \<and> rest = [] then Some (take 1 (quantum v w 0 0)) else None)
           else case b64_value c of
             None \<Rightarrow> None
           | Some x \<Rightarrow>
               (if d = CHR ''='' then (if rest = [] then Some (take 2 (quantum v w x 0)) else None)
                else case b64_value d of
                  None \<Rightarrow> None
                | Some y \<Rightarrow> map_option (\<lambda>t. quantum v w x y @ t) (decode_quanta rest)))
      | _ \<Rightarrow> None)"
| "decode_quanta _ = None"

definition DecodeString :: "string \<Rightarrow> string option" where
  "DecodeString s = decode_quanta (filter (\<lambda>ch. ch \<noteq> CHR 0x0A \<and> ch \<noteq> CHR 0x0D) s)"

section \<open>The round trip\<close>

lemma alphabet_inverse: "list_all (\<lambda>n. b64_value (b64_char n) = Some n) [0..<64]"
  by code_simp

lemma value_char [simp]: "n < 64 \<Longrightarrow> b64_value (b64_char n) = Some n"
  using alphabet_inverse by (simp add: list_all_iff)

lemma alphabet_plain: "list_all (\<lambda>n. b64_char n \<notin> {CHR ''='', CHR 0x0A, CHR 0x0D}) [0..<64]"
  by code_simp

lemma char_plain [simp]:
  "n < 64 \<Longrightarrow> b64_char n \<noteq> CHR ''=''" "n < 64 \<Longrightarrow> b64_char n \<noteq> CHR 0x0A" "n < 64 \<Longrightarrow> b64_char n \<noteq> CHR 0x0D"
  using alphabet_plain by (simp_all add: list_all_iff)

lemma byte_bound [simp]: "byte ch < 256"
  using range_nat_of_char rangeI [of "of_char :: char \<Rightarrow> nat" ch] by simp

lemma byte_parts [simp]: "byte ch div 4 < 64" "byte ch div 16 < 16" "byte ch div 64 < 4"
  by (simp_all add: less_mult_imp_div_less)

lemma digit_bound: "(a :: nat) < m \<Longrightarrow> b < n \<Longrightarrow> a * n + b < m * n"
  by (induction m) (auto simp: less_Suc_eq)

lemma digits: "b < n \<Longrightarrow> (a * n + b) div n = a" "b < n \<Longrightarrow> (a * n + b) mod n = (b :: nat)"
  by simp_all

lemma sextets [simp]:
  "byte a mod 4 * 16 + byte b div 16 < 64" "byte b mod 16 * 4 + byte c div 64 < 64"
  "byte a mod 4 * 16 < 64" "byte b mod 16 * 4 < 64"
  using digit_bound [of "byte a mod 4" 4 "byte b div 16" 16] digit_bound [of "byte b mod 16" 16 "byte c div 64" 4]
    digit_bound [of "byte a mod 4" 4 0 16] digit_bound [of "byte b mod 16" 16 0 4] by simp_all

lemma quantum_inverse:
  "quantum (byte a div 4) (byte a mod 4 * 16 + byte b div 16) (byte b mod 16 * 4 + byte c div 64) (byte c mod 64) = [a, b, c]"
  "take 2 (quantum (byte a div 4) (byte a mod 4 * 16 + byte b div 16) (byte b mod 16 * 4) 0) = [a, b]"
  "take (Suc 0) (quantum (byte a div 4) (byte a mod 4 * 16) 0 0) = [a]"
  by (simp_all add: quantum_def digits numeral_2_eq_2)

lemma decode_encode: "decode_quanta (EncodeToString s) = Some s"
  by (induction s rule: EncodeToString.induct) (simp_all add: quantum_inverse)

lemma encoded_lines: "filter (\<lambda>ch. ch \<noteq> CHR 0x0A \<and> ch \<noteq> CHR 0x0D) (EncodeToString s) = EncodeToString s"
  by (induction s rule: EncodeToString.induct) simp_all

lemma base64_roundtrip [simp]: "DecodeString (EncodeToString s) = Some s"
  by (simp add: DecodeString_def decode_encode encoded_lines)

lemma encoded_empty [simp]: "EncodeToString s = [] \<longleftrightarrow> s = []"
  by (cases s rule: EncodeToString.cases) simp_all

end
