(* ===== verification/UnixStartd.thy ===== *)
theory UnixStartd
  imports Machine Transport Base64
begin

text \<open>
  The startd's end of the process transport (\<^verbatim>\<open>internal/starter/transport_unix.go\<close>): the encoding of
  the crypto state, the header that precedes a passed file descriptor, the redial loop, and the
  hand-over of the syscall connection, whose calls interleave with \<^verbatim>\<open>Close\<close>. A connection or a
  stream is represented by a number.
\<close>

section \<open>The crypto state and the header\<close>

definition cryptoStateAttr :: string where
  "cryptoStateAttr = ''CryptoState''"

definition marshalSyscallFollows :: "string \<Rightarrow> ad" where
  "marshalSyscallFollows blob = ad_set cryptoStateAttr (AStr (EncodeToString blob)) new_ad"

datatype follows_error = NoCryptoState | BadBase64

definition parseSyscallFollows :: "'x classad_api_scheme \<Rightarrow> ad \<Rightarrow> follows_error + string" where
  "parseSyscallFollows L ad =
     (let s = str_attr L ad cryptoStateAttr
      in if s = [] then Inl NoCryptoState
         else case DecodeString s of None \<Rightarrow> Inl BadBase64 | Some blob \<Rightarrow> Inr blob)"

text \<open>
  The crypto state of a passed connection survives the control message: the starter decodes exactly
  the bytes the startd encoded, whatever they are, as long as there are any.
\<close>

theorem crypto_state_roundtrip:
  assumes "classad_ok L" "blob \<noteq> []"
  shows "parseSyscallFollows L (marshalSyscallFollows blob) = Inr blob"
  using assms str_attr_literal(1) [OF assms(1), of "marshalSyscallFollows blob" cryptoStateAttr "EncodeToString blob"]
  by (simp add: parseSyscallFollows_def marshalSyscallFollows_def cryptoStateAttr_def Let_def EqualFold_def)

theorem crypto_state_roundtrip_witness:
  "parseSyscallFollows lit_api (marshalSyscallFollows [CHR 0xFF, CHR 0x00, CHR 0x80, CHR 0x0A]) =
     Inr [CHR 0xFF, CHR 0x00, CHR 0x80, CHR 0x0A]"
  by (rule crypto_state_roundtrip) (simp_all add: classad_ok_literal_reader lit_api_def)

definition passSockHeaderLen :: nat where "passSockHeaderLen = 13"
definition sharedPortPassSock :: nat where "sharedPortPassSock = 76"

text \<open>\<^verbatim>\<open>binary.BigEndian\<close>: the value of a sequence of bytes.\<close>

definition big_endian :: "string \<Rightarrow> nat" where
  "big_endian bs = foldl (\<lambda>n ch. n * 256 + byte ch) 0 bs"

datatype header_error = ShortHeader | BadLength nat | BadCommand nat

text \<open>The result is what is left of the input.\<close>

definition readPassSockHeader :: "string \<Rightarrow> header_error + string" where
  "readPassSockHeader input =
     (if length input < passSockHeaderLen then Inl ShortHeader
      else let hdr = take passSockHeaderLen input; len = big_endian (take 4 (drop 1 hdr));
               cmd = big_endian (take 8 (drop 5 hdr))
           in if len \<noteq> 8 then Inl (BadLength len)
              else if cmd \<noteq> sharedPortPassSock then Inl (BadCommand cmd)
              else Inr (drop passSockHeaderLen input))"

lemma big_endian_snoc: "big_endian (bs @ [ch]) = big_endian bs * 256 + byte ch"
  by (simp add: big_endian_def)

lemma big_endian_inj:
  assumes "length xs = length ys" "big_endian xs = big_endian ys"
  shows "xs = ys"
  using assms
proof (induction xs arbitrary: ys rule: rev_induct)
  case (snoc x xs)
  then obtain y zs where ys: "ys = zs @ [y]" by (metis length_0_conv rev_exhaust length_append_singleton nat.distinct(1))
  have e: "big_endian xs * 256 + byte x = big_endian zs * 256 + byte y"
    using snoc.prems by (simp add: ys big_endian_snoc)
  then have "(big_endian xs * 256 + byte x) div 256 = (big_endian zs * 256 + byte y) div 256"
    "(big_endian xs * 256 + byte x) mod 256 = (big_endian zs * 256 + byte y) mod 256" by simp_all
  then have "big_endian xs = big_endian zs" "byte x = byte y" by (simp_all add: digits)
  then show ?case using snoc by (simp add: ys of_char_eq_iff)
qed simp

lemma header_parts:
  assumes "length xs = 13"
  shows "xs = take 1 xs @ take 4 (drop 1 xs) @ take 8 (drop 5 xs)"
proof -
  have "drop 1 xs = take 4 (drop 1 xs) @ drop 5 xs"
    using append_take_drop_id [of 4 "drop 1 xs"] by simp
  moreover have "take 8 (drop 5 xs) = drop 5 xs" using assms by simp
  ultimately show ?thesis using append_take_drop_id [of 1 xs] by metis
qed

text \<open>
  C30. The header check accepts one command only: the header passes exactly when its length bytes are
  the big-endian number 8 and its payload is the big-endian number 76, byte for byte, the first byte
  being free; and it consumes the thirteen bytes of the header and no more.
\<close>

theorem pass_sock_header_exact:
  "readPassSockHeader input = Inr rest \<longleftrightarrow>
     (\<exists>flag. input = [flag, CHR 0x00, CHR 0x00, CHR 0x00, CHR 0x08, CHR 0x00, CHR 0x00, CHR 0x00, CHR 0x00, CHR 0x00, CHR 0x00, CHR 0x00, CHR 0x4C] @ rest)"
  (is "_ \<longleftrightarrow> (\<exists>flag. input = ?h flag @ rest)")
proof
  assume "readPassSockHeader input = Inr rest"
  then have len: "13 \<le> length input" and r: "rest = drop 13 input"
    and l: "big_endian (take 4 (drop 1 (take 13 input))) = 8" and c: "big_endian (take 8 (drop 5 (take 13 input))) = 76"
    by (auto simp: readPassSockHeader_def passSockHeaderLen_def sharedPortPassSock_def Let_def split: if_splits)
  have l': "take 4 (drop 1 (take 13 input)) = [CHR 0x00, CHR 0x00, CHR 0x00, CHR 0x08]"
    by (rule big_endian_inj) (use len l in \<open>simp_all add: big_endian_def\<close>)
  have c': "take 8 (drop 5 (take 13 input)) = [CHR 0x00, CHR 0x00, CHR 0x00, CHR 0x00, CHR 0x00, CHR 0x00, CHR 0x00, CHR 0x4C]"
    by (rule big_endian_inj) (use len c in \<open>simp_all add: big_endian_def\<close>)
  have "take 13 input = take 1 (take 13 input) @ take 4 (drop 1 (take 13 input)) @ take 8 (drop 5 (take 13 input))"
    using len by (intro header_parts) simp
  moreover obtain flag where "take 1 (take 13 input) = [flag]" using len by (cases input) auto
  ultimately have "take 13 input = ?h flag" using l' c' by simp
  then show "\<exists>flag. input = ?h flag @ rest" using r by (metis append_take_drop_id)
next
  assume "\<exists>flag. input = ?h flag @ rest"
  then show "readPassSockHeader input = Inr rest"
    by (auto simp: readPassSockHeader_def passSockHeaderLen_def sharedPortPassSock_def big_endian_def)
qed

section \<open>The redial loop\<close>

definition dialTimeout :: duration where "dialTimeout = 15 * second"
definition dialBackoff :: duration where "dialBackoff = second div 100"

record passReq =
  pr_st :: nat
  pr_blob :: string

record unixStartd =
  us_socketPath :: string
  us_conn :: "nat option"
  us_ctrl :: bool
  us_pending :: "passReq list"
  us_passed :: bool
  us_closed :: bool
  us_handedOff :: "nat option"

definition NewUnixStartd :: "string \<Rightarrow> unixStartd" where
  "NewUnixStartd path = \<lparr>us_socketPath = path, us_conn = None, us_ctrl = False, us_pending = [], us_passed = False,
     us_closed = False, us_handedOff = None\<rparr>"

datatype connect_error = NotUnix | ClosedDuringConnect | ConnectCancelled | DialTimedOut

text \<open>
  One round of the loop as the environment decides it: the connection that the dial returned (\<open>None\<close>
  for an error; the flag tells a Unix connection), whether the context is cancelled right after the
  dial, the clock at the deadline test, whether the context is cancelled during the pause, and whether
  the transport was closed meanwhile.
\<close>

record dial_round =
  dr_conn :: "(nat \<times> bool) option"
  dr_cancelled :: bool
  dr_now :: time
  dr_cancelled_in_pause :: bool

text \<open>
  The rounds are numbered; \<open>closed_at\<close> tells whether the transport has been closed by then. The second
  component of the result lists the connections that were closed again.
\<close>

fun connect_loop ::
  "nat \<Rightarrow> (nat \<Rightarrow> dial_round) \<Rightarrow> (nat \<Rightarrow> bool) \<Rightarrow> time \<Rightarrow> nat \<Rightarrow> unixStartd \<Rightarrow>
     ((connect_error + unixStartd) \<times> nat list) option" where
  "connect_loop 0 rounds closed_at deadline i u = None"
| "connect_loop (Suc fuel) rounds closed_at deadline i u =
     (let r = rounds i
      in case dr_conn r of
           Some (c, is_unix) \<Rightarrow>
             (if \<not> is_unix then Some (Inl NotUnix, [c])
              else if us_closed u \<or> closed_at i then Some (Inl ClosedDuringConnect, [c])
              else Some (Inr (u\<lparr>us_conn := Some c, us_ctrl := True\<rparr>), []))
         | None \<Rightarrow>
             (if dr_cancelled r then Some (Inl ConnectCancelled, [])
              else if dr_now r > deadline then Some (Inl DialTimedOut, [])
              else if dr_cancelled_in_pause r then Some (Inl ConnectCancelled, [])
              else connect_loop fuel rounds closed_at deadline (Suc i) u))"

text \<open>Enough rounds for the deadline at the pace of the pauses.\<close>

definition dial_rounds :: nat where
  "dial_rounds = 1502"

definition Connect ::
  "(nat \<Rightarrow> dial_round) \<Rightarrow> (nat \<Rightarrow> bool) \<Rightarrow> time \<Rightarrow> unixStartd \<Rightarrow> ((connect_error + unixStartd) \<times> nat list) option" where
  "Connect rounds closed_at now u = connect_loop dial_rounds rounds closed_at (now + dialTimeout) 0 u"

lemma connect_loop_ends:
  assumes "\<And>j. dr_now (rounds j) \<ge> start + int j * dialBackoff"
    and "deadline < start + int (i + fuel) * dialBackoff" "fuel > 0"
  shows "\<exists>r. connect_loop (Suc fuel) rounds closed_at deadline i u = Some r"
  using assms(2,3)
proof (induction fuel arbitrary: i)
  case (Suc fuel)
  show ?case
  proof (cases fuel)
    case 0
    have "deadline < dr_now (rounds (Suc i))" using assms(1) [of "Suc i"] Suc.prems 0 by simp
    then show ?thesis using 0 by (auto simp: Let_def split: option.split)
  next
    case (Suc f)
    have "\<exists>r. connect_loop (Suc fuel) rounds closed_at deadline (Suc i) u = Some r"
      using Suc.IH [of "Suc i"] Suc.prems Suc by simp
    then show ?thesis by (subst connect_loop.simps) (auto simp: Let_def simp del: connect_loop.simps split: option.split)
  qed
qed simp

lemma connect_loop_result:
  assumes "connect_loop fuel rounds closed_at deadline i u = Some (r, cl)"
  shows "\<exists>k \<ge> i. (\<forall>j. i \<le> j \<and> j < k \<longrightarrow> dr_conn (rounds j) = None) \<and>
    (case r of
       Inr v \<Rightarrow> (\<exists>c. dr_conn (rounds k) = Some (c, True) \<and> v = u\<lparr>us_conn := Some c, us_ctrl := True\<rparr>) \<and>
         \<not> us_closed u \<and> \<not> closed_at k \<and> cl = []
     | Inl e \<Rightarrow> cl = map fst (case dr_conn (rounds k) of None \<Rightarrow> [] | Some c \<Rightarrow> [c]))"
  using assms
proof (induction fuel arbitrary: i)
  case (Suc fuel)
  show ?case
  proof (cases "connect_loop fuel rounds closed_at deadline (Suc i) u = Some (r, cl) \<and> dr_conn (rounds i) = None")
    case True
    with Suc.IH obtain k where k: "k \<ge> Suc i" "\<forall>j. Suc i \<le> j \<and> j < k \<longrightarrow> dr_conn (rounds j) = None" and
      c: "case r of
       Inr v \<Rightarrow> (\<exists>c. dr_conn (rounds k) = Some (c, True) \<and> v = u\<lparr>us_conn := Some c, us_ctrl := True\<rparr>) \<and>
         \<not> us_closed u \<and> \<not> closed_at k \<and> cl = []
     | Inl e \<Rightarrow> cl = map fst (case dr_conn (rounds k) of None \<Rightarrow> [] | Some c \<Rightarrow> [c])" by blast
    have "\<forall>j. i \<le> j \<and> j < k \<longrightarrow> dr_conn (rounds j) = None" using k True by (metis Suc_leI le_neq_implies_less)
    then show ?thesis using c k(1) by (intro exI [of _ k]) auto
  next
    case False
    then show ?thesis using Suc.prems by (intro exI [of _ i]) (auto simp: Let_def split: option.splits if_splits)
  qed
qed simp

text \<open>
  C29. The redial always ends: when every round of the loop takes at least the pause between two
  attempts, \<open>Connect\<close> returns within the 1502 rounds it is given. On success the control channel is the
  first connection a dial gave, and the transport was not closed before; on an error the connection,
  if there was one, has been closed again.
\<close>

theorem connect_terminates:
  assumes "\<And>j. dr_now (rounds j) \<ge> now + int j * dialBackoff"
  shows "\<exists>r cl k. Connect rounds closed_at now u = Some (r, cl) \<and> (\<forall>j < k. dr_conn (rounds j) = None) \<and>
    (case r of
       Inr v \<Rightarrow> (\<exists>c. dr_conn (rounds k) = Some (c, True) \<and> v = u\<lparr>us_conn := Some c, us_ctrl := True\<rparr>) \<and>
         \<not> us_closed u \<and> \<not> closed_at k \<and> cl = []
     | Inl e \<Rightarrow> cl = map fst (case dr_conn (rounds k) of None \<Rightarrow> [] | Some c \<Rightarrow> [c]))"
proof -
  have "\<exists>r. Connect rounds closed_at now u = Some r"
    using connect_loop_ends [of now rounds "now + dialTimeout" 0 1501 closed_at u] assms
    by (auto simp: Connect_def dial_rounds_def dialTimeout_def dialBackoff_def second_def)
  then obtain r cl where "Connect rounds closed_at now u = Some (r, cl)" by force
  moreover from this connect_loop_result obtain k where "\<forall>j. 0 \<le> j \<and> j < k \<longrightarrow> dr_conn (rounds j) = None"
    "case r of
       Inr v \<Rightarrow> (\<exists>c. dr_conn (rounds k) = Some (c, True) \<and> v = u\<lparr>us_conn := Some c, us_ctrl := True\<rparr>) \<and>
         \<not> us_closed u \<and> \<not> closed_at k \<and> cl = []
     | Inl e \<Rightarrow> cl = map fst (case dr_conn (rounds k) of None \<Rightarrow> [] | Some c \<Rightarrow> [c])"
    unfolding Connect_def by blast
  ultimately show ?thesis by blast
qed

theorem connect_terminates_witness:
  "\<exists>r cl. Connect (\<lambda>j. \<lparr>dr_conn = None, dr_cancelled = False, dr_now = 1000 + int j * dialBackoff, dr_cancelled_in_pause = False\<rparr>)
     (\<lambda>j. False) 1000 (NewUnixStartd ''/s'') = Some (r, cl)"
  using connect_terminates [of 1000 "\<lambda>j. \<lparr>dr_conn = None, dr_cancelled = False, dr_now = 1000 + int j * dialBackoff,
     dr_cancelled_in_pause = False\<rparr>" "\<lambda>j. False" "NewUnixStartd ''/s''"] by auto

section \<open>The hand-over of the syscall connection\<close>

datatype pass_error = ExportFailed | PassClosed | PassTwice

definition PassSyscallConn :: "nat \<Rightarrow> string option \<Rightarrow> unixStartd \<Rightarrow> pass_error + unixStartd" where
  "PassSyscallConn st exported u =
     (case exported of
        None \<Rightarrow> Inl ExportFailed
      | Some blob \<Rightarrow>
          if us_closed u then Inl PassClosed
          else if us_passed u then Inl PassTwice
          else Inr (u\<lparr>us_passed := True, us_pending := us_pending u @ [\<lparr>pr_st = st, pr_blob = blob\<rparr>]\<rparr>))"

text \<open>
  \<^verbatim>\<open>FinishActivation\<close> in the pieces between which another goroutine can run: the receive of the pending
  request, the message, the passing of the file descriptor, and the last critical section. The
  second component lists the streams that were closed.
\<close>

datatype finish_error = NotConnected | SendFollowsFailed | PassFdFailed

definition finish_take :: "unixStartd \<Rightarrow> (passReq \<times> unixStartd) option" where
  "finish_take u = (case us_pending u of [] \<Rightarrow> None | req # rest \<Rightarrow> Some (req, u\<lparr>us_pending := rest\<rparr>))"

definition finish_write :: "bool \<Rightarrow> passReq \<Rightarrow> unixStartd \<Rightarrow> finish_error option \<times> nat list" where
  "finish_write sent req u =
     (if \<not> us_ctrl u then (Some NotConnected, [])
      else if \<not> sent then (Some SendFollowsFailed, [pr_st req])
      else (None, []))"

definition finish_pass :: "bool \<Rightarrow> passReq \<Rightarrow> finish_error option \<times> nat list" where
  "finish_pass sent req = (if \<not> sent then (Some PassFdFailed, [pr_st req]) else (None, []))"

definition finish_keep :: "passReq \<Rightarrow> unixStartd \<Rightarrow> unixStartd \<times> nat list" where
  "finish_keep req u =
     (if us_closed u then (u, [pr_st req]) else (u\<lparr>us_handedOff := Some (pr_st req)\<rparr>, []))"

text \<open>
  \<^verbatim>\<open>ReleaseSyscallConn\<close> takes the copy under the mutex and closes it after it has released the mutex: the second component is what it
  has yet to close.
\<close>

definition ReleaseSyscallConn :: "unixStartd \<Rightarrow> unixStartd \<times> nat list" where
  "ReleaseSyscallConn u =
     (u\<lparr>us_handedOff := None\<rparr>, (case us_handedOff u of None \<Rightarrow> [] | Some st \<Rightarrow> [st]))"

definition unixStartd_Close :: "unixStartd \<Rightarrow> unixStartd \<times> nat list" where
  "unixStartd_Close u =
     (if us_closed u then (u, [])
      else (u\<lparr>us_closed := True, us_pending := tl (us_pending u), us_handedOff := None\<rparr>,
            map pr_st (take 1 (us_pending u)) @ (case us_handedOff u of None \<Rightarrow> [] | Some st \<Rightarrow> [st])))"

datatype finish_stage = Taken | Written | FdSent

text \<open>
  The transport with the call of \<^verbatim>\<open>FinishActivation\<close> that is under way, the copies that calls of \<^verbatim>\<open>ReleaseSyscallConn\<close> have taken and not yet
  closed, the connections it has accepted, and what became of the startd's copies.
\<close>

record handover =
  ho_startd :: unixStartd
  ho_finishing :: "(passReq \<times> finish_stage) option"
  ho_releasing :: "nat list"
  ho_accepted :: "nat list"
  ho_closed :: "nat list"
  ho_lost :: "nat list"
  ho_released :: bool
  ho_sent :: bool

definition new_handover :: "string \<Rightarrow> handover" where
  "new_handover path = \<lparr>ho_startd = NewUnixStartd path, ho_finishing = None, ho_releasing = [], ho_accepted = [], ho_closed = [],
     ho_lost = [], ho_released = False, ho_sent = False\<rparr>"

inductive ho_step :: "handover \<Rightarrow> handover \<Rightarrow> bool" where
  connect: "\<not> us_closed (ho_startd h) \<Longrightarrow> ho_step h (h\<lparr>ho_startd := (ho_startd h)\<lparr>us_conn := Some c, us_ctrl := True\<rparr>\<rparr>)"
| pass: "PassSyscallConn st exported (ho_startd h) = Inr u \<Longrightarrow>
    ho_step h (h\<lparr>ho_startd := u, ho_accepted := st # ho_accepted h\<rparr>)"
| take: "ho_finishing h = None \<Longrightarrow> finish_take (ho_startd h) = Some (req, u) \<Longrightarrow>
    ho_step h (h\<lparr>ho_startd := u, ho_finishing := Some (req, Taken)\<rparr>)"
| early: "ho_finishing h = Some (req, Taken) \<Longrightarrow> finish_write sent req (ho_startd h) = (Some NotConnected, cl) \<Longrightarrow>
    ho_step h (h\<lparr>ho_finishing := None, ho_lost := pr_st req # ho_lost h\<rparr>)"
| write_failed: "ho_finishing h = Some (req, Taken) \<Longrightarrow>
    finish_write sent req (ho_startd h) = (Some SendFollowsFailed, cl) \<Longrightarrow>
    ho_step h (h\<lparr>ho_finishing := None, ho_closed := cl @ ho_closed h\<rparr>)"
| written: "ho_finishing h = Some (req, Taken) \<Longrightarrow> finish_write sent req (ho_startd h) = (None, cl) \<Longrightarrow>
    ho_step h (h\<lparr>ho_finishing := Some (req, Written)\<rparr>)"
| pass_failed: "ho_finishing h = Some (req, Written) \<Longrightarrow> finish_pass sent req = (Some e, cl) \<Longrightarrow>
    ho_step h (h\<lparr>ho_finishing := None, ho_closed := cl @ ho_closed h\<rparr>)"
| fd_passed: "ho_finishing h = Some (req, Written) \<Longrightarrow> finish_pass sent req = (None, cl) \<Longrightarrow>
    ho_step h (h\<lparr>ho_finishing := Some (req, FdSent), ho_sent := True\<rparr>)"
| keep: "ho_finishing h = Some (req, FdSent) \<Longrightarrow> finish_keep req (ho_startd h) = (u, cl) \<Longrightarrow>
    ho_step h (h\<lparr>ho_startd := u, ho_finishing := None, ho_closed := cl @ ho_closed h\<rparr>)"
| release: "ReleaseSyscallConn (ho_startd h) = (u, cl) \<Longrightarrow>
    ho_step h (h\<lparr>ho_startd := u, ho_releasing := cl @ ho_releasing h, ho_released := True\<rparr>)"
| released: "ho_releasing h = st # rest \<Longrightarrow> ho_step h (h\<lparr>ho_releasing := rest, ho_closed := st # ho_closed h\<rparr>)"
| close: "unixStartd_Close (ho_startd h) = (u, cl) \<Longrightarrow>
    ho_step h (h\<lparr>ho_startd := u, ho_closed := cl @ ho_closed h\<rparr>)"

inductive_cases ho_stepE: "ho_step h h'"

definition finishing_streams :: "handover \<Rightarrow> nat list" where
  "finishing_streams h = (case ho_finishing h of None \<Rightarrow> [] | Some (req, s) \<Rightarrow> [pr_st req])"

definition kept_streams :: "handover \<Rightarrow> nat list" where
  "kept_streams h = (case us_handedOff (ho_startd h) of None \<Rightarrow> [] | Some st \<Rightarrow> [st])"

definition ho_inv :: "handover \<Rightarrow> bool" where
  "ho_inv h \<longleftrightarrow>
     ho_accepted h = map pr_st (us_pending (ho_startd h)) @ finishing_streams h @ kept_streams h @ ho_releasing h @ ho_closed h @ ho_lost h \<and>
     length (ho_accepted h) = (if us_passed (ho_startd h) then 1 else 0) \<and>
     (us_closed (ho_startd h) \<longrightarrow> us_pending (ho_startd h) = [] \<and> us_handedOff (ho_startd h) = None) \<and>
     (ho_sent h \<longrightarrow> us_passed (ho_startd h)) \<and> (ho_lost h \<noteq> [] \<longrightarrow> \<not> ho_sent h) \<and> (us_pending (ho_startd h) \<noteq> [] \<longrightarrow> \<not> ho_sent h) \<and>
     (\<forall>req s. ho_finishing h = Some (req, s) \<longrightarrow> (s = FdSent \<longleftrightarrow> ho_sent h)) \<and>
     (ho_releasing h \<noteq> [] \<longrightarrow> ho_released h) \<and>
     (ho_sent h \<and> ho_closed h \<noteq> [] \<longrightarrow> ho_released h \<or> us_closed (ho_startd h))"

lemmas ho_ops = PassSyscallConn_def finish_take_def finish_write_def
  finish_pass_def finish_keep_def ReleaseSyscallConn_def unixStartd_Close_def

lemma six_places:
  assumes "length (a @ b @ c @ d @ e @ f) = 1"
  shows "\<exists>x. (a, b, c, d, e, f) \<in> {([x], [], [], [], [], []), ([], [x], [], [], [], []), ([], [], [x], [], [], []),
    ([], [], [], [x], [], []), ([], [], [], [], [x], []), ([], [], [], [], [], [x])}"
  using assms by (cases a; cases b; cases c; cases d; cases e; cases f) auto

lemma finishing_simps:
  "finishing_streams h = [] \<longleftrightarrow> ho_finishing h = None"
  "finishing_streams h = [x] \<longleftrightarrow> (\<exists>req s. ho_finishing h = Some (req, s) \<and> pr_st req = x)"
  "kept_streams h = [] \<longleftrightarrow> us_handedOff (ho_startd h) = None"
  "kept_streams h = [x] \<longleftrightarrow> us_handedOff (ho_startd h) = Some x"
  by (auto simp: finishing_streams_def kept_streams_def split: option.splits)

text \<open>The states with the invariant, case by case.\<close>

lemma ho_inv_cases:
  assumes "ho_inv h"
  obtains (fresh) "\<not> us_passed (ho_startd h)" "us_pending (ho_startd h) = []" "ho_finishing h = None"
      "us_handedOff (ho_startd h) = None" "ho_releasing h = []" "ho_closed h = []" "ho_lost h = []" "ho_accepted h = []" "\<not> ho_sent h"
    | (waiting) req where "us_passed (ho_startd h)" "us_pending (ho_startd h) = [req]" "ho_finishing h = None"
      "us_handedOff (ho_startd h) = None" "ho_releasing h = []" "ho_closed h = []" "ho_lost h = []" "ho_accepted h = [pr_st req]"
      "\<not> us_closed (ho_startd h)" "\<not> ho_sent h"
    | (finishing) req s where "us_passed (ho_startd h)" "us_pending (ho_startd h) = []" "ho_finishing h = Some (req, s)"
      "us_handedOff (ho_startd h) = None" "ho_releasing h = []" "ho_closed h = []" "ho_lost h = []" "ho_accepted h = [pr_st req]"
      "s = FdSent \<longleftrightarrow> ho_sent h"
    | (kept) x where "us_passed (ho_startd h)" "us_pending (ho_startd h) = []" "ho_finishing h = None"
      "us_handedOff (ho_startd h) = Some x" "ho_releasing h = []" "ho_closed h = []" "ho_lost h = []" "ho_accepted h = [x]"
      "\<not> us_closed (ho_startd h)"
    | (releasing) x where "us_passed (ho_startd h)" "us_pending (ho_startd h) = []" "ho_finishing h = None"
      "us_handedOff (ho_startd h) = None" "ho_releasing h = [x]" "ho_closed h = []" "ho_lost h = []" "ho_accepted h = [x]" "ho_released h"
    | (closed) x where "us_passed (ho_startd h)" "us_pending (ho_startd h) = []" "ho_finishing h = None"
      "us_handedOff (ho_startd h) = None" "ho_releasing h = []" "ho_closed h = [x]" "ho_lost h = []" "ho_accepted h = [x]"
      "ho_sent h \<Longrightarrow> ho_released h \<or> us_closed (ho_startd h)"
    | (lost) x where "us_passed (ho_startd h)" "us_pending (ho_startd h) = []" "ho_finishing h = None"
      "us_handedOff (ho_startd h) = None" "ho_releasing h = []" "ho_closed h = []" "ho_lost h = [x]" "ho_accepted h = [x]" "\<not> ho_sent h"
proof (cases "us_passed (ho_startd h)")
  case True
  have "length (map pr_st (us_pending (ho_startd h)) @ finishing_streams h @ kept_streams h @ ho_releasing h @ ho_closed h @ ho_lost h) = 1"
    using assms True unfolding ho_inv_def by metis
  from six_places [OF this] obtain x where
    x: "(map pr_st (us_pending (ho_startd h)), finishing_streams h, kept_streams h, ho_releasing h, ho_closed h, ho_lost h) \<in>
      {([x], [], [], [], [], []), ([], [x], [], [], [], []), ([], [], [x], [], [], []), ([], [], [], [x], [], []), ([], [], [], [], [x], []),
       ([], [], [], [], [], [x])}" ..
  note inv = assms [unfolded ho_inv_def] and places = finishing_simps map_eq_Cons_conv True
  from x consider (1) "map pr_st (us_pending (ho_startd h)) = [x]" "finishing_streams h = []" "kept_streams h = []" "ho_releasing h = []" "ho_closed h = []" "ho_lost h = []"
    | (2) "us_pending (ho_startd h) = []" "finishing_streams h = [x]" "kept_streams h = []" "ho_releasing h = []" "ho_closed h = []" "ho_lost h = []"
    | (3) "us_pending (ho_startd h) = []" "finishing_streams h = []" "kept_streams h = [x]" "ho_releasing h = []" "ho_closed h = []" "ho_lost h = []"
    | (4) "us_pending (ho_startd h) = []" "finishing_streams h = []" "kept_streams h = []" "ho_releasing h = [x]" "ho_closed h = []" "ho_lost h = []"
    | (5) "us_pending (ho_startd h) = []" "finishing_streams h = []" "kept_streams h = []" "ho_releasing h = []" "ho_closed h = [x]" "ho_lost h = []"
    | (6) "us_pending (ho_startd h) = []" "finishing_streams h = []" "kept_streams h = []" "ho_releasing h = []" "ho_closed h = []" "ho_lost h = [x]"
    by auto
  then show ?thesis
  proof cases
    case 1
    then obtain req where "us_pending (ho_startd h) = [req]" "pr_st req = x" by (auto simp: map_eq_Cons_conv)
    with 1 inv show ?thesis by (intro that(2) [of req]) (auto simp: places)
  next
    case 2
    then obtain req s where "ho_finishing h = Some (req, s)" "pr_st req = x" by (auto simp: finishing_simps)
    with 2 inv show ?thesis by (intro that(3) [of req s]) (auto simp: places, auto simp: finishing_streams_def kept_streams_def)
  next
    case 3
    with inv show ?thesis by (intro that(4) [of x]) (auto simp: places)
  next
    case 4
    with inv show ?thesis by (intro that(5) [of x]) (auto simp: places)
  next
    case 5
    with inv show ?thesis by (intro that(6) [of x]) (auto simp: places)
  next
    case 6
    with inv show ?thesis by (intro that(7) [of x]) (auto simp: places)
  qed
next
  case False
  then show ?thesis using assms that(1) by (auto simp: ho_inv_def finishing_simps)
qed

lemma ho_invI:
  assumes "ho_accepted h = map pr_st (us_pending (ho_startd h)) @ finishing_streams h @ kept_streams h @ ho_releasing h @ ho_closed h @ ho_lost h"
    "length (ho_accepted h) = (if us_passed (ho_startd h) then 1 else 0)"
    "us_closed (ho_startd h) \<Longrightarrow> us_pending (ho_startd h) = [] \<and> us_handedOff (ho_startd h) = None"
    "ho_sent h \<Longrightarrow> us_passed (ho_startd h) \<and> ho_lost h = [] \<and> us_pending (ho_startd h) = []"
    "\<And>req s. ho_finishing h = Some (req, s) \<Longrightarrow> s = FdSent \<longleftrightarrow> ho_sent h"
    "ho_releasing h \<noteq> [] \<Longrightarrow> ho_released h"
    "ho_sent h \<Longrightarrow> ho_closed h \<noteq> [] \<Longrightarrow> ho_released h \<or> us_closed (ho_startd h)"
  shows "ho_inv h"
  using assms unfolding ho_inv_def by blast

lemma ho_step_inv: "ho_step h h' \<Longrightarrow> ho_inv h \<Longrightarrow> ho_inv h'"
  by (erule ho_stepE; erule ho_inv_cases; rule ho_invI;
      auto simp: finishing_streams_def kept_streams_def ho_ops split: if_splits option.splits)

interpretation handover: machine ho_step ho_inv
  by unfold_locales (rule ho_step_inv)

lemma new_handover_inv: "ho_inv (new_handover path)"
  by (simp add: ho_inv_def new_handover_def NewUnixStartd_def finishing_streams_def kept_streams_def)

text \<open>
  C13. The hand-over of the syscall connection, with its calls interleaved in any way with \<^verbatim>\<open>Close\<close>: at
  most one connection is accepted; once the transport is closed and neither a \<^verbatim>\<open>FinishActivation\<close> nor a \<^verbatim>\<open>ReleaseSyscallConn\<close> is under way,
  the startd's copy of it has been closed exactly once (unless \<^verbatim>\<open>FinishActivation\<close> came before \<^verbatim>\<open>Connect\<close>); and after the
  file descriptor was sent, the startd's copy stays open until the starter's first message releases
  it or the transport is closed.
\<close>

theorem syscall_handover:
  assumes "ho_step\<^sup>*\<^sup>* (new_handover path) h"
  shows "length (ho_accepted h) \<le> 1 \<and>
    (us_closed (ho_startd h) \<and> ho_finishing h = None \<and> ho_releasing h = [] \<and> ho_lost h = [] \<longrightarrow> ho_closed h = ho_accepted h) \<and>
    (ho_sent h \<and> \<not> ho_released h \<and> \<not> us_closed (ho_startd h) \<longrightarrow> ho_closed h = [] \<and> ho_releasing h = [])"
proof -
  have "ho_inv h" by (rule handover.reachable_inv [OF assms new_handover_inv])
  then show ?thesis by (cases rule: ho_inv_cases) auto
qed

text \<open>A whole hand-over: connected, passed, taken, announced, the descriptor sent, the copy kept, and the transport closed.\<close>

definition handover_done :: handover where
  "handover_done = (new_handover ''/s'')
     \<lparr>ho_startd := (NewUnixStartd ''/s'')\<lparr>us_conn := Some 3, us_ctrl := True, us_passed := True, us_handedOff := Some 7\<rparr>,
      ho_accepted := [7], ho_sent := True\<rparr>"

lemma handover_done_reached: "ho_step\<^sup>*\<^sup>* (new_handover ''/s'') handover_done"
proof -
  let ?req = "\<lparr>pr_st = 7, pr_blob = ''k''\<rparr>" and ?u = "(NewUnixStartd ''/s'')\<lparr>us_conn := Some 3, us_ctrl := True\<rparr>"
  let ?h1 = "(new_handover ''/s'')\<lparr>ho_startd := ?u\<rparr>"
  let ?h2 = "?h1\<lparr>ho_startd := ?u\<lparr>us_passed := True, us_pending := [?req]\<rparr>, ho_accepted := [7]\<rparr>"
  let ?h3 = "?h2\<lparr>ho_startd := ?u\<lparr>us_passed := True\<rparr>, ho_finishing := Some (?req, Taken)\<rparr>"
  let ?h4 = "?h3\<lparr>ho_finishing := Some (?req, Written)\<rparr>"
  let ?h5 = "?h4\<lparr>ho_finishing := Some (?req, FdSent), ho_sent := True\<rparr>"
  note d = new_handover_def NewUnixStartd_def ho_ops handover_done_def
  have "ho_step (new_handover ''/s'') ?h1" using ho_step.connect [of "new_handover ''/s''" 3] by (simp add: d)
  moreover have "ho_step ?h1 ?h2" using ho_step.pass [of 7 "Some ''k''" ?h1] by (simp add: d)
  moreover have "ho_step ?h2 ?h3" using ho_step.take [of ?h2] by (simp add: d)
  moreover have "ho_step ?h3 ?h4" using ho_step.written [of ?h3 ?req True] by (simp add: d)
  moreover have "ho_step ?h4 ?h5" using ho_step.fd_passed [of ?h4 ?req True] by (simp add: d)
  moreover have "ho_step ?h5 handover_done" using ho_step.keep [of ?h5 ?req] by (simp add: d)
  ultimately show ?thesis by (meson rtranclp.rtrancl_into_rtrancl rtranclp.rtrancl_refl)
qed

theorem syscall_handover_witness:
  "ho_closed handover_done = [] \<and>
   (\<exists>h. ho_step\<^sup>*\<^sup>* (new_handover ''/s'') h \<and> us_closed (ho_startd h) \<and> ho_accepted h = [7] \<and> ho_closed h = [7])"
proof -
  let ?h = "handover_done\<lparr>ho_startd := (ho_startd handover_done)\<lparr>us_closed := True, us_handedOff := None\<rparr>, ho_closed := [7]\<rparr>"
  note d = new_handover_def NewUnixStartd_def ho_ops handover_done_def
  have "ho_step handover_done ?h" using ho_step.close [of handover_done] by (simp add: d)
  then have r: "ho_step\<^sup>*\<^sup>* (new_handover ''/s'') ?h" by (rule rtranclp.rtrancl_into_rtrancl [OF handover_done_reached])
  have "us_closed (ho_startd ?h)" "ho_finishing ?h = None" "ho_releasing ?h = []" "ho_lost ?h = []" "ho_accepted ?h = [7]" by (simp_all add: d)
  then have "ho_closed ?h = [7]" using syscall_handover [OF r] by metis
  moreover have "ho_sent handover_done" "\<not> ho_released handover_done" "\<not> us_closed (ho_startd handover_done)" by (simp_all add: d)
  then have "ho_closed handover_done = []" using syscall_handover [OF handover_done_reached] by blast
  ultimately show ?thesis using r by (intro conjI exI [of _ ?h]) (simp_all add: d)
qed

text \<open>
  One path of \<^verbatim>\<open>FinishActivation\<close> drops the connection: called before \<^verbatim>\<open>Connect\<close> it has taken the request
  from the channel and returns its error without closing the connection, which \<^verbatim>\<open>Close\<close> can then no
  longer find.
\<close>

theorem finish_before_connect_leaks:
  "\<exists>h. ho_step\<^sup>*\<^sup>* (new_handover path) h \<and> us_closed (ho_startd h) \<and> ho_finishing h = None \<and>
     ho_accepted h = [st] \<and> ho_closed h = []"
proof -
  let ?req = "\<lparr>pr_st = st, pr_blob = ''k''\<rparr>" and ?u = "NewUnixStartd path"
  let ?h1 = "(new_handover path)\<lparr>ho_startd := ?u\<lparr>us_passed := True, us_pending := [?req]\<rparr>, ho_accepted := [st]\<rparr>"
  let ?h2 = "?h1\<lparr>ho_startd := ?u\<lparr>us_passed := True\<rparr>, ho_finishing := Some (?req, Taken)\<rparr>"
  let ?h3 = "?h2\<lparr>ho_finishing := None, ho_lost := [st]\<rparr>"
  let ?h4 = "?h3\<lparr>ho_startd := ?u\<lparr>us_passed := True, us_closed := True\<rparr>\<rparr>"
  note d = new_handover_def NewUnixStartd_def ho_ops
  have "ho_step (new_handover path) ?h1"
    using ho_step.pass [of st "Some ''k''" "new_handover path"] by (simp add: d)
  moreover have "ho_step ?h1 ?h2" using ho_step.take [of ?h1] by (simp add: d)
  moreover have "ho_step ?h2 ?h3" using ho_step.early [of ?h2 ?req True] by (simp add: d)
  moreover have "ho_step ?h3 ?h4" using ho_step.close [of ?h3] by (simp add: d)
  ultimately have "ho_step\<^sup>*\<^sup>* (new_handover path) ?h4"
    by (meson rtranclp.rtrancl_into_rtrancl rtranclp.rtrancl_refl)
  then show ?thesis by (rule exI [of _ ?h4, OF conjI]) (simp add: d)
qed

end
