(* ===== verification/UnixStarter.thy ===== *)
theory UnixStarter
  imports UnixStartd "HOL-Library.Multiset"
begin

text \<open>
  The starter's end of the process transport (\<^verbatim>\<open>internal/starter/transport_unix.go\<close>): the durable relay
  between the startd's control connection and the control pipe of the job's run. It survives the loss of
  the connection and accepts a redial on the same socket until the lease of the gap elapses. The
  relay's goroutines and \<^verbatim>\<open>Close\<close> interleave, so the model is a machine whose steps are the critical
  sections of the code.
\<close>

definition DefaultStartdGapLease :: duration where
  "DefaultStartdGapLease = 20 * 60 * second"

type_synonym ctrl_msg = "int \<times> ad"

text \<open>
  The transport. \<open>ur_serving\<close> and \<open>ur_fresh\<close> are the locals of \<^verbatim>\<open>manage\<close>: the connection that is being
  read, and one that was accepted and is not yet installed; \<open>ur_hand\<close> is the message that \<^verbatim>\<open>readConn\<close> has read and not yet dealt with, and
  \<open>ur_deadline\<close> the accept deadline that \<^verbatim>\<open>reaccept\<close> has set on the listener, at the time \<open>ur_since\<close> of the clock \<open>ur_now\<close>. The fields from \<open>ur_received\<close> on record
  what happened: the messages \<^verbatim>\<open>readConn\<close> has dealt with, what went to the run and to the startd, the connections and streams that were closed,
  the syscall streams that were rebuilt, those of them the run has taken and those that were refused, whether \<^verbatim>\<open>manage\<close> has given up while
  the transport was open, and whether it was an error of \<^verbatim>\<open>AcceptUnix\<close> other than its deadline that made it.
\<close>

record unixStarter =
  ur_gap :: duration
  ur_conn :: "nat option"
  ur_listening :: bool
  ur_runConn :: bool
  ur_pipeConn :: bool
  ur_syscallCh :: "nat list"
  ur_chClosed :: bool
  ur_stopped :: bool
  ur_closed :: bool
  ur_managing :: bool
  ur_serving :: "nat option"
  ur_fresh :: "nat option"
  ur_hand :: "ctrl_msg option"
  ur_deadline :: "time option"
  ur_since :: time
  ur_now :: time
  ur_received :: "ctrl_msg list"
  ur_to_run :: "ctrl_msg list"
  ur_to_startd :: "(nat \<times> ctrl_msg) list"
  ur_dropped :: "ctrl_msg list"
  ur_closed_conns :: "nat list"
  ur_streams :: "nat list"
  ur_taken :: "nat list"
  ur_refused :: "nat list"
  ur_elapsed :: bool
  ur_failed :: bool

datatype listen_error = EmptySocketPath | ResolveFailed | ListenFailed | AcceptFailed

text \<open>
  The environment tells whether the address resolves and can be listened on, and which connection
  arrives before the given accept deadline. The lease is the default one unless a positive one is
  given.
\<close>

definition ListenStarter ::
  "string \<Rightarrow> duration \<Rightarrow> duration \<Rightarrow> bool \<Rightarrow> bool \<Rightarrow> (duration \<Rightarrow> nat option) \<Rightarrow> listen_error + unixStarter" where
  "ListenStarter socketPath acceptTimeout gapLease resolves listens arrives =
     (if socketPath = [] then Inl EmptySocketPath
      else if \<not> resolves then Inl ResolveFailed
      else if \<not> listens then Inl ListenFailed
      else case arrives (if acceptTimeout \<le> 0 then dialTimeout else acceptTimeout) of
        None \<Rightarrow> Inl AcceptFailed
      | Some c \<Rightarrow>
          Inr \<lparr>ur_gap = (if gapLease \<le> 0 then DefaultStartdGapLease else gapLease), ur_conn = Some c,
               ur_listening = True, ur_runConn = True, ur_pipeConn = True, ur_syscallCh = [],
               ur_chClosed = False, ur_stopped = False, ur_closed = False, ur_managing = True,
               ur_serving = Some c, ur_fresh = None, ur_hand = None, ur_deadline = None, ur_since = 0, ur_now = 0, ur_received = [], ur_to_run = [], ur_to_startd = [],
               ur_dropped = [], ur_closed_conns = [], ur_streams = [], ur_taken = [],
               ur_refused = [], ur_elapsed = False, ur_failed = False\<rparr>)"

section \<open>The syscall connection\<close>

datatype receive_error =
    BadFollows follows_error
  | BadHeader header_error
  | FdNotReceived
  | StreamNotRebuilt
  | DuplicateSyscallConn

text \<open>
  What arrives on the socket behind the message: the bytes of the header, the connection whose
  descriptor was passed, and the stream the crypto state gives for it.
\<close>

record passed_fd =
  pf_input :: string
  pf_conn :: "nat option"
  pf_stream :: "string \<Rightarrow> nat option"

datatype receive_outcome =
    Received unixStarter
  | ReceiveFailed receive_error "nat list"
  | SendOnClosedChannel

definition receiveSyscallConn ::
  "'x classad_api_scheme \<Rightarrow> ad \<Rightarrow> passed_fd \<Rightarrow> unixStarter \<Rightarrow> receive_outcome" where
  "receiveSyscallConn L ad fd u =
     (case parseSyscallFollows L ad of
        Inl e \<Rightarrow> ReceiveFailed (BadFollows e) []
      | Inr blob \<Rightarrow>
          (case readPassSockHeader (pf_input fd) of
             Inl e \<Rightarrow> ReceiveFailed (BadHeader e) []
           | Inr rest \<Rightarrow>
               (case pf_conn fd of
                  None \<Rightarrow> ReceiveFailed FdNotReceived []
                | Some c \<Rightarrow>
                    (case pf_stream fd blob of
                       None \<Rightarrow> ReceiveFailed StreamNotRebuilt [c]
                     | Some st \<Rightarrow>
                         (if ur_chClosed u then SendOnClosedChannel
                          else if length (ur_syscallCh u) \<ge> 1 then ReceiveFailed DuplicateSyscallConn [st]
                          else Received (u\<lparr>ur_syscallCh := ur_syscallCh u @ [st], ur_streams := st # ur_streams u\<rparr>))))))"

text \<open>\<open>Some None\<close> is the error of a closed transport; \<open>None\<close> is a receive that has to wait.\<close>

definition starter_SyscallConn :: "unixStarter \<Rightarrow> (nat \<times> unixStarter) option option" where
  "starter_SyscallConn u =
     (case ur_syscallCh u of
        st # rest \<Rightarrow> Some (Some (st, u\<lparr>ur_syscallCh := rest, ur_taken := st # ur_taken u\<rparr>))
      | [] \<Rightarrow> if ur_chClosed u then Some None else None)"

section \<open>The relay\<close>

text \<open>The stream that an announcement and what follows it on the socket give, if they give one.\<close>

definition rebuilt_stream :: "'x classad_api_scheme \<Rightarrow> ad \<Rightarrow> passed_fd \<Rightarrow> nat list" where
  "rebuilt_stream L ad fd =
     (case (parseSyscallFollows L ad, readPassSockHeader (pf_input fd), pf_conn fd) of
        (Inr blob, Inr rest, Some c) \<Rightarrow> (case pf_stream fd blob of None \<Rightarrow> [] | Some st \<Rightarrow> [st])
      | _ \<Rightarrow> [])"

text \<open>
  One message of \<^verbatim>\<open>readConn\<close>, after it was read. The flag tells whether the loop goes on; a write to the run's pipe fails
  when either end of it is closed.
\<close>

definition readConn_msg ::
  "'x classad_api_scheme \<Rightarrow> passed_fd \<Rightarrow> ctrl_msg \<Rightarrow> unixStarter \<Rightarrow> (bool \<times> unixStarter) option" where
  "readConn_msg L fd m u =
     (let u' = u\<lparr>ur_hand := None, ur_received := ur_received u @ [m]\<rparr>
      in if fst m = MsgSyscallConnFollows
         then case receiveSyscallConn L (snd m) fd u' of
                Received v \<Rightarrow> Some (True, v)
              | ReceiveFailed e cl \<Rightarrow>
                  (let dup = (if e = DuplicateSyscallConn then rebuilt_stream L (snd m) fd else [])
                   in Some (False, u'\<lparr>ur_closed_conns := cl @ ur_closed_conns u, ur_streams := dup @ ur_streams u,
                                    ur_refused := dup @ ur_refused u\<rparr>))
              | SendOnClosedChannel \<Rightarrow> None
         else if ur_runConn u \<and> ur_pipeConn u then Some (True, u'\<lparr>ur_to_run := ur_to_run u @ [m]\<rparr>)
         else Some (False, u'))"

text \<open>What \<^verbatim>\<open>manage\<close> does after \<^verbatim>\<open>readConn\<close> has returned.\<close>

definition conn_lost :: "nat \<Rightarrow> unixStarter \<Rightarrow> unixStarter" where
  "conn_lost c u =
     (if ur_stopped u then u\<lparr>ur_managing := False, ur_serving := None\<rparr>
      else (if ur_conn u = Some c then u\<lparr>ur_conn := None\<rparr> else u)\<lparr>ur_serving := None\<rparr>)"

text \<open>
  \<^verbatim>\<open>reaccept\<close>: it sets the deadline of the listener, gives up at once when the transport was stopped, and then waits in \<^verbatim>\<open>AcceptUnix\<close>, which returns a
  connection, or the deadline's error, or another error of the listener. The two parts are separate steps, between which time passes.
\<close>

datatype accept_result = Accepted nat | DeadlinePassed | AcceptError

definition reaccept_deadline :: "unixStarter \<Rightarrow> unixStarter" where
  "reaccept_deadline u = u\<lparr>ur_deadline := Some (ur_now u + ur_gap u), ur_since := ur_now u\<rparr>"

definition reaccept :: "accept_result \<Rightarrow> unixStarter \<Rightarrow> (nat option \<times> unixStarter)" where
  "reaccept r u =
     (if ur_stopped u then (None, u)
      else case r of
        Accepted c \<Rightarrow> (Some c, u\<lparr>ur_deadline := None\<rparr>)
      | _ \<Rightarrow> (None, u))"

text \<open>When the library can give which answer: a deadline error only when the deadline has passed, a connection only while it listens.\<close>

definition accept_possible :: "accept_result \<Rightarrow> unixStarter \<Rightarrow> bool" where
  "accept_possible r u =
     (case r of
        Accepted c \<Rightarrow> ur_listening u
      | DeadlinePassed \<Rightarrow> (case ur_deadline u of None \<Rightarrow> False | Some dl \<Rightarrow> dl \<le> ur_now u)
      | AcceptError \<Rightarrow> True)"

definition selfDestruct :: "unixStarter \<Rightarrow> unixStarter" where
  "selfDestruct u = u\<lparr>ur_runConn := False, ur_chClosed := True\<rparr>"

definition install :: "nat \<Rightarrow> unixStarter \<Rightarrow> unixStarter" where
  "install c u = u\<lparr>ur_conn := Some c, ur_serving := Some c, ur_fresh := None\<rparr>"

text \<open>One message of \<^verbatim>\<open>pumpOutbound\<close>; \<open>ok\<close> tells whether the write to the connection succeeds.\<close>

definition pumpOutbound_msg :: "bool \<Rightarrow> ctrl_msg \<Rightarrow> unixStarter \<Rightarrow> unixStarter" where
  "pumpOutbound_msg ok m u =
     (case ur_conn u of
        None \<Rightarrow> u\<lparr>ur_dropped := m # ur_dropped u\<rparr>
      | Some c \<Rightarrow> if ok then u\<lparr>ur_to_startd := ur_to_startd u @ [(c, m)]\<rparr>
                  else u\<lparr>ur_dropped := m # ur_dropped u\<rparr>)"

definition unixStarter_Close :: "unixStarter \<Rightarrow> unixStarter" where
  "unixStarter_Close u =
     (if ur_closed u then u
      else u\<lparr>ur_closed := True, ur_stopped := True, ur_runConn := False, ur_pipeConn := False, ur_conn := None,
             ur_closed_conns := (case ur_conn u of None \<Rightarrow> [] | Some c \<Rightarrow> [c]) @ ur_closed_conns u,
             ur_listening := False\<rparr>)"

text \<open>What \<^verbatim>\<open>manage\<close> does with the answer: it takes the connection up, or gives up.\<close>

definition gap_over :: "accept_result \<Rightarrow> unixStarter \<Rightarrow> unixStarter" where
  "gap_over r u =
     (case reaccept r u of
        (Some c, v) \<Rightarrow> v\<lparr>ur_fresh := Some c\<rparr>
      | (None, v) \<Rightarrow> (selfDestruct v)\<lparr>ur_managing := False, ur_elapsed := ur_elapsed u \<or> \<not> ur_stopped u,
                        ur_failed := ur_failed u \<or> (\<not> ur_stopped u \<and> r = AcceptError)\<rparr>)"

inductive relay_step :: "'x classad_api_scheme \<Rightarrow> unixStarter \<Rightarrow> unixStarter \<Rightarrow> bool" for L where
  read: "ur_managing u \<Longrightarrow> ur_serving u = Some c \<Longrightarrow> ur_hand u = None \<Longrightarrow> relay_step L u (u\<lparr>ur_hand := Some m\<rparr>)"
| message: "ur_managing u \<Longrightarrow> ur_serving u = Some c \<Longrightarrow> ur_hand u = Some m \<Longrightarrow> readConn_msg L fd m u = Some (True, v) \<Longrightarrow> relay_step L u v"
| unreadable: "ur_managing u \<Longrightarrow> ur_serving u = Some c \<Longrightarrow> ur_hand u = Some m \<Longrightarrow> readConn_msg L fd m u = Some (False, v) \<Longrightarrow>
    relay_step L u (conn_lost c v)"
| lost: "ur_managing u \<Longrightarrow> ur_serving u = Some c \<Longrightarrow> ur_hand u = None \<Longrightarrow> relay_step L u (conn_lost c u)"
| deadline: "ur_managing u \<Longrightarrow> ur_serving u = None \<Longrightarrow> ur_fresh u = None \<Longrightarrow> ur_deadline u = None \<Longrightarrow> relay_step L u (reaccept_deadline u)"
| accept: "ur_managing u \<Longrightarrow> ur_serving u = None \<Longrightarrow> ur_fresh u = None \<Longrightarrow> ur_deadline u \<noteq> None \<Longrightarrow> accept_possible r u \<Longrightarrow>
    relay_step L u (gap_over r u)"
| installed: "ur_managing u \<Longrightarrow> ur_fresh u = Some c \<Longrightarrow> relay_step L u (install c u)"
| clock: "0 \<le> d \<Longrightarrow> relay_step L u (u\<lparr>ur_now := ur_now u + d\<rparr>)"
| outbound: "ur_pipeConn u \<Longrightarrow> relay_step L u (pumpOutbound_msg ok m u)"
| syscall: "starter_SyscallConn u = Some (Some (st, v)) \<Longrightarrow> relay_step L u v"
| close: "relay_step L u (unixStarter_Close u)"

inductive_cases relay_stepE: "relay_step L u v"

section \<open>The invariant of the relay\<close>

text \<open>The messages that are for the run.\<close>

definition for_run :: "ctrl_msg list \<Rightarrow> ctrl_msg list" where
  "for_run ms = filter (\<lambda>m. fst m \<noteq> MsgSyscallConnFollows) ms"

definition relay_streams :: "unixStarter \<Rightarrow> bool" where
  "relay_streams u \<longleftrightarrow> length (ur_syscallCh u) \<le> 1 \<and>
     mset (ur_streams u) = mset (ur_taken u) + mset (ur_syscallCh u) + mset (ur_refused u) \<and> set (ur_refused u) \<subseteq> set (ur_closed_conns u)"

definition relay_inv :: "unixStarter \<Rightarrow> bool" where
  "relay_inv u \<longleftrightarrow>
     (ur_closed u \<longleftrightarrow> ur_stopped u) \<and> (ur_closed u \<longleftrightarrow> \<not> ur_listening u) \<and> (ur_closed u \<longleftrightarrow> \<not> ur_pipeConn u) \<and>
     (ur_runConn u \<longrightarrow> ur_to_run u = for_run (ur_received u)) \<and>
     (\<exists>rest. for_run (ur_received u) = ur_to_run u @ rest) \<and>
     (ur_runConn u \<longleftrightarrow> \<not> ur_closed u \<and> \<not> ur_elapsed u) \<and>
     (ur_managing u \<longrightarrow> \<not> ur_chClosed u) \<and>
     (\<not> ur_managing u \<longrightarrow> \<not> ur_runConn u) \<and>
     (ur_elapsed u \<and> \<not> ur_failed u \<longrightarrow> ur_since u + ur_gap u \<le> ur_now u) \<and>
     (ur_deadline u \<noteq> None \<longrightarrow> ur_deadline u = Some (ur_since u + ur_gap u)) \<and> (ur_elapsed u \<longrightarrow> \<not> ur_managing u) \<and>
     relay_streams u"

lemma for_run_simps [simp]:
  "for_run (ms @ ms') = for_run ms @ for_run ms'" "for_run [] = []"
  "fst m \<noteq> MsgSyscallConnFollows \<Longrightarrow> for_run [m] = [m]" "fst m = MsgSyscallConnFollows \<Longrightarrow> for_run [m] = []"
  by (simp_all add: for_run_def)

lemma receive_keeps:
  assumes "receiveSyscallConn L ad fd u = Received v"
  obtains st where "v = u\<lparr>ur_syscallCh := [st], ur_streams := st # ur_streams u\<rparr>" "ur_syscallCh u = []"
  using assms by (cases "ur_syscallCh u") (auto simp: receiveSyscallConn_def split: sum.splits option.splits if_splits)

text \<open>What one message does, case by case.\<close>

lemma refused_stream:
  assumes "receiveSyscallConn L ad fd u = ReceiveFailed DuplicateSyscallConn cl"
  shows "rebuilt_stream L ad fd = cl"
  using assms by (auto simp: receiveSyscallConn_def rebuilt_stream_def split: sum.splits option.splits if_splits)

lemma message_cases:
  assumes "readConn_msg L fd m u = Some (go_on, v)"
  obtains (stream) st where "fst m = MsgSyscallConnFollows" "ur_syscallCh u = []"
      "v = u\<lparr>ur_hand := None, ur_received := ur_received u @ [m], ur_syscallCh := [st], ur_streams := st # ur_streams u\<rparr>"
    | (refused) cl dup where "fst m = MsgSyscallConnFollows" "set dup \<subseteq> set cl"
      "v = u\<lparr>ur_hand := None, ur_received := ur_received u @ [m], ur_closed_conns := cl @ ur_closed_conns u, ur_streams := dup @ ur_streams u,
             ur_refused := dup @ ur_refused u\<rparr>"
    | (forwarded) "fst m \<noteq> MsgSyscallConnFollows" "ur_runConn u" "ur_pipeConn u"
      "v = u\<lparr>ur_hand := None, ur_received := ur_received u @ [m], ur_to_run := ur_to_run u @ [m]\<rparr>"
    | (dead) "fst m \<noteq> MsgSyscallConnFollows" "\<not> (ur_runConn u \<and> ur_pipeConn u)" "v = u\<lparr>ur_hand := None, ur_received := ur_received u @ [m]\<rparr>"
proof (cases "fst m = MsgSyscallConnFollows")
  case True
  then show ?thesis
  proof (cases "receiveSyscallConn L (snd m) fd (u\<lparr>ur_hand := None, ur_received := ur_received u @ [m]\<rparr>)")
    case (Received w)
    then show ?thesis using assms True that(1) by (auto simp: readConn_msg_def elim: receive_keeps)
  next
    case (ReceiveFailed e cl)
    let ?dup = "if e = DuplicateSyscallConn then rebuilt_stream L (snd m) fd else []"
    have "set ?dup \<subseteq> set cl" using ReceiveFailed refused_stream [of L "snd m" fd _ cl] by auto
    then show ?thesis using ReceiveFailed assms True that(2) [of ?dup cl] by (simp add: readConn_msg_def Let_def)
  qed (use assms in \<open>auto simp: readConn_msg_def\<close>)
next
  case False
  then show ?thesis using assms that(3,4) by (auto simp: readConn_msg_def Let_def split: if_splits)
qed

text \<open>The steps that leave the streams alone.\<close>

lemma streams_frame [simp]:
  "relay_streams (u\<lparr>ur_hand := h\<rparr>) = relay_streams u" "relay_streams (u\<lparr>ur_now := t\<rparr>) = relay_streams u"
  "relay_streams (conn_lost c u) = relay_streams u" "relay_streams (install c u) = relay_streams u"
  "relay_streams (pumpOutbound_msg ok m u) = relay_streams u" "relay_streams (reaccept_deadline u) = relay_streams u"
  "relay_streams (gap_over r u) = relay_streams u" "relay_streams u \<Longrightarrow> relay_streams (unixStarter_Close u)"
  by (auto simp: relay_streams_def conn_lost_def install_def pumpOutbound_msg_def reaccept_deadline_def gap_over_def reaccept_def
      selfDestruct_def unixStarter_Close_def split: option.split accept_result.split)

lemma message_inv:
  assumes "readConn_msg L fd m u = Some (go_on, v)" "relay_inv u"
  shows "relay_inv v"
proof -
  have "relay_streams u" using assms(2) by (simp add: relay_inv_def)
  with assms(1) have "relay_streams v" by (cases rule: message_cases) (auto simp: relay_streams_def)
  with assms show ?thesis by (cases rule: message_cases) (auto simp: relay_inv_def)
qed

lemma conn_lost_inv: "relay_inv u \<Longrightarrow> relay_inv (conn_lost c u)"
  using streams_frame(3) [of c u] unfolding relay_inv_def by (auto simp: conn_lost_def)

lemma syscall_inv: "starter_SyscallConn u = Some (Some (st, v)) \<Longrightarrow> relay_inv u \<Longrightarrow> relay_inv v"
proof (cases "ur_syscallCh u")
  case (Cons x xs)
  assume a: "starter_SyscallConn u = Some (Some (st, v))" "relay_inv u"
  then have v: "v = u\<lparr>ur_syscallCh := xs, ur_taken := x # ur_taken u\<rparr>" using Cons by (auto simp: starter_SyscallConn_def)
  have "relay_streams v" using a(2) Cons by (simp add: relay_inv_def relay_streams_def v)
  then show ?thesis using a(2) unfolding relay_inv_def v by auto
qed (simp add: starter_SyscallConn_def split: if_splits)

lemma manage_inv:
  assumes "relay_inv u"
  shows "relay_inv (u\<lparr>ur_hand := h\<rparr>)" "relay_inv (install c u)" "relay_inv (pumpOutbound_msg ok m u)"
    "relay_inv (unixStarter_Close u)" "0 \<le> d \<Longrightarrow> relay_inv (u\<lparr>ur_now := ur_now u + d\<rparr>)" "ur_managing u \<Longrightarrow> relay_inv (reaccept_deadline u)"
  using assms streams_frame [where u = u] unfolding relay_inv_def
  by (auto simp: install_def pumpOutbound_msg_def unixStarter_Close_def reaccept_deadline_def split: option.split)

lemma gap_over_inv:
  assumes "relay_inv u" "ur_managing u" "ur_deadline u \<noteq> None" "accept_possible r u"
  shows "relay_inv (gap_over r u)"
  using assms streams_frame(7) [of r u] unfolding relay_inv_def
  by (auto simp: gap_over_def reaccept_def selfDestruct_def accept_possible_def split: accept_result.splits option.splits)

lemma relay_step_inv: "relay_step L u v \<Longrightarrow> relay_inv u \<Longrightarrow> relay_inv v"
  by (erule relay_stepE) (auto intro: message_inv conn_lost_inv syscall_inv manage_inv gap_over_inv)

lemma relay_step_gap: "relay_step L u v \<Longrightarrow> ur_gap v = ur_gap u"
  by (erule relay_stepE) (auto simp: conn_lost_def install_def pumpOutbound_msg_def unixStarter_Close_def reaccept_deadline_def gap_over_def
      reaccept_def selfDestruct_def starter_SyscallConn_def elim!: message_cases split: option.splits list.splits if_splits accept_result.splits)

lemma relay_gap: "(relay_step L)\<^sup>*\<^sup>* u v \<Longrightarrow> ur_gap v = ur_gap u"
  by (induction rule: rtranclp_induct) (simp_all add: relay_step_gap)

interpretation relay: machine "relay_step L" relay_inv for L :: "'x classad_api_scheme"
  by unfold_locales (rule relay_step_inv)

lemma listen_inv: "ListenStarter p at gl r l arr = Inr u \<Longrightarrow> relay_inv u"
  by (auto simp: ListenStarter_def relay_inv_def relay_streams_def split: if_splits option.splits)

text \<open>
  C12. The run does not notice a restart of the startd: from the moment the starter listens, through any
  sequence of lost connections and redials, the control pipe of the run stays open unless the transport is
  closed or \<^verbatim>\<open>manage\<close> has given up in a gap, and it gives up only when the whole lease has passed since it began to wait or the listener
  failed; while the pipe is open the run has been given exactly the
  control messages the relay has dealt with, in order, without those that announce a syscall connection, and in a gap every redial can be taken up.
\<close>

theorem job_survives_startd_gap:
  assumes "ListenStarter p at gl r l arr = Inr u" "(relay_step L)\<^sup>*\<^sup>* u v"
  shows "(ur_runConn v \<longleftrightarrow> \<not> ur_closed v \<and> \<not> ur_elapsed v) \<and>
    (ur_elapsed v \<and> \<not> ur_failed v \<longrightarrow> ur_since v + (if gl \<le> 0 then DefaultStartdGapLease else gl) \<le> ur_now v) \<and>
    (ur_runConn v \<longrightarrow> ur_managing v \<and> ur_to_run v = filter (\<lambda>m. fst m \<noteq> MsgSyscallConnFollows) (ur_received v)) \<and>
    (ur_runConn v \<and> ur_serving v = None \<and> ur_fresh v = None \<longrightarrow>
       (\<forall>c. \<exists>t. (relay_step L)\<^sup>*\<^sup>* v (v\<lparr>ur_conn := Some c, ur_serving := Some c, ur_deadline := None, ur_since := t\<rparr>)))"
proof -
  have inv: "relay_inv v" using relay.reachable_inv [OF assms(2) listen_inv [OF assms(1)]] .
  have gap: "ur_gap v = (if gl \<le> 0 then DefaultStartdGapLease else gl)"
    using assms(1) relay_gap [OF assms(2)] by (auto simp: ListenStarter_def split: if_splits option.splits)
  have "\<exists>t. (relay_step L)\<^sup>*\<^sup>* v (v\<lparr>ur_conn := Some c, ur_serving := Some c, ur_deadline := None, ur_since := t\<rparr>)"
    if idle: "ur_runConn v" "ur_serving v = None" "ur_fresh v = None" for c
  proof -
    have ok: "ur_managing v" "ur_listening v" "\<not> ur_stopped v" using inv idle(1) by (auto simp: relay_inv_def)
    obtain t dl where d: "(relay_step L)\<^sup>*\<^sup>* v (v\<lparr>ur_deadline := Some dl, ur_since := t\<rparr>)"
    proof (cases "ur_deadline v")
      case None
      then have "relay_step L v (reaccept_deadline v)" using ok idle by (intro relay_step.deadline)
      then show ?thesis using that [where dl = "ur_now v + ur_gap v" and t = "ur_now v"] by (simp add: reaccept_deadline_def r_into_rtranclp)
    next
      case (Some dl)
      then have "v\<lparr>ur_deadline := Some dl, ur_since := ur_since v\<rparr> = v" by (cases v) simp
      then show ?thesis using that by (metis rtranclp.rtrancl_refl)
    qed
    let ?u = "v\<lparr>ur_deadline := Some dl, ur_since := t\<rparr>"
    have "relay_step L ?u (gap_over (Accepted c) ?u)"
      using ok idle by (intro relay_step.accept) (simp_all add: accept_possible_def)
    moreover have "gap_over (Accepted c) ?u = v\<lparr>ur_deadline := None, ur_since := t, ur_fresh := Some c\<rparr>"
      using ok by (simp add: gap_over_def reaccept_def)
    moreover have "relay_step L (v\<lparr>ur_deadline := None, ur_since := t, ur_fresh := Some c\<rparr>)
        (install c (v\<lparr>ur_deadline := None, ur_since := t, ur_fresh := Some c\<rparr>))"
      using ok by (intro relay_step.installed) simp_all
    moreover have "install c (v\<lparr>ur_deadline := None, ur_since := t, ur_fresh := Some c\<rparr>) =
        v\<lparr>ur_conn := Some c, ur_serving := Some c, ur_deadline := None, ur_since := t\<rparr>"
      using idle by (cases v) (simp add: install_def)
    ultimately show ?thesis using d by (metis rtranclp.rtrancl_into_rtrancl)
  qed
  then show ?thesis using inv gap by (auto simp: relay_inv_def for_run_def)
qed

text \<open>
  C27. The syscall connection is received once at a time, whatever the peer announces: every stream that
  was rebuilt has been taken by the run, is the one waiting in the channel, or was refused, and every refused one has been closed. While the relay is at
  work, an announcement that gives a stream puts it into the channel when that is empty; when another stream is still waiting there,
  the new one is closed and the announcement fails. The relay never sends on its closed channel.
\<close>

theorem syscall_stream_received_once:
  assumes "ListenStarter p at gl r l arr = Inr u" "(relay_step L)\<^sup>*\<^sup>* u v"
  shows "length (ur_syscallCh v) \<le> 1 \<and>
    mset (ur_streams v) = mset (ur_taken v) + mset (ur_syscallCh v) + mset (ur_refused v) \<and> set (ur_refused v) \<subseteq> set (ur_closed_conns v) \<and>
    (ur_managing v \<longrightarrow> receiveSyscallConn L ad fd v \<noteq> SendOnClosedChannel) \<and>
    (ur_managing v \<and> rebuilt_stream L ad fd = [st] \<longrightarrow>
       receiveSyscallConn L ad fd v =
         (if ur_syscallCh v = [] then Received (v\<lparr>ur_syscallCh := [st], ur_streams := st # ur_streams v\<rparr>)
          else ReceiveFailed DuplicateSyscallConn [st]))"
proof -
  have inv: "relay_inv v" using relay.reachable_inv [OF assms(2) listen_inv [OF assms(1)]] .
  then have "ur_managing v \<longrightarrow> \<not> ur_chClosed v" by (auto simp: relay_inv_def)
  moreover have "receiveSyscallConn L ad fd v =
         (if ur_syscallCh v = [] then Received (v\<lparr>ur_syscallCh := [st], ur_streams := st # ur_streams v\<rparr>)
          else ReceiveFailed DuplicateSyscallConn [st])" if "rebuilt_stream L ad fd = [st]" "\<not> ur_chClosed v"
    using that by (cases "ur_syscallCh v") (auto simp: receiveSyscallConn_def rebuilt_stream_def split: sum.splits option.splits)
  moreover have "relay_streams v" using inv by (simp add: relay_inv_def)
  ultimately show ?thesis unfolding relay_streams_def by (auto simp: receiveSyscallConn_def split: sum.split option.split)
qed

section \<open>Runs of the relay\<close>

definition example_relay :: unixStarter where
  "example_relay = projr (ListenStarter ''/s'' 0 0 True True (\<lambda>d. Some 1))"

lemma example_listens: "ListenStarter ''/s'' 0 0 True True (\<lambda>d. Some 1) = Inr example_relay"
  by (simp add: example_relay_def ListenStarter_def)

lemma example_lost: "relay_step lit_api example_relay (conn_lost 1 example_relay)"
  by (rule relay_step.lost) (simp_all add: example_relay_def ListenStarter_def)

theorem job_survives_startd_gap_witness:
  "ur_runConn (conn_lost 1 example_relay) \<and>
   (\<exists>t. (relay_step lit_api)\<^sup>*\<^sup>* (conn_lost 1 example_relay)
      ((conn_lost 1 example_relay)\<lparr>ur_conn := Some 2, ur_serving := Some 2, ur_deadline := None, ur_since := t\<rparr>))"
proof -
  have "\<not> ur_closed (conn_lost 1 example_relay)" "\<not> ur_elapsed (conn_lost 1 example_relay)"
    "ur_serving (conn_lost 1 example_relay) = None" "ur_fresh (conn_lost 1 example_relay) = None"
    by (simp_all add: conn_lost_def example_relay_def ListenStarter_def)
  then show ?thesis
    using job_survives_startd_gap [OF example_listens r_into_rtranclp [of "relay_step lit_api", OF example_lost]] by blast
qed

text \<open>An announcement with what follows it on the socket; the stream it gives is the number \<open>st\<close>.\<close>

definition announcement :: ad where
  "announcement = marshalSyscallFollows ''key''"

definition passed_as :: "nat \<Rightarrow> passed_fd" where
  "passed_as st = \<lparr>pf_input = [CHR 0x00, CHR 0x00, CHR 0x00, CHR 0x00, CHR 0x08, CHR 0x00, CHR 0x00, CHR 0x00, CHR 0x00, CHR 0x00, CHR 0x00, CHR 0x00, CHR 0x4C],
     pf_conn = Some 5, pf_stream = (\<lambda>b. Some st)\<rparr>"

lemma announced_stream: "rebuilt_stream lit_api announcement (passed_as st) = [st]"
proof -
  have "parseSyscallFollows lit_api announcement = Inr ''key''" by code_simp
  moreover have "readPassSockHeader (pf_input (passed_as st)) = Inr []"
    by (simp add: passed_as_def readPassSockHeader_def passSockHeaderLen_def sharedPortPassSock_def big_endian_def)
  ultimately show ?thesis by (simp add: rebuilt_stream_def passed_as_def)
qed

theorem syscall_stream_received_once_witness:
  "\<exists>v. (relay_step lit_api)\<^sup>*\<^sup>* example_relay v \<and> ur_syscallCh v = [8] \<and>
     receiveSyscallConn lit_api announcement (passed_as 9) v = ReceiveFailed DuplicateSyscallConn [9]"
proof -
  let ?m = "(MsgSyscallConnFollows, announcement)"
  let ?u = "example_relay\<lparr>ur_hand := Some ?m\<rparr>"
  let ?v = "example_relay\<lparr>ur_received := [?m], ur_syscallCh := [8], ur_streams := [8]\<rparr>"
  note d = example_relay_def ListenStarter_def
  have read: "(relay_step lit_api)\<^sup>*\<^sup>* example_relay ?u"
    by (rule r_into_rtranclp, rule relay_step.read) (simp_all add: d)
  have "receiveSyscallConn lit_api announcement (passed_as 8) (example_relay\<lparr>ur_received := [?m]\<rparr>) =
      Received ((example_relay\<lparr>ur_received := [?m]\<rparr>)\<lparr>ur_syscallCh := [8], ur_streams := [8]\<rparr>)"
    using announced_stream [of 8] by (auto simp: receiveSyscallConn_def rebuilt_stream_def d split: sum.splits option.splits)
  then have "readConn_msg lit_api (passed_as 8) ?m ?u = Some (True, ?v)"
    by (simp add: readConn_msg_def d)
  then have "relay_step lit_api ?u ?v" by (intro relay_step.message [of ?u 1 ?m]) (simp_all add: d)
  then have r: "(relay_step lit_api)\<^sup>*\<^sup>* example_relay ?v" by (rule rtranclp.rtrancl_into_rtrancl [OF read])
  have "ur_managing ?v" "ur_syscallCh ?v = [8]" by (simp_all add: d)
  then show ?thesis
    using syscall_stream_received_once [OF example_listens r, of announcement "passed_as 9" 9] r announced_stream [of 9] by (intro exI [of _ ?v]) auto
qed

text \<open>
  A connection whose syscall announcement cannot be used is dropped without being closed: the relay
  forgets it and waits for a redial, and even the \<^verbatim>\<open>Close\<close> of the transport no longer closes it, so the
  startd at its other end is not told.
\<close>

theorem refused_connection_left_open:
  "\<exists>v. (relay_step lit_api)\<^sup>*\<^sup>* example_relay v \<and> ur_closed v \<and> ur_conn v = None \<and> 1 \<notin> set (ur_closed_conns v)"
proof -
  let ?fd = "\<lparr>pf_input = [], pf_conn = None, pf_stream = (\<lambda>b. None)\<rparr>"
  let ?m = "(MsgSyscallConnFollows, new_ad)"
  let ?h = "example_relay\<lparr>ur_hand := Some ?m\<rparr>" and ?u = "example_relay\<lparr>ur_received := [?m]\<rparr>"
  have read: "relay_step lit_api example_relay ?h" by (rule relay_step.read) (simp_all add: example_relay_def ListenStarter_def)
  have "parseSyscallFollows lit_api new_ad = Inl NoCryptoState" by code_simp
  then have "readConn_msg lit_api ?fd ?m ?h = Some (False, ?u)"
    by (simp add: readConn_msg_def receiveSyscallConn_def example_relay_def ListenStarter_def)
  then have "relay_step lit_api ?h (conn_lost 1 ?u)"
    by (intro relay_step.unreadable [of ?h 1 ?m]) (simp_all add: example_relay_def ListenStarter_def)
  moreover have "relay_step lit_api (conn_lost 1 ?u) (unixStarter_Close (conn_lost 1 ?u))" by (rule relay_step.close)
  ultimately have "(relay_step lit_api)\<^sup>*\<^sup>* example_relay (unixStarter_Close (conn_lost 1 ?u))"
    using read by (meson rtranclp.rtrancl_into_rtrancl rtranclp.rtrancl_refl)
  then show ?thesis
    by (intro exI [of _ "unixStarter_Close (conn_lost 1 ?u)"])
      (simp add: unixStarter_Close_def conn_lost_def example_relay_def ListenStarter_def)
qed

end
