(* ===== verification/ExitMarker.thy ===== *)
theory ExitMarker
  imports Handlers Starter UnixStarter Invariant
begin

text \<open>
  The starter as a process of its own (\<^verbatim>\<open>cmd/starter/main.go\<close>): the options it runs with, the outcome it
  records, and the exit marker it leaves in the sandbox for a startd that restarts while the job runs;
  and what the startd (\<^verbatim>\<open>internal/startd/adopt.go\<close>) makes of the marker. The JSON codec of the marker is the
  record \<open>json_api\<close>; files are a map from paths to contents.
\<close>

record json_api =
  Marshal :: "exitMarker \<Rightarrow> string + string"
  Unmarshal :: "string \<Rightarrow> exitMarker option"

type_synonym files = "string \<Rightarrow> string option"

section \<open>Writing the marker\<close>

definition marker_path :: "string \<Rightarrow> string" where
  "marker_path sbx = Join [sbx, ''.exit'']"

text \<open>\<open>wrote\<close> and \<open>renamed\<close> tell whether the two operations succeed; a failed write may have left a part.\<close>

definition writeExitMarker :: "json_api \<Rightarrow> string \<Rightarrow> exitMarker \<Rightarrow> nat option \<Rightarrow> bool \<Rightarrow> files \<Rightarrow> bool \<times> files" where
  "writeExitMarker J sbx m stopped renamed fs =
     (case Marshal J m of
        Inl err \<Rightarrow> (False, fs)
      | Inr data \<Rightarrow>
          (let path = marker_path sbx; tmp = path @ ''.tmp''
           in case stopped of
                Some n \<Rightarrow> (False, fs(tmp \<mapsto> take n data))
              | None \<Rightarrow> if renamed then (True, fs(tmp := None, path \<mapsto> data)) else (False, fs(tmp \<mapsto> data))))"

section \<open>The process\<close>

record starter_flags =
  f_socket :: string
  f_slot :: string
  f_claim :: string
  f_sandbox :: string
  f_update_interval :: int
  f_uid_domain :: string
  f_fs_domain :: string
  f_accept_timeout :: int
  f_startd_gap_lease :: int
  f_command_bind :: string

definition starter_options :: "starter_flags \<Rightarrow> RunOptions" where
  "starter_options fl =
     \<lparr>o_SlotName = f_slot fl, o_ClaimID = f_claim fl, o_UpdateInterval = wrap64 (f_update_interval fl * second),
      o_UIDDomain = f_uid_domain fl, o_FileSystemDomain = f_fs_domain fl, o_OnFinal = True,
      o_EnableCommandServer = True, o_CommandBindAddr = f_command_bind fl\<rparr>"

text \<open>The callback keeps the last outcome it is given; without one the job never started.\<close>

fun on_final :: "'x classad_api_scheme \<Rightarrow> int \<Rightarrow> run_action \<Rightarrow> exitMarker option \<Rightarrow> exitMarker option" where
  "on_final L t (FinalCallback status reason ad) marker =
     Some \<lparr>WaitpidStatus = status, em_Reason = reason, FinalAd = AdString L ad, ExitTime = t\<rparr>"
| "on_final L t _ marker = marker"

definition exit_marker :: "'x classad_api_scheme \<Rightarrow> int \<Rightarrow> run_action list \<Rightarrow> exitMarker" where
  "exit_marker L t acts =
     (case fold (on_final L t) acts None of
        Some m \<Rightarrow> m
      | None \<Rightarrow> \<lparr>WaitpidStatus = 0, em_Reason = 108, FinalAd = [], ExitTime = t\<rparr>)"

datatype starter_error =
    SocketRequired
  | SandboxRequired
  | LoggerFailed
  | ControlFailed listen_error
  | RunFailed string

text \<open>
  \<open>listen\<close> answers \<^verbatim>\<open>ListenStarter\<close>, \<open>logger\<close> whether a logger could be built, and the last two arguments of
  the marker are as above. Nothing is returned while the job runs.
\<close>

definition starter_main ::
  "json_api \<Rightarrow> 'x classad_api_scheme \<Rightarrow> 'm run_env \<Rightarrow> starter_flags \<Rightarrow> bool \<Rightarrow>
     (string \<Rightarrow> duration \<Rightarrow> duration \<Rightarrow> listen_error + unixStarter) \<Rightarrow> int \<Rightarrow> nat option \<Rightarrow> bool \<Rightarrow> files \<Rightarrow>
     (starter_error option \<times> files) option" where
  "starter_main J L e fl logger listen t stopped renamed fs =
     (if f_socket fl = [] then Some (Some SocketRequired, fs)
      else if f_sandbox fl = [] then Some (Some SandboxRequired, fs)
      else if \<not> logger then Some (Some LoggerFailed, fs)
      else case listen (f_socket fl) (wrap64 (f_accept_timeout fl * second)) (wrap64 (f_startd_gap_lease fl * second)) of
        Inl err \<Rightarrow> Some (Some (ControlFailed err), fs)
      | Inr side \<Rightarrow>
          map_option (\<lambda>(err, acts).
            (map_option RunFailed err, snd (writeExitMarker J (f_sandbox fl) (exit_marker L t acts) stopped renamed fs)))
            (Run L e (starter_options fl)))"

section \<open>The marker is never half written\<close>

text \<open>
  The exit marker is replaced in one piece: however the writing ends, the marker's path holds what
  it held before or the complete new marker, and it holds the new one exactly when the writing reports
  success; no other file but the temporary one is touched.
\<close>

theorem marker_atomic:
  "case writeExitMarker J sbx m stopped renamed fs of (ok, fs') \<Rightarrow>
     (if ok then (\<exists>data. Marshal J m = Inr data \<and> fs' (marker_path sbx) = Some data)
      else fs' (marker_path sbx) = fs (marker_path sbx)) \<and>
     {p. fs' p \<noteq> fs p} \<subseteq> {marker_path sbx, marker_path sbx @ ''.tmp''}"
  by (auto simp: writeExitMarker_def Let_def split: sum.split option.split)

section \<open>The outcome survives a restart of the startd\<close>

lemma on_final_filter: "fold (on_final L t) acts m = fold (on_final L t) (filter reporting acts) m"
proof (induction acts arbitrary: m)
  case (Cons a acts)
  have "\<not> reporting a \<Longrightarrow> on_final L t a m = m" by (cases a) auto
  then show ?case using Cons by simp
qed simp

lemma marker_of_report:
  assumes "filter reporting acts = report L opts status reason ad \<or> filter reporting acts = Rpc s (JobExit status reason ad) # report L opts status reason ad"
    and "o_OnFinal opts"
  shows "exit_marker L t acts = \<lparr>WaitpidStatus = status, em_Reason = reason, FinalAd = AdString L ad, ExitTime = t\<rparr>"
  using assms on_final_filter [of L t acts None] by (auto simp: exit_marker_def report_def)

lemma marker_of_run:
  assumes "Run L e opts = Some (r, acts)" "await_activate L (re_first e) = Inr act" "re_syscall e = Inr st" "o_OnFinal opts"
    and "FinalCallback status reason ad \<in> set acts"
  shows "exit_marker L t acts = \<lparr>WaitpidStatus = status, em_Reason = reason, FinalAd = AdString L ad, ExitTime = t\<rparr>"
proof -
  obtain s status' reason' ad' where r: "filter reporting acts = report L opts status' reason' ad' \<or>
      filter reporting acts = Rpc s (JobExit status' reason' ad') # report L opts status' reason' ad'"
    using run_report [OF assms(1-3)] by blast
  then have "set (filter reporting acts) \<subseteq> insert (Rpc s (JobExit status' reason' ad')) (set (report L opts status' reason' ad'))"
    by (elim disjE; simp only: list.set; blast)
  moreover have "FinalCallback status reason ad \<in> set (filter reporting acts)" using assms(5) by simp
  ultimately have "FinalCallback status reason ad \<in> set (report L opts status' reason' ad')" by blast
  then have "status' = status" "reason' = reason" "ad' = ad" by (auto simp: report_def split: if_splits)
  then show ?thesis using marker_of_report [OF r assms(4)] by simp
qed

lemma adopt_failed_marker:
  assumes "readExitMarker w (sandbox a) = Some m" "map_of (activations c) n = Some a" "map_of (byName c) n = Some q"
    "q < length (heap c)" "slot_claim (slot_at c q) = Some cl" "claim_state cl = ClaimedBusy"
  shows "slot_claim (slot_at (doAdoptFailed L w n c) q) =
      Some (SetIdle (now w) (SetFinal (if FinalAd m \<noteq> [] then ParseAd L (FinalAd m) else None) (WaitpidStatus m) (em_Reason m) cl)) \<and>
    n \<notin> dom (map_of (activations (doAdoptFailed L w n c)))"
proof -
  let ?f = "\<lambda>s. set_idle w (map_claim (SetFinal (if FinalAd m \<noteq> [] then ParseAd L (FinalAd m) else None) (WaitpidStatus m) (em_Reason m)) s)"
  let ?c1 = "end_activation n a c"
  let ?d = "on_slot q ?f ?c1"
  have same: "slot_at ?c1 q = slot_at c q" "length (heap ?c1) = length (heap c)"
    by (simp_all add: end_activation_def emit_def slot_at_def)
  then have "doAdoptFailed L w n c = reAdvertise L w (persistSlot L q ?d)"
    using assms by (simp add: doAdoptFailed_def Let_def claim_is_def)
  then have v: "core_view (doAdoptFailed L w n c) = core_view ?d" by simp
  have "q < length (heap (doAdoptFailed L w n c))" using assms(4) same(2) view_eq_fields(9) [OF v] by simp
  note claim = strip_eqD(2) [OF view_eq_slot [OF v this]]
  have "slot_at ?d q = ?f (slot_at c q)" using assms(4) same by simp
  then have "slot_claim (slot_at (doAdoptFailed L w n c) q) = slot_claim (?f (slot_at c q))"
    unfolding claim by (rule arg_cong)
  moreover have "activations (doAdoptFailed L w n c) = AList.delete n (activations c)"
    using view_eq_fields(6) [OF v] by (simp add: end_activation_def emit_def)
  ultimately show ?thesis using assms(5) by (simp add: set_idle_def map_claim_def SetStateActivity_def delete_conv')
qed

text \<open>Well-formed UTF-8, which is what the JSON codec keeps: it replaces every other byte.\<close>

definition utf8_between :: "nat \<Rightarrow> nat \<Rightarrow> char \<Rightarrow> bool" where
  "utf8_between lo hi ch \<longleftrightarrow> lo \<le> of_char ch \<and> of_char ch \<le> hi"

fun valid_utf8 :: "string \<Rightarrow> bool" where
  "valid_utf8 [] \<longleftrightarrow> True"
| "valid_utf8 (a # s) \<longleftrightarrow>
     (if utf8_between 0 0x7F a then valid_utf8 s
      else case s of
        [] \<Rightarrow> False
      | b # s1 \<Rightarrow>
          if utf8_between 0xC2 0xDF a then utf8_between 0x80 0xBF b \<and> valid_utf8 s1
          else case s1 of
            [] \<Rightarrow> False
          | c # s2 \<Rightarrow>
              if utf8_between 0xE0 0xEF a
              then utf8_between (if utf8_between 0xE0 0xE0 a then 0xA0 else 0x80) (if utf8_between 0xED 0xED a then 0x9F else 0xBF) b \<and>
                utf8_between 0x80 0xBF c \<and> valid_utf8 s2
              else case s2 of
                [] \<Rightarrow> False
              | d # s3 \<Rightarrow>
                  utf8_between 0xF0 0xF4 a \<and>
                  utf8_between (if utf8_between 0xF0 0xF0 a then 0x90 else 0x80) (if utf8_between 0xF4 0xF4 a then 0x8F else 0xBF) b \<and>
                  utf8_between 0x80 0xBF c \<and> utf8_between 0x80 0xBF d \<and> valid_utf8 s3)"

text \<open>
  C9. The outcome of a job survives a restart of the startd: when a starter process ends while no startd
  is connected, and a later startd finds it gone, the claim gets the status, the reason and an ad with the attributes that
  the starter reported to the shadow, becomes idle again under the same claim id, and the activation is
  closed. This holds where the marker could be written and renamed in the sandbox. Of the JSON library it is assumed that it reads back the
  numbers and the well-formed UTF-8 text it wrote; of the ClassAd library, that the printed ad is not empty, is UTF-8, and
  parses to an ad with the same attributes.
\<close>

theorem outcome_survives_restart:
  assumes codec: "\<And>m. in64 (WaitpidStatus m) \<Longrightarrow> in64 (em_Reason m) \<Longrightarrow> in64 (ExitTime m) \<Longrightarrow> valid_utf8 (FinalAd m) \<Longrightarrow>
        \<exists>data. Marshal J m = Inr data \<and> Unmarshal J data = Some m"
    and printed: "AdString L ad \<noteq> []" "valid_utf8 (AdString L ad)" "\<exists>ad'. ParseAd L (AdString L ad) = Some ad' \<and> same_attributes L ad ad'"
    and run: "Run L e (starter_options fl) = Some (r, acts)" "await_activate L (re_first e) = Inr act" "re_syscall e = Inr st"
      "FinalCallback status reason ad \<in> set acts" "in64 status" "in64 reason" "in64 t"
    and main: "starter_main J L e fl True (\<lambda>p a g. Inr side) t None True fs = Some (err, fs')" "f_socket fl \<noteq> []" "f_sandbox fl \<noteq> []"
    and read_file: "\<And>p. exit_file w p = Option.bind (fs' p) (Unmarshal J)"
    and claim: "map_of (activations c) n = Some a" "sandbox a = f_sandbox fl" "map_of (byName c) n = Some q" "q < length (heap c)"
      "slot_claim (slot_at c q) = Some cl" "claim_state cl = ClaimedBusy"
  shows "\<exists>cl' ad'. slot_claim (slot_at (doAdoptFailed L w n c) q) = Some cl' \<and> claimID cl' = claimID cl \<and> claim_state cl' = ClaimedIdle \<and>
    Final cl' = (Some ad', status, reason) \<and> same_attributes L ad ad' \<and>
    n \<notin> dom (map_of (activations (doAdoptFailed L w n c)))"
proof -
  let ?m = "exit_marker L t acts"
  have final: "o_OnFinal (starter_options fl)" by (simp add: starter_options_def)
  have m: "?m = \<lparr>WaitpidStatus = status, em_Reason = reason, FinalAd = AdString L ad, ExitTime = t\<rparr>"
    by (rule marker_of_run [OF run(1-3) final run(4)])
  obtain data where d: "Marshal J ?m = Inr data" "Unmarshal J data = Some ?m" using codec [of ?m] run(5-7) printed(2) by (auto simp: m)
  have "fs' = snd (writeExitMarker J (f_sandbox fl) ?m None True fs)"
    using main run(1) by (simp add: starter_main_def)
  then have "fs' (marker_path (f_sandbox fl)) = Some data" using d by (simp add: writeExitMarker_def Let_def)
  then have "readExitMarker w (sandbox a) = Some ?m"
    using claim(2) main(3) d read_file by (simp add: readExitMarker_def marker_path_def)
  from adopt_failed_marker [OF this claim(1,3-6), of L] printed show ?thesis
    by (auto simp: m SetIdle_def SetFinal_def Final_def)
qed

text \<open>A codec that has the property: the numbers with a comma behind each, then the text of the ad.\<close>

definition comma_codec :: json_api where
  "comma_codec =
     \<lparr>Marshal = (\<lambda>m. Inr (Itoa (WaitpidStatus m) @ CHR '','' # Itoa (em_Reason m) @ CHR '','' # Itoa (ExitTime m) @ CHR '','' # FinalAd m)),
      Unmarshal = (\<lambda>s0. let rest = (\<lambda>s. tl (dropWhile (\<lambda>ch. ch \<noteq> CHR '','') s)); num = (\<lambda>s. Atoi (takeWhile (\<lambda>ch. ch \<noteq> CHR '','') s));
                              s1 = rest s0; s2 = rest s1
                          in case (num s0, num s1, num s2) of
                               (Some a, Some b, Some c) \<Rightarrow> Some \<lparr>WaitpidStatus = a, em_Reason = b, FinalAd = rest s2, ExitTime = c\<rparr>
                             | _ \<Rightarrow> None)\<rparr>"

lemma comma_codec_ok:
  assumes "in64 (WaitpidStatus m)" "in64 (em_Reason m)" "in64 (ExitTime m)"
  shows "\<exists>data. Marshal comma_codec m = Inr data \<and> Unmarshal comma_codec data = Some m"
proof -
  have comma: "CHR '','' \<notin> set (Itoa k)" for k
    using digits_of_digits [of "CHR '',''" "nat \<bar>k\<bar>"] by (auto simp: Itoa_def digit_val_def)
  have "takeWhile (\<lambda>ch. ch \<noteq> CHR '','') (Itoa k @ CHR '','' # s) = Itoa k"
    "dropWhile (\<lambda>ch. ch \<noteq> CHR '','') (Itoa k @ CHR '','' # s) = CHR '','' # s" for k s
    using comma [of k] by (auto simp: takeWhile_append2 dropWhile_append2 intro: takeWhile_append2 [THEN trans] dropWhile_append2 [THEN trans])
  then show ?thesis using assms by (cases m) (simp add: comma_codec_def Let_def Atoi_Itoa)
qed

definition example_flags :: starter_flags where
  "example_flags = \<lparr>f_socket = ''/s/1'', f_slot = ''slot1@h'', f_claim = ''c'', f_sandbox = ''/execute/dir_1'', f_update_interval = 0,
     f_uid_domain = [], f_fs_domain = [], f_accept_timeout = 30, f_startd_gap_lease = 1200, f_command_bind = ''127.0.0.1:0''\<rparr>"

definition broken_env :: "wire_item list run_env" where
  "broken_env = example_env\<lparr>re_put := Some ''eof''\<rparr>"

lemma broken_act: "\<exists>act. await_activate example_lib (re_first broken_env) = Inr act"
proof -
  have "\<not> isl (await_activate example_lib (re_first broken_env))" by code_simp
  then show ?thesis by (cases "await_activate example_lib (re_first broken_env)") auto
qed

lemma broken_run:
  "\<exists>r acts. Run example_lib broken_env (starter_options example_flags) = Some (r, acts) \<and> FinalCallback 0 108 new_ad \<in> set acts"
proof -
  have "never_blocked broken_env" by (simp add: never_blocked_def broken_env_def example_env_def)
  from Run_unblocked [OF this, of example_lib "starter_options example_flags"] broken_act show ?thesis
    by (auto simp: run_answered_def broken_env_def example_env_def Let_def getJobInfoWithSecrets_def finalize_def starter_options_def)
qed

theorem outcome_survives_restart_witness:
  "\<exists>w c cl ad'. slot_claim (slot_at (doAdoptFailed example_lib w (Name example_slot) c) 0) = Some cl \<and>
     Final cl = (Some ad', 0, 108) \<and> same_attributes example_lib new_ad ad'"
proof -
  obtain r acts where run: "Run example_lib broken_env (starter_options example_flags) = Some (r, acts)"
    "FinalCallback 0 108 new_ad \<in> set acts" using broken_run by blast
  obtain act where act: "await_activate example_lib (re_first broken_env) = Inr act" using broken_act by blast
  obtain side where "ListenStarter ''/s/1'' 0 0 True True (\<lambda>d. Some 1) = Inr side" by (auto simp: ListenStarter_def)
  have st: "re_syscall broken_env = Inr 7" by (simp add: broken_env_def example_env_def)
  obtain err fs' where main: "starter_main comma_codec example_lib broken_env example_flags True (\<lambda>p a g. Inr side) 9 None True (\<lambda>p. None) = Some (err, fs')"
    using run(1) by (auto simp: starter_main_def example_flags_def)
  let ?a = "example_activation\<lparr>sandbox := ''/execute/dir_1''\<rparr>"
  let ?cl = "SetBusy 0 (the (slot_claim (claimed_with ''c#1'')))"
  let ?c = "(one_slot (example_slot\<lparr>slot_claim := Some ?cl\<rparr>))\<lparr>activations := [(Name example_slot, ?a)]\<rparr>"
  let ?w = "example_host_world\<lparr>exit_file := (\<lambda>p. Option.bind (fs' p) (Unmarshal comma_codec))\<rparr>"
  have printed: "AdString example_lib new_ad \<noteq> []" "valid_utf8 (AdString example_lib new_ad)"
    "\<exists>ad'. ParseAd example_lib (AdString example_lib new_ad) = Some ad' \<and> same_attributes example_lib new_ad ad'"
    by (simp_all add: example_lib_def lit_api_def utf8_between_def same_attributes_def)
  have codec: "\<exists>data. Marshal comma_codec m = Inr data \<and> Unmarshal comma_codec data = Some m"
    if "in64 (WaitpidStatus m)" "in64 (em_Reason m)" "in64 (ExitTime m)" "valid_utf8 (FinalAd m)" for m
    using that(1-3) by (rule comma_codec_ok)
  have "\<exists>cl' ad'. slot_claim (slot_at (doAdoptFailed example_lib ?w (Name example_slot) ?c) 0) = Some cl' \<and> claimID cl' = claimID ?cl \<and> claim_state cl' = ClaimedIdle \<and>
      Final cl' = (Some ad', 0, 108) \<and> same_attributes example_lib new_ad ad' \<and>
      Name example_slot \<notin> dom (map_of (activations (doAdoptFailed example_lib ?w (Name example_slot) ?c)))"
    by (rule outcome_survives_restart [OF codec printed run(1) act st run(2) _ _ _ main, where a = ?a])
      (simp_all add: in64_def example_flags_def one_slot_def slot_at_def SetBusy_def)
  then show ?thesis by blast
qed

end
