(* ===== verification/Inproc.thy ===== *)
theory Inproc
  imports Machine Prelude
begin

text \<open>
  The goroutine transport between the startd and a starter in the same process
  (\<^verbatim>\<open>internal/starter/transport_inproc.go\<close>). The syscall connection crosses a channel of capacity one.
  The two ends run concurrently, so the operations are steps of a machine. The mutex guards the two flags, but
  neither the send that follows \<open>markPassed\<close> nor the receive of the starter takes it: both can run between any two operations on the
  channel, so the send, the receive, the drain of \<^verbatim>\<open>close\<close> and its closing of the channel are steps of their own. A stream is represented
  by a number.
\<close>

type_synonym stream = nat

text \<open>\<open>chan_closed\<close> is the state of the channel itself, which \<^verbatim>\<open>close\<close> closes as its last act.\<close>

record inprocShared =
  syscall :: "stream list"
  chan_closed :: bool
  passed :: bool
  closed :: bool

datatype inproc_error = TransportClosed | AlreadyPassed | ClosedBeforeArrival | ContextDone

definition new_shared :: inprocShared where
  "new_shared = \<lparr>syscall = [], chan_closed = False, passed = False, closed = False\<rparr>"

definition markPassed :: "inprocShared \<Rightarrow> inproc_error + inprocShared" where
  "markPassed s =
     (if closed s then Inl TransportClosed
      else if passed s then Inl AlreadyPassed
      else Inr (s\<lparr>passed := True\<rparr>))"

text \<open>
  \<^verbatim>\<open>close\<close> in two parts: the flag with the \<^verbatim>\<open>select\<close> that drains the channel without waiting, and the closing of the channel. The
  second component of the first lists the streams that were closed; \<open>None\<close> is the early return of a second call.
\<close>

definition close_drain :: "inprocShared \<Rightarrow> (inprocShared \<times> stream list) option" where
  "close_drain s =
     (if closed s then None
      else Some (s\<lparr>closed := True, syscall := tl (syscall s)\<rparr>, take 1 (syscall s)))"

definition close_channel :: "inprocShared \<Rightarrow> inprocShared" where
  "close_channel s = s\<lparr>chan_closed := True\<rparr>"

text \<open>A send on the channel: it panics on a closed channel and blocks on a full one.\<close>

datatype send_outcome = SendPanics | SendBlocks | Sent inprocShared

definition chan_send :: "stream \<Rightarrow> inprocShared \<Rightarrow> send_outcome" where
  "chan_send st s =
     (if chan_closed s then SendPanics
      else if length (syscall s) \<ge> 1 then SendBlocks
      else Sent (s\<lparr>syscall := syscall s @ [st]\<rparr>))"

text \<open>
  The flag tells which branch the \<^verbatim>\<open>select\<close> takes; \<open>Inr None\<close> is a receive that has to wait. What is in a closed channel can still be received.
\<close>

definition SyscallConn :: "bool \<Rightarrow> inprocShared \<Rightarrow> inproc_error + (stream \<times> inprocShared) option" where
  "SyscallConn ctx_done s =
     (if ctx_done then Inl ContextDone
      else case syscall s of
        st # rest \<Rightarrow> Inr (Some (st, s\<lparr>syscall := rest\<rparr>))
      | [] \<Rightarrow> if chan_closed s then Inl ClosedBeforeArrival else Inr None)"

section \<open>The machine\<close>

text \<open>
  The shared state, the call of \<open>PassSyscallConn\<close> between its mark and its send, the call of \<^verbatim>\<open>close\<close> between its two parts, and what became of
  the streams: those accepted, those handed to the starter, those closed. \<open>raced\<close> records that a send fell between the parts of
  \<^verbatim>\<open>close\<close>.
\<close>

record inproc =
  shared :: inprocShared
  in_flight :: "stream list"
  closing :: bool
  accepted :: "stream list"
  delivered :: "stream list"
  closed_streams :: "stream list"
  pipe_open :: bool
  panicked :: bool
  raced :: bool

definition NewInprocPair :: inproc where
  "NewInprocPair = \<lparr>shared = new_shared, in_flight = [], closing = False, accepted = [], delivered = [], closed_streams = [],
     pipe_open = True, panicked = False, raced = False\<rparr>"

text \<open>The two halves of \<^verbatim>\<open>PassSyscallConn\<close>, and those of the \<^verbatim>\<open>Close\<close> of either end, which closes its end of the pipe last.\<close>

definition pass_mark :: "stream \<Rightarrow> inproc \<Rightarrow> inproc_error + inproc" where
  "pass_mark st p =
     (case markPassed (shared p) of
        Inl e \<Rightarrow> Inl e
      | Inr s \<Rightarrow> Inr (p\<lparr>shared := s, in_flight := st # in_flight p, accepted := st # accepted p\<rparr>))"

definition pass_send :: "stream \<Rightarrow> inproc \<Rightarrow> inproc option" where
  "pass_send st p =
     (case chan_send st (shared p) of
        SendPanics \<Rightarrow> Some (p\<lparr>panicked := True\<rparr>)
      | SendBlocks \<Rightarrow> None
      | Sent s \<Rightarrow> Some (p\<lparr>shared := s, in_flight := remove1 st (in_flight p), raced := raced p \<or> closing p\<rparr>))"

definition Close_drain :: "inproc \<Rightarrow> inproc" where
  "Close_drain p =
     (case close_drain (shared p) of
        None \<Rightarrow> p\<lparr>pipe_open := False\<rparr>
      | Some (s, cl) \<Rightarrow> p\<lparr>shared := s, closed_streams := cl @ closed_streams p, closing := True\<rparr>)"

definition Close_channel :: "inproc \<Rightarrow> inproc" where
  "Close_channel p = p\<lparr>shared := close_channel (shared p), closing := False, pipe_open := False\<rparr>"

text \<open>While one call of \<^verbatim>\<open>close\<close> is between its parts it holds the mutex: no mark and no other \<^verbatim>\<open>close\<close> can begin.\<close>

inductive inproc_step :: "inproc \<Rightarrow> inproc \<Rightarrow> bool" where
  mark: "\<not> panicked p \<Longrightarrow> \<not> closing p \<Longrightarrow> pass_mark st p = Inr q \<Longrightarrow> inproc_step p q"
| send: "\<not> panicked p \<Longrightarrow> st \<in> set (in_flight p) \<Longrightarrow> pass_send st p = Some q \<Longrightarrow> inproc_step p q"
| receive: "\<not> panicked p \<Longrightarrow> SyscallConn ctx_done (shared p) = Inr (Some (st, s)) \<Longrightarrow>
    inproc_step p (p\<lparr>shared := s, delivered := st # delivered p\<rparr>)"
| close: "\<not> panicked p \<Longrightarrow> \<not> closing p \<Longrightarrow> inproc_step p (Close_drain p)"
| close_done: "\<not> panicked p \<Longrightarrow> closing p \<Longrightarrow> inproc_step p (Close_channel p)"

inductive_cases inproc_stepE: "inproc_step p q"

text \<open>
  The invariant: at most one stream is ever accepted, it is in exactly one place, and a closed
  transport holds none in its channel unless a send fell between the parts of the close.
\<close>

definition inproc_inv :: "inproc \<Rightarrow> bool" where
  "inproc_inv p \<longleftrightarrow>
     accepted p = in_flight p @ syscall (shared p) @ delivered p @ closed_streams p \<and>
     length (accepted p) = (if passed (shared p) then 1 else 0) \<and>
     (closed (shared p) \<and> \<not> raced p \<longrightarrow> syscall (shared p) = []) \<and>
     (closed (shared p) \<longleftrightarrow> closing p \<or> chan_closed (shared p)) \<and>
     (closing p \<longrightarrow> \<not> chan_closed (shared p)) \<and> (\<not> pipe_open p \<longrightarrow> closed (shared p))"

lemmas inproc_defs = pass_mark_def pass_send_def Close_drain_def Close_channel_def markPassed_def close_drain_def close_channel_def
  chan_send_def SyscallConn_def inproc_inv_def

lemma single_place:
  assumes "length (a @ b @ c @ d) = 1"
  shows "(\<exists>x. a = [x] \<and> b = [] \<and> c = [] \<and> d = []) \<or> (\<exists>x. a = [] \<and> b = [x] \<and> c = [] \<and> d = []) \<or>
    (\<exists>x. a = [] \<and> b = [] \<and> c = [x] \<and> d = []) \<or> (\<exists>x. a = [] \<and> b = [] \<and> c = [] \<and> d = [x])"
  using assms by (cases a; cases b; cases c; cases d) auto

text \<open>The states with the invariant, case by case.\<close>

lemma inproc_inv_cases:
  assumes "inproc_inv p"
  obtains (fresh) "\<not> passed (shared p)" "in_flight p = []" "syscall (shared p) = []" "delivered p = []"
      "closed_streams p = []" "accepted p = []"
    | (flying) x where "passed (shared p)" "in_flight p = [x]" "syscall (shared p) = []" "delivered p = []"
      "closed_streams p = []" "accepted p = [x]"
    | (held) x where "passed (shared p)" "in_flight p = []" "syscall (shared p) = [x]" "delivered p = []"
      "closed_streams p = []" "accepted p = [x]" "closed (shared p) \<Longrightarrow> raced p"
    | (handed) x where "passed (shared p)" "in_flight p = []" "syscall (shared p) = []" "delivered p = [x]"
      "closed_streams p = []" "accepted p = [x]"
    | (dropped) x where "passed (shared p)" "in_flight p = []" "syscall (shared p) = []" "delivered p = []"
      "closed_streams p = [x]" "accepted p = [x]"
  using assms single_place [of "in_flight p" "syscall (shared p)" "delivered p" "closed_streams p"]
  by (auto simp: inproc_inv_def split: if_splits)

lemma inproc_mark_inv: "inproc_inv p \<Longrightarrow> pass_mark st p = Inr q \<Longrightarrow> inproc_inv q"
  by (frule inproc_inv_cases) (auto simp: inproc_defs split: if_splits)

lemma inproc_send_inv: "inproc_inv p \<Longrightarrow> st \<in> set (in_flight p) \<Longrightarrow> pass_send st p = Some q \<Longrightarrow> inproc_inv q"
  by (frule inproc_inv_cases) (auto simp: inproc_defs split: if_splits)

lemma inproc_receive_inv:
  "inproc_inv p \<Longrightarrow> SyscallConn ctx_done (shared p) = Inr (Some (st, s)) \<Longrightarrow>
    inproc_inv (p\<lparr>shared := s, delivered := st # delivered p\<rparr>)"
  by (frule inproc_inv_cases) (auto simp: inproc_defs split: if_splits)

lemma inproc_close_inv: "inproc_inv p \<Longrightarrow> \<not> closing p \<Longrightarrow> inproc_inv (Close_drain p)" "inproc_inv p \<Longrightarrow> closing p \<Longrightarrow> inproc_inv (Close_channel p)"
  by (frule inproc_inv_cases; auto simp: inproc_defs split: if_splits)+

interpretation inproc: machine inproc_step inproc_inv
  by unfold_locales
    (auto elim!: inproc_stepE intro: inproc_mark_inv inproc_send_inv inproc_receive_inv inproc_close_inv)

lemma inproc_start: "inproc_inv NewInprocPair"
  by (simp add: inproc_inv_def NewInprocPair_def new_shared_def)

text \<open>
  C28. Whatever the interleaving of the two ends, at most one stream is ever accepted, and it always has
  exactly one owner: the call that is passing it, the channel, the starter, or nobody because it was
  closed. Once the channel is closed and no call is passing a stream, the starter has it or it is closed, unless the send of the stream fell
  between the two parts of the close, after the channel was drained and before it was closed: only then can it be left in the
  channel, where the starter's next receive still finds it. A send never blocks.
\<close>

theorem inproc_single_owner:
  assumes "inproc_step\<^sup>*\<^sup>* NewInprocPair p"
  shows "length (accepted p) \<le> 1 \<and>
    accepted p = in_flight p @ syscall (shared p) @ delivered p @ closed_streams p \<and>
    (chan_closed (shared p) \<and> in_flight p = [] \<and> \<not> raced p \<longrightarrow> accepted p = delivered p @ closed_streams p) \<and>
    (\<forall>st. st \<in> set (syscall (shared p)) \<longrightarrow> (\<exists>s. SyscallConn False (shared p) = Inr (Some (st, s)) \<and> syscall s = [])) \<and>
    (\<forall>st \<in> set (in_flight p). pass_send st p \<noteq> None)"
proof -
  have inv: "inproc_inv p" by (rule inproc.reachable_inv [OF assms inproc_start])
  then have "chan_closed (shared p) \<Longrightarrow> closed (shared p)" by (simp add: inproc_inv_def)
  with inv show ?thesis by (cases rule: inproc_inv_cases) (auto simp: pass_send_def chan_send_def SyscallConn_def)
qed

text \<open>A stream that is passed and then given up: marked, sent, drained and closed.\<close>

definition marked :: inproc where
  "marked = NewInprocPair\<lparr>shared := new_shared\<lparr>passed := True\<rparr>, in_flight := [7], accepted := [7]\<rparr>"

definition sent :: inproc where
  "sent = marked\<lparr>shared := new_shared\<lparr>passed := True, syscall := [7]\<rparr>, in_flight := []\<rparr>"

lemmas inproc_runs = marked_def sent_def NewInprocPair_def new_shared_def

lemma inproc_marked: "inproc_step NewInprocPair marked" "inproc_step marked sent"
  by (rule inproc_step.mark [of _ 7], simp_all add: inproc_runs pass_mark_def markPassed_def)
    (rule inproc_step.send [of _ 7], simp_all add: inproc_runs pass_send_def chan_send_def)

lemma inproc_given_up: "inproc_step sent (Close_drain sent)" "inproc_step (Close_drain sent) (Close_channel (Close_drain sent))"
  by (rule inproc_step.close, simp_all add: inproc_runs)
    (rule inproc_step.close_done, simp_all add: inproc_runs Close_drain_def close_drain_def)

theorem inproc_single_owner_witness:
  "accepted (Close_channel (Close_drain sent)) = [7] \<and>
   delivered (Close_channel (Close_drain sent)) @ closed_streams (Close_channel (Close_drain sent)) = [7]"
proof -
  let ?p = "Close_channel (Close_drain sent)"
  have "inproc_step\<^sup>*\<^sup>* NewInprocPair ?p"
    using inproc_marked inproc_given_up by (meson rtranclp.rtrancl_into_rtrancl rtranclp.rtrancl_refl)
  moreover have "accepted ?p = [7]" "chan_closed (shared ?p)" "in_flight ?p = []" "\<not> raced ?p"
    by (simp_all add: inproc_runs Close_channel_def close_channel_def Close_drain_def close_drain_def)
  ultimately show ?thesis using inproc_single_owner [of ?p] by metis
qed

text \<open>
  The comment that the send never blocks is right, but the send is outside of the mutex: when either
  end closes the transport between the mark and the send, the send is on a closed channel and panics.
\<close>

theorem inproc_close_race_panics:
  "\<exists>p. inproc_step\<^sup>*\<^sup>* NewInprocPair p \<and> panicked p"
proof -
  let ?c = "Close_channel (Close_drain marked)"
  note d = inproc_runs Close_channel_def close_channel_def Close_drain_def close_drain_def
  have "inproc_step marked (Close_drain marked)" by (rule inproc_step.close) (simp_all add: d)
  moreover have "inproc_step (Close_drain marked) ?c" by (rule inproc_step.close_done) (simp_all add: d)
  moreover have "inproc_step ?c (?c\<lparr>panicked := True\<rparr>)"
    by (rule inproc_step.send [of _ 7]) (simp_all add: d pass_send_def chan_send_def)
  ultimately have "inproc_step\<^sup>*\<^sup>* NewInprocPair (?c\<lparr>panicked := True\<rparr>)"
    using inproc_marked(1) by (meson rtranclp.rtrancl_into_rtrancl rtranclp.rtrancl_refl)
  then show ?thesis by force
qed

text \<open>
  And when the send falls between the drain and the closing of the channel, the stream is left behind: the transport is closed,
  no call is under way, nothing has panicked, and the stream is neither closed nor with the starter.
\<close>

theorem inproc_close_race_leaks:
  "\<exists>p. inproc_step\<^sup>*\<^sup>* NewInprocPair p \<and> chan_closed (shared p) \<and> in_flight p = [] \<and> \<not> closing p \<and> \<not> panicked p \<and>
     accepted p = [7] \<and> delivered p = [] \<and> closed_streams p = []"
proof -
  let ?c = "Close_drain marked"
  let ?s = "?c\<lparr>shared := (shared ?c)\<lparr>syscall := [7]\<rparr>, in_flight := [], raced := True\<rparr>"
  note d = inproc_runs Close_channel_def close_channel_def Close_drain_def close_drain_def
  have "inproc_step marked ?c" by (rule inproc_step.close) (simp_all add: d)
  moreover have "inproc_step ?c ?s"
    by (rule inproc_step.send [of _ 7]) (simp_all add: d pass_send_def chan_send_def)
  moreover have "inproc_step ?s (Close_channel ?s)" by (rule inproc_step.close_done) (simp_all add: d)
  ultimately have "inproc_step\<^sup>*\<^sup>* NewInprocPair (Close_channel ?s)"
    using inproc_marked(1) by (meson rtranclp.rtrancl_into_rtrancl rtranclp.rtrancl_refl)
  then show ?thesis by (rule exI [of _ "Close_channel ?s", OF conjI]) (simp add: d)
qed

end
