(* ===== verification/Control.thy ===== *)
theory Control
  imports Transport
begin

text \<open>
  The framing of control messages between startd and starter (\<^verbatim>\<open>WriteMessage\<close>, \<^verbatim>\<open>ReadMessage\<close>, \<^verbatim>\<open>drainMessage\<close> of
  \<^verbatim>\<open>internal/starter/transport.go\<close>): a number, an ad and an end of message. The message codec is a library and a
  parameter: \<open>'s\<close> is the state of a stream, \<open>'o\<close> that of a message being written and \<open>'i\<close> that of one being read. What the code
  relies on is \<open>codec_ok\<close>: messages come out of a stream in the order in which they were finished, and the values of a message in
  the order in which they were put.
\<close>

datatype ('i, 's) read_byte = GotByte 'i | AtEnd 's | ReadError string

record ('s, 'o, 'i) control_api =
  NewMessageForStream :: "'s \<Rightarrow> 'o"
  PutInt :: "int \<Rightarrow> 'o \<Rightarrow> string + 'o"
  PutClassAd :: "ad \<Rightarrow> 'o \<Rightarrow> string + 'o"
  FinishMessage :: "'o \<Rightarrow> string + 's"
  NewMessageFromStream :: "'s \<Rightarrow> 'i"
  ReadInt :: "'i \<Rightarrow> string + int \<times> 'i"
  ReadAd :: "'i \<Rightarrow> string + ad \<times> 'i"
  ReadByte :: "'i \<Rightarrow> ('i, 's) read_byte"

section \<open>Writing and reading\<close>

definition sent_ad :: "ad option \<Rightarrow> ad" where
  "sent_ad a = (case a of None \<Rightarrow> new_ad | Some ad \<Rightarrow> ad)"

definition WriteMessage :: "('s, 'o, 'i) control_api \<Rightarrow> int \<Rightarrow> ad option \<Rightarrow> 's \<Rightarrow> string + 's" where
  "WriteMessage S msgType a st =
     (case PutInt S msgType (NewMessageForStream S st) of
        Inl err \<Rightarrow> Inl (''starter: writing control msg type '' @ MsgName msgType @ '': '' @ err)
      | Inr m \<Rightarrow>
          (case PutClassAd S (sent_ad a) m of
             Inl err \<Rightarrow> Inl (''starter: writing control msg '' @ MsgName msgType @ '' ad: '' @ err)
           | Inr m' \<Rightarrow> FinishMessage S m'))"

text \<open>The loop reads single bytes until the library reports the end of the message; it may have no end.\<close>

partial_function (option) drainMessage :: "('s, 'o, 'i) control_api \<Rightarrow> 'i \<Rightarrow> (string + 's) option" where
  "drainMessage S m =
     (case ReadByte S m of
        GotByte m' \<Rightarrow> drainMessage S m'
      | AtEnd st \<Rightarrow> Some (Inr st)
      | ReadError err \<Rightarrow> Some (Inl (''starter: draining control msg: '' @ err)))"

definition ReadMessage :: "('s, 'o, 'i) control_api \<Rightarrow> 's \<Rightarrow> (string + int \<times> ad \<times> 's) option" where
  "ReadMessage S st =
     (case ReadInt S (NewMessageFromStream S st) of
        Inl err \<Rightarrow> Some (Inl (''starter: reading control msg type: '' @ err))
      | Inr (msgType, m) \<Rightarrow>
          (case ReadAd S m of
             Inl err \<Rightarrow> Some (Inl (''starter: reading control msg '' @ MsgName msgType @ '' ad: '' @ err))
           | Inr (ad, m') \<Rightarrow>
               map_option (\<lambda>r. case r of Inl err \<Rightarrow> Inl err | Inr st' \<Rightarrow> Inr (msgType, ad, st')) (drainMessage S m')))"

text \<open>A sequence of messages, as the two ends exchange them.\<close>

fun write_all :: "('s, 'o, 'i) control_api \<Rightarrow> (int \<times> ad option) list \<Rightarrow> 's \<Rightarrow> string + 's" where
  "write_all S [] st = Inr st"
| "write_all S ((t, a) # ms) st = (case WriteMessage S t a st of Inl err \<Rightarrow> Inl err | Inr st' \<Rightarrow> write_all S ms st')"

fun read_all :: "('s, 'o, 'i) control_api \<Rightarrow> nat \<Rightarrow> 's \<Rightarrow> (string + (int \<times> ad) list \<times> 's) option" where
  "read_all S 0 st = Some (Inr ([], st))"
| "read_all S (Suc n) st =
     (case ReadMessage S st of
        None \<Rightarrow> None
      | Some (Inl err) \<Rightarrow> Some (Inl err)
      | Some (Inr (t, ad, st')) \<Rightarrow>
          map_option (\<lambda>r. case r of Inl err \<Rightarrow> Inl err | Inr (ms, st'') \<Rightarrow> Inr ((t, ad) # ms, st'')) (read_all S n st'))"

section \<open>What the codec promises\<close>

text \<open>
  \<open>queued\<close> are the finished messages of a stream that have not been read, \<open>building\<close> and \<open>receiving\<close> are the values of the message
  in hand with the queue behind it, and \<open>secret\<close> are the names of the private attributes. The writer leaves those out of an ad and keeps all
  others; the reader returns an ad with the same attribute names in the same order, in which every attribute evaluates to the same.
\<close>

datatype wire_value = VInt int | VAd ad | VByte

record ('s, 'o, 'i) codec_view =
  queued :: "'s \<Rightarrow> wire_value list list"
  building :: "'o \<Rightarrow> wire_value list \<times> wire_value list list"
  receiving :: "'i \<Rightarrow> wire_value list \<times> wire_value list list"
  secret :: "string \<Rightarrow> bool"

definition public_part :: "(string \<Rightarrow> bool) \<Rightarrow> ad \<Rightarrow> ad" where
  "public_part sec ad = filter (\<lambda>(n, v). \<not> sec n) ad"

definition same_ad :: "'x classad_api_scheme \<Rightarrow> ad \<Rightarrow> ad \<Rightarrow> bool" where
  "same_ad L ad ad' \<longleftrightarrow> map fst ad' = map fst ad \<and> same_attributes L ad ad'"

definition writer_lawful :: "('s, 'o, 'i) control_api \<Rightarrow> ('s, 'o, 'i) codec_view \<Rightarrow> bool" where
  "writer_lawful S V \<longleftrightarrow>
     (\<forall>st. building V (NewMessageForStream S st) = ([], queued V st)) \<and>
     (\<forall>k m m'. PutInt S k m = Inr m' \<longrightarrow> building V m' = (fst (building V m) @ [VInt k], snd (building V m))) \<and>
     (\<forall>a m m'. PutClassAd S a m = Inr m' \<longrightarrow> building V m' = (fst (building V m) @ [VAd (public_part (secret V) a)], snd (building V m))) \<and>
     (\<forall>m st. FinishMessage S m = Inr st \<longrightarrow> queued V st = snd (building V m) @ [fst (building V m)])"

definition reader_lawful :: "'x classad_api_scheme \<Rightarrow> ('s, 'o, 'i) control_api \<Rightarrow> ('s, 'o, 'i) codec_view \<Rightarrow> bool" where
  "reader_lawful L S V \<longleftrightarrow>
     (\<forall>st x q. queued V st = x # q \<longrightarrow> receiving V (NewMessageFromStream S st) = (x, q)) \<and>
     (\<forall>m k x q. receiving V m = (VInt k # x, q) \<longrightarrow> (\<exists>m'. ReadInt S m = Inr (k, m') \<and> receiving V m' = (x, q))) \<and>
     (\<forall>m a x q. receiving V m = (VAd a # x, q) \<longrightarrow> (\<exists>a' m'. ReadAd S m = Inr (a', m') \<and> same_ad L a a' \<and> receiving V m' = (x, q))) \<and>
     (\<forall>m x q. receiving V m = (VByte # x, q) \<longrightarrow> (\<exists>m'. ReadByte S m = GotByte m' \<and> receiving V m' = (x, q))) \<and>
     (\<forall>m q. receiving V m = ([], q) \<longrightarrow> (\<exists>st. ReadByte S m = AtEnd st \<and> queued V st = q))"

definition codec_ok :: "'x classad_api_scheme \<Rightarrow> ('s, 'o, 'i) control_api \<Rightarrow> ('s, 'o, 'i) codec_view \<Rightarrow> bool" where
  "codec_ok L S V \<longleftrightarrow> writer_lawful S V \<and> reader_lawful L S V"

section \<open>Messages are read back\<close>

lemma reader_lawfulD:
  assumes "reader_lawful L S V"
  shows "queued V st = x # q \<Longrightarrow> receiving V (NewMessageFromStream S st) = (x, q)"
    "receiving V m = (VInt k # x, q) \<Longrightarrow> \<exists>m'. ReadInt S m = Inr (k, m') \<and> receiving V m' = (x, q)"
    "receiving V m = (VAd a # x, q) \<Longrightarrow> \<exists>a' m'. ReadAd S m = Inr (a', m') \<and> same_ad L a a' \<and> receiving V m' = (x, q)"
    "receiving V m = (VByte # x, q) \<Longrightarrow> \<exists>m'. ReadByte S m = GotByte m' \<and> receiving V m' = (x, q)"
    "receiving V m = ([], q) \<Longrightarrow> \<exists>st. ReadByte S m = AtEnd st \<and> queued V st = q"
  using assms by (simp_all add: reader_lawful_def)

lemma WriteMessage_queues:
  assumes "writer_lawful S V" "WriteMessage S t a st = Inr st'"
  shows "queued V st' = queued V st @ [[VInt t, VAd (public_part (secret V) (sent_ad a))]]"
proof -
  obtain m m' where p: "PutInt S t (NewMessageForStream S st) = Inr m" "PutClassAd S (sent_ad a) m = Inr m'"
    "FinishMessage S m' = Inr st'"
    using assms(2) by (auto simp: WriteMessage_def split: sum.splits)
  have "building V m = ([VInt t], queued V st)" using assms(1) p(1) by (simp add: writer_lawful_def)
  moreover have "building V m' = (fst (building V m) @ [VAd (public_part (secret V) (sent_ad a))], snd (building V m))"
    using assms(1) p(2) unfolding writer_lawful_def by blast
  moreover have "queued V st' = snd (building V m') @ [fst (building V m')]" using assms(1) p(3) unfolding writer_lawful_def by blast
  ultimately show ?thesis by simp
qed

lemma write_all_queues:
  assumes "writer_lawful S V" "write_all S ms st = Inr st'"
  shows "queued V st' = queued V st @ map (\<lambda>(t, a). [VInt t, VAd (public_part (secret V) (sent_ad a))]) ms"
  using assms(2)
proof (induction ms arbitrary: st)
  case (Cons m ms)
  obtain t a st1 where m: "m = (t, a)" "WriteMessage S t a st = Inr st1" "write_all S ms st1 = Inr st'"
    using Cons.prems by (cases m) (auto split: sum.splits)
  show ?case using Cons.IH [OF m(3)] WriteMessage_queues [OF assms(1) m(2)] m(1) by simp
qed simp

text \<open>Whatever a later version of the other end appends to a message is read over.\<close>

lemma drain_ends:
  assumes "reader_lawful L S V" "receiving V m = (replicate n VByte, q)"
  shows "\<exists>st. drainMessage S m = Some (Inr st) \<and> queued V st = q"
  using assms(2)
proof (induction n arbitrary: m)
  case 0
  then obtain st where "ReadByte S m = AtEnd st" "queued V st = q" using reader_lawfulD(5) [OF assms(1), of m q] by auto
  then show ?case by (subst drainMessage.simps) simp
next
  case (Suc n)
  then obtain m' where "ReadByte S m = GotByte m'" "receiving V m' = (replicate n VByte, q)"
    using reader_lawfulD(4) [OF assms(1), of m "replicate n VByte" q] by auto
  then show ?case using Suc.IH by (subst drainMessage.simps) simp
qed

lemma ReadMessage_takes:
  assumes "reader_lawful L S V" "queued V st = ([VInt t, VAd a] @ replicate n VByte) # q"
  shows "\<exists>a' st'. ReadMessage S st = Some (Inr (t, a', st')) \<and> same_ad L a a' \<and> queued V st' = q"
proof -
  have "receiving V (NewMessageFromStream S st) = (VInt t # VAd a # replicate n VByte, q)"
    using reader_lawfulD(1) [OF assms] by simp
  then obtain m where m: "ReadInt S (NewMessageFromStream S st) = Inr (t, m)" "receiving V m = (VAd a # replicate n VByte, q)"
    using reader_lawfulD(2) [OF assms(1)] by blast
  then obtain a' m' where "ReadAd S m = Inr (a', m')" "same_ad L a a'" "receiving V m' = (replicate n VByte, q)"
    using reader_lawfulD(3) [OF assms(1)] by blast
  then show ?thesis using m(1) drain_ends [OF assms(1)] by (fastforce simp: ReadMessage_def)
qed

lemma read_all_takes:
  assumes "reader_lawful L S V" "queued V st = map (\<lambda>(t, a, n). [VInt t, VAd a] @ replicate n VByte) ms @ q"
  shows "\<exists>rs st'. read_all S (length ms) st = Some (Inr (rs, st')) \<and>
    list_all2 (\<lambda>(t, a, n) (t', a'). t' = t \<and> same_ad L a a') ms rs \<and> queued V st' = q"
  using assms(2)
proof (induction ms arbitrary: st)
  case (Cons m ms)
  obtain t a n where m: "m = (t, a, n)" by (cases m) auto
  then have "queued V st = ([VInt t, VAd a] @ replicate n VByte) # map (\<lambda>(t, a, n). [VInt t, VAd a] @ replicate n VByte) ms @ q"
    using Cons.prems by simp
  from ReadMessage_takes [OF assms(1) this] obtain a' st1 where r: "ReadMessage S st = Some (Inr (t, a', st1))" "same_ad L a a'"
    "queued V st1 = map (\<lambda>(t, a, n). [VInt t, VAd a] @ replicate n VByte) ms @ q" by blast
  from Cons.IH [OF r(3)] obtain rs st' where "read_all S (length ms) st1 = Some (Inr (rs, st'))"
    "list_all2 (\<lambda>(t, a, n) (t', a'). t' = t \<and> same_ad L a a') ms rs" "queued V st' = q" by blast
  then show ?case using r m by (intro exI [of _ "(t, a') # rs"] exI [of _ st']) simp
qed simp

text \<open>
  C37. Control messages cross the connection one for one: what one end has written, the other reads back in order, each with its type
  and its ad, a missing ad as the empty one. The ad read has the attributes of the ad written, in their order and with their values,
  but for the private ones, which the codec leaves out of every ad it writes; every read returns, and the stream is left at the start
  of the next message. Of the codec it is assumed that the values of a message, and the messages, come out in the order in which they
  went in.
\<close>

theorem control_messages_roundtrip:
  assumes "codec_ok L S V" "queued V st = []" "write_all S ms st = Inr st'"
  shows "\<exists>rs st''. read_all S (length ms) st' = Some (Inr (rs, st'')) \<and> queued V st'' = [] \<and>
    list_all2 (\<lambda>(t, a) (t', ad). t' = t \<and> same_ad L (public_part (secret V) (sent_ad a)) ad) ms rs"
proof -
  let ?ms = "map (\<lambda>(t, a). (t, public_part (secret V) (sent_ad a), 0 :: nat)) ms"
  have "queued V st' = map (\<lambda>(t, a, n). [VInt t, VAd a] @ replicate n VByte) ?ms @ []"
    using write_all_queues [OF _ assms(3)] assms(1,2) by (simp add: codec_ok_def case_prod_beta comp_def)
  moreover have "reader_lawful L S V" using assms(1) by (simp add: codec_ok_def)
  ultimately obtain rs st'' where "read_all S (length ?ms) st' = Some (Inr (rs, st''))"
    "list_all2 (\<lambda>(t, a, n) (t', a'). t' = t \<and> same_ad L a a') ?ms rs" "queued V st'' = []"
    using read_all_takes [of L S V st' ?ms "[]"] by blast
  then show ?thesis by (intro exI [of _ rs] exI [of _ st'']) (simp add: list_all2_conv_all_nth case_prod_beta)
qed

text \<open>A codec over lists of values, and a Hello followed by a last message without an ad.\<close>

definition list_codec ::
  "(wire_value list list, wire_value list \<times> wire_value list list, wire_value list \<times> wire_value list list) control_api" where
  "list_codec =
     \<lparr>NewMessageForStream = (\<lambda>q. ([], q)), PutInt = (\<lambda>k (x, q). Inr (x @ [VInt k], q)),
      PutClassAd = (\<lambda>a (x, q). Inr (x @ [VAd (public_part (\<lambda>n. n = ''ClaimId'') a)], q)), FinishMessage = (\<lambda>(x, q). Inr (q @ [x])),
      NewMessageFromStream = (\<lambda>q. case q of [] \<Rightarrow> ([], []) | x # q \<Rightarrow> (x, q)),
      ReadInt = (\<lambda>(x, q). case x of VInt k # x' \<Rightarrow> Inr (k, x', q) | _ \<Rightarrow> Inl ''not an integer''),
      ReadAd = (\<lambda>(x, q). case x of VAd a # x' \<Rightarrow> Inr (a, x', q) | _ \<Rightarrow> Inl ''not an ad''),
      ReadByte = (\<lambda>(x, q). case x of [] \<Rightarrow> AtEnd q | v # x' \<Rightarrow> GotByte (x', q))\<rparr>"

definition list_view ::
  "(wire_value list list, wire_value list \<times> wire_value list list, wire_value list \<times> wire_value list list) codec_view" where
  "list_view = \<lparr>queued = (\<lambda>q. q), building = (\<lambda>m. m), receiving = (\<lambda>m. m), secret = (\<lambda>n. n = ''ClaimId'')\<rparr>"

lemma list_codec_ok: "codec_ok lit_api list_codec list_view"
  by (auto simp: same_ad_def same_attributes_def codec_ok_def writer_lawful_def reader_lawful_def list_codec_def list_view_def split: prod.splits)

definition example_messages :: "(int \<times> ad option) list" where
  "example_messages = [(MsgHello, Some [(''ClaimId'', AStr ''c#1''), (''StarterPid'', AInt 7)]), (MsgExited, None)]"

theorem control_messages_roundtrip_witness:
  "\<exists>st' st'' hello done. write_all list_codec example_messages [] = Inr st' \<and>
     read_all list_codec 2 st' = Some (Inr ([(MsgHello, hello), (MsgExited, done)], st'')) \<and>
     same_ad lit_api [(''StarterPid'', AInt 7)] hello \<and> same_ad lit_api new_ad done"
proof -
  have w: "write_all list_codec example_messages [] =
      Inr [[VInt MsgHello, VAd [(''StarterPid'', AInt 7)]], [VInt MsgExited, VAd new_ad]]"
    by (simp add: example_messages_def WriteMessage_def list_codec_def sent_ad_def public_part_def new_ad_def)
  from control_messages_roundtrip [OF list_codec_ok _ w] show ?thesis
    using w by (auto simp: list_view_def example_messages_def sent_ad_def public_part_def new_ad_def numeral_2_eq_2 list_all2_Cons1)
qed

end
