(* ===== verification/Spec2Isabelle.thy ===== *)
theory Spec2Isabelle
  imports Lifetime Replies Daemon ExitMarker Inproc UnixStartd Control
begin

text \<open>
  A verification of golang-ep, an execution point of HTCondor written in Go: the \<^emph>\<open>startd\<close>, which offers
  the slots of a machine, grants claims on them and starts jobs, and the \<^emph>\<open>starter\<close>, which runs one job
  for a shadow. Paths below are relative to \<^verbatim>\<open>src/\<close>.

  \<^bold>\<open>How the program works.\<close> The main program (\<^verbatim>\<open>cmd/startd\<close>) turns the configuration into slots and
  options and builds a \<^verbatim>\<open>startd.Core\<close>. The core is a single-writer event loop: command handlers, timers,
  keepalives, supervisors of starters and reapers run in goroutines of their own and only submit
  events to its queue; the loop alone changes slots, claims and activations, answers handlers through
  reply channels, and hands records to a persister that writes them to the claim store. A slot always
  carries a freshly minted claim id, a capability: the negotiator learns it from the private ad, passes
  it to a schedd (\<^verbatim>\<open>MATCH_INFO\<close>, \<^verbatim>\<open>REQUEST_CLAIM\<close>), and every later command names it (\<^verbatim>\<open>ACTIVATE_CLAIM\<close>,
  \<^verbatim>\<open>DEACTIVATE_CLAIM\<close>, \<^verbatim>\<open>RELEASE_CLAIM\<close>). Activation starts a starter, as a goroutine or as a process
  (\<^verbatim>\<open>cmd/starter\<close>), and hands it the shadow's connection, on which the starter makes remote syscalls. Startd and
  starter talk over a control channel; in process mode the starter and its job survive a restart of the
  startd, which reads its store, redials the starter or finds its exit marker. A shadow that lost its
  connection finds the starter through the startd and hands it a new one.

  \<^bold>\<open>Theories and what they model.\<close>

  \<^item> \<open>Prelude\<close>: 64-bit wrap-around, Go's division, durations, the string functions and number formats used, maps.
    \<open>ClassAd\<close>: ads as lists of attributes with the library as a parameter. \<open>Paths\<close>: \<^verbatim>\<open>filepath\<close>. \<open>Machine\<close>: the
    locale of a state machine with an invariant, interpreted on the event loop (\<open>startd\<close>), both transports
    (\<open>inproc\<close>, \<open>handover\<close>, \<open>relay\<close>) and the reconnect handshake (\<open>handshake\<close>).
  \<^item> \<open>Claim\<close> (\<^verbatim>\<open>internal/claim\<close>), \<open>Slot\<close> and \<open>SlotAd\<close> (\<^verbatim>\<open>internal/slot\<close>), \<open>Persist\<close> (\<^verbatim>\<open>internal/persist\<close>), \<open>Transport\<close>
    and \<open>Control\<close> (\<^verbatim>\<open>internal/starter/transport.go\<close>, the messages and their framing): the data, one definition per function of the source.
  \<^item> \<open>Core\<close>, \<open>StartdClaim\<close>, \<open>StartdActivate\<close>, \<open>Adoption\<close>, \<open>Loop\<close> (\<^verbatim>\<open>internal/startd\<close>, \<^verbatim>\<open>internal/advertise\<close>): the state of
    the startd is the record \<open>Core\<close>; its slots are a heap addressed by references, since the source shares them by
    pointer; each \<^verbatim>\<open>do...\<close> function is a definition \<open>Core \<Rightarrow> Core\<close> and \<open>handle\<close> dispatches an event.
    What leaves the loop (replies, ads sent, goroutines started, channels closed) is the list of effects \<open>out\<close>; the
    answers of the operating system during one event are the record \<open>world\<close>.
  \<^item> \<open>Handlers\<close>: what the command handlers read and write around the loop, and the queries; \<open>Commands\<close>: the command
    table, the command server and the security policies (\<^verbatim>\<open>cmd/startd/authz.go\<close>); \<open>Config\<close> and \<open>Daemon\<close>: the main program of the
    startd, first the functions that read the configuration, then \<^verbatim>\<open>run\<close> (\<open>startd_run\<close>) as the list of its steps, deferred calls included.
  \<^item> \<open>Args\<close>, \<open>Exec\<close>, \<open>FileTransfer\<close>, \<open>Adwire\<close>, \<open>Reconnect\<close>, \<open>Starter\<close> (\<^verbatim>\<open>internal/starter\<close>, \<^verbatim>\<open>internal/adwire\<close>,
    \<^verbatim>\<open>internal/reconnect\<close>): the starter. A run is the list of its actions; everything outside answers through
    the record \<open>run_env\<close>. \<open>ExitMarker\<close>: the starter as a process (\<^verbatim>\<open>cmd/starter\<close>).
  \<^item> \<open>Inproc\<close>, \<open>Base64\<close>, \<open>UnixStartd\<close>, \<open>UnixStarter\<close> (\<^verbatim>\<open>transport_inproc.go\<close>, \<^verbatim>\<open>transport_unix.go\<close>): the transports, as
    step relations whose steps are the atomic parts of the calls, so that every interleaving is covered: what happens under one mutex, one channel
    operation, the closing of a stream after a mutex was released. The relay of the starter has a clock and the lease of a gap (\<open>gap_over\<close>).

  \<^bold>\<open>What is proved.\<close>

  \<^item> \<open>Registry\<close>, \<open>Invariant\<close>, \<open>Preserve\<close>, \<open>Startup\<close>, \<open>System\<close>: the consistency of the startd in every state reachable by
    any sequence of events, ticks and writes: registry, claims, starters, keepalives, match timers, dynamic slots and
    their parents, uniqueness of claim ids. \<open>Slotwise\<close>, \<open>Account\<close>: resources are conserved. \<open>Protocol\<close>,
    \<open>Lifetime\<close>: every step refines the claim protocol, an abstract automaton per slot; a revoked claim id stays
    revoked; a release revokes at once. \<open>Readopt\<close>, \<open>Recarve\<close>, \<open>Restart\<close>: all of this also holds over restarts
    (\<open>startd_life\<close>): a startd that finds the records of exactly the claimed slots in its store, can import their sessions and has the socket of every
    busy slot's starter on record (\<open>restartable\<close>) resumes every claim, on the same
    resources, with its starter. \<open>Durable\<close>, \<open>Recorded\<close>, \<open>Lives\<close>: it does find them. In every state the
    store and the records on their way to it describe the claims (\<open>recorded_off\<close>: every handler ends with the record of each slot it
    changed), stopping writes the rest, and after adoption the same holds again (\<open>tidy_life\<close>). \<open>Replies\<close>: whoever
    waits for an answer of the loop gets exactly one, in the order of the queue.
  \<^item> \<open>Daemon\<close>: the main program undoes what it opened in reverse order on every way out, serves only with a command server, submits the adoption
    before it serves and waits for it at most thirty seconds, and closes the store after the core was stopped and its last records were written. \<open>Commands\<close>: every command is negotiated at its
    own level.
  \<^item> \<open>Starter\<close>: one final report to everybody, the job's process group is killed last, the run ends when the job
    does and no call blocks, every connection is closed once, the order of the protocol is kept. \<open>ExitMarker\<close>: the outcome reported to the
    shadow is the one a restarted startd records.
  \<^item> Transports: a passed connection has one owner and is closed in the end, but for a send that slips between the draining and the closing of the channel
    of the goroutine transport (\<open>inproc_close_race_leaks\<close>); the job survives a gap of the startd within
    its lease; redialling ends; the wire forms are read back. \<open>Reconnect\<close>: only the holder of the job's session is
    offered to the run, and no syscall precedes the reply.
  \<^item> Files and ads: input stays in the sandbox, the output plan holds exactly the files it should, records and messages
    are read back as written, control messages arrive complete and in order (\<open>Control\<close>), a claimed slot is not offered again, no query and no public ad discloses a claim id,
    static slots partition the machine.

  Every theorem that is a property of the program follows a text that begins with its number (C1 to C40), and is
  followed by a witness when it has hypotheses. Theorems without a number state facts the others rest on, or
  behaviour that differs from what a comment of the source says.

  \<^bold>\<open>Bounds and fuel.\<close> Integers are unbounded in the model and wrapped by \<open>wrap64\<close> where Go's \<^verbatim>\<open>int\<close> and
  \<^verbatim>\<open>time.Duration\<close> can overflow; the steps of the startd that mint or number a slot assume that the two counters have not
  reached their last 64-bit value (\<open>counters_ok\<close>). The event queue has its capacity (\<open>queue_capacity\<close>). The redial loop of
  \<open>Connect\<close> has 1502 rounds of fuel, which is enough: its deadline is 15 seconds, and every round pauses for 10
  milliseconds. The monitor loop of a run consumes the list of events it sees, and has no result while the job still runs; nor has a run in which one of the
  calls without a deadline (to the shadow, of a transfer, to the startd, the wait for the activation and its connection) never returns (\<open>re_blocked\<close>, excluded by
  \<open>never_blocked\<close> where a theorem is about a run that returns).
  Draining a message (\<open>drainMessage\<close>) has no result while the library reports no end of it; for a lawful codec it always ends.
  No other definition needs fuel.

  \<^bold>\<open>What is assumed of libraries.\<close> ClassAd evaluation, the message codec, session minting and import, the collection under the
  claim store, the security policy of the daemon library and the JSON codec are parameters. Where a theorem relies on
  them, the documented behaviour is a named hypothesis (\<open>classad_ok\<close>, \<open>collection_ok\<close>, \<open>store_lib_ok\<close>, \<open>mint_ok\<close>,
  \<open>codec_ok\<close>) with an instance
  (\<open>lit_api\<close>, \<open>example_lib\<close>, \<open>list_message\<close>, \<open>list_codec\<close>, \<open>comma_codec\<close>). Of these, \<open>mint_ok\<close> says that minting succeeds and that no minter
  issues an id twice; when minting fails, a released slot keeps its claim (\<open>failed_mint_keeps_claim\<close>). \<open>codec_ok\<close> leaves the private attributes out of
  the ads that are sent, as the library does. The JSON codec is assumed to read back well-formed UTF-8 only (\<open>valid_utf8\<close>), and the ad in an exit
  marker to parse to the same attributes as the ad that was printed.

  \<^bold>\<open>What is not modelled.\<close> Logging and flag parsing; the listener and the serving of the daemon library, of which only the outcome
  is seen; the access to a file descriptor (\<^verbatim>\<open>rawConnWithFd\<close>); the transfer protocol and the
  remote syscalls, which are libraries; memory detection on systems other than Linux; mutexes around single
  accesses. The survival of claims assumes that no write to the store fails (\<open>store_lib_ok\<close>), that the process is stopped or dies when
  its writer is idle (\<open>leaves\<close>), and that no dynamic slot is destroyed while its record is on its way (\<open>tidy\<close>):
  such a record is written after it was deleted (\<open>destroyed_claim_returns\<close>).

  The advertisement that \<open>Start\<close> sends before the first input of the loop is not a step of \<open>startd_life\<close>: it changes
  no more than the counters of the ads, as the ticks, which are steps, do. The text of the exit marker is a value of the JSON
  codec, a parameter.
\<close>

end
